(* ===== verification/Prelude.thy ===== *)
theory Prelude
  imports Main "HOL-Library.Multiset" "HOL-Library.Char_ord" "HOL-Library.List_Lexorder" "HOL-Library.Product_Lexorder"
begin

text \<open>
  Shared vocabulary of the development: Go strings and their byte order, loops that stop at the
  first error, the lists of pointers in which an element may be nil, decimal printing, and the
  lemma collections the component theories use.

  A Go \<^verbatim>\<open>string\<close> is its list of bytes (\<^typ>\<open>string\<close>, one \<^typ>\<open>char\<close> a byte), and
  \<^verbatim>\<open>cmp.Compare\<close> on strings is the lexicographic order on bytes, which is the order the imported
  library theories put on \<^typ>\<open>string\<close>. \<^verbatim>\<open>slices.SortStableFunc\<close> with a comparison of the
  form \<^verbatim>\<open>cmp.Or(cmp.Compare(a.K1, b.K1), ...)\<close> is \<^const>\<open>sort_key\<close> on the tuple of the keys.
\<close>

named_theorems go_frame
  \<open>what an operation leaves alone: fields, traces and files it does not touch\<close>
named_theorems go_results
  \<open>rules that invert a successful result of a fallible operation\<close>

section \<open>Fallible results and loops that stop at the first error\<close>

fun isOk :: "'e + 'a \<Rightarrow> bool" where
  "isOk (Inr _) = True"
| "isOk (Inl _) = False"

definition bindR :: "'e + 'a \<Rightarrow> ('a \<Rightarrow> 'e + 'b) \<Rightarrow> 'e + 'b" where
  "bindR r f = (case r of Inl e \<Rightarrow> Inl e | Inr a \<Rightarrow> f a)"

lemma bindR_simps [simp]:
  "bindR (Inl e) f = Inl e" "bindR (Inr a) f = f a"
  by (simp_all add: bindR_def)

lemma bindR_Inr_iff [go_results]: "bindR r f = Inr b \<longleftrightarrow> (\<exists>a. r = Inr a \<and> f a = Inr b)"
  by (cases r) auto

lemma isOk_iff: "isOk r \<longleftrightarrow> (\<exists>a. r = Inr a)"
  by (cases r) auto

text \<open>\<open>foldR step s xs\<close> is \<^verbatim>\<open>for _, x := range xs { ...; if err != nil { return err } }\<close> over
  the accumulators \<open>s\<close>.\<close>

fun foldR :: "('s \<Rightarrow> 'a \<Rightarrow> 'e + 's) \<Rightarrow> 's \<Rightarrow> 'a list \<Rightarrow> 'e + 's" where
  "foldR step s [] = Inr s"
| "foldR step s (x # xs) = (case step s x of Inl e \<Rightarrow> Inl e | Inr s' \<Rightarrow> foldR step s' xs)"

lemma foldR_append:
  "foldR step s (xs @ ys) = bindR (foldR step s xs) (\<lambda>s'. foldR step s' ys)"
  by (induction xs arbitrary: s) (auto split: sum.splits)

lemma foldR_invariant:
  assumes "foldR step s xs = Inr s'" and "P s"
    and "\<And>t x t'. x \<in> set xs \<Longrightarrow> P t \<Longrightarrow> step t x = Inr t' \<Longrightarrow> P t'"
  shows "P s'"
  using assms
proof (induction xs arbitrary: s)
  case (Cons x xs)
  then obtain t where t: "step s x = Inr t" and rest: "foldR step t xs = Inr s'"
    by (auto split: sum.splits)
  have "P t" using Cons.prems(2) t by (rule Cons.prems(3) [rotated]) simp
  with rest show ?case using Cons.prems(3) by (intro Cons.IH [OF rest]) auto
qed simp

text \<open>\<open>mapR f xs\<close> collects the results of \<open>f\<close>, or the first error.\<close>

fun mapR :: "('a \<Rightarrow> 'e + 'b) \<Rightarrow> 'a list \<Rightarrow> 'e + 'b list" where
  "mapR f [] = Inr []"
| "mapR f (x # xs) = (case f x of Inl e \<Rightarrow> Inl e
     | Inr y \<Rightarrow> (case mapR f xs of Inl e \<Rightarrow> Inl e | Inr ys \<Rightarrow> Inr (y # ys)))"

lemma mapR_Inr_iff [go_results]:
  "mapR f xs = Inr ys \<longleftrightarrow> list_all2 (\<lambda>x y. f x = Inr y) xs ys"
proof (induction xs arbitrary: ys)
  case Nil
  show ?case by auto
next
  case (Cons x xs)
  show ?case
    by (cases "f x"; cases "mapR f xs") (auto simp: list_all2_Cons1 Cons.IH [symmetric])
qed

lemma mapR_all_ok: "(\<And>x. x \<in> set xs \<Longrightarrow> f x = Inr (g x)) \<Longrightarrow> mapR f xs = Inr (map g xs)"
  by (induction xs) auto

section \<open>Slices of pointers\<close>

text \<open>A slice of pointers may hold nil elements: \<open>'a option list\<close>. \<open>present\<close> is the
  sub-sequence a loop that skips nil elements visits.\<close>

definition present :: "'a option list \<Rightarrow> 'a list" where
  "present xs = List.map_filter id xs"

lemma present_simps [simp]:
  "present [] = []" "present (None # xs) = present xs" "present (Some x # xs) = x # present xs"
  by (simp_all add: present_def List.map_filter_def)

lemma present_append [simp]: "present (xs @ ys) = present xs @ present ys"
  by (simp add: present_def List.map_filter_def)

lemma present_map_Some [simp]: "present (map Some xs) = xs"
  by (induction xs) auto

lemma present_map_Some_comp [simp]: "present (map (\<lambda>x. Some (f x)) xs) = map f xs"
  by (induction xs) auto

lemma insort_key_map: "insort_key k (f x) (map f xs) = map f (insort_key (\<lambda>x. k (f x)) x xs)"
  by (induction xs) simp_all

lemma sort_key_map: "sort_key k (map f xs) = map f (sort_key (\<lambda>x. k (f x)) xs)"
  by (induction xs) (simp_all add: insort_key_map)

lemma set_present [simp]: "set (present xs) = {x. Some x \<in> set xs}"
proof (induction xs)
  case (Cons x xs)
  then show ?case by (cases x) auto
qed simp

lemma present_Nil_iff: "present xs = [] \<longleftrightarrow> (\<forall>x. Some x \<notin> set xs)"
proof (induction xs)
  case (Cons x xs)
  then show ?case by (cases x) auto
qed simp

lemma find_Some_in: "find P xs = Some x \<Longrightarrow> x \<in> set xs \<and> P x"
  by (auto simp: find_Some_iff)

lemma find_cong_pred: "(\<And>x. x \<in> set xs \<Longrightarrow> P x = Q x) \<Longrightarrow> find P xs = find Q xs"
  by (induction xs) auto

lemma list_all2_left: "list_all2 P xs ys \<Longrightarrow> x \<in> set xs \<Longrightarrow> \<exists>y \<in> set ys. P x y"
  by (induction rule: list_all2_induct) auto

lemma list_all2_right: "list_all2 P xs ys \<Longrightarrow> y \<in> set ys \<Longrightarrow> \<exists>x \<in> set xs. P x y"
  by (induction rule: list_all2_induct) auto

section \<open>First claims and duplicates\<close>

text \<open>
  Several loops of the program keep a table of the keys they have seen and refuse an item whose
  key is already claimed (plans, bundle files, rule uids, contact points). They share this
  contract: an item that passes its own checks and whose key is free is accepted and claims its
  key; any other item is an error. The loop then succeeds exactly when every item passes its
  checks and the claimed keys are pairwise different.
\<close>

locale claim_registry =
  fixes step :: "'s \<Rightarrow> 'a \<Rightarrow> 'e + 's"
    and claimed :: "'s \<Rightarrow> 'k set"
    and key :: "'a \<Rightarrow> 'k option"
    and ok :: "'a \<Rightarrow> bool"
  assumes accept: "ok x \<Longrightarrow> set_option (key x) \<inter> claimed s = {} \<Longrightarrow>
      \<exists>s'. step s x = Inr s' \<and> claimed s' = claimed s \<union> set_option (key x)"
    and refuse_bad: "\<not> ok x \<Longrightarrow> \<exists>e. step s x = Inl e"
    and refuse_claimed: "key x = Some k \<Longrightarrow> k \<in> claimed s \<Longrightarrow> \<exists>e. step s x = Inl e"
begin

lemma step_ok_iff:
  "isOk (step s x) \<longleftrightarrow> ok x \<and> set_option (key x) \<inter> claimed s = {}"
proof
  assume h: "isOk (step s x)"
  then obtain s' where s': "step s x = Inr s'" by (auto simp: isOk_iff)
  have "ok x" using refuse_bad [of x s] s' by fastforce
  moreover have "set_option (key x) \<inter> claimed s = {}"
    using refuse_claimed [of x _ s] s' by (cases "key x") fastforce+
  ultimately show "ok x \<and> set_option (key x) \<inter> claimed s = {}" ..
next
  assume "ok x \<and> set_option (key x) \<inter> claimed s = {}"
  then show "isOk (step s x)" using accept [of x s] by (auto simp: isOk_iff)
qed

lemma step_claims:
  "step s x = Inr s' \<Longrightarrow> claimed s' = claimed s \<union> set_option (key x)"
  using step_ok_iff [of s x] accept [of x s] by (auto simp: isOk_iff)

lemma run_claims:
  "foldR step s xs = Inr s' \<Longrightarrow> claimed s' = claimed s \<union> set (List.map_filter key xs)"
proof (induction xs arbitrary: s)
  case (Cons x xs)
  then obtain t where "step s x = Inr t" and "foldR step t xs = Inr s'"
    by (auto split: sum.splits)
  with Cons.IH [of t] step_claims [of s x t] show ?case
    by (cases "key x") (auto simp: List.map_filter_simps)
qed (simp add: List.map_filter_simps)

lemma run_ok_iff:
  "isOk (foldR step s xs) \<longleftrightarrow>
     (\<forall>x \<in> set xs. ok x) \<and> distinct (List.map_filter key xs)
     \<and> set (List.map_filter key xs) \<inter> claimed s = {}"
proof (induction xs arbitrary: s)
  case Nil
  show ?case by (simp add: List.map_filter_simps)
next
  case (Cons x xs)
  show ?case
  proof (cases "step s x")
    case (Inl e)
    then have no: "\<not> (ok x \<and> set_option (key x) \<inter> claimed s = {})"
      using step_ok_iff [of s x] by simp
    with Inl show ?thesis by (cases "key x") (auto simp: List.map_filter_simps)
  next
    case (Inr t)
    then have yes: "ok x \<and> set_option (key x) \<inter> claimed s = {}"
      using step_ok_iff [of s x] by simp
    have cl: "claimed t = claimed s \<union> set_option (key x)" using Inr by (rule step_claims)
    show ?thesis using Inr yes Cons.IH [of t] cl
      by (cases "key x") (auto simp: List.map_filter_simps)
  qed
qed

end

section \<open>Decimal numbers in messages\<close>

definition digit_char :: "nat \<Rightarrow> char" where
  "digit_char d = char_of (48 + d)"

function show_nat :: "nat \<Rightarrow> string" where
  "show_nat n = (if n < 10 then [digit_char n] else show_nat (n div 10) @ [digit_char (n mod 10)])"
  by pat_completeness auto
termination
  by (relation "measure id") auto

declare show_nat.simps [simp del]

definition show_int :: "int \<Rightarrow> string" where
  "show_int i = (if i < 0 then ''-'' @ show_nat (nat (- i)) else show_nat (nat i))"

text \<open>Reading decimal digits back (\<^verbatim>\<open>strconv.Atoi\<close> on a digit string).\<close>

definition is_digit_char :: "char \<Rightarrow> bool" where
  "is_digit_char c \<longleftrightarrow> 48 \<le> (of_char c :: nat) \<and> (of_char c :: nat) \<le> 57"

definition digit_val :: "char \<Rightarrow> nat" where
  "digit_val c = of_char c - 48"

definition digits_val :: "string \<Rightarrow> nat" where
  "digits_val cs = foldl (\<lambda>n c. 10 * n + digit_val c) 0 cs"

lemma digits_val_append: "digits_val (cs @ [c]) = 10 * digits_val cs + digit_val c"
  by (simp add: digits_val_def)

lemma of_char_digit [simp]: "d < 10 \<Longrightarrow> (of_char (digit_char d) :: nat) = 48 + d"
  by (simp add: digit_char_def)

lemma digit_val_digit_char [simp]: "d < 10 \<Longrightarrow> digit_val (digit_char d) = d"
  by (simp add: digit_val_def)

lemma is_digit_digit_char [simp]: "d < 10 \<Longrightarrow> is_digit_char (digit_char d)"
  by (simp add: is_digit_char_def)

lemma show_nat_digits: "list_all is_digit_char (show_nat n)"
proof (induction n rule: show_nat.induct)
  case (1 n)
  then show ?case by (subst show_nat.simps) auto
qed

lemma show_nat_nonempty: "show_nat n \<noteq> []"
  by (subst show_nat.simps) simp

lemma digits_val_show_nat [simp]: "digits_val (show_nat n) = n"
proof (induction n rule: show_nat.induct)
  case (1 n)
  then show ?case
    by (subst show_nat.simps)
       (auto simp: digits_val_append, simp add: digits_val_def)
qed

lemma show_nat_inject [simp]: "show_nat m = show_nat n \<longleftrightarrow> m = n"
  by (metis digits_val_show_nat)

end
