(* ===== verification/Json_Values.thy ===== *)
theory Json_Values
  imports Prelude "HOL-Library.Log_Nat"
begin

text \<open>
  The generic values a model is projected onto before it is written or compared
  (\<^verbatim>\<open>internal/alerts/files.go\<close>, \<^verbatim>\<open>internal/alerts/diff.go\<close>): Go's \<^verbatim>\<open>any\<close> as the JSON
  decoder fills it, the number normalisation, the read-only key strippers, the removal of empty
  values, deep equality and equality up to redaction.

  A Go map \<^verbatim>\<open>map[string]any\<close> is an association list with distinct keys (\<open>wf_json\<close>); the
  order of the entries carries no information, and \<open>deep_equal\<close> compares maps by key, as
  \<^verbatim>\<open>reflect.DeepEqual\<close> does. \<open>JNum\<close> is a \<^verbatim>\<open>json.Number\<close>, a literal not yet typed.
\<close>

section \<open>Values\<close>

datatype float64 = Float64 bool nat int \<comment> \<open>sign, mantissa, binary exponent\<close>

datatype json =
    JNull
  | JBool bool
  | JNum string
  | JInt int
  | JFloat float64
  | JStr string
  | JArr "json list"
  | JObj "(string \<times> json) list"

lemma size_json_field [termination_simp]:
  "(k, v) \<in> set kvs \<Longrightarrow> size v < Suc (size_list (size_prod (\<lambda>_. 0) size) kvs)"
proof -
  assume "(k, v) \<in> set kvs"
  then have "size_prod (\<lambda>_. 0) size (k, v) \<le> size_list (size_prod (\<lambda>_. 0) size) kvs"
    by (rule size_list_estimation') simp
  then show ?thesis by simp
qed

lemma size_json_zip [termination_simp]:
  "(x, y) \<in> set (zip xs ys) \<Longrightarrow> size x < Suc (size_list size xs)"
proof -
  assume "(x, y) \<in> set (zip xs ys)"
  then have "x \<in> set xs" by (rule set_zip_leftD)
  then have "size x \<le> size_list size xs" by (rule size_list_estimation') simp
  then show ?thesis by simp
qed

lemma size_json_enumerate [termination_simp]:
  "(i, x) \<in> set (enumerate n xs) \<Longrightarrow> size x < Suc (size_list size xs)"
proof -
  assume "(i, x) \<in> set (enumerate n xs)"
  then have "x \<in> set xs" by (metis enumerate_eq_zip set_zip_rightD)
  then have "size x \<le> size_list size xs" by (rule size_list_estimation') simp
  then show ?thesis by simp
qed

text \<open>Every map of the value has distinct keys.\<close>

fun wf_json :: "json \<Rightarrow> bool" where
  "wf_json (JObj kvs) \<longleftrightarrow> distinct (map fst kvs) \<and> list_all (\<lambda>(k, v). wf_json v) kvs"
| "wf_json (JArr xs) \<longleftrightarrow> list_all wf_json xs"
| "wf_json _ \<longleftrightarrow> True"

lemma wf_json_map_of: "wf_json (JObj kvs) \<Longrightarrow> map_of kvs k = Some v \<Longrightarrow> wf_json v"
  by (force simp: list_all_iff dest: map_of_SomeD)

section \<open>Typing numbers\<close>

text \<open>\<^verbatim>\<open>json.Number.Int64\<close>: a decimal literal in the range of \<^verbatim>\<open>int64\<close>.\<close>

definition split_sign :: "string \<Rightarrow> bool \<times> string" where
  "split_sign s = (case s of [] \<Rightarrow> (False, [])
     | c # r \<Rightarrow> if c = CHR ''-'' then (True, r) else if c = CHR ''+'' then (False, r) else (False, s))"

definition parse_int64 :: "string \<Rightarrow> int option" where
  "parse_int64 s = (case split_sign s of (neg, ds) \<Rightarrow>
     if ds = [] \<or> \<not> list_all is_digit_char ds then None
     else let v = (if neg then - int (digits_val ds) else int (digits_val ds))
          in if - (2 ^ 63) \<le> v \<and> v < 2 ^ 63 then Some v else None)"

text \<open>\<^verbatim>\<open>json.Number.Float64\<close> on a JSON number literal: the decimal value is rounded to the
  nearest double, ties to even; a value past the largest double is a range error. A zero is one
  value whatever its sign, as Go's \<^verbatim>\<open>==\<close> has it.\<close>

definition parse_decimal :: "string \<Rightarrow> (bool \<times> nat \<times> int) option" where
  "parse_decimal s =
     (case split_sign s of (neg, s1) \<Rightarrow>
      let ip = takeWhile is_digit_char s1; s2 = dropWhile is_digit_char s1;
          fp = (case s2 of [] \<Rightarrow> [] | c # r \<Rightarrow> if c = CHR ''.'' then takeWhile is_digit_char r else []);
          s3 = (case s2 of [] \<Rightarrow> [] | c # r \<Rightarrow> if c = CHR ''.'' then dropWhile is_digit_char r else s2);
          n = digits_val (ip @ fp); e = - int (length fp)
      in if ip @ fp = [] then None
         else case s3 of [] \<Rightarrow> Some (neg, n, e)
           | c # r \<Rightarrow>
              if c \<noteq> CHR ''e'' \<and> c \<noteq> CHR ''E'' then None
              else case split_sign r of (eneg, ds) \<Rightarrow>
                if ds = [] \<or> \<not> list_all is_digit_char ds then None
                else Some (neg, n, e + (if eneg then - int (digits_val ds) else int (digits_val ds))))"

definition round_half_even :: "nat \<Rightarrow> nat \<Rightarrow> nat" where
  "round_half_even num den =
     (let q = num div den; r = num mod den
      in if 2 * r < den \<or> (2 * r = den \<and> even q) then q else q + 1)"

definition scaled :: "nat \<Rightarrow> nat \<Rightarrow> int \<Rightarrow> nat \<times> nat" where
  "scaled num den k = (if 0 \<le> k then (num, den * 2 ^ nat k) else (num * 2 ^ nat (- k), den))"

definition round_float64 :: "bool \<Rightarrow> nat \<Rightarrow> int \<Rightarrow> float64 option" where
  "round_float64 neg n e =
     (if n = 0 then Some (Float64 False 0 0)
      else let num = (if 0 \<le> e then n * 10 ^ nat e else n);
               den = (if 0 \<le> e then 1 else 10 ^ nat (- e));
               k0 = int (floorlog 2 num) - int (floorlog 2 den) - 53;
               k1 = (case scaled num den k0 of (a, b) \<Rightarrow> if a div b \<ge> 2 ^ 53 then k0 + 1 else k0);
               k2 = max k1 (- 1074);
               m0 = (case scaled num den k2 of (a, b) \<Rightarrow> round_half_even a b);
               m = (if m0 = 2 ^ 53 then 2 ^ 52 else m0);
               k = (if m0 = 2 ^ 53 then k2 + 1 else k2)
           in if k > 971 then None
              else if m = 0 then Some (Float64 False 0 0)
              else Some (Float64 neg m k))"

definition parse_float64 :: "string \<Rightarrow> float64 option" where
  "parse_float64 s = (case parse_decimal s of None \<Rightarrow> None | Some (neg, n, e) \<Rightarrow> round_float64 neg n e)"

fun normalizeNumbers :: "json \<Rightarrow> json" where
  "normalizeNumbers (JObj kvs) = JObj (map (\<lambda>(k, v). (k, normalizeNumbers v)) kvs)"
| "normalizeNumbers (JArr xs) = JArr (map normalizeNumbers xs)"
| "normalizeNumbers (JNum s) =
     (case parse_int64 s of Some i \<Rightarrow> JInt i
      | None \<Rightarrow> (case parse_float64 s of Some f \<Rightarrow> JFloat f | None \<Rightarrow> JStr s))"
| "normalizeNumbers v = v"

section \<open>The read-only keys\<close>

definition idKey :: string where "idKey = ''id''"
definition updatedKey :: string where "updatedKey = ''updated''"
definition provenanceKey :: string where "provenanceKey = ''provenance''"
definition rulesKey :: string where "rulesKey = ''rules''"
definition routesKey :: string where "routesKey = ''routes''"

fun json_delete :: "string \<Rightarrow> json \<Rightarrow> json" where
  "json_delete k (JObj kvs) = JObj (filter (\<lambda>(k', v). k' \<noteq> k) kvs)"
| "json_delete k v = v"

definition stripContactPointFields :: "json \<Rightarrow> json" where
  "stripContactPointFields value = json_delete provenanceKey value"

fun stripContactPointListFields :: "json \<Rightarrow> json" where
  "stripContactPointListFields (JArr points) = JArr (map stripContactPointFields points)"
| "stripContactPointListFields value = value"

definition stripRuleFields :: "json \<Rightarrow> json" where
  "stripRuleFields value = json_delete provenanceKey (json_delete updatedKey (json_delete idKey value))"

fun stripGroupFields :: "json \<Rightarrow> json" where
  "stripGroupFields (JObj kvs) =
     JObj (map (\<lambda>(k, v). (k, if k = rulesKey
        then (case v of JArr rules \<Rightarrow> JArr (map stripRuleFields rules) | _ \<Rightarrow> v) else v)) kvs)"
| "stripGroupFields value = value"

fun stripRouteFields :: "json \<Rightarrow> json" and stripRouteEntry :: "string \<Rightarrow> json \<Rightarrow> json" where
  "stripRouteFields (JObj kvs) =
     JObj (map (\<lambda>(k, v). (k, stripRouteEntry k v)) (filter (\<lambda>(k, v). k \<noteq> provenanceKey) kvs))"
| "stripRouteFields value = value"
| "stripRouteEntry k (JArr children) =
     (if k = routesKey then JArr (map stripRouteFields children) else JArr children)"
| "stripRouteEntry k value = value"

section \<open>Empty values\<close>

fun isEmptyValue :: "json \<Rightarrow> bool" where
  "isEmptyValue JNull \<longleftrightarrow> True"
| "isEmptyValue (JObj kvs) \<longleftrightarrow> kvs = []"
| "isEmptyValue (JArr xs) \<longleftrightarrow> xs = []"
| "isEmptyValue _ \<longleftrightarrow> False"

fun dropEmptyValues :: "json \<Rightarrow> json" where
  "dropEmptyValues (JObj kvs) =
     JObj (filter (\<lambda>(k, item). \<not> isEmptyValue item) (map (\<lambda>(k, item). (k, dropEmptyValues item)) kvs))"
| "dropEmptyValues (JArr xs) = JArr (map dropEmptyValues xs)"
| "dropEmptyValues value = value"

section \<open>Equality\<close>

text \<open>\<^verbatim>\<open>reflect.DeepEqual\<close> on decoded values.\<close>

fun deep_equal :: "json \<Rightarrow> json \<Rightarrow> bool" where
  "deep_equal (JObj a) (JObj b) \<longleftrightarrow> length a = length b \<and>
     list_all (\<lambda>(k, v). case map_of b k of Some w \<Rightarrow> deep_equal v w | None \<Rightarrow> False) a"
| "deep_equal (JArr a) (JArr b) \<longleftrightarrow> length a = length b \<and>
     list_all (\<lambda>(x, y). deep_equal x y) (zip a b)"
| "deep_equal JNull w \<longleftrightarrow> w = JNull"
| "deep_equal (JBool b) w \<longleftrightarrow> w = JBool b"
| "deep_equal (JNum s) w \<longleftrightarrow> w = JNum s"
| "deep_equal (JInt i) w \<longleftrightarrow> w = JInt i"
| "deep_equal (JFloat f) w \<longleftrightarrow> w = JFloat f"
| "deep_equal (JStr s) w \<longleftrightarrow> w = JStr s"
| "deep_equal _ _ \<longleftrightarrow> False"

definition redactedValue :: string where "redactedValue = ''[REDACTED]''"

text \<open>\<^verbatim>\<open>equalRedacted\<close>, with \<^verbatim>\<open>equalRedactedMap\<close> and \<^verbatim>\<open>equalRedactedSlice\<close>: a local marker
  equals whatever stands at the same place remotely.\<close>

fun equalRedacted :: "json \<Rightarrow> json \<Rightarrow> bool" where
  "equalRedacted (JStr s) remote \<longleftrightarrow> s = redactedValue \<or> deep_equal (JStr s) remote"
| "equalRedacted (JObj a) remote \<longleftrightarrow>
     (case remote of
        JObj b \<Rightarrow> length b = length a \<and>
          list_all (\<lambda>(k, v). case map_of b k of Some w \<Rightarrow> equalRedacted v w | None \<Rightarrow> False) a
      | _ \<Rightarrow> False)"
| "equalRedacted (JArr a) remote \<longleftrightarrow>
     (case remote of
        JArr b \<Rightarrow> length b = length a \<and> list_all (\<lambda>(x, y). equalRedacted x y) (zip a b)
      | _ \<Rightarrow> False)"
| "equalRedacted local remote \<longleftrightarrow> deep_equal local remote"

section \<open>Redacted leaves\<close>

text \<open>\<^verbatim>\<open>collectRedacted\<close>: the dotted path of every marker (the callers sort the result, so the
  order in which Go visits a map does not matter).\<close>

definition child_path :: "string \<Rightarrow> string \<Rightarrow> string" where
  "child_path path key = (if path = [] then key else path @ ''.'' @ key)"

definition index_path :: "string \<Rightarrow> nat \<Rightarrow> string" where
  "index_path path i = path @ ''['' @ show_nat i @ '']''"

fun collectRedacted :: "json \<Rightarrow> string \<Rightarrow> string list" where
  "collectRedacted (JObj kvs) path =
     concat (map (\<lambda>(k, v). collectRedacted v (child_path path k)) kvs)"
| "collectRedacted (JArr xs) path =
     concat (map (\<lambda>(i, x). collectRedacted x (index_path path i)) (enumerate 0 xs))"
| "collectRedacted (JStr s) path = (if s = redactedValue \<and> path \<noteq> [] then [path] else [])"
| "collectRedacted _ path = []"

section \<open>Well-formedness is kept\<close>

lemma fst_apsnd [simp]: "fst \<circ> (\<lambda>(k, v). (k, f k v)) = fst"
  by auto

lemma distinct_fst_filter: "distinct (map fst kvs) \<Longrightarrow> distinct (map fst (filter P kvs))"
  by (induction kvs) auto

lemma wf_json_fields:
  assumes "wf_json (JObj kvs)" and "\<And>k v. (k, v) \<in> set kvs \<Longrightarrow> wf_json v \<Longrightarrow> wf_json (f k v)"
  shows "wf_json (JObj (map (\<lambda>(k, v). (k, f k v)) kvs))"
  using assms by (auto simp: list_all_iff)

lemma wf_json_filter: "wf_json (JObj kvs) \<Longrightarrow> wf_json (JObj (filter P kvs))"
  by (auto simp: list_all_iff distinct_fst_filter)

lemma wf_json_normalizeNumbers [intro]: "wf_json v \<Longrightarrow> wf_json (normalizeNumbers v)"
proof (induction v rule: normalizeNumbers.induct)
  case (1 kvs)
  then show ?case unfolding normalizeNumbers.simps by (intro wf_json_fields) auto
qed (auto simp: list_all_iff split: option.splits)

lemma wf_json_delete [intro]: "wf_json v \<Longrightarrow> wf_json (json_delete k v)"
  by (cases v) (auto simp: list_all_iff distinct_fst_filter)

lemma wf_json_stripRuleFields [intro]: "wf_json v \<Longrightarrow> wf_json (stripRuleFields v)"
  by (auto simp: stripRuleFields_def)

lemma wf_json_stripContactPointFields [intro]: "wf_json v \<Longrightarrow> wf_json (stripContactPointFields v)"
  by (auto simp: stripContactPointFields_def)

lemma wf_json_stripGroupFields [intro]: "wf_json v \<Longrightarrow> wf_json (stripGroupFields v)"
proof (cases v rule: stripGroupFields.cases)
  case (1 kvs)
  have "wf_json w \<Longrightarrow> wf_json (case w of JArr rules \<Rightarrow> JArr (map stripRuleFields rules) | _ \<Rightarrow> w)" for w
    by (cases w) (auto simp: list_all_iff)
  moreover assume "wf_json v"
  ultimately show ?thesis unfolding 1 stripGroupFields.simps by (intro wf_json_fields) auto
qed auto

lemma wf_json_stripRoute:
  "wf_json v \<Longrightarrow> wf_json (stripRouteFields v)"
  "wf_json v \<Longrightarrow> wf_json (stripRouteEntry k v)"
proof (induction v and k v rule: stripRouteFields_stripRouteEntry.induct)
  case (1 kvs)
  have "wf_json (JObj (filter (\<lambda>(k, v). k \<noteq> provenanceKey) kvs))"
    using "1.prems" by (rule wf_json_filter)
  then show ?case using "1.IH" unfolding stripRouteFields.simps by (intro wf_json_fields) auto
qed (auto simp: list_all_iff)

lemmas wf_json_stripRouteFields [intro] = wf_json_stripRoute(1)

lemma wf_json_dropEmptyValues [intro]: "wf_json v \<Longrightarrow> wf_json (dropEmptyValues v)"
proof (induction v rule: dropEmptyValues.induct)
  case (1 kvs)
  have "wf_json (JObj (map (\<lambda>(k, item). (k, dropEmptyValues item)) kvs))"
    using 1 by (intro wf_json_fields) auto
  then show ?case unfolding dropEmptyValues.simps by (rule wf_json_filter)
qed (auto simp: list_all_iff)

section \<open>Removing empty values\<close>

lemma dropEmptyValues_idem: "dropEmptyValues (dropEmptyValues v) = dropEmptyValues v"
proof (induction v rule: dropEmptyValues.induct)
  case (1 kvs)
  have "map (\<lambda>(k, item). (k, dropEmptyValues item))
          (filter (\<lambda>(k, item). \<not> isEmptyValue item) (map (\<lambda>(k, item). (k, dropEmptyValues item)) kvs))
      = filter (\<lambda>(k, item). \<not> isEmptyValue item) (map (\<lambda>(k, item). (k, dropEmptyValues item)) kvs)"
    using 1 by (intro map_idI) auto
  then show ?case by simp
qed auto

text \<open>No map of the result holds an empty value, at any depth.\<close>

fun no_empty_fields :: "json \<Rightarrow> bool" where
  "no_empty_fields (JObj kvs) \<longleftrightarrow> list_all (\<lambda>(k, v). \<not> isEmptyValue v \<and> no_empty_fields v) kvs"
| "no_empty_fields (JArr xs) \<longleftrightarrow> list_all no_empty_fields xs"
| "no_empty_fields _ \<longleftrightarrow> True"

lemma no_empty_fields_drop: "no_empty_fields (dropEmptyValues v)"
  by (induction v rule: dropEmptyValues.induct) (auto simp: list_all_iff)

section \<open>Deep equality is equality of the values as maps\<close>

text \<open>The canonical form sorts every map by key. On well-formed values deep equality is equality
  of canonical forms, hence an equivalence.\<close>

fun canon :: "json \<Rightarrow> json" where
  "canon (JObj kvs) = JObj (sort_key fst (map (\<lambda>(k, v). (k, canon v)) kvs))"
| "canon (JArr xs) = JArr (map canon xs)"
| "canon v = v"

lemma wf_json_objD:
  "wf_json (JObj kvs) \<Longrightarrow> distinct (map fst kvs)"
  "wf_json (JObj kvs) \<Longrightarrow> (k, v) \<in> set kvs \<Longrightarrow> wf_json v"
  by (auto simp: list_all_iff)

lemma map_of_apsnd: "map_of (map (\<lambda>(k, v). (k, f v)) kvs) k = map_option f (map_of kvs k)"
  by (induction kvs) auto

lemma sort_key_fst_eq_iff:
  fixes xs ys :: "('k::linorder \<times> 'v) list"
  assumes "distinct (map fst xs)" and "distinct (map fst ys)"
  shows "sort_key fst xs = sort_key fst ys \<longleftrightarrow> set xs = set ys"
proof
  assume "sort_key fst xs = sort_key fst ys"
  then show "set xs = set ys" by (metis set_sort)
next
  assume eq: "set xs = set ys"
  show "sort_key fst xs = sort_key fst ys"
  proof (rule map_sorted_distinct_set_unique)
    show "inj_on fst (set (sort_key fst xs) \<union> set (sort_key fst ys))"
      using assms eq by (simp add: distinct_map)
    show "distinct (map fst (sort_key fst xs))" using assms(1) by (simp add: distinct_map)
    show "distinct (map fst (sort_key fst ys))" using assms(2) by (simp add: distinct_map)
  qed (use eq in simp_all)
qed

lemma set_eq_iff_lookup:
  assumes "distinct (map fst xs)" and "distinct (map fst ys)"
  shows "set xs = set ys \<longleftrightarrow> length xs = length ys \<and> (\<forall>(k, v) \<in> set xs. map_of ys k = Some v)"
proof
  assume eq: "set xs = set ys"
  have "length xs = length ys"
    using assms eq by (metis distinct_card distinct_map)
  then show "length xs = length ys \<and> (\<forall>(k, v) \<in> set xs. map_of ys k = Some v)"
    using eq assms(2) by auto
next
  assume r: "length xs = length ys \<and> (\<forall>(k, v) \<in> set xs. map_of ys k = Some v)"
  then have sub: "set xs \<subseteq> set ys" by (auto dest: map_of_SomeD)
  have "card (set xs) = card (set ys)"
    using assms r by (metis distinct_card distinct_map)
  with sub show "set xs = set ys" by (simp add: card_subset_eq)
qed

lemma canon_obj_eq_iff:
  assumes "wf_json (JObj a)" and "wf_json (JObj b)"
  shows "canon (JObj a) = canon (JObj b) \<longleftrightarrow>
     length a = length b \<and> (\<forall>(k, v) \<in> set a. \<exists>w. map_of b k = Some w \<and> canon v = canon w)"
proof -
  let ?c = "map (\<lambda>(k, v). (k, canon v))"
  have da: "distinct (map fst (?c a))" and db: "distinct (map fst (?c b))"
    using assms by simp_all
  have "canon (JObj a) = canon (JObj b) \<longleftrightarrow> set (?c a) = set (?c b)"
    using sort_key_fst_eq_iff [OF da db] by simp
  also have "\<dots> \<longleftrightarrow> length a = length b \<and> (\<forall>(k, v) \<in> set (?c a). map_of (?c b) k = Some v)"
    using set_eq_iff_lookup [OF da db] by simp
  also have "(\<forall>(k, v) \<in> set (?c a). map_of (?c b) k = Some v) \<longleftrightarrow>
      (\<forall>(k, v) \<in> set a. \<exists>w. map_of b k = Some w \<and> canon v = canon w)"
    by (fastforce simp: map_of_apsnd)
  finally show ?thesis .
qed

lemma canon_not_obj: "canon w = JObj c \<Longrightarrow> \<exists>b. w = JObj b"
  and canon_not_arr: "canon w = JArr d \<Longrightarrow> \<exists>b. w = JArr b"
  and canon_scalar: "canon w = JNull \<longleftrightarrow> w = JNull" "canon w = JBool b \<longleftrightarrow> w = JBool b"
    "canon w = JNum s \<longleftrightarrow> w = JNum s" "canon w = JInt i \<longleftrightarrow> w = JInt i"
    "canon w = JFloat f \<longleftrightarrow> w = JFloat f" "canon w = JStr s \<longleftrightarrow> w = JStr s"
  by (cases w; simp)+

lemma map_eq_iff_zip:
  "map f xs = map f ys \<longleftrightarrow> length xs = length ys \<and> (\<forall>(x, y) \<in> set (zip xs ys). f x = f y)"
  by (induction xs ys rule: list_induct2') auto

lemma deep_equal_iff_canon:
  "wf_json a \<Longrightarrow> wf_json b \<Longrightarrow> deep_equal a b \<longleftrightarrow> canon a = canon b"
proof (induction a b rule: deep_equal.induct)
  case (1 a b)
  have IH: "deep_equal v w \<longleftrightarrow> canon v = canon w"
    if "(k, v) \<in> set a" and "map_of b k = Some w" for k v w
    using "1.IH" [OF that(1) refl that(2)] that wf_json_objD(2) [OF "1.prems"(1) that(1)]
      wf_json_objD(2) [OF "1.prems"(2) map_of_SomeD [OF that(2)]] by auto
  show ?case
    unfolding canon_obj_eq_iff [OF "1.prems"]
    by (auto simp: list_all_iff IH split: option.splits)
next
  case (2 a b)
  have "deep_equal x y \<longleftrightarrow> canon x = canon y" if "(x, y) \<in> set (zip a b)" for x y
    using "2.IH" [OF that refl] "2.prems" that
    by (auto simp: list_all_iff dest: set_zip_leftD set_zip_rightD)
  then show ?case by (auto simp: list_all_iff map_eq_iff_zip)
qed (auto simp: canon_scalar dest: canon_not_obj canon_not_arr sym)

lemma deep_equal_refl: "wf_json v \<Longrightarrow> deep_equal v v"
  by (simp add: deep_equal_iff_canon)

lemma deep_equal_sym: "wf_json a \<Longrightarrow> wf_json b \<Longrightarrow> deep_equal a b \<Longrightarrow> deep_equal b a"
  by (simp add: deep_equal_iff_canon)

lemma deep_equal_trans:
  "wf_json a \<Longrightarrow> wf_json b \<Longrightarrow> wf_json c \<Longrightarrow> deep_equal a b \<Longrightarrow> deep_equal b c \<Longrightarrow> deep_equal a c"
  by (simp add: deep_equal_iff_canon)

section \<open>Equality up to redaction\<close>

text \<open>What Grafana does with a write body that carries markers: the marker keeps the value stored
  at its place, everything else is replaced by the body's own value.\<close>

fun restoreRedacted :: "json \<Rightarrow> json \<Rightarrow> json" where
  "restoreRedacted (JStr s) stored = (if s = redactedValue then stored else JStr s)"
| "restoreRedacted (JObj a) (JObj b) =
     JObj (map (\<lambda>(k, v). (k, case map_of b k of Some w \<Rightarrow> restoreRedacted v w | None \<Rightarrow> v)) a)"
| "restoreRedacted (JArr a) (JArr b) =
     JArr (map (\<lambda>(x, y). restoreRedacted x y) (zip a b) @ drop (length b) a)"
| "restoreRedacted local stored = local"

lemma equalRedacted_iff_restore:
  "wf_json local \<Longrightarrow> wf_json remote \<Longrightarrow>
     equalRedacted local remote \<longleftrightarrow> deep_equal (restoreRedacted local remote) remote"
proof (induction local remote rule: restoreRedacted.induct)
  case (1 s stored)
  then show ?case by (auto simp: deep_equal_refl)
next
  case (2 a b)
  have IH: "equalRedacted v w \<longleftrightarrow> deep_equal (restoreRedacted v w) w"
    if "(k, v) \<in> set a" and "map_of b k = Some w" for k v w
    using "2.IH" [OF that(1) refl that(2)] that wf_json_objD(2) [OF "2.prems"(1) that(1)]
      wf_json_objD(2) [OF "2.prems"(2) map_of_SomeD [OF that(2)]] by auto
  show ?case
    by (auto simp: list_all_iff IH split: option.splits)
next
  case (3 a b)
  have IH: "equalRedacted x y \<longleftrightarrow> deep_equal (restoreRedacted x y) y" if "(x, y) \<in> set (zip a b)" for x y
    using "3.IH" [OF that refl] "3.prems" that
    by (auto simp: list_all_iff dest: set_zip_leftD set_zip_rightD)
  show ?case
  proof (cases "length a = length b")
    case True
    then have z: "zip (map (\<lambda>(x, y). restoreRedacted x y) (zip a b)) b =
        map (\<lambda>(x, y). (restoreRedacted x y, y)) (zip a b)"
      by (induction a b rule: list_induct2) auto
    show ?thesis using True by (auto simp: z list_all_iff IH)
  qed auto
qed auto

fun has_marker :: "json \<Rightarrow> bool" where
  "has_marker (JStr s) \<longleftrightarrow> s = redactedValue"
| "has_marker (JObj kvs) \<longleftrightarrow> list_ex (\<lambda>(k, v). has_marker v) kvs"
| "has_marker (JArr xs) \<longleftrightarrow> list_ex has_marker xs"
| "has_marker _ \<longleftrightarrow> False"

lemma equalRedacted_no_marker:
  "\<not> has_marker local \<Longrightarrow> equalRedacted local remote \<longleftrightarrow> deep_equal local remote"
proof (induction local remote rule: equalRedacted.induct)
  case (2 a remote)
  show ?case
  proof (cases remote)
    case (JObj b)
    have "equalRedacted v w \<longleftrightarrow> deep_equal v w" if "(k, v) \<in> set a" and "map_of b k = Some w" for k v w
      using "2.IH" [OF JObj that(1) refl that(2)] "2.prems" that(1) by (auto simp: list_ex_iff)
    with JObj show ?thesis by (auto simp: list_all_iff split: option.splits)
  qed simp_all
next
  case (3 a remote)
  show ?case
  proof (cases remote)
    case (JArr b)
    have "equalRedacted x y \<longleftrightarrow> deep_equal x y" if "(x, y) \<in> set (zip a b)" for x y
      using "3.IH" [OF JArr that refl] "3.prems" that by (auto simp: list_ex_iff dest: set_zip_leftD)
    with JArr show ?thesis by (auto simp: list_all_iff)
  qed simp_all
qed auto

lemma equalRedacted_deep_equal: "deep_equal local remote \<Longrightarrow> equalRedacted local remote"
proof (induction local remote rule: equalRedacted.induct)
  case (2 a remote)
  then show ?case
    by (cases remote) (auto simp: list_all_iff split: option.splits)
next
  case (3 a remote)
  then show ?case by (cases remote) (auto simp: list_all_iff)
qed auto

lemma equalRedacted_refl: "wf_json v \<Longrightarrow> equalRedacted v v"
  by (simp add: deep_equal_refl equalRedacted_deep_equal)

section \<open>Numbers and markers\<close>

lemma list_all_not_sign: "list_all is_digit_char ds \<Longrightarrow> split_sign ds = (False, ds)"
  by (cases ds) (auto simp: split_sign_def is_digit_char_def)

lemma parse_int64_show_int:
  assumes "- (2 ^ 63) \<le> i" and "i < 2 ^ 63"
  shows "parse_int64 (show_int i) = Some i"
proof (cases "i < 0")
  case True
  then have "split_sign (show_int i) = (True, show_nat (nat (- i)))"
    by (simp add: show_int_def split_sign_def)
  with True assms show ?thesis
    by (simp add: parse_int64_def show_nat_digits show_nat_nonempty)
next
  case False
  then have "split_sign (show_int i) = (False, show_nat (nat i))"
    by (simp add: show_int_def list_all_not_sign show_nat_digits)
  with False assms show ?thesis
    by (simp add: parse_int64_def show_nat_digits show_nat_nonempty)
qed

fun typed_numbers :: "json \<Rightarrow> bool" where
  "typed_numbers (JObj kvs) \<longleftrightarrow> list_all (\<lambda>(k, v). typed_numbers v) kvs"
| "typed_numbers (JArr xs) \<longleftrightarrow> list_all typed_numbers xs"
| "typed_numbers (JNum s) \<longleftrightarrow> False"
| "typed_numbers _ \<longleftrightarrow> True"

lemma typed_numbers_normalize: "typed_numbers (normalizeNumbers v)"
  by (induction v rule: normalizeNumbers.induct) (auto simp: list_all_iff split: option.splits)

lemma normalize_typed: "typed_numbers v \<Longrightarrow> normalizeNumbers v = v"
proof (induction v rule: normalizeNumbers.induct)
  case (1 kvs)
  then have "map (\<lambda>(k, v). (k, normalizeNumbers v)) kvs = kvs"
    by (intro map_idI) (auto simp: list_all_iff)
  then show ?case by simp
next
  case (2 xs)
  then show ?case by (auto simp: list_all_iff intro: map_idI)
qed auto

lemma child_path_nonempty [simp]: "path \<noteq> [] \<Longrightarrow> child_path path k \<noteq> []"
  by (simp add: child_path_def)

lemma index_path_nonempty [simp]: "index_path path i \<noteq> []"
  by (simp add: index_path_def)

lemma ex_enumerate: "(\<exists>(i, x) \<in> set (enumerate n xs). P x) \<longleftrightarrow> (\<exists>x \<in> set xs. P x)"
  by (induction xs arbitrary: n) (auto split: prod.splits)

text \<open>Below the top level a marker is reported exactly when there is one.\<close>

lemma collectRedacted_empty_iff:
  "path \<noteq> [] \<Longrightarrow> collectRedacted v path = [] \<longleftrightarrow> \<not> has_marker v"
proof (induction v path rule: collectRedacted.induct)
  case (1 kvs path)
  then show ?case by (fastforce simp: list_ex_iff)
next
  case (2 xs path)
  have "collectRedacted (JArr xs) path = [] \<longleftrightarrow> \<not> (\<exists>(i, x) \<in> set (enumerate 0 xs). has_marker x)"
    using 2 by fastforce
  then show ?case by (simp only: ex_enumerate has_marker.simps list_ex_iff)
qed auto

lemma collectRedacted_top:
  assumes "\<And>k v. (k, v) \<in> set kvs \<Longrightarrow> k \<noteq> []"
  shows "collectRedacted (JObj kvs) [] = [] \<longleftrightarrow> \<not> has_marker (JObj kvs)"
proof -
  have "collectRedacted v (child_path [] k) = [] \<longleftrightarrow> \<not> has_marker v" if "(k, v) \<in> set kvs" for k v
    using assms [OF that] by (intro collectRedacted_empty_iff) (simp add: child_path_def)
  then show ?thesis by (fastforce simp: list_ex_iff)
qed

end
