(* ===== verification/Alert_Models.thy ===== *)
theory Alert_Models
  imports Json_Values
begin

text \<open>
  The objects the alerting component moves between Grafana and a directory of files, and the pure
  helpers on them: \<^verbatim>\<open>internal/alerts/provenance.go\<close> (the X-Disable-Provenance header),
  \<^verbatim>\<open>internal/alerts/body.go\<close> (write bodies), the lookups of \<^verbatim>\<open>diff.go\<close>, \<^verbatim>\<open>pull.go\<close> and
  \<^verbatim>\<open>ruleops.go\<close>, and the projection onto generic values.

  The models themselves (\<^verbatim>\<open>models.ProvisionedAlertRule\<close> and the others) are declared by the
  generated Grafana client, which is not part of the repository. The records below hold the fields
  the repository's code reads or writes, with the rest of a model as one opaque value, and the JSON
  shape of a model is a parameter (\<open>marshaller\<close>): \<^const>\<open>None\<close> is a failure of \<^verbatim>\<open>json.Marshal\<close>.
  An optional field (\<^verbatim>\<open>*string\<close>) is an option, a slice of pointers a list of options. Integers
  that are only copied and compared (\<^verbatim>\<open>int64\<close> intervals, organisation ids) are \<^typ>\<open>int\<close>.
\<close>

section \<open>Models\<close>

record rule =
  r_ID :: int
  r_UID :: string
  r_Title :: "string option"
  r_FolderUID :: "string option"
  r_RuleGroup :: "string option"
  r_OrgID :: "int option"
  r_Provenance :: string
  r_Updated :: int               \<comment> \<open>nanoseconds since Go's zero time; 0 is the zero time\<close>
  r_For :: "int option"          \<comment> \<open>a \<^verbatim>\<open>time.Duration\<close>, in nanoseconds\<close>
  r_IsPaused :: bool
  r_Record :: "json option"
  r_Condition :: "string option"
  r_Data :: "json list"
  r_ExecErrState :: "string option"
  r_NoDataState :: "string option"
  r_Labels :: "(string \<times> string) list"
  r_Annotations :: "(string \<times> string) list"
  r_Rest :: json                 \<comment> \<open>the fields no code of the repository touches\<close>

record rule_group =
  g_FolderUID :: string
  g_Title :: string
  g_Interval :: int
  g_Rules :: "rule option list"

record contact_point =
  cp_UID :: string
  cp_Name :: string
  cp_Type :: "string option"
  cp_Settings :: "json option"
  cp_Provenance :: string
  cp_Rest :: json

datatype route = Route (rt_Provenance: string) (rt_Routes: "route option list option") (rt_Rest: json)

record Bundle =
  b_Groups :: "rule_group option list"
  b_ContactPoints :: "contact_point option list"
  b_Policies :: "route option"

text \<open>A rule group is addressed by a folder UID and a title.\<close>

datatype GroupRef = GroupRef (ref_FolderUID: string) (ref_Title: string)

text \<open>\<^verbatim>\<open>compareGroupRefs\<close> is the order of the type.\<close>

instantiation GroupRef :: linorder
begin

definition less_eq_GroupRef :: "GroupRef \<Rightarrow> GroupRef \<Rightarrow> bool" where
  "less_eq_GroupRef a b \<longleftrightarrow> (ref_FolderUID a, ref_Title a) \<le> (ref_FolderUID b, ref_Title b)"

definition less_GroupRef :: "GroupRef \<Rightarrow> GroupRef \<Rightarrow> bool" where
  "less_GroupRef a b \<longleftrightarrow> (ref_FolderUID a, ref_Title a) < (ref_FolderUID b, ref_Title b)"

instance
  by standard
     (auto simp: less_eq_GroupRef_def less_GroupRef_def GroupRef.expand less_eq_prod_def less_prod_def
        GroupRef.expand)

end

definition groupRefID :: "GroupRef \<Rightarrow> string" where
  "groupRefID ref = ref_FolderUID ref @ ''/'' @ ref_Title ref"

definition groupRef :: "rule_group \<Rightarrow> GroupRef" where
  "groupRef g = GroupRef (g_FolderUID g) (g_Title g)"

definition groupID :: "rule_group \<Rightarrow> string" where
  "groupID g = groupRefID (groupRef g)"

text \<open>\<^verbatim>\<open>compareGroups\<close> orders groups by the same pair.\<close>

definition groupKey :: "rule_group option \<Rightarrow> GroupRef option" where
  "groupKey g = map_option groupRef g"

definition stringValue :: "string option \<Rightarrow> string" where
  "stringValue v = (case v of None \<Rightarrow> [] | Some s \<Rightarrow> s)"

definition ruleRef :: "rule \<Rightarrow> GroupRef" where
  "ruleRef r = GroupRef (stringValue (r_FolderUID r)) (stringValue (r_RuleGroup r))"

section \<open>Lookups\<close>

definition findRule :: "rule option list \<Rightarrow> string \<Rightarrow> rule option" where
  "findRule rules uid = (if uid = [] then None else find (\<lambda>r. r_UID r = uid) (present rules))"

definition findGroup :: "rule_group option list \<Rightarrow> string \<Rightarrow> string \<Rightarrow> rule_group option" where
  "findGroup groups folderUID title =
     find (\<lambda>g. g_FolderUID g = folderUID \<and> g_Title g = title) (present groups)"

definition remoteGroupHolding :: "rule_group option list \<Rightarrow> string \<Rightarrow> rule_group option" where
  "remoteGroupHolding groups uid = find (\<lambda>g. findRule (g_Rules g) uid \<noteq> None) (present groups)"

definition contactPointID :: "contact_point \<Rightarrow> string" where
  "contactPointID p = (if cp_UID p \<noteq> [] then cp_UID p else cp_Name p)"

fun dedupe_from :: "string list \<Rightarrow> string list \<Rightarrow> string list" where
  "dedupe_from seen [] = []"
| "dedupe_from seen (u # us) =
     (if u \<in> set seen then dedupe_from seen us else u # dedupe_from (u # seen) us)"

definition dedupeUIDs :: "string list \<Rightarrow> string list" where
  "dedupeUIDs uids = dedupe_from [] uids"

lemma findRule_Some: "findRule rules uid = Some r \<Longrightarrow> Some r \<in> set rules \<and> r_UID r = uid \<and> uid \<noteq> []"
  by (auto simp: findRule_def dest!: find_Some_in split: if_splits)

lemma findRule_None_iff:
  "findRule rules uid = None \<longleftrightarrow> uid = [] \<or> (\<forall>r. Some r \<in> set rules \<longrightarrow> r_UID r \<noteq> uid)"
  by (auto simp: findRule_def find_None_iff)

lemma findRule_Nil [simp]: "findRule rules [] = None"
  by (simp add: findRule_def)

lemma findGroup_Some:
  "findGroup groups f t = Some g \<Longrightarrow> Some g \<in> set groups \<and> g_FolderUID g = f \<and> g_Title g = t"
  by (auto simp: findGroup_def dest!: find_Some_in)

lemma remoteGroupHolding_Some:
  "remoteGroupHolding groups uid = Some g \<Longrightarrow> Some g \<in> set groups \<and> findRule (g_Rules g) uid \<noteq> None"
  by (auto simp: remoteGroupHolding_def dest!: find_Some_in)

lemma set_dedupe_from: "set (dedupe_from seen us) = set us - set seen"
  by (induction us arbitrary: seen) auto

lemma distinct_dedupe_from: "distinct (dedupe_from seen us)"
  by (induction us arbitrary: seen) (auto simp: set_dedupe_from)

lemma set_dedupeUIDs [simp]: "set (dedupeUIDs us) = set us"
  by (simp add: dedupeUIDs_def set_dedupe_from)

lemma distinct_dedupeUIDs [simp]: "distinct (dedupeUIDs us)"
  by (simp add: dedupeUIDs_def distinct_dedupe_from)

lemma dedupe_from_id: "distinct us \<Longrightarrow> set us \<inter> set seen = {} \<Longrightarrow> dedupe_from seen us = us"
  by (induction us arbitrary: seen) auto

lemma dedupeUIDs_id: "distinct us \<Longrightarrow> dedupeUIDs us = us"
  by (simp add: dedupeUIDs_def dedupe_from_id)

end
