(* ===== verification/Alert_Errors.thy ===== *)
theory Alert_Errors
  imports Alert_Models
begin

text \<open>
  The errors of the alerting component (\<^verbatim>\<open>internal/alerts/errors.go\<close>, the classification
  helpers of \<^verbatim>\<open>rules.go\<close> and \<^verbatim>\<open>pull.go\<close>).

  An error is a chain: a message of the repository at every link (\<open>alert_msg\<close>, one constructor a
  message, carrying what the message prints) and, where the chain was started by a request, the
  failure the client reported at its end (\<open>client_err\<close>). \<^verbatim>\<open>errors.As\<close> walks the chain, so it
  is \<open>err_cause\<close>. The text of the messages is not modelled.
\<close>

section \<open>Failures of a request\<close>

text \<open>What the generated client and the raw HTTP call can report: a \<^verbatim>\<open>runtime.APIError\<close> with its
  status code, the typed 404s the code matches, another typed response exposing \<^verbatim>\<open>Code()\<close> (only
  the folders client has those), a 400 exposing \<^verbatim>\<open>GetPayload()\<close>, or anything else.\<close>

datatype client_err =
    APIError string nat
  | RuleNotFoundResponse
  | GroupNotFoundResponse
  | FolderNotFoundResponse
  | CodedResponse nat
  | BadRequestResponse "string option"
  | OtherFailure string

datatype Kind = KindContactPoint | KindPolicyTree | KindRuleGroup

datatype alert_msg =
    NoClient
  | NoContext
  | InvalidState string
  | ListAlertRules
  | CannotApplyFilter string
  | UnexpectedStatus nat string
  | StateStatusError string string string
  | StateDecoding
  | StateRequest
  | GetRule string
  | RuleNotFound string
  | ListContactPointsFailed
  | PullPolicyTree
  | PullFolder string
  | PullFolderNotFound string
  | PullRuleGroup GroupRef
  | PullAlertRules
  | PullSelectionConflict
  | PullRuleGone string GroupRef
  | EncodeFailed
  | AmbiguousContactPoint string nat
  | SameContactPoint string string string
  | MixedProvenance string string
  | ForeignProvenance string
  | UnresolvedOrgID
  | RuleNotInBundle string
  | RuleGroupMoved string GroupRef GroupRef
  | RuleGoneFromGroup string
  | ScopedPushRefused Kind string string
  | PushOperation Kind string
  | PushFolder string
  | FolderMissing string
  | FolderForbidden string
  | RedactedSecrets "string list"
  | DeleteRule string
  | SetPaused bool GroupRef
  | PausedGroupNotFound bool GroupRef
  | PausedRuleGone bool string GroupRef

text \<open>\<open>Wrap\<close> is \<^verbatim>\<open>fmt.Errorf("...: %w", err)\<close>; \<open>Message\<close> is a \<^verbatim>\<open>messageError\<close>, which renders
  the given text and still unwraps to the error below.\<close>

datatype err =
    Leaf alert_msg
  | Client client_err
  | Wrap alert_msg err
  | Message alert_msg string err

fun err_cause :: "err \<Rightarrow> client_err option" where
  "err_cause (Leaf m) = None"
| "err_cause (Client c) = Some c"
| "err_cause (Wrap m e) = err_cause e"
| "err_cause (Message m t e) = err_cause e"

section \<open>Classification\<close>

definition hasStatus :: "err \<Rightarrow> nat \<Rightarrow> bool" where
  "hasStatus e status = (case err_cause e of Some (APIError op code) \<Rightarrow> code = status | _ \<Rightarrow> False)"

definition isForbidden :: "err \<Rightarrow> bool" where
  "isForbidden e = hasStatus e 403"

definition isUnauthorized :: "err \<Rightarrow> bool" where
  "isUnauthorized e = hasStatus e 401"

definition asAPIError :: "string \<Rightarrow> err \<Rightarrow> err" where
  "asAPIError operation e =
     (case err_cause e of
        Some (APIError op code) \<Rightarrow> e
      | Some RuleNotFoundResponse \<Rightarrow> e
      | Some GroupNotFoundResponse \<Rightarrow> e
      | Some FolderNotFoundResponse \<Rightarrow> Client (APIError operation 404)
      | Some (CodedResponse code) \<Rightarrow> Client (APIError operation code)
      | Some (BadRequestResponse p) \<Rightarrow> e
      | Some (OtherFailure t) \<Rightarrow> e
      | None \<Rightarrow> e)"

definition validationMessage :: "err \<Rightarrow> string option" where
  "validationMessage e =
     (case err_cause e of
        Some (BadRequestResponse payload) \<Rightarrow>
          (case payload of None \<Rightarrow> None | Some message \<Rightarrow> if message = [] then None else Some message)
      | _ \<Rightarrow> None)"

definition operationError :: "alert_msg \<Rightarrow> err \<Rightarrow> err" where
  "operationError operation e =
     (case validationMessage e of Some message \<Rightarrow> Message operation message e | None \<Rightarrow> Wrap operation e)"

definition ruleNotFoundError :: "string \<Rightarrow> err" where
  "ruleNotFoundError uid = Leaf (RuleNotFound uid)"

lemma err_cause_operationError [simp]: "err_cause (operationError m e) = err_cause e"
  by (simp add: operationError_def split: option.splits)

lemma isUnauthorized_simps [simp]:
  "isUnauthorized (Leaf m) \<longleftrightarrow> False"
  "isUnauthorized (Wrap m e) \<longleftrightarrow> isUnauthorized e"
  "isUnauthorized (Message m t e) \<longleftrightarrow> isUnauthorized e"
  "isUnauthorized (operationError m e) \<longleftrightarrow> isUnauthorized e"
  by (simp_all add: isUnauthorized_def hasStatus_def)

lemma isUnauthorized_Client [simp]:
  "isUnauthorized (Client c) \<longleftrightarrow> (\<exists>op. c = APIError op 401)"
  by (cases c) (auto simp: isUnauthorized_def hasStatus_def)

end
