(* ===== verification/Write_Bodies.thy ===== *)
theory Write_Bodies
  imports Alert_Errors
begin

text \<open>
  What a write carries: the X-Disable-Provenance header (\<^verbatim>\<open>internal/alerts/provenance.go\<close>) and
  the request bodies (\<^verbatim>\<open>internal/alerts/body.go\<close>), with the projection of a model onto the
  generic value that is compared and written to disk (\<^verbatim>\<open>encodableValue\<close> of \<^verbatim>\<open>files.go\<close>,
  \<^verbatim>\<open>comparableValue\<close> and \<^verbatim>\<open>equalProjected\<close> of \<^verbatim>\<open>diff.go\<close>).
\<close>

section \<open>The provenance header\<close>

text \<open>A header is \<^verbatim>\<open>*string\<close>: \<^const>\<open>None\<close> omits it.\<close>

definition apiProvenance :: string where "apiProvenance = ''api''"
definition disableProvenanceValue :: string where "disableProvenanceValue = ''true''"

definition disableProvenanceHeader :: "bool \<Rightarrow> string option" where
  "disableProvenanceHeader disable = (if \<not> disable then None else Some disableProvenanceValue)"

definition CreateProvenanceHeader :: "bool \<Rightarrow> string option" where
  "CreateProvenanceHeader uiEditable = disableProvenanceHeader uiEditable"

definition ProvenanceHeader :: "string \<Rightarrow> err + string option" where
  "ProvenanceHeader stored =
     (if stored = [] then Inr (disableProvenanceHeader True)
      else if stored = apiProvenance then Inr (disableProvenanceHeader False)
      else Inl (Leaf (ForeignProvenance stored)))"

fun groupProvenance_from :: "string \<Rightarrow> bool \<Rightarrow> rule option list \<Rightarrow> err + string" where
  "groupProvenance_from stored seen [] = Inr stored"
| "groupProvenance_from stored seen (None # rules) = groupProvenance_from stored seen rules"
| "groupProvenance_from stored seen (Some r # rules) =
     (if seen \<and> r_Provenance r \<noteq> stored then Inl (Leaf (MixedProvenance stored (r_Provenance r)))
      else groupProvenance_from (r_Provenance r) True rules)"

definition groupProvenance :: "rule option list \<Rightarrow> err + string" where
  "groupProvenance rules = groupProvenance_from [] False rules"

definition GroupProvenanceHeader :: "rule option list \<Rightarrow> err + string option" where
  "GroupProvenanceHeader rules =
     (case groupProvenance rules of Inl e \<Rightarrow> Inl e | Inr stored \<Rightarrow> ProvenanceHeader stored)"

text \<open>The provenance Grafana stores for an object written under a header.\<close>

definition stored_after :: "string option \<Rightarrow> string" where
  "stored_after header = (if header = Some disableProvenanceValue then [] else apiProvenance)"

lemma ProvenanceHeader_mirrors:
  "ProvenanceHeader stored = Inr header \<Longrightarrow> stored_after header = stored"
  by (auto simp: ProvenanceHeader_def stored_after_def disableProvenanceHeader_def split: if_splits)

lemma ProvenanceHeader_ok_iff: "isOk (ProvenanceHeader stored) \<longleftrightarrow> stored \<in> {[], apiProvenance}"
  by (auto simp: ProvenanceHeader_def)

lemma groupProvenance_from_Inr_iff:
  "groupProvenance_from stored seen rules = Inr p \<longleftrightarrow>
     (if present rules = [] then p = stored
      else (\<forall>r \<in> set (present rules). r_Provenance r = p) \<and> (seen \<longrightarrow> p = stored))"
  by (induction stored seen rules rule: groupProvenance_from.induct) (auto simp: present_Nil_iff)

lemma groupProvenance_Inr_iff:
  "groupProvenance rules = Inr p \<longleftrightarrow>
     (if present rules = [] then p = [] else \<forall>r \<in> set (present rules). r_Provenance r = p)"
  by (simp add: groupProvenance_def groupProvenance_from_Inr_iff)

section \<open>Write bodies\<close>

definition contactPointBody :: "contact_point \<Rightarrow> string \<Rightarrow> contact_point" where
  "contactPointBody local uid = local\<lparr>cp_UID := uid, cp_Provenance := []\<rparr>"

definition pinRule :: "rule \<Rightarrow> string \<Rightarrow> string \<Rightarrow> int option \<Rightarrow> rule" where
  "pinRule r folderUID title orgID =
     (let pinned = r\<lparr>r_FolderUID := Some folderUID, r_RuleGroup := Some title, r_ID := 0,
                     r_Provenance := [], r_Updated := 0\<rparr>
      in case orgID of None \<Rightarrow> pinned | Some org \<Rightarrow> pinned\<lparr>r_OrgID := Some org\<rparr>)"

definition requireOrgID :: "rule_group \<Rightarrow> int option \<Rightarrow> err + unit" where
  "requireOrgID local resolved =
     (if resolved \<noteq> None then Inr ()
      else if \<exists>r \<in> set (present (g_Rules local)). r_OrgID r = None then Inl (Leaf UnresolvedOrgID)
      else Inr ())"

definition resolveOrgID :: "rule_group option \<Rightarrow> int \<Rightarrow> int option" where
  "resolveOrgID remote contextOrgID =
     (case (case remote of None \<Rightarrow> None
            | Some g \<Rightarrow> find (\<lambda>r. r_OrgID r \<noteq> None) (present (g_Rules g))) of
        Some r \<Rightarrow> r_OrgID r
      | None \<Rightarrow> if contextOrgID \<noteq> 0 then Some contextOrgID else None)"

primrec routeBody :: "route \<Rightarrow> route" where
  "routeBody (Route provenance routes rest) =
     Route [] (map_option (map (map_option routeBody)) routes) rest"

definition ruleGroupBody :: "rule_group \<Rightarrow> int option \<Rightarrow> rule_group" where
  "ruleGroupBody local orgID =
     local\<lparr>g_Rules := map (\<lambda>r. Some (pinRule r (g_FolderUID local) (g_Title local) orgID))
                          (present (g_Rules local))\<rparr>"

lemma pinRule_simps [simp]:
  "r_UID (pinRule r f g org) = r_UID r" "r_Title (pinRule r f g org) = r_Title r"
  "r_IsPaused (pinRule r f g org) = r_IsPaused r"
  "r_FolderUID (pinRule r f g org) = Some f" "r_RuleGroup (pinRule r f g org) = Some g"
  "r_ID (pinRule r f g org) = 0" "r_Provenance (pinRule r f g org) = []"
  "r_Updated (pinRule r f g org) = 0"
  by (simp_all add: pinRule_def Let_def split: option.splits)

lemma pinRule_idem: "pinRule (pinRule r f g org) f g org = pinRule r f g org"
  by (simp add: pinRule_def Let_def split: option.splits)

lemma pinRule_OrgID: "r_OrgID (pinRule r f g org) = (case org of None \<Rightarrow> r_OrgID r | Some i \<Rightarrow> Some i)"
  by (simp add: pinRule_def Let_def split: option.splits)

lemma ruleGroupBody_simps [simp]:
  "g_FolderUID (ruleGroupBody g org) = g_FolderUID g" "g_Title (ruleGroupBody g org) = g_Title g"
  "g_Interval (ruleGroupBody g org) = g_Interval g"
  "present (g_Rules (ruleGroupBody g org)) =
     map (\<lambda>r. pinRule r (g_FolderUID g) (g_Title g) org) (present (g_Rules g))"
  by (simp_all add: ruleGroupBody_def)

lemma requireOrgID_complete:
  assumes "requireOrgID local org = Inr ()" and "r \<in> set (present (g_Rules (ruleGroupBody local org)))"
  shows "r_OrgID r \<noteq> None"
  using assms by (auto simp: requireOrgID_def pinRule_OrgID split: if_splits option.splits)

text \<open>No node of a pushed policy tree claims a provenance.\<close>

fun route_nodes :: "route \<Rightarrow> route list" where
  "route_nodes (Route p rs rest) = Route p rs rest #
     concat (map (\<lambda>c. case c of None \<Rightarrow> [] | Some r \<Rightarrow> route_nodes r) (case rs of None \<Rightarrow> [] | Some cs \<Rightarrow> cs))"

lemma routeBody_provenance: "n \<in> set (route_nodes (routeBody r)) \<Longrightarrow> rt_Provenance n = []"
proof (induction r arbitrary: n)
  case (Route p rs rest)
  show ?case
  proof (cases rs)
    case (Some cs)
    have "rt_Provenance n = []" if "Some c \<in> set cs" and "n \<in> set (route_nodes (routeBody c))" for c
      using Route.IH [of cs "Some c" c n] Some that by simp
    then show ?thesis using Route.prems Some by (auto split: option.splits)
  qed (use Route.prems in simp)
qed

section \<open>Projection onto generic values\<close>

record marshaller =
  m_rule :: "rule \<Rightarrow> json option"
  m_group :: "rule_group \<Rightarrow> json option"
  m_point :: "contact_point \<Rightarrow> json option"
  m_route :: "route \<Rightarrow> json option"

definition encodableValue :: "('m \<Rightarrow> json option) \<Rightarrow> (json \<Rightarrow> json) \<Rightarrow> 'm \<Rightarrow> err + json" where
  "encodableValue marshal strip model =
     (case marshal model of None \<Rightarrow> Inl (Leaf EncodeFailed)
      | Some raw \<Rightarrow> Inr (strip (normalizeNumbers raw)))"

definition comparableValue :: "('m \<Rightarrow> json option) \<Rightarrow> (json \<Rightarrow> json) \<Rightarrow> 'm \<Rightarrow> err + json" where
  "comparableValue marshal strip model =
     (case encodableValue marshal strip model of Inl e \<Rightarrow> Inl e | Inr v \<Rightarrow> Inr (dropEmptyValues v))"

definition equalProjected ::
  "('m \<Rightarrow> json option) \<Rightarrow> (json \<Rightarrow> json) \<Rightarrow> (json \<Rightarrow> json \<Rightarrow> bool) \<Rightarrow> 'm \<Rightarrow> 'm \<Rightarrow> err + bool" where
  "equalProjected marshal strip equal local remote =
     (case comparableValue marshal strip local of Inl e \<Rightarrow> Inl e
      | Inr localValue \<Rightarrow>
        (case comparableValue marshal strip remote of Inl e \<Rightarrow> Inl e
         | Inr remoteValue \<Rightarrow> Inr (equal localValue remoteValue)))"

text \<open>The projected value of a model whose marshalling does not fail.\<close>

definition projected :: "('m \<Rightarrow> json option) \<Rightarrow> (json \<Rightarrow> json) \<Rightarrow> 'm \<Rightarrow> json" where
  "projected marshal strip model =
     (case marshal model of None \<Rightarrow> JNull | Some raw \<Rightarrow> dropEmptyValues (strip (normalizeNumbers raw)))"

text \<open>
  An equality on projected values: a total, well-formed marshaller, a stripper that keeps values
  well-formed and a comparison that is reflexive on well-formed values. The plan compares rules,
  contact points and policy trees through one each.
\<close>

definition marshals :: "('m \<Rightarrow> json option) \<Rightarrow> bool" where
  "marshals marshal \<longleftrightarrow> (\<forall>m. \<exists>raw. marshal m = Some raw \<and> wf_json raw)"

locale projected_equality =
  fixes strip :: "json \<Rightarrow> json" and equal :: "json \<Rightarrow> json \<Rightarrow> bool"
  assumes strip_wf: "wf_json v \<Longrightarrow> wf_json (strip v)"
    and equal_refl: "wf_json v \<Longrightarrow> equal v v"
begin

lemma marshalsE:
  assumes "marshals marshal"
  obtains raw where "marshal m = Some raw" and "wf_json raw"
  using assms unfolding marshals_def by blast

lemma projected_wf: "marshals marshal \<Longrightarrow> wf_json (projected marshal strip m)"
  by (erule marshalsE [where m = m]) (simp add: projected_def strip_wf
      wf_json_dropEmptyValues wf_json_normalizeNumbers)

lemma equalProjected_value:
  assumes "marshals marshal"
  shows "equalProjected marshal strip equal a b =
     Inr (equal (projected marshal strip a) (projected marshal strip b))"
proof -
  obtain ra rb where "marshal a = Some ra" and "marshal b = Some rb"
    using assms by (metis marshalsE)
  then show ?thesis
    by (simp add: equalProjected_def comparableValue_def encodableValue_def projected_def)
qed

lemma equalProjected_same:
  assumes "marshals marshal" and "projected marshal strip a = projected marshal strip b"
  shows "equalProjected marshal strip equal a b = Inr True"
  using assms by (simp add: equalProjected_value equal_refl projected_wf)

end

interpretation rule_eq: projected_equality stripRuleFields deep_equal
  by unfold_locales (auto simp: deep_equal_refl)

interpretation route_eq: projected_equality stripRouteFields deep_equal
  by unfold_locales (auto simp: deep_equal_refl)

interpretation point_eq: projected_equality stripContactPointFields equalRedacted
  by unfold_locales (auto simp: equalRedacted_refl)

end
