(* ===== verification/Plan_Diff.thy ===== *)
theory Plan_Diff
  imports Write_Bodies
begin

text \<open>
  The plan: what pushing a local bundle onto a remote one would do
  (\<^verbatim>\<open>internal/alerts/diff.go\<close>). \<open>Plan\<close> is pure; it is the whole of a dry run, and the push
  applies exactly the entries it returns.
\<close>

section \<open>Actions, kinds, entries\<close>

datatype Action = ActionCreate | ActionUnchanged | ActionUpdate

fun kindString :: "Kind \<Rightarrow> string" where
  "kindString KindContactPoint = ''ContactPoint''"
| "kindString KindPolicyTree = ''PolicyTree''"
| "kindString KindRuleGroup = ''RuleGroup''"

lemma kindString_inject [simp]: "kindString a = kindString b \<longleftrightarrow> a = b"
  by (cases a; cases b) simp_all

text \<open>The kinds are ordered as the strings they are.\<close>

instantiation Kind :: linorder
begin

definition less_eq_Kind :: "Kind \<Rightarrow> Kind \<Rightarrow> bool" where
  "less_eq_Kind a b \<longleftrightarrow> kindString a \<le> kindString b"

definition less_Kind :: "Kind \<Rightarrow> Kind \<Rightarrow> bool" where
  "less_Kind a b \<longleftrightarrow> kindString a < kindString b"

instance
  by standard (auto simp: less_eq_Kind_def less_Kind_def less_le)

end

record Change =
  c_Action :: Action
  c_Kind :: Kind
  c_ID :: string
  c_Detail :: "string list"

definition changeKey :: "Change \<Rightarrow> Kind \<times> string" where
  "changeKey c = (c_Kind c, c_ID c)"

definition policyTreeID :: string where "policyTreeID = ''policies''"

definition replacedMarker :: string where "replacedMarker = ''!''"
definition addedMarker :: string where "addedMarker = ''+''"
definition removedMarker :: string where "removedMarker = ''-''"
definition changedMarker :: string where "changedMarker = ''~''"

definition ruleOrderDetail :: string where
  "ruleOrderDetail = changedMarker @ '' rule order''"

text \<open>The arrow of an interval line, in UTF-8.\<close>

definition arrow :: string where "arrow = [CHR 0xE2, CHR 0x86, CHR 0x92]"

definition actionFor :: "bool \<Rightarrow> Action" where
  "actionFor equal = (if equal then ActionUnchanged else ActionUpdate)"

section \<open>Comparing objects\<close>

definition equalContactPoints :: "marshaller \<Rightarrow> contact_point \<Rightarrow> contact_point \<Rightarrow> err + bool" where
  "equalContactPoints M local remote =
     equalProjected (m_point M) stripContactPointFields equalRedacted
       (contactPointBody local (cp_UID remote)) remote"

definition equalRoutes :: "marshaller \<Rightarrow> route \<Rightarrow> route \<Rightarrow> err + bool" where
  "equalRoutes M local remote =
     equalProjected (m_route M) stripRouteFields deep_equal local remote"

definition equalRules :: "marshaller \<Rightarrow> rule \<Rightarrow> rule \<Rightarrow> err + bool" where
  "equalRules M local remote =
     equalProjected (m_rule M) stripRuleFields deep_equal local remote"

section \<open>Rule lines\<close>

definition ruleDetail :: "string \<Rightarrow> rule \<Rightarrow> string" where
  "ruleDetail marker r =
     (let title = (case r_Title r of None \<Rightarrow> [] | Some t \<Rightarrow> t)
      in if r_UID r = [] then marker @ '' '' @ title
         else marker @ '' '' @ title @ '' ('' @ r_UID r @ '')'')"

definition replacedRuleDetail :: "rule \<Rightarrow> string" where
  "replacedRuleDetail remote =
     ruleDetail replacedMarker remote @ '' would be replaced, not updated; run alerts pull first''"

definition createdRuleDetails :: "rule option list \<Rightarrow> string list" where
  "createdRuleDetails rules = sort (map (ruleDetail addedMarker) (present rules))"

definition replacedRule :: "rule \<Rightarrow> rule option list \<Rightarrow> rule option list \<Rightarrow> rule option" where
  "replacedRule local locals remote =
     (if r_UID local \<noteq> [] \<or> r_Title local = None then None
      else find (\<lambda>r. r_Title r \<noteq> None \<and> r_Title r = r_Title local \<and> findRule locals (r_UID r) = None)
             (present remote))"

definition sharedRuleUIDs :: "rule option list \<Rightarrow> rule option list \<Rightarrow> string list" where
  "sharedRuleUIDs rules other =
     map r_UID (filter (\<lambda>r. findRule other (r_UID r) \<noteq> None) (present rules))"

definition sameRuleOrder :: "rule option list \<Rightarrow> rule option list \<Rightarrow> bool" where
  "sameRuleOrder local remote \<longleftrightarrow> sharedRuleUIDs local remote = sharedRuleUIDs remote local"

text \<open>The lines one local rule contributes (the body of the first loop of \<^verbatim>\<open>ruleDetails\<close>).\<close>

definition localRuleLines :: "marshaller \<Rightarrow> rule_group \<Rightarrow> rule_group \<Rightarrow> rule \<Rightarrow> err + string list" where
  "localRuleLines M local remote r =
     (case findRule (g_Rules remote) (r_UID r) of
        None \<Rightarrow> Inr (ruleDetail addedMarker r #
                 (case replacedRule r (g_Rules local) (g_Rules remote) of
                    None \<Rightarrow> [] | Some replaced \<Rightarrow> [replacedRuleDetail replaced]))
      | Some m \<Rightarrow>
          (case equalRules M (pinRule r (g_FolderUID local) (g_Title local) (r_OrgID m)) m of
             Inl e \<Rightarrow> Inl e
           | Inr equal \<Rightarrow> Inr (if equal then [] else [ruleDetail changedMarker r])))"

definition removedRuleLines :: "rule_group \<Rightarrow> rule_group \<Rightarrow> string list" where
  "removedRuleLines local remote =
     map (ruleDetail removedMarker)
       (filter (\<lambda>r. findRule (g_Rules local) (r_UID r) = None) (present (g_Rules remote)))"

definition ruleDetails :: "marshaller \<Rightarrow> rule_group \<Rightarrow> rule_group \<Rightarrow> err + string list" where
  "ruleDetails M local remote =
     (case mapR (localRuleLines M local remote) (present (g_Rules local)) of
        Inl e \<Rightarrow> Inl e
      | Inr liness \<Rightarrow> Inr (sort (concat liness @ removedRuleLines local remote)))"

definition intervalDetail :: "int \<Rightarrow> int \<Rightarrow> string" where
  "intervalDetail remote local =
     changedMarker @ '' interval '' @ show_int remote @ ''s'' @ arrow @ show_int local @ ''s''"

definition groupDetail :: "marshaller \<Rightarrow> rule_group \<Rightarrow> rule_group \<Rightarrow> err + string list" where
  "groupDetail M local remote =
     (let interval = (if g_Interval local \<noteq> g_Interval remote
                      then [intervalDetail (g_Interval remote) (g_Interval local)] else []);
          order = (if \<not> sameRuleOrder (g_Rules local) (g_Rules remote) then [ruleOrderDetail] else [])
      in case ruleDetails M local remote of
           Inl e \<Rightarrow> Inl e
         | Inr rules \<Rightarrow> Inr (interval @ order @ rules))"

definition withoutRules :: "rule_group \<Rightarrow> string set \<Rightarrow> rule_group" where
  "withoutRules g uids =
     g\<lparr>g_Rules := map Some (filter (\<lambda>r. \<not> (r_UID r \<in> uids \<and> r_UID r \<noteq> [])) (present (g_Rules g)))\<rparr>"

definition otherDifferences ::
  "marshaller \<Rightarrow> rule_group \<Rightarrow> rule_group \<Rightarrow> string set \<Rightarrow> err + string list" where
  "otherDifferences M local remote named =
     groupDetail M (withoutRules local named) (withoutRules remote named)"

section \<open>Matching contact points\<close>

text \<open>The non-nil elements of a slice with their positions: the position stands for the identity of
  the pointer, which is what \<^verbatim>\<open>planContactPoints\<close> keys its table of matched points by.\<close>

fun present_from :: "nat \<Rightarrow> 'a option list \<Rightarrow> (nat \<times> 'a) list" where
  "present_from i [] = []"
| "present_from i (None # xs) = present_from (Suc i) xs"
| "present_from i (Some x # xs) = (i, x) # present_from (Suc i) xs"

definition matchContactPoint ::
  "contact_point \<Rightarrow> contact_point option list \<Rightarrow> err + (nat \<times> contact_point) option" where
  "matchContactPoint local remote =
     (if cp_UID local \<noteq> [] then
        Inr (find (\<lambda>(i, p). cp_UID p = cp_UID local) (present_from 0 remote))
      else
        (case filter (\<lambda>(i, p). cp_Name local \<noteq> [] \<and> cp_Name p = cp_Name local)
               (present_from 0 remote) of
           [] \<Rightarrow> Inr None
         | [m] \<Rightarrow> Inr (Some m)
         | matched \<Rightarrow> Inl (Leaf (AmbiguousContactPoint (cp_Name local) (length matched)))))"

section \<open>The plan\<close>

text \<open>One step of the loop of \<^verbatim>\<open>planContactPoints\<close>: the state is the table of matched points and
  the entries so far.\<close>

definition planContactPoint ::
  "marshaller \<Rightarrow> contact_point option list \<Rightarrow> (nat \<rightharpoonup> string) \<times> Change list \<Rightarrow> contact_point
     \<Rightarrow> err + (nat \<rightharpoonup> string) \<times> Change list" where
  "planContactPoint M remote s point =
     (case matchContactPoint point remote of
        Inl e \<Rightarrow> Inl e
      | Inr None \<Rightarrow>
          Inr (fst s, snd s @ [\<lparr>c_Action = ActionCreate, c_Kind = KindContactPoint,
                                c_ID = contactPointID point, c_Detail = []\<rparr>])
      | Inr (Some (i, m)) \<Rightarrow>
          (case fst s i of
             Some previous \<Rightarrow>
               Inl (Leaf (SameContactPoint previous (contactPointID point) (contactPointID m)))
           | None \<Rightarrow>
               (case equalContactPoints M point m of
                  Inl e \<Rightarrow> Inl e
                | Inr equal \<Rightarrow>
                    Inr ((fst s)(i \<mapsto> contactPointID point),
                         snd s @ [\<lparr>c_Action = actionFor equal, c_Kind = KindContactPoint,
                                   c_ID = contactPointID point, c_Detail = []\<rparr>]))))"

definition planContactPoints ::
  "marshaller \<Rightarrow> contact_point option list \<Rightarrow> contact_point option list \<Rightarrow> err + Change list" where
  "planContactPoints M local remote =
     (case foldR (planContactPoint M remote) (Map.empty, []) (present local) of
        Inl e \<Rightarrow> Inl e | Inr s \<Rightarrow> Inr (snd s))"

definition planPolicyTree :: "marshaller \<Rightarrow> route option \<Rightarrow> route option \<Rightarrow> err + Change list" where
  "planPolicyTree M local remote =
     (case local of
        None \<Rightarrow> Inr []
      | Some l \<Rightarrow>
          (let change = \<lparr>c_Action = ActionCreate, c_Kind = KindPolicyTree, c_ID = policyTreeID, c_Detail = []\<rparr>
           in case remote of
                None \<Rightarrow> Inr [change]
              | Some r \<Rightarrow>
                  (case equalRoutes M l r of
                     Inl e \<Rightarrow> Inl e
                   | Inr equal \<Rightarrow> Inr [change\<lparr>c_Action := actionFor equal\<rparr>])))"

definition planRuleGroup :: "marshaller \<Rightarrow> rule_group option list \<Rightarrow> rule_group \<Rightarrow> err + Change" where
  "planRuleGroup M remote g =
     (let change = \<lparr>c_Action = ActionCreate, c_Kind = KindRuleGroup, c_ID = groupID g, c_Detail = []\<rparr>
      in case findGroup remote (g_FolderUID g) (g_Title g) of
           None \<Rightarrow> Inr (change\<lparr>c_Detail := createdRuleDetails (g_Rules g)\<rparr>)
         | Some m \<Rightarrow>
             (case groupDetail M g m of
                Inl e \<Rightarrow> Inl e
              | Inr detail \<Rightarrow> Inr (change\<lparr>c_Action := actionFor (detail = []), c_Detail := detail\<rparr>)))"

definition planRuleGroups ::
  "marshaller \<Rightarrow> rule_group option list \<Rightarrow> rule_group option list \<Rightarrow> err + Change list" where
  "planRuleGroups M local remote = mapR (planRuleGroup M remote) (present local)"

definition Plan :: "marshaller \<Rightarrow> Bundle \<Rightarrow> Bundle \<Rightarrow> err + Change list" where
  "Plan M local remote =
     (case planContactPoints M (b_ContactPoints local) (b_ContactPoints remote) of Inl e \<Rightarrow> Inl e
      | Inr points \<Rightarrow>
     (case planPolicyTree M (b_Policies local) (b_Policies remote) of Inl e \<Rightarrow> Inl e
      | Inr policies \<Rightarrow>
     (case planRuleGroups M (b_Groups local) (b_Groups remote) of Inl e \<Rightarrow> Inl e
      | Inr groups \<Rightarrow> Inr (sort_key changeKey (points @ policies @ groups)))))"

section \<open>What an empty detail means\<close>

text \<open>Two groups are the same write: same interval, and rule by rule the body the push would send
  projects onto what the remote rule projects onto.\<close>

definition same_rule :: "marshaller \<Rightarrow> rule_group \<Rightarrow> rule \<Rightarrow> rule \<Rightarrow> bool" where
  "same_rule M local l r \<longleftrightarrow>
     deep_equal (projected (m_rule M) stripRuleFields (pinRule l (g_FolderUID local) (g_Title local) (r_OrgID r)))
                (projected (m_rule M) stripRuleFields r)"

definition same_write :: "marshaller \<Rightarrow> rule_group \<Rightarrow> rule_group \<Rightarrow> bool" where
  "same_write M local remote \<longleftrightarrow>
     g_Interval local = g_Interval remote \<and>
     list_all2 (\<lambda>l r. r_UID l = r_UID r \<and> same_rule M local l r)
       (present (g_Rules local)) (present (g_Rules remote))"

text \<open>The uids of a group's rules are pairwise different (rules without a uid aside, which
  \<open>validateGroup\<close> leaves alone).\<close>

definition uids_distinct :: "rule_group \<Rightarrow> bool" where
  "uids_distinct g \<longleftrightarrow> distinct (filter (\<lambda>u. u \<noteq> []) (map r_UID (present (g_Rules g))))"

definition uids_given :: "rule_group \<Rightarrow> bool" where
  "uids_given g \<longleftrightarrow> (\<forall>r \<in> set (present (g_Rules g)). r_UID r \<noteq> [])"

lemma localRuleLines_value:
  assumes "marshals (m_rule M)"
  shows "localRuleLines M local remote r =
     (case findRule (g_Rules remote) (r_UID r) of
        None \<Rightarrow> Inr (ruleDetail addedMarker r #
                 (case replacedRule r (g_Rules local) (g_Rules remote) of
                    None \<Rightarrow> [] | Some replaced \<Rightarrow> [replacedRuleDetail replaced]))
      | Some m \<Rightarrow> Inr (if same_rule M local r m then [] else [ruleDetail changedMarker r]))"
  by (simp add: localRuleLines_def equalRules_def rule_eq.equalProjected_value [OF assms]
      same_rule_def split: option.splits)

definition localLines :: "marshaller \<Rightarrow> rule_group \<Rightarrow> rule_group \<Rightarrow> rule \<Rightarrow> string list" where
  "localLines M local remote r =
     (case localRuleLines M local remote r of Inl _ \<Rightarrow> [] | Inr ls \<Rightarrow> ls)"

lemma ruleDetails_value:
  assumes "marshals (m_rule M)"
  shows "ruleDetails M local remote =
     Inr (sort (concat (map (localLines M local remote) (present (g_Rules local)))
                @ removedRuleLines local remote))"
proof -
  have "mapR (localRuleLines M local remote) (present (g_Rules local)) =
      Inr (map (localLines M local remote) (present (g_Rules local)))"
    by (rule mapR_all_ok) (simp add: localLines_def localRuleLines_value [OF assms] split: option.splits)
  then show ?thesis by (simp add: ruleDetails_def)
qed

lemma groupDetail_total: "marshals (m_rule M) \<Longrightarrow> \<exists>d. groupDetail M local remote = Inr d"
  by (simp add: groupDetail_def ruleDetails_value)

lemma localLines_Nil_iff:
  assumes "marshals (m_rule M)"
  shows "localLines M local remote r = [] \<longleftrightarrow>
     (\<exists>m. findRule (g_Rules remote) (r_UID r) = Some m \<and> same_rule M local r m)"
  by (simp add: localLines_def localRuleLines_value [OF assms] split: option.splits)

lemma groupDetail_Nil_iff:
  assumes "marshals (m_rule M)"
  shows "groupDetail M local remote = Inr [] \<longleftrightarrow>
     g_Interval local = g_Interval remote \<and> sameRuleOrder (g_Rules local) (g_Rules remote) \<and>
     (\<forall>l \<in> set (present (g_Rules local)).
        \<exists>m. findRule (g_Rules remote) (r_UID l) = Some m \<and> same_rule M local l m) \<and>
     (\<forall>r \<in> set (present (g_Rules remote)). findRule (g_Rules local) (r_UID r) \<noteq> None)"
proof -
  have "sort xs = [] \<longleftrightarrow> xs = []" for xs :: "string list"
    by (metis set_sort set_empty)
  then show ?thesis
    unfolding groupDetail_def ruleDetails_value [OF assms]
    by (auto simp: Let_def localLines_Nil_iff [OF assms] removedRuleLines_def filter_empty_conv)
qed

lemma findRule_member:
  assumes "uids_distinct g" and "r \<in> set (present (g_Rules g))" and "r_UID r \<noteq> []"
  shows "findRule (g_Rules g) (r_UID r) = Some r"
proof -
  have "find (\<lambda>x. r_UID x = r_UID r) xs = Some r"
    if "distinct (filter (\<lambda>u. u \<noteq> []) (map r_UID xs))" and "r \<in> set xs" for xs :: "rule list"
    using that assms(3) by (induction xs) (auto split: if_splits)
  then show ?thesis using assms by (simp add: findRule_def uids_distinct_def)
qed

lemma sharedRuleUIDs_all:
  "(\<And>r. r \<in> set (present rules) \<Longrightarrow> findRule other (r_UID r) \<noteq> None) \<Longrightarrow>
     sharedRuleUIDs rules other = map r_UID (present rules)"
  unfolding sharedRuleUIDs_def by (metis (mono_tags, lifting) filter_True)

lemma groupDetail_Nil_iff_same_write:
  assumes M: "marshals (m_rule M)" and dl: "uids_distinct local" and dr: "uids_distinct remote"
    and gr: "uids_given remote"
  shows "groupDetail M local remote = Inr [] \<longleftrightarrow> same_write M local remote"
proof
  assume "groupDetail M local remote = Inr []"
  then have i: "g_Interval local = g_Interval remote"
    and o: "sameRuleOrder (g_Rules local) (g_Rules remote)"
    and a: "\<And>l. l \<in> set (present (g_Rules local)) \<Longrightarrow>
        \<exists>m. findRule (g_Rules remote) (r_UID l) = Some m \<and> same_rule M local l m"
    and b: "\<And>r. r \<in> set (present (g_Rules remote)) \<Longrightarrow> findRule (g_Rules local) (r_UID r) \<noteq> None"
    by (auto simp: groupDetail_Nil_iff [OF M])
  have uids: "map r_UID (present (g_Rules local)) = map r_UID (present (g_Rules remote))"
    using o a b unfolding sameRuleOrder_def
    by (subst (asm) sharedRuleUIDs_all, force, subst (asm) sharedRuleUIDs_all) auto
  have "r_UID l = r_UID r \<and> same_rule M local l r"
    if lr: "(l, r) \<in> set (zip (present (g_Rules local)) (present (g_Rules remote)))" for l r
  proof -
    have u: "r_UID l = r_UID r" using uids lr by (auto simp: map_eq_iff_zip)
    have r: "r \<in> set (present (g_Rules remote))" and l: "l \<in> set (present (g_Rules local))"
      using lr by (auto dest: set_zip_rightD set_zip_leftD simp del: set_present)
    have "r_UID r \<noteq> []" using gr r by (auto simp: uids_given_def)
    then have "findRule (g_Rules remote) (r_UID l) = Some r"
      unfolding u by (rule findRule_member [OF dr r])
    with a [OF l] u show ?thesis by auto
  qed
  moreover have "length (present (g_Rules local)) = length (present (g_Rules remote))"
    using uids by (metis length_map)
  ultimately show "same_write M local remote"
    using i by (auto simp: same_write_def list_all2_iff)
next
  assume sw: "same_write M local remote"
  let ?L = "present (g_Rules local)" and ?R = "present (g_Rules remote)"
  have i: "g_Interval local = g_Interval remote"
    and all2: "list_all2 (\<lambda>l r. r_UID l = r_UID r \<and> same_rule M local l r) ?L ?R"
    using sw by (auto simp: same_write_def)
  have a: "\<exists>m. findRule (g_Rules remote) (r_UID l) = Some m \<and> same_rule M local l m"
    if l: "l \<in> set ?L" for l
  proof -
    obtain r where r: "r \<in> set ?R" "r_UID l = r_UID r" "same_rule M local l r"
      using list_all2_left [OF all2 l] by fastforce
    then have "r_UID r \<noteq> []" using gr by (auto simp: uids_given_def)
    with r show ?thesis using findRule_member [OF dr r(1)] by auto
  qed
  have b: "findRule (g_Rules local) (r_UID r) \<noteq> None" if r: "r \<in> set ?R" for r
  proof -
    obtain l where l: "l \<in> set ?L" "r_UID l = r_UID r"
      using list_all2_right [OF all2 r] by fastforce
    have "r_UID r \<noteq> []" using gr r by (auto simp: uids_given_def)
    with l show ?thesis using findRule_member [OF dl l(1)] by auto
  qed
  have "map r_UID ?L = map r_UID ?R"
    using all2 by (auto simp: list_all2_iff map_eq_iff_zip)
  then have "sameRuleOrder (g_Rules local) (g_Rules remote)"
    using a b unfolding sameRuleOrder_def
    by (subst sharedRuleUIDs_all, force, subst sharedRuleUIDs_all) auto
  with i a b show "groupDetail M local remote = Inr []"
    by (simp add: groupDetail_Nil_iff [OF M] del: set_present)
qed

end
