(* ===== verification/Plan_Properties.thy ===== *)
theory Plan_Properties
  imports Plan_Diff
begin

text \<open>
  What a plan promises: one entry per local object in push order, success exactly when no two local
  contact points address one remote point, and no change at all for a bundle that was pulled from
  the same instance. The JSON shape of the models is the parameter \<open>M\<close>; the laws assumed of it are
  \<^const>\<open>marshals\<close> and \<open>readonly_keys\<close>, the statement that the fields Grafana owns are
  marshalled under the keys the strippers remove.
\<close>

section \<open>One entry per local object\<close>

definition localKeys :: "Bundle \<Rightarrow> (Kind \<times> string) list" where
  "localKeys b =
     map (\<lambda>p. (KindContactPoint, contactPointID p)) (present (b_ContactPoints b))
     @ (case b_Policies b of None \<Rightarrow> [] | Some t \<Rightarrow> [(KindPolicyTree, policyTreeID)])
     @ map (\<lambda>g. (KindRuleGroup, groupID g)) (present (b_Groups b))"

lemma planContactPoint_key:
  "planContactPoint M remote s p = Inr s' \<Longrightarrow>
     map changeKey (snd s') = map changeKey (snd s) @ [(KindContactPoint, contactPointID p)]"
  by (auto simp: planContactPoint_def changeKey_def split: sum.splits option.splits prod.splits)

lemma planContactPoints_keys:
  assumes "planContactPoints M local remote = Inr cs"
  shows "map changeKey cs = map (\<lambda>p. (KindContactPoint, contactPointID p)) (present local)"
proof -
  have "map changeKey (snd s') = map changeKey (snd s) @ map (\<lambda>p. (KindContactPoint, contactPointID p)) ps"
    if "foldR (planContactPoint M remote) s ps = Inr s'" for s s' ps
    using that
  proof (induction ps arbitrary: s)
    case (Cons p ps)
    then show ?case by (fastforce split: sum.splits dest: planContactPoint_key)
  qed simp
  from this [of "(Map.empty, [])"] show ?thesis
    using assms by (auto simp: planContactPoints_def split: sum.splits)
qed

lemma planRuleGroup_key: "planRuleGroup M remote g = Inr c \<Longrightarrow> changeKey c = (KindRuleGroup, groupID g)"
  by (auto simp: planRuleGroup_def changeKey_def Let_def split: option.splits sum.splits)

lemma planRuleGroups_keys:
  assumes "planRuleGroups M local remote = Inr cs"
  shows "map changeKey cs = map (\<lambda>g. (KindRuleGroup, groupID g)) (present local)"
proof -
  have "list_all2 (\<lambda>g c. planRuleGroup M remote g = Inr c) (present local) cs"
    using assms by (simp add: planRuleGroups_def mapR_Inr_iff)
  then show ?thesis
    by (induction rule: list_all2_induct) (auto dest: planRuleGroup_key)
qed

lemma planPolicyTree_keys:
  "planPolicyTree M local remote = Inr cs \<Longrightarrow>
     map changeKey cs = (case local of None \<Rightarrow> [] | Some t \<Rightarrow> [(KindPolicyTree, policyTreeID)])"
  by (auto simp: planPolicyTree_def changeKey_def Let_def split: option.splits sum.splits)

lemma PlanE:
  assumes "Plan M local remote = Inr cs"
  obtains points policies grps where
    "planContactPoints M (b_ContactPoints local) (b_ContactPoints remote) = Inr points"
    "planPolicyTree M (b_Policies local) (b_Policies remote) = Inr policies"
    "planRuleGroups M (b_Groups local) (b_Groups remote) = Inr grps"
    "cs = sort_key changeKey (points @ policies @ grps)"
  using assms by (auto simp: Plan_def split: sum.splits)

lemma plan_keys:
  assumes "Plan M local remote = Inr cs"
  shows "sorted (map changeKey cs)" and "mset (map changeKey cs) = mset (localKeys local)"
proof -
  obtain points policies grps where
    p: "planContactPoints M (b_ContactPoints local) (b_ContactPoints remote) = Inr points"
       "planPolicyTree M (b_Policies local) (b_Policies remote) = Inr policies"
       "planRuleGroups M (b_Groups local) (b_Groups remote) = Inr grps"
    and cs: "cs = sort_key changeKey (points @ policies @ grps)"
    using assms by (rule PlanE)
  show "sorted (map changeKey cs)" by (simp add: cs)
  have "mset (map changeKey cs) = mset (map changeKey (points @ policies @ grps))"
    by (simp only: cs mset_map mset_sort)
  also have "map changeKey (points @ policies @ grps) = localKeys local"
    using p by (simp add: localKeys_def planContactPoints_keys planPolicyTree_keys planRuleGroups_keys)
  finally show "mset (map changeKey cs) = mset (localKeys local)" .
qed

section \<open>When a plan exists\<close>

definition pointKey :: "contact_point option list \<Rightarrow> contact_point \<Rightarrow> nat option" where
  "pointKey remote p = (case matchContactPoint p remote of Inr (Some (i, m)) \<Rightarrow> Some i | _ \<Rightarrow> None)"

definition pointOk :: "marshaller \<Rightarrow> contact_point option list \<Rightarrow> contact_point \<Rightarrow> bool" where
  "pointOk M remote p =
     (case matchContactPoint p remote of
        Inl e \<Rightarrow> False | Inr None \<Rightarrow> True | Inr (Some (i, m)) \<Rightarrow> isOk (equalContactPoints M p m))"

interpretation plan_points: claim_registry
  "planContactPoint M remote" "\<lambda>s. dom (fst s)" "pointKey remote" "pointOk M remote" for M remote
  by unfold_locales
     (auto simp: planContactPoint_def pointKey_def pointOk_def isOk_iff
           split: sum.splits option.splits prod.splits)

lemma planContactPoints_ok_iff:
  "isOk (planContactPoints M local remote) \<longleftrightarrow>
     (\<forall>p \<in> set (present local). pointOk M remote p) \<and>
     distinct (List.map_filter (pointKey remote) (present local))"
  using plan_points.run_ok_iff [of M remote "(Map.empty, [])" "present local"]
  by (auto simp: planContactPoints_def isOk_iff split: sum.splits)

lemma Plan_ok_iff_points:
  assumes "marshals (m_rule M)" and "marshals (m_route M)"
  shows "isOk (Plan M local remote) \<longleftrightarrow>
     isOk (planContactPoints M (b_ContactPoints local) (b_ContactPoints remote))"
proof -
  have tree: "isOk (planPolicyTree M lt rt)" for lt rt
    by (simp add: planPolicyTree_def equalRoutes_def route_eq.equalProjected_value [OF assms(2)]
        isOk_iff Let_def split: option.splits)
  have grp: "\<exists>c. planRuleGroup M rg g = Inr c" for rg g
  proof (cases "findGroup rg (g_FolderUID g) (g_Title g)")
    case (Some m)
    obtain d where "groupDetail M g m = Inr d" using groupDetail_total [OF assms(1)] by blast
    with Some show ?thesis by (simp add: planRuleGroup_def Let_def)
  qed (simp add: planRuleGroup_def Let_def)
  have groups: "isOk (planRuleGroups M lg rg)" for lg rg
  proof -
    obtain f where "\<And>g. planRuleGroup M rg g = Inr (f g)" using grp by metis
    then have "mapR (planRuleGroup M rg) (present lg) = Inr (map f (present lg))"
      by (intro mapR_all_ok) simp
    then show ?thesis by (simp add: planRuleGroups_def)
  qed
  show ?thesis
    using tree [of "b_Policies local" "b_Policies remote"] groups [of "b_Groups local" "b_Groups remote"]
    by (auto simp: Plan_def isOk_iff split: sum.splits)
qed

lemma equalContactPoints_restore:
  assumes "marshals (m_point M)"
  shows "equalContactPoints M l r = Inr
     (deep_equal (restoreRedacted
         (projected (m_point M) stripContactPointFields (contactPointBody l (cp_UID r)))
         (projected (m_point M) stripContactPointFields r))
       (projected (m_point M) stripContactPointFields r))"
  unfolding equalContactPoints_def point_eq.equalProjected_value [OF assms]
  by (simp add: equalRedacted_iff_restore point_eq.projected_wf [OF assms])

section \<open>A pulled bundle plans no change\<close>

text \<open>The fields Grafana owns are marshalled under the stripped keys only.\<close>

definition readonly_keys :: "marshaller \<Rightarrow> bool" where
  "readonly_keys M \<longleftrightarrow>
     (\<forall>r i p u. projected (m_rule M) stripRuleFields (r\<lparr>r_ID := i, r_Provenance := p, r_Updated := u\<rparr>)
              = projected (m_rule M) stripRuleFields r) \<and>
     (\<forall>c p. projected (m_point M) stripContactPointFields (c\<lparr>cp_Provenance := p\<rparr>)
          = projected (m_point M) stripContactPointFields c) \<and>
     (\<forall>t. projected (m_route M) stripRouteFields (routeBody t)
        = projected (m_route M) stripRouteFields t)"

text \<open>A file's rule, contact point and tree against the remote ones: they may differ in what Grafana
  owns and, for a rule, in the three fields the group decides.\<close>

definition file_rule :: "rule \<Rightarrow> rule \<Rightarrow> bool" where
  "file_rule l r \<longleftrightarrow> l\<lparr>r_ID := r_ID r, r_Provenance := r_Provenance r, r_Updated := r_Updated r,
     r_FolderUID := r_FolderUID r, r_RuleGroup := r_RuleGroup r, r_OrgID := r_OrgID r\<rparr> = r"

definition file_group :: "rule_group \<Rightarrow> rule_group \<Rightarrow> bool" where
  "file_group l r \<longleftrightarrow> groupRef l = groupRef r \<and> g_Interval l = g_Interval r \<and>
     list_all2 file_rule (present (g_Rules l)) (present (g_Rules r))"

definition file_point :: "contact_point \<Rightarrow> contact_point \<Rightarrow> bool" where
  "file_point l r \<longleftrightarrow> l\<lparr>cp_Provenance := cp_Provenance r\<rparr> = r"

definition file_of :: "Bundle \<Rightarrow> Bundle \<Rightarrow> bool" where
  "file_of local remote \<longleftrightarrow>
     list_all2 file_group (present (b_Groups local)) (present (b_Groups remote)) \<and>
     list_all2 file_point (present (b_ContactPoints local)) (present (b_ContactPoints remote)) \<and>
     map_option routeBody (b_Policies local) = map_option routeBody (b_Policies remote)"

text \<open>What Grafana reports: groups and uids are pairwise different, every rule has a uid and an
  organisation and names its own group, every contact point has a uid.\<close>

definition reported_group :: "rule_group \<Rightarrow> bool" where
  "reported_group g \<longleftrightarrow> uids_distinct g \<and> uids_given g \<and>
     (\<forall>r \<in> set (present (g_Rules g)). r_FolderUID r = Some (g_FolderUID g) \<and>
        r_RuleGroup r = Some (g_Title g) \<and> r_OrgID r \<noteq> None)"

definition reported :: "Bundle \<Rightarrow> bool" where
  "reported b \<longleftrightarrow> distinct (map groupRef (present (b_Groups b))) \<and>
     (\<forall>g \<in> set (present (b_Groups b)). reported_group g) \<and>
     distinct (map cp_UID (present (b_ContactPoints b))) \<and>
     (\<forall>c \<in> set (present (b_ContactPoints b)). cp_UID c \<noteq> [])"

lemma owned_fields_back:
  "l\<lparr>r_ID := i, r_Provenance := p, r_Updated := u, r_FolderUID := f, r_RuleGroup := g, r_OrgID := org\<rparr>
    \<lparr>r_ID := r_ID l, r_Provenance := r_Provenance l, r_Updated := r_Updated l,
     r_FolderUID := r_FolderUID l, r_RuleGroup := r_RuleGroup l, r_OrgID := r_OrgID l\<rparr> = l"
  by (cases l) simp

lemma file_rule_eq:
  assumes "file_rule l r"
  shows "r\<lparr>r_ID := r_ID l, r_Provenance := r_Provenance l, r_Updated := r_Updated l,
     r_FolderUID := r_FolderUID l, r_RuleGroup := r_RuleGroup l, r_OrgID := r_OrgID l\<rparr> = l"
  using owned_fields_back [where l = l and i = "r_ID r" and p = "r_Provenance r" and u = "r_Updated r"
      and f = "r_FolderUID r" and g = "r_RuleGroup r" and org = "r_OrgID r"]
  unfolding assms [unfolded file_rule_def] .

lemma file_rule_same:
  assumes M: "marshals (m_rule M)" and k: "readonly_keys M" and f: "file_rule l r"
    and r: "r_FolderUID r = Some (g_FolderUID g)" "r_RuleGroup r = Some (g_Title g)" "r_OrgID r \<noteq> None"
  shows "r_UID l = r_UID r" and "same_rule M g l r"
proof -
  show "r_UID l = r_UID r" by (subst file_rule_eq [OF f, symmetric]) simp
  obtain org where org: "r_OrgID r = Some org" using r(3) by auto
  have "pinRule l (g_FolderUID g) (g_Title g) (r_OrgID r) =
      r\<lparr>r_ID := 0, r_Provenance := [], r_Updated := 0\<rparr>"
    unfolding pinRule_def Let_def org
    by (subst file_rule_eq [OF f, symmetric]) (use r org in simp)
  then have "projected (m_rule M) stripRuleFields (pinRule l (g_FolderUID g) (g_Title g) (r_OrgID r))
      = projected (m_rule M) stripRuleFields r"
    using k by (simp add: readonly_keys_def)
  then show "same_rule M g l r"
    by (simp add: same_rule_def deep_equal_refl rule_eq.projected_wf [OF M])
qed

lemma findGroup_member:
  assumes "distinct (map groupRef (present gs))" and "g \<in> set (present gs)"
  shows "findGroup gs (g_FolderUID g) (g_Title g) = Some g"
proof -
  have "find (\<lambda>x. g_FolderUID x = g_FolderUID g \<and> g_Title x = g_Title g) xs = Some g"
    if "distinct (map groupRef xs)" and "g \<in> set xs" for xs
    using that by (induction xs) (auto simp: groupRef_def image_iff)
  then show ?thesis using assms by (simp add: findGroup_def)
qed

lemma same_groupRef: "groupRef a = groupRef b \<longleftrightarrow> g_FolderUID a = g_FolderUID b \<and> g_Title a = g_Title b"
  by (simp add: groupRef_def)

lemma planRuleGroup_file:
  assumes M: "marshals (m_rule M)" and k: "readonly_keys M" and f: "file_group l r"
    and r: "reported_group r" and found: "findGroup remote (g_FolderUID l) (g_Title l) = Some r"
  shows "planRuleGroup M remote l = Inr \<lparr>c_Action = ActionUnchanged, c_Kind = KindRuleGroup,
     c_ID = groupID l, c_Detail = []\<rparr>"
proof -
  have all2: "list_all2 file_rule (present (g_Rules l)) (present (g_Rules r))"
    and id: "g_FolderUID l = g_FolderUID r" "g_Title l = g_Title r"
    using f by (auto simp: file_group_def same_groupRef)
  have same: "r_UID a = r_UID b \<and> same_rule M l a b"
    if "file_rule a b" and "b \<in> set (present (g_Rules r))" for a b
    using file_rule_same [OF M k that(1), of l] r that(2) id
    by (simp add: reported_group_def del: set_present)
  have pairs: "list_all2 (\<lambda>a b. r_UID a = r_UID b \<and> same_rule M l a b)
      (present (g_Rules l)) (present (g_Rules r))"
    using all2 by (rule list.rel_mono_strong) (rule same)
  then have "same_write M l r" using f by (simp add: same_write_def file_group_def)
  moreover have "map r_UID (present (g_Rules l)) = map r_UID (present (g_Rules r))"
    using pairs by (auto simp: list_all2_iff map_eq_iff_zip)
  then have "uids_distinct l" using r by (simp add: uids_distinct_def reported_group_def)
  ultimately have "groupDetail M l r = Inr []"
    using groupDetail_Nil_iff_same_write [OF M] r by (simp add: reported_group_def)
  then show ?thesis by (simp add: planRuleGroup_def found actionFor_def Let_def)
qed

lemma planRuleGroups_file:
  assumes M: "marshals (m_rule M)" and k: "readonly_keys M"
    and all2: "list_all2 file_group (present local) (present remote)"
    and d: "distinct (map groupRef (present remote))"
    and r: "\<And>g. g \<in> set (present remote) \<Longrightarrow> reported_group g"
  shows "planRuleGroups M local remote = Inr (map (\<lambda>g. \<lparr>c_Action = ActionUnchanged,
     c_Kind = KindRuleGroup, c_ID = groupID g, c_Detail = []\<rparr>) (present local))"
  unfolding planRuleGroups_def
proof (rule mapR_all_ok)
  fix l
  assume "l \<in> set (present local)"
  then obtain g where g: "g \<in> set (present remote)" "file_group l g"
    using list_all2_left [OF all2] by blast
  have "findGroup remote (g_FolderUID l) (g_Title l) = Some g"
    using findGroup_member [OF d g(1)] g(2) by (simp add: file_group_def same_groupRef)
  then show "planRuleGroup M remote l = Inr \<lparr>c_Action = ActionUnchanged, c_Kind = KindRuleGroup,
     c_ID = groupID l, c_Detail = []\<rparr>"
    by (rule planRuleGroup_file [OF M k g(2) r [OF g(1)]])
qed

lemma find_present_from:
  assumes "distinct (map cp_UID (present ps))" and "p \<in> set (present ps)"
  shows "\<exists>i. find (\<lambda>(i, q). cp_UID q = cp_UID p) (present_from n ps) = Some (i, p)"
  using assms by (induction ps arbitrary: n rule: present_from.induct) (auto simp: image_iff)

lemma present_from_inj:
  "(i, p) \<in> set (present_from n ps) \<Longrightarrow> (i, q) \<in> set (present_from n ps) \<Longrightarrow> p = q"
proof -
  have ge: "(j, x) \<in> set (present_from m xs) \<Longrightarrow> m \<le> j" for j x m and xs :: "'a option list"
    by (induction m xs rule: present_from.induct) auto
  show "(i, p) \<in> set (present_from n ps) \<Longrightarrow> (i, q) \<in> set (present_from n ps) \<Longrightarrow> p = q"
    by (induction n ps rule: present_from.induct) (auto dest: ge)
qed

lemma planContactPoint_file:
  assumes M: "marshals (m_point M)" and k: "readonly_keys M" and f: "file_point l r"
    and d: "distinct (map cp_UID (present remote))" and r: "r \<in> set (present remote)"
    and u: "cp_UID r \<noteq> []"
  shows "\<exists>i. (i, r) \<in> set (present_from 0 remote) \<and> (\<forall>s. fst s i = None \<longrightarrow>
     planContactPoint M remote s l = Inr ((fst s)(i \<mapsto> contactPointID l),
       snd s @ [\<lparr>c_Action = ActionUnchanged, c_Kind = KindContactPoint, c_ID = contactPointID l, c_Detail = []\<rparr>]))"
proof -
  have uid: "cp_UID l = cp_UID r" using arg_cong [OF f [unfolded file_point_def], of cp_UID] by simp
  obtain i where i: "find (\<lambda>(i, q). cp_UID q = cp_UID r) (present_from 0 remote) = Some (i, r)"
    using find_present_from [OF d r] by blast
  then have m: "matchContactPoint l remote = Inr (Some (i, r))"
    using u by (simp add: matchContactPoint_def uid)
  have "contactPointBody l (cp_UID r) = r\<lparr>cp_Provenance := []\<rparr>"
    using arg_cong [OF f [unfolded file_point_def], of "\<lambda>c. c\<lparr>cp_Provenance := []\<rparr>"] uid
    by (cases l) (simp add: contactPointBody_def)
  then have "projected (m_point M) stripContactPointFields (contactPointBody l (cp_UID r)) =
      projected (m_point M) stripContactPointFields r"
    using k by (simp add: readonly_keys_def)
  then have "equalContactPoints M l r = Inr True"
    unfolding equalContactPoints_def by (rule point_eq.equalProjected_same [OF M])
  moreover have "(i, r) \<in> set (present_from 0 remote)"
    using find_Some_in [OF i] by simp
  ultimately show ?thesis using m by (auto simp: planContactPoint_def actionFor_def)
qed

lemma planContactPoints_file:
  assumes M: "marshals (m_point M)" and k: "readonly_keys M"
    and d: "distinct (map cp_UID (present remote))"
    and u: "\<And>c. c \<in> set (present remote) \<Longrightarrow> cp_UID c \<noteq> []"
    and all2: "list_all2 file_point (present local) (present remote)"
  shows "planContactPoints M local remote = Inr (map (\<lambda>p. \<lparr>c_Action = ActionUnchanged,
     c_Kind = KindContactPoint, c_ID = contactPointID p, c_Detail = []\<rparr>) (present local))"
proof -
  let ?same = "\<lambda>p. \<lparr>c_Action = ActionUnchanged, c_Kind = KindContactPoint,
     c_ID = contactPointID p, c_Detail = []\<rparr>"
  have run: "\<exists>claimed. foldR (planContactPoint M remote) s ls = Inr (claimed, snd s @ map ?same ls)"
    if "list_all2 file_point ls rs" and "set rs \<subseteq> set (present remote)" and "distinct rs"
      and "\<forall>i \<in> dom (fst s). \<forall>r. (i, r) \<in> set (present_from 0 remote) \<longrightarrow> r \<notin> set rs" for ls rs s
    using that
  proof (induction ls rs arbitrary: s rule: list_all2_induct)
    case (Cons l ls r rs)
    obtain i where i: "(i, r) \<in> set (present_from 0 remote)"
      and step: "fst s i = None \<Longrightarrow> planContactPoint M remote s l =
        Inr ((fst s)(i \<mapsto> contactPointID l), snd s @ [?same l])"
      using planContactPoint_file [OF M k Cons.hyps(1) d] Cons.prems(1) u
      by (metis insert_subset list.simps(15))
    have free: "fst s i = None"
      using Cons.prems(3) i by (auto simp: domIff)
    let ?s = "((fst s)(i \<mapsto> contactPointID l), snd s @ [?same l])"
    have "\<forall>j \<in> dom (fst ?s). \<forall>q. (j, q) \<in> set (present_from 0 remote) \<longrightarrow> q \<notin> set rs"
      using Cons.prems(2,3) present_from_inj [OF i] by auto
    moreover have "set rs \<subseteq> set (present remote)" and "distinct rs"
      using Cons.prems(1,2) by simp_all
    ultimately have "\<exists>claimed. foldR (planContactPoint M remote) ?s ls =
        Inr (claimed, snd ?s @ map ?same ls)"
      using Cons.IH [of ?s] by blast
    then show ?case by (simp add: step [OF free])
  qed (simp, metis surjective_pairing)
  have "distinct (present remote)" using d by (simp add: distinct_map)
  then show ?thesis
    using run [OF all2, of "(Map.empty, [])"] by (auto simp: planContactPoints_def)
qed

lemma planPolicyTree_file:
  assumes M: "marshals (m_route M)" and k: "readonly_keys M"
    and f: "map_option routeBody local = map_option routeBody remote"
  shows "planPolicyTree M local remote = Inr (case local of None \<Rightarrow> []
     | Some t \<Rightarrow> [\<lparr>c_Action = ActionUnchanged, c_Kind = KindPolicyTree, c_ID = policyTreeID, c_Detail = []\<rparr>])"
proof (cases local)
  case (Some l)
  then obtain r where r: "remote = Some r" and same: "routeBody l = routeBody r"
    using f by (cases remote) auto
  have body: "projected (m_route M) stripRouteFields (routeBody t) =
      projected (m_route M) stripRouteFields t" for t
    using k by (simp add: readonly_keys_def)
  have "projected (m_route M) stripRouteFields l = projected (m_route M) stripRouteFields r"
    using body [of l] body [of r] same by simp
  then have "equalRoutes M l r = Inr True"
    unfolding equalRoutes_def by (rule route_eq.equalProjected_same [OF M])
  then show ?thesis by (simp add: planPolicyTree_def Some r actionFor_def Let_def)
qed (simp add: planPolicyTree_def)

section \<open>A concrete JSON form\<close>

text \<open>An instance of the parameter: the keys the generated models marshal under, every field of the
  records at its key. The examples of the development use it.\<close>

definition kept_json :: "json \<Rightarrow> json" where
  "kept_json v = (if wf_json v then v else JNull)"

definition option_json :: "('a \<Rightarrow> json) \<Rightarrow> 'a option \<Rightarrow> json" where
  "option_json f v = (case v of None \<Rightarrow> JNull | Some x \<Rightarrow> f x)"

definition pairs_json :: "(string \<times> string) list \<Rightarrow> json" where
  "pairs_json kvs = JArr (map (\<lambda>(k, v). JArr [JStr k, JStr v]) kvs)"

definition rule_json :: "rule \<Rightarrow> json" where
  "rule_json r = JObj
     [(''id'', JInt (r_ID r)), (''uid'', JStr (r_UID r)), (''title'', option_json JStr (r_Title r)),
      (''folderUID'', option_json JStr (r_FolderUID r)), (''ruleGroup'', option_json JStr (r_RuleGroup r)),
      (''orgID'', option_json JInt (r_OrgID r)), (''provenance'', JStr (r_Provenance r)),
      (''updated'', JInt (r_Updated r)), (''for'', option_json JInt (r_For r)),
      (''isPaused'', JBool (r_IsPaused r)), (''record'', option_json kept_json (r_Record r)),
      (''condition'', option_json JStr (r_Condition r)), (''data'', JArr (map kept_json (r_Data r))),
      (''execErrState'', option_json JStr (r_ExecErrState r)),
      (''noDataState'', option_json JStr (r_NoDataState r)), (''labels'', pairs_json (r_Labels r)),
      (''annotations'', pairs_json (r_Annotations r)), (''rest'', kept_json (r_Rest r))]"

definition group_json :: "rule_group \<Rightarrow> json" where
  "group_json g = JObj
     [(''folderUid'', JStr (g_FolderUID g)), (''title'', JStr (g_Title g)),
      (''interval'', JInt (g_Interval g)), (''rules'', JArr (map (option_json rule_json) (g_Rules g)))]"

definition point_json :: "contact_point \<Rightarrow> json" where
  "point_json c = JObj
     [(''uid'', JStr (cp_UID c)), (''name'', JStr (cp_Name c)), (''type'', option_json JStr (cp_Type c)),
      (''settings'', option_json kept_json (cp_Settings c)), (''provenance'', JStr (cp_Provenance c)),
      (''rest'', kept_json (cp_Rest c))]"

fun route_json :: "route \<Rightarrow> json" where
  "route_json (Route p rs rest) = JObj
     [(''provenance'', JStr p),
      (''routes'', case rs of None \<Rightarrow> JNull
         | Some cs \<Rightarrow> JArr (map (\<lambda>c. case c of None \<Rightarrow> JNull | Some r \<Rightarrow> route_json r) cs)),
      (''rest'', kept_json rest)]"

definition sample_marshaller :: marshaller where
  "sample_marshaller = \<lparr>m_rule = Some \<circ> rule_json, m_group = Some \<circ> group_json,
     m_point = Some \<circ> point_json, m_route = Some \<circ> route_json\<rparr>"

lemma wf_kept_json [simp]: "wf_json (kept_json v)"
  by (simp add: kept_json_def)

lemma wf_option_json: "(\<And>x. wf_json (f x)) \<Longrightarrow> wf_json (option_json f v)"
  by (cases v) (simp_all add: option_json_def)

lemma wf_rule_json [simp]: "wf_json (rule_json r)"
  by (simp add: rule_json_def wf_option_json pairs_json_def list_all_iff case_prod_unfold)

lemma wf_route_json [simp]: "wf_json (route_json t)"
  by (induction t) (auto simp: list_all_iff split: option.splits)

lemma sample_marshals [simp]:
  "marshals (m_rule sample_marshaller)" "marshals (m_group sample_marshaller)"
  "marshals (m_point sample_marshaller)" "marshals (m_route sample_marshaller)"
  by (simp_all add: sample_marshaller_def marshals_def group_json_def point_json_def wf_option_json
      list_all_iff)

lemma route_json_body:
  "stripRouteFields (normalizeNumbers (route_json (routeBody t))) =
     stripRouteFields (normalizeNumbers (route_json t))"
proof (induction t)
  case (Route p rs rest)
  then show ?case
    by (cases rs) (auto simp: provenanceKey_def routesKey_def split: option.splits)
qed

lemma sample_readonly [simp]: "readonly_keys sample_marshaller"
  by (simp add: readonly_keys_def sample_marshaller_def projected_def route_json_body rule_json_def
      point_json_def stripRuleFields_def stripContactPointFields_def idKey_def updatedKey_def provenanceKey_def)

definition sample_rule :: rule where
  "sample_rule = \<lparr>r_ID = 7, r_UID = ''cpu'', r_Title = Some ''High CPU'', r_FolderUID = Some ''infra'',
     r_RuleGroup = Some ''hosts'', r_OrgID = Some 1, r_Provenance = ''api'', r_Updated = 99, r_For = None,
     r_IsPaused = False, r_Record = None, r_Condition = Some ''A'', r_Data = [JStr ''up''],
     r_ExecErrState = None, r_NoDataState = None, r_Labels = [], r_Annotations = [], r_Rest = JNull\<rparr>"

definition sample_rule_2 :: rule where
  "sample_rule_2 = sample_rule\<lparr>r_ID := 8, r_UID := ''mem'', r_Title := Some ''High memory''\<rparr>"

definition sample_group :: rule_group where
  "sample_group = \<lparr>g_FolderUID = ''infra'', g_Title = ''hosts'', g_Interval = 60,
     g_Rules = [Some sample_rule, Some sample_rule_2]\<rparr>"

definition sample_point :: contact_point where
  "sample_point = \<lparr>cp_UID = ''ops'', cp_Name = ''Ops'', cp_Type = Some ''email'', cp_Settings = None,
     cp_Provenance = ''api'', cp_Rest = JNull\<rparr>"

definition sample_tree :: route where
  "sample_tree = Route ''api'' (Some [Some (Route ''api'' None (JStr ''team=ops''))]) JNull"

definition sample_bundle :: Bundle where
  "sample_bundle = \<lparr>b_Groups = [Some sample_group], b_ContactPoints = [Some sample_point],
     b_Policies = Some sample_tree\<rparr>"

text \<open>The files of the bundle: Grafana's own fields are gone.\<close>

definition file_rule_of :: "rule \<Rightarrow> rule" where
  "file_rule_of r = r\<lparr>r_ID := 0, r_Provenance := [], r_Updated := 0\<rparr>"

definition sample_files :: Bundle where
  "sample_files = \<lparr>
     b_Groups = [Some (sample_group\<lparr>g_Rules := [Some (file_rule_of sample_rule), Some (file_rule_of sample_rule_2)]\<rparr>)],
     b_ContactPoints = [Some (sample_point\<lparr>cp_Provenance := []\<rparr>)], b_Policies = Some (routeBody sample_tree)\<rparr>"

lemmas sample_defs = sample_rule_def sample_rule_2_def sample_group_def sample_point_def sample_tree_def
  sample_bundle_def sample_files_def file_rule_of_def

lemma plan_file_unchanged:
  assumes M: "marshals (m_rule M)" "marshals (m_point M)" "marshals (m_route M)" "readonly_keys M"
    and R: "reported remote" and f: "file_of local remote"
  shows "\<exists>cs. Plan M local remote = Inr cs \<and>
     (\<forall>c \<in> set cs. c_Action c = ActionUnchanged \<and> c_Detail c = []) \<and>
     map changeKey cs = sort (localKeys local)"
proof -
  let ?same = "\<lambda>(k, i). \<lparr>c_Action = ActionUnchanged, c_Kind = k, c_ID = i, c_Detail = []\<rparr>"
  have points: "planContactPoints M (b_ContactPoints local) (b_ContactPoints remote) =
      Inr (map ?same (map (\<lambda>p. (KindContactPoint, contactPointID p)) (present (b_ContactPoints local))))"
    using planContactPoints_file [OF M(2,4)] R f by (simp add: reported_def file_of_def comp_def)
  have groups: "planRuleGroups M (b_Groups local) (b_Groups remote) =
      Inr (map ?same (map (\<lambda>g. (KindRuleGroup, groupID g)) (present (b_Groups local))))"
    using planRuleGroups_file [OF M(1,4)] R f by (simp add: reported_def file_of_def comp_def del: set_present)
  have tree: "planPolicyTree M (b_Policies local) (b_Policies remote) =
      Inr (map ?same (case b_Policies local of None \<Rightarrow> [] | Some t \<Rightarrow> [(KindPolicyTree, policyTreeID)]))"
    using planPolicyTree_file [OF M(3,4), of "b_Policies local"] f
    by (simp add: file_of_def split: option.splits)
  have "Plan M local remote = Inr (sort_key changeKey (map ?same (localKeys local)))"
    by (simp add: Plan_def points groups tree localKeys_def)
  moreover have "map changeKey (sort_key changeKey (map ?same (localKeys local))) = sort (localKeys local)"
  proof (rule properties_for_sort [symmetric])
    show "mset (map changeKey (sort_key changeKey (map ?same (localKeys local)))) = mset (localKeys local)"
      by (simp only: mset_map mset_sort)
         (simp add: multiset.map_comp comp_def case_prod_unfold changeKey_def)
  qed simp
  ultimately show ?thesis by auto
qed

text \<open>C8: a bundle pulled from an instance plans against that instance as no change: whatever the
  JSON form of the models (it has to exist, be well-formed, and keep Grafana's own fields under the
  stripped keys), every local group, contact point and policy tree gets one entry, unchanged and
  without a detail line, in push order.\<close>

theorem plan_of_pulled:
  assumes M: "marshals (m_rule M)" "marshals (m_point M)" "marshals (m_route M)" "readonly_keys M"
    and R: "reported remote" and f: "file_of local remote"
  shows "\<exists>cs. Plan M local remote = Inr cs \<and>
     (\<forall>c \<in> set cs. c_Action c = ActionUnchanged \<and> c_Detail c = []) \<and>
     map changeKey cs = sort (localKeys local)"
  using plan_file_unchanged [OF assms] .

theorem plan_of_pulled_witness:
  "\<exists>cs. Plan sample_marshaller sample_files sample_bundle = Inr cs \<and>
     (\<forall>c \<in> set cs. c_Action c = ActionUnchanged \<and> c_Detail c = []) \<and>
     map changeKey cs = sort (localKeys sample_files)"
proof (rule plan_of_pulled)
  show "reported sample_bundle"
    by (simp add: reported_def reported_group_def uids_distinct_def uids_given_def groupRef_def sample_defs)
  show "file_of sample_files sample_bundle"
    by (simp add: file_of_def file_group_def file_rule_def file_point_def groupRef_def sample_defs)
qed simp_all

text \<open>The plan holds exactly one entry for every object of the local bundle, of its kind and
  under its ID, sorted into push order (contact points, policy tree, rule groups, each by ID).\<close>

theorem plan_entries:
  assumes "Plan M local remote = Inr cs"
  shows "map changeKey cs = sort (localKeys local)"
  using plan_keys [OF assms] by (metis properties_for_sort)

theorem plan_entries_witness:
  "\<exists>cs. Plan sample_marshaller sample_bundle sample_files = Inr cs \<and> map changeKey cs = sort (localKeys sample_bundle)"
proof -
  have "isOk (Plan sample_marshaller sample_bundle sample_files)" by code_simp
  then obtain cs where "Plan sample_marshaller sample_bundle sample_files = Inr cs" by (auto simp: isOk_iff)
  then show ?thesis using plan_entries by blast
qed

text \<open>C9: a rule group is planned as unchanged exactly when the write would change nothing: the
  intervals agree and, rule by rule in order, the uids agree and the body the push would send is,
  up to the fields Grafana owns, the remote rule. The uids of each group are taken to be different,
  and every remote rule to have one.\<close>

theorem group_unchanged_iff:
  assumes M: "marshals (m_rule M)" and found: "findGroup remote (g_FolderUID g) (g_Title g) = Some m"
    and uids: "uids_distinct g" "uids_distinct m" "uids_given m"
  shows "\<exists>c. planRuleGroup M remote g = Inr c \<and> (c_Action c = ActionUnchanged \<longleftrightarrow> same_write M g m)"
proof -
  obtain d where d: "groupDetail M g m = Inr d" using groupDetail_total [OF M] by blast
  have "d = [] \<longleftrightarrow> same_write M g m"
    using groupDetail_Nil_iff_same_write [OF M uids] d by simp
  then show ?thesis by (simp add: planRuleGroup_def found d Let_def actionFor_def)
qed

theorem group_unchanged_iff_witness:
  "\<exists>c. planRuleGroup sample_marshaller [Some sample_group]
       (sample_group\<lparr>g_Rules := [Some sample_rule_2, Some sample_rule]\<rparr>) = Inr c \<and>
     (c_Action c = ActionUnchanged \<longleftrightarrow> same_write sample_marshaller
       (sample_group\<lparr>g_Rules := [Some sample_rule_2, Some sample_rule]\<rparr>) sample_group)"
  by (rule group_unchanged_iff) (simp_all add: findGroup_def uids_distinct_def uids_given_def sample_defs)



text \<open>A contact point is planned as unchanged exactly when filling the redaction markers of the
  local one with what Grafana reports at the same places yields the remote one: a marker means the
  stored secret is kept, and any other difference is an update.\<close>

theorem contact_point_unchanged_iff:
  assumes M: "marshals (m_point M)" and m: "matchContactPoint p remote = Inr (Some (i, r))" and free: "fst s i = None"
  shows "\<exists>c s'. planContactPoint M remote s p = Inr s' \<and> snd s' = snd s @ [c] \<and> c_ID c = contactPointID p \<and>
     (c_Action c = ActionUnchanged \<longleftrightarrow>
        (let l = projected (m_point M) stripContactPointFields (contactPointBody p (cp_UID r));
             v = projected (m_point M) stripContactPointFields r
         in deep_equal (restoreRedacted l v) v))"
  by (simp add: planContactPoint_def m free equalContactPoints_restore [OF M] actionFor_def Let_def)

theorem contact_point_unchanged_iff_witness:
  "\<exists>c s'. planContactPoint sample_marshaller [Some sample_point] (Map.empty, [])
       (sample_point\<lparr>cp_Settings := Some (JStr redactedValue)\<rparr>) = Inr s' \<and> snd s' = [] @ [c] \<and>
     c_ID c = ''ops'' \<and> (c_Action c = ActionUnchanged \<longleftrightarrow>
        (let l = projected (m_point sample_marshaller) stripContactPointFields
               (contactPointBody (sample_point\<lparr>cp_Settings := Some (JStr redactedValue)\<rparr>) ''ops'');
             v = projected (m_point sample_marshaller) stripContactPointFields sample_point
         in deep_equal (restoreRedacted l v) v))"
proof -
  have "matchContactPoint (sample_point\<lparr>cp_Settings := Some (JStr redactedValue)\<rparr>) [Some sample_point] =
      Inr (Some (0, sample_point))" by (simp add: matchContactPoint_def sample_point_def)
  from contact_point_unchanged_iff [OF sample_marshals(3) this, of "(Map.empty, [])"] show ?thesis
    by (simp add: contactPointID_def sample_point_def)
qed

end
