(* ===== verification/Scope.thy ===== *)
theory Scope
  imports Plan_Properties
begin

text \<open>
  Rule-scoped pushes (\<^verbatim>\<open>internal/alerts/scope.go\<close>): naming rules of the bundle, building the
  synthetic group that is the remote group with only the named rules replaced, planning it, and the
  check that refuses a plan reaching beyond the named rules.
\<close>

section \<open>The named rules\<close>

record scopedRule =
  sc_group :: rule_group
  sc_rule :: rule

definition locateRule ::
  "Bundle \<Rightarrow> (string \<rightharpoonup> scopedRule) \<Rightarrow> string \<Rightarrow> err + (string \<rightharpoonup> scopedRule)" where
  "locateRule local located uid =
     (case remoteGroupHolding (b_Groups local) uid of
        None \<Rightarrow> Inl (Leaf (RuleNotInBundle uid))
      | Some g \<Rightarrow>
          (case findRule (g_Rules g) uid of
             None \<Rightarrow> Inl (Leaf (RuleNotInBundle uid))
           | Some r \<Rightarrow> Inr (located(uid \<mapsto> \<lparr>sc_group = g, sc_rule = r\<rparr>))))"

definition locateLocalRules :: "Bundle \<Rightarrow> string list \<Rightarrow> err + (string \<rightharpoonup> scopedRule)" where
  "locateLocalRules local uids = foldR (locateRule local) Map.empty uids"

section \<open>The pair to plan\<close>

definition syntheticRule :: "(string \<rightharpoonup> scopedRule) \<Rightarrow> rule option \<Rightarrow> rule option" where
  "syntheticRule located r =
     (case r of None \<Rightarrow> None
      | Some x \<Rightarrow> (case located (r_UID x) of Some named \<Rightarrow> Some (sc_rule named) | None \<Rightarrow> Some x))"

definition syntheticGroup :: "rule_group \<Rightarrow> (string \<rightharpoonup> scopedRule) \<Rightarrow> rule_group" where
  "syntheticGroup remote located = remote\<lparr>g_Rules := map (syntheticRule located) (g_Rules remote)\<rparr>"

text \<open>One round of the loop of \<^verbatim>\<open>scopeBundles\<close>: the group IDs seen, and the two lists.\<close>

definition scopeRule ::
  "(string \<rightharpoonup> scopedRule) \<Rightarrow> Bundle \<Rightarrow> string set \<times> rule_group list \<times> rule_group list \<Rightarrow> string
     \<Rightarrow> err + string set \<times> rule_group list \<times> rule_group list" where
  "scopeRule located remote s uid =
     (case s of (seen, held, synthetic) \<Rightarrow>
      case remoteGroupHolding (b_Groups remote) uid of
        None \<Rightarrow> Inl (Leaf (RuleGoneFromGroup uid))
      | Some g \<Rightarrow>
          (case located uid of
             None \<Rightarrow> Inl (Leaf (RuleNotInBundle uid))
           | Some named \<Rightarrow>
               if g_FolderUID (sc_group named) \<noteq> g_FolderUID g \<or> g_Title (sc_group named) \<noteq> g_Title g
               then Inl (Leaf (RuleGroupMoved uid (groupRef g) (groupRef (sc_group named))))
               else if groupID g \<in> seen then Inr s
               else Inr (insert (groupID g) seen, held @ [g], synthetic @ [syntheticGroup g located])))"

definition groupsBundle :: "rule_group list \<Rightarrow> Bundle" where
  "groupsBundle gs = \<lparr>b_Groups = map Some (sort_key groupRef gs), b_ContactPoints = [], b_Policies = None\<rparr>"

definition scopeBundles :: "Bundle \<Rightarrow> Bundle \<Rightarrow> string list \<Rightarrow> err + Bundle \<times> Bundle" where
  "scopeBundles local remote uids =
     bindR (locateLocalRules local uids) (\<lambda>located.
     bindR (foldR (scopeRule located remote) ({}, [], []) uids) (\<lambda>(seen, held, synthetic).
       Inr (groupsBundle synthetic, groupsBundle held)))"

section \<open>The check\<close>

definition allowLine ::
  "rule_group \<times> string \<Rightarrow> (string \<rightharpoonup> string set) \<times> string set \<Rightarrow> (string \<rightharpoonup> string set) \<times> string set" where
  "allowLine gu s =
     (case gu of (g, uid) \<Rightarrow> case s of (allowed, claimed) \<Rightarrow>
      case findRule (g_Rules g) uid of
        None \<Rightarrow> s
      | Some r \<Rightarrow>
          if uid \<in> claimed then s
          else (allowed(groupID g \<mapsto>
                  insert (ruleDetail changedMarker r)
                    (case allowed (groupID g) of None \<Rightarrow> {} | Some lines \<Rightarrow> lines)),
                insert uid claimed))"

definition allowedScopedDetails :: "rule_group option list \<Rightarrow> string list \<Rightarrow> (string \<rightharpoonup> string set)" where
  "allowedScopedDetails gs uids = fst (fold allowLine (List.product (present gs) uids) (Map.empty, {}))"

definition actionName :: "Action \<Rightarrow> string" where
  "actionName a = (case a of ActionCreate \<Rightarrow> ''Create'' | ActionUpdate \<Rightarrow> ''Update''
     | ActionUnchanged \<Rightarrow> ''Unchanged'')"

definition scopedOffence :: "Change \<Rightarrow> (string \<rightharpoonup> string set) \<Rightarrow> string" where
  "scopedOffence change allowed =
     (if c_Kind change \<noteq> KindRuleGroup then ''not a rule group''
      else if c_Action change \<noteq> ActionUpdate \<and> c_Action change \<noteq> ActionUnchanged
      then ''action '' @ actionName (c_Action change)
      else case allowed (c_ID change) of
        None \<Rightarrow> ''a rule group holding none of the named rules''
      | Some lines \<Rightarrow>
          if c_Action change = ActionUnchanged \<and> c_Detail change \<noteq> []
          then ''an unchanged group with changes''
          else if c_Action change = ActionUpdate \<and> c_Detail change = []
          then ''an update that changes none of the named rules''
          else case find (\<lambda>line. line \<notin> lines) (c_Detail change) of None \<Rightarrow> [] | Some line \<Rightarrow> line)"

definition planScoped :: "marshaller \<Rightarrow> Bundle \<Rightarrow> Bundle \<Rightarrow> string list \<Rightarrow> err + Change list" where
  "planScoped M local remote uids =
     bindR (Plan M local remote) (\<lambda>changes.
       let allowed = allowedScopedDetails (b_Groups local) uids
       in case find (\<lambda>c. scopedOffence c allowed \<noteq> []) changes of
            None \<Rightarrow> Inr changes
          | Some c \<Rightarrow> Inl (Leaf (ScopedPushRefused (c_Kind c) (c_ID c) (scopedOffence c allowed))))"

section \<open>Differences that are not pushed\<close>

text \<open>The warnings are the result: the group ID and the number of differing lines, in order.\<close>

definition warnOtherDifference ::
  "marshaller \<Rightarrow> (string \<rightharpoonup> scopedRule) \<Rightarrow> Bundle \<Rightarrow> string list \<Rightarrow> string set \<times> (string \<times> nat) list
     \<Rightarrow> string \<Rightarrow> err + string set \<times> (string \<times> nat) list" where
  "warnOtherDifference M located remote uids s uid =
     (case s of (warned, warnings) \<Rightarrow>
      case located uid of
        None \<Rightarrow> Inr s
      | Some named \<Rightarrow>
          (let file = sc_group named in
           if groupID file \<in> warned then Inr s
           else case findGroup (b_Groups remote) (g_FolderUID file) (g_Title file) of
             None \<Rightarrow> Inr (insert (groupID file) warned, warnings)
           | Some held \<Rightarrow>
               (case otherDifferences M file held (set uids) of
                  Inl e \<Rightarrow> Inl (Wrap (PushOperation KindRuleGroup (groupID file)) e)
                | Inr lines \<Rightarrow> Inr (insert (groupID file) warned,
                    if lines = [] then warnings else warnings @ [(groupID file, length lines)]))))"

definition warnOtherDifferences ::
  "marshaller \<Rightarrow> (string \<rightharpoonup> scopedRule) \<Rightarrow> Bundle \<Rightarrow> string list \<Rightarrow> err + (string \<times> nat) list" where
  "warnOtherDifferences M located remote uids =
     bindR (foldR (warnOtherDifference M located remote uids) ({}, []) uids) (\<lambda>s. Inr (snd s))"

end
