(* ===== verification/Scope_Properties.thy ===== *)
theory Scope_Properties
  imports Scope
begin

text \<open>
  What a rule-scoped push promises: the pair it plans differs in the named rules only, the check
  accepts every such pair built from real data, and, whatever pair it is given, an accepted plan
  writes nothing but the named rules.
\<close>

section \<open>Sorting and naming\<close>

lemma groupRef_synthetic [simp]: "groupRef (syntheticGroup g located) = groupRef g"
  by (simp add: groupRef_def syntheticGroup_def)

lemma groupID_synthetic [simp]: "groupID (syntheticGroup g located) = groupID g"
  by (simp add: groupID_def)

lemma synthetic_fields [simp]:
  "g_FolderUID (syntheticGroup g located) = g_FolderUID g" "g_Title (syntheticGroup g located) = g_Title g"
  "g_Interval (syntheticGroup g located) = g_Interval g"
  by (simp_all add: syntheticGroup_def)

lemma groupsBundle_synthetic:
  "groupsBundle (map (\<lambda>g. syntheticGroup g located) gs) =
     \<lparr>b_Groups = map (\<lambda>g. Some (syntheticGroup g located)) (sort_key groupRef gs),
      b_ContactPoints = [], b_Policies = None\<rparr>"
  by (simp add: groupsBundle_def sort_key_map comp_def)

text \<open>Every located rule is the rule of that uid in the first group of the bundle holding it.\<close>

definition located_in :: "Bundle \<Rightarrow> (string \<rightharpoonup> scopedRule) \<Rightarrow> bool" where
  "located_in local located \<longleftrightarrow> (\<forall>u s. located u = Some s \<longrightarrow>
     remoteGroupHolding (b_Groups local) u = Some (sc_group s) \<and>
     findRule (g_Rules (sc_group s)) u = Some (sc_rule s))"

lemma locateLocalRules_ok:
  assumes "locateLocalRules local uids = Inr located"
  shows "located_in local located" and "dom located = set uids"
proof -
  have inv: "located_in local t" if "foldR (locateRule local) s us = Inr t" and "located_in local s" for s t us
    using that by (rule foldR_invariant [where P = "located_in local"])
      (auto simp: located_in_def locateRule_def split: option.splits if_splits)
  have dom: "dom t = dom s \<union> set us" if "foldR (locateRule local) s us = Inr t" for s t us
    using that
  proof (induction us arbitrary: s)
    case (Cons u us)
    then obtain s' where s': "locateRule local s u = Inr s'" and rest: "foldR (locateRule local) s' us = Inr t"
      by (auto split: sum.splits)
    have "dom s' = insert u (dom s)"
      using s' by (auto simp: locateRule_def split: option.splits)
    with Cons.IH [OF rest] show ?case by auto
  qed simp
  show "located_in local located"
    using inv [OF assms [unfolded locateLocalRules_def]] by (simp add: located_in_def)
  show "dom located = set uids"
    using dom [OF assms [unfolded locateLocalRules_def]] by simp
qed

lemma located_uid: "located_in local located \<Longrightarrow> located u = Some s \<Longrightarrow> r_UID (sc_rule s) = u \<and> u \<noteq> []"
  by (auto simp: located_in_def dest!: findRule_Some)

section \<open>The pair\<close>

definition scope_groups ::
  "(string \<rightharpoonup> scopedRule) \<Rightarrow> Bundle \<Rightarrow> string list \<Rightarrow> string set \<times> rule_group list \<times> rule_group list \<Rightarrow> bool" where
  "scope_groups located remote done_uids s \<longleftrightarrow> (case s of (seen, held, synthetic) \<Rightarrow>
     seen = set (map groupID held) \<and> distinct (map groupID held) \<and>
     synthetic = map (\<lambda>g. syntheticGroup g located) held \<and>
     (\<forall>g \<in> set held. Some g \<in> set (b_Groups remote) \<and>
        (\<exists>u \<in> set done_uids. findRule (g_Rules g) u \<noteq> None)) \<and>
     (\<forall>u \<in> set done_uids. \<exists>g. remoteGroupHolding (b_Groups remote) u = Some g \<and> groupID g \<in> seen \<and>
        (\<exists>n. located u = Some n \<and> groupRef (sc_group n) = groupRef g)))"

lemma scopeRule_groups:
  assumes "scopeRule located remote s u = Inr t" and "scope_groups located remote us s"
  shows "scope_groups located remote (us @ [u]) t"
proof -
  obtain g n where g: "remoteGroupHolding (b_Groups remote) u = Some g" and n: "located u = Some n"
    and ref: "groupRef (sc_group n) = groupRef g"
    and t: "t = (case s of (seen, held, synthetic) \<Rightarrow> if groupID g \<in> seen then s
        else (insert (groupID g) seen, held @ [g], synthetic @ [syntheticGroup g located]))"
    using assms(1) by (auto simp: scopeRule_def groupRef_def split: option.splits prod.splits if_splits)
  show ?thesis
    using assms(2) g n ref remoteGroupHolding_Some [OF g] unfolding t
    by (cases s) (auto simp: scope_groups_def)
qed

lemma scope_run_groups:
  assumes "foldR (scopeRule located remote) s us = Inr t" and "scope_groups located remote ds s"
  shows "scope_groups located remote (ds @ us) t"
  using assms
proof (induction us arbitrary: s ds)
  case (Cons u us)
  then obtain s' where s': "scopeRule located remote s u = Inr s'"
    and rest: "foldR (scopeRule located remote) s' us = Inr t" by (auto split: sum.splits)
  show ?case using Cons.IH [OF rest scopeRule_groups [OF s' Cons.prems(2)]] by simp
qed simp

lemma scopeBundles_shape:
  assumes "scopeBundles local remote uids = Inr (S, H)"
  obtains located gs where
    "located_in local located" "dom located = set uids"
    "S = groupsBundle (map (\<lambda>g. syntheticGroup g located) gs)" "H = groupsBundle gs"
    "distinct (map groupID gs)"
    "\<And>g. g \<in> set gs \<Longrightarrow> Some g \<in> set (b_Groups remote)"
    "\<And>g. g \<in> set gs \<Longrightarrow> \<exists>u \<in> set uids. findRule (g_Rules g) u \<noteq> None"
    "\<And>u. u \<in> set uids \<Longrightarrow> \<exists>g. remoteGroupHolding (b_Groups remote) u = Some g \<and>
       groupID g \<in> groupID ` set gs \<and> (\<exists>n. located u = Some n \<and> groupRef (sc_group n) = groupRef g)"
proof -
  obtain located seen held synthetic where
    l: "locateLocalRules local uids = Inr located"
    and f: "foldR (scopeRule located remote) ({}, [], []) uids = Inr (seen, held, synthetic)"
    and SH: "S = groupsBundle synthetic" "H = groupsBundle held"
    using assms by (auto simp: scopeBundles_def bindR_Inr_iff)
  have "scope_groups located remote [] ({}, [], [])" by (simp add: scope_groups_def)
  then have "scope_groups located remote uids (seen, held, synthetic)"
    using scope_run_groups [OF f, of "[]"] by simp
  then show thesis
    using that [of located held] locateLocalRules_ok [OF l] SH by (auto simp: scope_groups_def)
qed

section \<open>What an accepted plan can change\<close>

text \<open>The line of a changed rule names its uid, as long as no uid holds an opening parenthesis.\<close>

lemma ruleDetail_uid:
  assumes "ruleDetail m a = ruleDetail m b" and "r_UID a \<noteq> []" "r_UID b \<noteq> []"
    and "CHR ''('' \<notin> set (r_UID a)" "CHR ''('' \<notin> set (r_UID b)"
  shows "r_UID a = r_UID b"
proof -
  define x where "x = m @ '' '' @ (case r_Title a of None \<Rightarrow> [] | Some t \<Rightarrow> t) @ '' ''"
  define y where "y = m @ '' '' @ (case r_Title b of None \<Rightarrow> [] | Some t \<Rightarrow> t) @ '' ''"
  have "x @ CHR ''('' # r_UID a @ '')'' = y @ CHR ''('' # r_UID b @ '')''"
    using assms(1-3) by (simp add: ruleDetail_def Let_def x_def y_def)
  then have "x @ CHR ''('' # r_UID a = y @ CHR ''('' # r_UID b" by simp
  then have "rev (x @ CHR ''('' # r_UID a) = rev (y @ CHR ''('' # r_UID b)" by (rule arg_cong)
  then have eq: "rev (r_UID a) @ CHR ''('' # rev x = rev (r_UID b) @ CHR ''('' # rev y"
    by (simp only: rev_append rev.simps append_assoc append_Cons append_Nil)
  have take: "takeWhile (\<lambda>c. c \<noteq> CHR ''('') (rev u @ CHR ''('' # z) = rev u"
    if "CHR ''('' \<notin> set u" for u z
    using that by (subst takeWhile_append2) auto
  show ?thesis using arg_cong [OF eq, of "takeWhile (\<lambda>c. c \<noteq> CHR ''('')"] take assms(4,5) by simp
qed

lemma ruleDetail_last: "r_UID r \<noteq> [] \<Longrightarrow> last (ruleDetail m r) = CHR '')''"
  by (simp add: ruleDetail_def Let_def)

lemma ruleDetail_hd: "hd (ruleDetail [m] r) = m"
  by (simp add: ruleDetail_def Let_def)

text \<open>Every allowed line is the line of a named rule of that group.\<close>

definition lines_of_named :: "rule_group list \<Rightarrow> string list \<Rightarrow> (string \<rightharpoonup> string set) \<Rightarrow> bool" where
  "lines_of_named gs uids allowed \<longleftrightarrow> (\<forall>i lines line. allowed i = Some lines \<longrightarrow> line \<in> lines \<longrightarrow>
     (\<exists>g \<in> set gs. \<exists>u \<in> set uids. \<exists>r. groupID g = i \<and> findRule (g_Rules g) u = Some r \<and>
        line = ruleDetail changedMarker r))"

lemma allowed_lines: "lines_of_named (present gs) uids (allowedScopedDetails gs uids)"
proof -
  have run: "lines_of_named (present gs) uids (fst (fold allowLine gus s))"
    if "set gus \<subseteq> set (present gs) \<times> set uids" and "lines_of_named (present gs) uids (fst s)" for gus s
    using that
  proof (induction gus arbitrary: s)
    case (Cons gu gus)
    have "lines_of_named (present gs) uids (fst (allowLine gu s))"
      using Cons.prems unfolding lines_of_named_def allowLine_def
      by (cases gu; cases s; simp split: option.splits) (fastforce simp del: set_present)
    with Cons show ?case by simp
  qed simp
  show ?thesis
    unfolding allowedScopedDetails_def
    by (rule run) (auto simp: lines_of_named_def simp del: set_present)
qed

lemma planScopedE:
  assumes "planScoped M local remote uids = Inr cs"
  shows "Plan M local remote = Inr cs"
    and "\<And>c. c \<in> set cs \<Longrightarrow> scopedOffence c (allowedScopedDetails (b_Groups local) uids) = []"
proof -
  show "Plan M local remote = Inr cs"
    using assms by (auto simp: planScoped_def bindR_Inr_iff Let_def split: option.splits)
  show "scopedOffence c (allowedScopedDetails (b_Groups local) uids) = []" if "c \<in> set cs" for c
    using assms that by (auto simp: planScoped_def bindR_Inr_iff Let_def find_None_iff split: option.splits)
qed

lemma no_offence:
  assumes "scopedOffence c allowed = []" and "[] \<notin> set (c_Detail c)"
  shows "c_Kind c = KindRuleGroup \<and> c_Action c \<noteq> ActionCreate \<and>
     (\<exists>lines. allowed (c_ID c) = Some lines \<and> set (c_Detail c) \<subseteq> lines)"
proof -
  have "\<exists>lines. allowed (c_ID c) = Some lines \<and> find (\<lambda>line. line \<notin> lines) (c_Detail c) = None"
    using assms by (auto simp: scopedOffence_def split: if_splits option.splits dest: find_Some_in)
  then show ?thesis
    using assms(1) by (cases "c_Action c") (auto simp: scopedOffence_def find_None_iff split: if_splits)
qed

lemma line_nonempty [simp]:
  "ruleDetail changedMarker r \<noteq> []" "ruleDetail addedMarker r \<noteq> []" "ruleDetail removedMarker r \<noteq> []"
  "replacedRuleDetail r \<noteq> []" "intervalDetail i j \<noteq> []" "ruleOrderDetail \<noteq> []"
  by (simp_all add: ruleDetail_def Let_def changedMarker_def addedMarker_def removedMarker_def
      replacedRuleDetail_def intervalDetail_def ruleOrderDetail_def)

lemma localLines_nonempty: "marshals (m_rule M) \<Longrightarrow> [] \<notin> set (localLines M g m r)"
  by (simp add: localLines_def localRuleLines_value eq_commute [of "[]"] split: option.splits)

lemma detail_nonempty:
  assumes M: "marshals (m_rule M)" and d: "groupDetail M g m = Inr d"
  shows "[] \<notin> set d"
  using d localLines_nonempty [OF M, of g m]
  by (auto simp: groupDetail_def Let_def ruleDetails_value [OF M] removedRuleLines_def
      eq_commute [of "[]"])

text \<open>A group whose detail holds lines of named rules only differs from the remote one in those rules.\<close>

definition named_rules_only :: "marshaller \<Rightarrow> string set \<Rightarrow> rule_group \<Rightarrow> rule_group \<Rightarrow> bool" where
  "named_rules_only M uids l r \<longleftrightarrow> g_Interval l = g_Interval r \<and>
     map r_UID (present (g_Rules l)) = map r_UID (present (g_Rules r)) \<and>
     (\<forall>x \<in> set (present (g_Rules l)). r_UID x \<notin> uids \<longrightarrow>
        (\<exists>y \<in> set (present (g_Rules r)). r_UID y = r_UID x \<and> same_rule M l x y))"

lemma detail_parts:
  assumes M: "marshals (m_rule M)" and d: "groupDetail M l r = Inr d"
  shows "g_Interval l \<noteq> g_Interval r \<Longrightarrow> intervalDetail (g_Interval r) (g_Interval l) \<in> set d"
    and "\<not> sameRuleOrder (g_Rules l) (g_Rules r) \<Longrightarrow> ruleOrderDetail \<in> set d"
    and "x \<in> set (present (g_Rules l)) \<Longrightarrow> set (localLines M l r x) \<subseteq> set d"
    and "y \<in> set (present (g_Rules r)) \<Longrightarrow> findRule (g_Rules l) (r_UID y) = None \<Longrightarrow>
      ruleDetail removedMarker y \<in> set d"
  using d by (auto simp: groupDetail_def Let_def ruleDetails_value [OF M] removedRuleLines_def)

lemma named_rules_onlyI:
  assumes M: "marshals (m_rule M)" and d: "groupDetail M l r = Inr d"
    and lines: "\<And>line. line \<in> set d \<Longrightarrow> \<exists>x. r_UID x \<in> uids \<and> r_UID x \<noteq> [] \<and>
        CHR ''('' \<notin> set (r_UID x) \<and> line = ruleDetail changedMarker x"
    and paren: "\<And>x. x \<in> set (present (g_Rules l)) \<Longrightarrow> CHR ''('' \<notin> set (r_UID x)"
  shows "named_rules_only M uids l r"
proof -
  note part = detail_parts [OF M d]
  have not_line: "line \<notin> set d" if "last line \<noteq> CHR '')'' \<or> hd line \<noteq> CHR ''~''" for line
    using that by (auto dest!: lines simp: ruleDetail_last ruleDetail_hd changedMarker_def)
  have i: "g_Interval l = g_Interval r"
    using part(1) not_line [of "intervalDetail (g_Interval r) (g_Interval l)"]
    by (auto simp: intervalDetail_def)
  have order: "sameRuleOrder (g_Rules l) (g_Rules r)"
    using part(2) not_line [of ruleOrderDetail] by (auto simp: ruleOrderDetail_def)
  have found: "\<exists>y. findRule (g_Rules r) (r_UID x) = Some y \<and> (r_UID x \<notin> uids \<longrightarrow> same_rule M l x y)"
    if x: "x \<in> set (present (g_Rules l))" for x
  proof (cases "findRule (g_Rules r) (r_UID x)")
    case None
    then have "ruleDetail addedMarker x \<in> set d"
      using part(3) [OF x] by (simp add: localLines_def localRuleLines_value [OF M])
    moreover have "ruleDetail addedMarker x \<notin> set d"
      by (rule not_line) (simp add: addedMarker_def ruleDetail_hd)
    ultimately show ?thesis by simp
  next
    case (Some y)
    then have u: "r_UID x \<noteq> []" by (auto dest: findRule_Some)
    have "r_UID x \<in> uids" if "\<not> same_rule M l x y"
    proof -
      have "ruleDetail changedMarker x \<in> set d"
        using part(3) [OF x] Some that by (simp add: localLines_def localRuleLines_value [OF M])
      then obtain z where "r_UID z \<in> uids" "r_UID z \<noteq> []" "CHR ''('' \<notin> set (r_UID z)"
          and "ruleDetail changedMarker x = ruleDetail changedMarker z"
        using lines by blast
      then show ?thesis using ruleDetail_uid [of changedMarker x z] u paren [OF x] by simp
    qed
    with Some show ?thesis by blast
  qed
  have kept: "findRule (g_Rules l) (r_UID y) \<noteq> None" if y: "y \<in> set (present (g_Rules r))" for y
    using part(4) [OF y] not_line [of "ruleDetail removedMarker y"]
    by (auto simp: removedMarker_def ruleDetail_hd)
  have "findRule (g_Rules r) (r_UID x) \<noteq> None" if "x \<in> set (present (g_Rules l))" for x
    using found [OF that] by auto
  then have "map r_UID (present (g_Rules l)) = map r_UID (present (g_Rules r))"
    using order kept unfolding sameRuleOrder_def
    by (subst (asm) sharedRuleUIDs_all, blast, subst (asm) sharedRuleUIDs_all, blast)
  then show ?thesis
    using i found by (fastforce simp: named_rules_only_def dest: findRule_Some)
qed

lemma planRuleGroup_update:
  assumes "planRuleGroup M remote g = Inr c" and "c_Action c \<noteq> ActionCreate"
  shows "\<exists>m d. findGroup remote (g_FolderUID g) (g_Title g) = Some m \<and> groupDetail M g m = Inr d \<and>
     c_Detail c = d \<and> c_ID c = groupID g \<and> c_Kind c = KindRuleGroup \<and> c_Action c = actionFor (d = [])"
  using assms by (auto simp: planRuleGroup_def Let_def split: option.splits sum.splits)

text \<open>A group with one of its rules paused, for the examples.\<close>

definition paused_group :: rule_group where
  "paused_group = sample_group\<lparr>g_Rules := [Some (sample_rule\<lparr>r_IsPaused := True\<rparr>), Some sample_rule_2]\<rparr>"

text \<open>C4: the check of a rule-scoped push is sound whatever pair of bundles it is handed: an accepted
  plan has no contact point and no policy tree, and every group it writes exists remotely with the
  same interval and the same rules in the same order, of which every rule that was not named is the
  remote rule, so that an edit to a sibling never reaches the write. Rule uids are taken to hold no
  opening parenthesis (Grafana allows letters, digits, dash and underscore): the check compares
  printed lines.\<close>

theorem planScoped_sound:
  assumes M: "marshals (m_rule M)" and ok: "planScoped M local remote uids = Inr cs"
    and paren: "\<And>g x. Some g \<in> set (b_Groups local) \<Longrightarrow> Some x \<in> set (g_Rules g) \<Longrightarrow>
        CHR ''('' \<notin> set (r_UID x)"
  shows "present (b_ContactPoints local) = [] \<and> b_Policies local = None \<and>
     (\<forall>g \<in> set (present (b_Groups local)). \<exists>m.
        findGroup (b_Groups remote) (g_FolderUID g) (g_Title g) = Some m \<and>
        named_rules_only M (set uids) g m)"
proof -
  let ?allowed = "allowedScopedDetails (b_Groups local) uids"
  note plan = planScopedE(1) [OF ok] and accepted = planScopedE(2) [OF ok]
  obtain points policies grps where parts:
      "planContactPoints M (b_ContactPoints local) (b_ContactPoints remote) = Inr points"
      "planPolicyTree M (b_Policies local) (b_Policies remote) = Inr policies"
      "planRuleGroups M (b_Groups local) (b_Groups remote) = Inr grps"
    and cs: "cs = sort_key changeKey (points @ policies @ grps)"
    using plan by (rule PlanE)
  have kinds: "k = KindRuleGroup" if "(k, i) \<in> set (localKeys local)" for k i
  proof -
    have "(k, i) \<in> set (map changeKey cs)"
      using plan_keys(2) [OF plan] that by (metis mset_eq_setD)
    then obtain c where "c \<in> set cs" "c_Kind c = k" by (auto simp: changeKey_def)
    then show ?thesis
      using accepted [of c] by (auto simp: scopedOffence_def split: if_splits)
  qed
  have "present (b_ContactPoints local) = []"
    using kinds [of KindContactPoint] by (cases "present (b_ContactPoints local)") (auto simp: localKeys_def)
  moreover have "b_Policies local = None"
    using kinds [of KindPolicyTree policyTreeID] by (cases "b_Policies local") (auto simp: localKeys_def)
  moreover have "\<exists>m. findGroup (b_Groups remote) (g_FolderUID g) (g_Title g) = Some m \<and>
      named_rules_only M (set uids) g m" if g: "g \<in> set (present (b_Groups local))" for g
  proof -
    have "list_all2 (\<lambda>g c. planRuleGroup M (b_Groups remote) g = Inr c) (present (b_Groups local)) grps"
      using parts(3) by (simp add: planRuleGroups_def mapR_Inr_iff)
    from list_all2_left [OF this g]
    obtain c where c: "c \<in> set grps" "planRuleGroup M (b_Groups remote) g = Inr c" ..
    then have quiet: "scopedOffence c ?allowed = []" using accepted cs by simp
    obtain m d where m: "findGroup (b_Groups remote) (g_FolderUID g) (g_Title g) = Some m"
        and d: "groupDetail M g m = Inr d" and cd: "c_Detail c = d" "c_ID c = groupID g"
      using planRuleGroup_update [OF c(2)] quiet by (auto simp: scopedOffence_def split: if_splits)
    obtain lines where "?allowed (groupID g) = Some lines" and "set d \<subseteq> lines"
      using no_offence [OF quiet] detail_nonempty [OF M d] cd by auto
    then have named: "\<exists>h u x. Some h \<in> set (b_Groups local) \<and> u \<in> set uids \<and> findRule (g_Rules h) u = Some x \<and>
        line = ruleDetail changedMarker x" if "line \<in> set d" for line
      using allowed_lines [of "b_Groups local" uids] that unfolding lines_of_named_def set_present by blast
    have "named_rules_only M (set uids) g m"
    proof (rule named_rules_onlyI [OF M d])
      fix line
      assume "line \<in> set d"
      with named obtain h u x where "Some h \<in> set (b_Groups local)" "u \<in> set uids"
        "findRule (g_Rules h) u = Some x" "line = ruleDetail changedMarker x" by blast
      then show "\<exists>x. r_UID x \<in> set uids \<and> r_UID x \<noteq> [] \<and> CHR ''('' \<notin> set (r_UID x) \<and>
          line = ruleDetail changedMarker x"
        using paren findRule_Some by blast
    qed (use g paren in simp)
    with m show ?thesis by blast
  qed
  ultimately show ?thesis by blast
qed

theorem planScoped_sound_witness:
  "(\<exists>cs. planScoped sample_marshaller (groupsBundle [paused_group]) (groupsBundle [sample_group]) [''cpu''] = Inr cs)
     \<and> (\<exists>m. findGroup (b_Groups (groupsBundle [sample_group])) ''infra'' ''hosts'' = Some m \<and>
          named_rules_only sample_marshaller (set [''cpu'']) paused_group m)"
proof (rule conjI)
  have ok: "planScoped sample_marshaller (groupsBundle [paused_group]) (groupsBundle [sample_group]) [''cpu''] =
      Inr [\<lparr>c_Action = ActionUpdate, c_Kind = KindRuleGroup, c_ID = ''infra/hosts'',
            c_Detail = [''~ High CPU (cpu)'']\<rparr>]"
    by code_simp
  then show "\<exists>cs. planScoped sample_marshaller (groupsBundle [paused_group]) (groupsBundle [sample_group])
      [''cpu''] = Inr cs" ..
  have paren: "CHR ''('' \<notin> set (r_UID x)"
    if "Some g \<in> set (b_Groups (groupsBundle [paused_group]))" and "Some x \<in> set (g_Rules g)" for g x
    using that by (auto simp: groupsBundle_def paused_group_def sample_defs)
  have group: "paused_group \<in> set (present (b_Groups (groupsBundle [paused_group])))"
    by (simp add: groupsBundle_def)
  have ids: "g_FolderUID paused_group = ''infra''" "g_Title paused_group = ''hosts''"
    by (simp_all add: paused_group_def sample_group_def)
  have "\<forall>g \<in> set (present (b_Groups (groupsBundle [paused_group]))). \<exists>m.
        findGroup (b_Groups (groupsBundle [sample_group])) (g_FolderUID g) (g_Title g) = Some m \<and>
        named_rules_only sample_marshaller (set [''cpu'']) g m"
    using planScoped_sound [OF sample_marshals(1) ok] paren by blast
  with group show "\<exists>m. findGroup (b_Groups (groupsBundle [sample_group])) ''infra'' ''hosts'' = Some m \<and>
      named_rules_only sample_marshaller (set [''cpu'']) paused_group m"
    unfolding ids [symmetric] by blast
qed

section \<open>The pair built from real data is accepted\<close>

lemma syntheticRule_uid:
  "located_in local located \<Longrightarrow> map_option r_UID (syntheticRule located r) = map_option r_UID r"
  by (auto simp: syntheticRule_def located_uid split: option.splits)

lemma present_synthetic:
  "present (map (syntheticRule located) rs) =
     map (\<lambda>x. case located (r_UID x) of Some n \<Rightarrow> sc_rule n | None \<Rightarrow> x) (present rs)"
proof (induction rs)
  case (Cons r rs)
  then show ?case by (cases r) (auto simp: syntheticRule_def split: option.splits)
qed simp

lemma synthetic_uids:
  assumes "located_in local located"
  shows "map r_UID (present (g_Rules (syntheticGroup g located))) = map r_UID (present (g_Rules g))"
  using located_uid [OF assms]
  by (auto simp: syntheticGroup_def present_synthetic split: option.splits)

text \<open>Searching by uid sees the uids only.\<close>

lemma findRule_same_uids:
  assumes "map r_UID (present as) = map r_UID (present bs)"
  shows "findRule as u \<noteq> None \<longleftrightarrow> findRule bs u \<noteq> None"
proof -
  have "findRule xs u \<noteq> None \<longleftrightarrow> u \<noteq> [] \<and> u \<in> set (map r_UID (present xs))" for xs
    by (auto simp: findRule_None_iff image_iff)
  then show ?thesis using assms by metis
qed

lemma sharedRuleUIDs_same:
  "map r_UID (present as) = map r_UID (present bs) \<Longrightarrow> sharedRuleUIDs as bs = sharedRuleUIDs bs as"
proof -
  have "sharedRuleUIDs xs ys = filter (\<lambda>u. findRule ys u \<noteq> None) (map r_UID (present xs))" for xs ys
    by (simp add: sharedRuleUIDs_def filter_map comp_def)
  moreover assume "map r_UID (present as) = map r_UID (present bs)"
  ultimately show ?thesis using findRule_same_uids [of as bs] by simp
qed

lemma same_rule_reported:
  assumes M: "marshals (m_rule M)" and k: "readonly_keys M" and g: "reported_group g"
    and x: "x \<in> set (present (g_Rules g))" and id: "groupRef l = groupRef g"
  shows "same_rule M l x x"
proof (rule file_rule_same(2) [OF M k])
  show "file_rule x x" by (simp add: file_rule_def)
  show "r_FolderUID x = Some (g_FolderUID l)" "r_RuleGroup x = Some (g_Title l)" "r_OrgID x \<noteq> None"
    using g x id by (auto simp: reported_group_def same_groupRef)
qed

lemma synthetic_detail:
  assumes M: "marshals (m_rule M)" and k: "readonly_keys M" and l: "located_in local located"
    and g: "reported_group g"
  shows "\<exists>d. groupDetail M (syntheticGroup g located) g = Inr d \<and>
     (\<forall>line \<in> set d. \<exists>u n. located u = Some n \<and> findRule (g_Rules g) u \<noteq> None \<and>
        line = ruleDetail changedMarker (sc_rule n))"
proof -
  let ?s = "syntheticGroup g located"
  note uids = synthetic_uids [OF l, of g]
  have lines: "\<exists>u n. located u = Some n \<and> findRule (g_Rules g) u \<noteq> None \<and>
      line = ruleDetail changedMarker (sc_rule n)"
    if x: "x \<in> set (present (g_Rules ?s))" and line: "line \<in> set (localLines M ?s g x)" for x line
  proof -
    obtain y where y: "y \<in> set (present (g_Rules g))"
        and xy: "x = (case located (r_UID y) of Some n \<Rightarrow> sc_rule n | None \<Rightarrow> y)"
      using x by (auto simp: syntheticGroup_def present_synthetic simp del: set_present)
    have u: "r_UID x = r_UID y" using xy located_uid [OF l] by (simp split: option.splits)
    have "uids_given g" and d: "uids_distinct g" using g by (auto simp: reported_group_def)
    then have "r_UID y \<noteq> []" using y by (simp add: uids_given_def)
    then have f: "findRule (g_Rules g) (r_UID x) = Some y" using findRule_member [OF d y] u by simp
    have "ruleDetail changedMarker x = line" and "\<not> same_rule M ?s x y"
      using line f by (auto simp: localLines_def localRuleLines_value [OF M] split: if_splits)
    moreover have "located (r_UID y) \<noteq> None"
    proof
      assume "located (r_UID y) = None"
      then have "same_rule M ?s x y" using xy same_rule_reported [OF M k g y, of ?s] by simp
      with calculation show False by simp
    qed
    ultimately show ?thesis using xy f u by (auto split: option.splits)
  qed
  have removed: "removedRuleLines ?s g = []"
  proof -
    have "findRule (g_Rules ?s) (r_UID y) \<noteq> None" if y: "y \<in> set (present (g_Rules g))" for y
    proof -
      have "r_UID y \<noteq> []" using g y by (auto simp: reported_group_def uids_given_def)
      then have "findRule (g_Rules g) (r_UID y) \<noteq> None" using y by (auto simp: findRule_None_iff)
      then show ?thesis using findRule_same_uids [OF uids] by simp
    qed
    then show ?thesis by (simp add: removedRuleLines_def filter_empty_conv del: set_present)
  qed
  have "sameRuleOrder (g_Rules ?s) (g_Rules g)"
    unfolding sameRuleOrder_def by (rule sharedRuleUIDs_same [OF uids])
  then show ?thesis
    using lines by (simp add: groupDetail_def Let_def ruleDetails_value [OF M] removed del: set_present)
qed

lemma synthetic_findRule:
  assumes l: "located_in local located" and g: "uids_distinct g" and u: "findRule (g_Rules g) u \<noteq> None"
  shows "located u = Some n \<Longrightarrow> findRule (g_Rules (syntheticGroup g located)) u = Some (sc_rule n)"
    and "findRule (g_Rules (syntheticGroup g located)) u \<noteq> None"
proof -
  let ?s = "syntheticGroup g located"
  show ex: "findRule (g_Rules ?s) u \<noteq> None"
    using findRule_same_uids [OF synthetic_uids [OF l], of g] u by simp
  assume n: "located u = Some n"
  obtain y where y: "y \<in> set (present (g_Rules g))" "r_UID y = u" and nonempty: "u \<noteq> []"
    using u by (auto dest: findRule_Some)
  then have "sc_rule n \<in> set (present (g_Rules ?s))"
    using n by (force simp: syntheticGroup_def present_synthetic simp del: set_present)
  moreover have "uids_distinct ?s"
    using g by (simp add: uids_distinct_def synthetic_uids [OF l])
  ultimately show "findRule (g_Rules ?s) u = Some (sc_rule n)"
    using findRule_member [of ?s "sc_rule n"] located_uid [OF l n] by simp
qed

lemma allowed_complete:
  assumes g: "g \<in> set (present gs)" and u: "u \<in> set uids" and r: "findRule (g_Rules g) u = Some r"
    and once: "\<And>h. h \<in> set (present gs) \<Longrightarrow> findRule (g_Rules h) u \<noteq> None \<Longrightarrow> h = g"
  shows "\<exists>lines. allowedScopedDetails gs uids (groupID g) = Some lines \<and> ruleDetail changedMarker r \<in> lines"
proof -
  define has where "has s \<longleftrightarrow> (\<exists>lines. fst s (groupID g) = Some lines \<and> ruleDetail changedMarker r \<in> lines)"
    for s :: "(string \<rightharpoonup> string set) \<times> string set"
  have step: "(u \<in> snd (allowLine gu s) \<longrightarrow> has (allowLine gu s)) \<and>
      (gu = (g, u) \<longrightarrow> u \<in> snd (allowLine gu s)) \<and> snd s \<subseteq> snd (allowLine gu s)"
    if s: "u \<in> snd s \<longrightarrow> has s" and gu: "fst gu \<in> set (present gs)" for s gu
  proof -
    obtain h v a c where eq: "gu = (h, v)" "s = (a, c)" by (cases gu, cases s)
    show ?thesis
    proof (cases "findRule (g_Rules h) v")
      case (Some x)
      have new: "h = g \<and> x = r" if "v = u"
        using once [of h] gu Some r that by (simp add: eq del: set_present)
      show ?thesis
      proof (cases "v \<in> c")
        case False
        have "has (allowLine gu s)" if "u \<in> insert v c"
          using that s new Some False by (cases "v = u") (auto simp: eq allowLine_def has_def)
        then show ?thesis using Some False by (auto simp: eq allowLine_def)
      qed (use Some s in \<open>auto simp: eq allowLine_def\<close>)
    qed (use r s in \<open>auto simp: eq allowLine_def\<close>)
  qed
  have run: "(u \<in> snd (fold allowLine gus s) \<longrightarrow> has (fold allowLine gus s)) \<and>
      ((g, u) \<in> set gus \<or> u \<in> snd s \<longrightarrow> u \<in> snd (fold allowLine gus s))"
    if "u \<in> snd s \<longrightarrow> has s" and "fst ` set gus \<subseteq> set (present gs)" for gus s
    using that
  proof (induction gus arbitrary: s)
    case (Cons gu gus)
    have "fst gu \<in> set (present gs)" and rest: "fst ` set gus \<subseteq> set (present gs)"
      using Cons.prems(2) by auto
    from step [OF Cons.prems(1) this(1)] Cons.IH [OF _ rest, of "allowLine gu s"]
    show ?case by auto
  qed simp
  show ?thesis
    using run [of "(Map.empty, {})" "List.product (present gs) uids"] g u
    by (auto simp: allowedScopedDetails_def has_def simp del: set_present)
qed

text \<open>No rule is in two groups.\<close>

definition held_once :: "Bundle \<Rightarrow> bool" where
  "held_once b \<longleftrightarrow> (\<forall>g h u. Some g \<in> set (b_Groups b) \<longrightarrow> Some h \<in> set (b_Groups b) \<longrightarrow>
     findRule (g_Rules g) u \<noteq> None \<longrightarrow> findRule (g_Rules h) u \<noteq> None \<longrightarrow> g = h)"

lemma synthetic_accepted:
  assumes M: "marshals (m_rule M)" and k: "readonly_keys M" and rep: "reported remote"
    and once: "held_once remote" and l: "located_in local located" and dom: "dom located = set uids"
    and gs: "\<And>g. g \<in> set gs \<Longrightarrow> Some g \<in> set (b_Groups remote)"
    and holds: "\<And>g. g \<in> set gs \<Longrightarrow> \<exists>u \<in> set uids. findRule (g_Rules g) u \<noteq> None"
    and groups: "set (present groups) = (\<lambda>g. syntheticGroup g located) ` set gs"
    and g: "g \<in> set gs" and found: "findGroup held (g_FolderUID g) (g_Title g) = Some g"
  shows "\<exists>c. planRuleGroup M held (syntheticGroup g located) = Inr c \<and>
     scopedOffence c (allowedScopedDetails groups uids) = []"
proof -
  let ?s = "syntheticGroup g located"
  have r: "reported_group h" "uids_distinct h" if "h \<in> set gs" for h
    using rep gs [OF that] by (auto simp: reported_def reported_group_def)
  obtain d where d: "groupDetail M ?s g = Inr d"
    and lines: "\<And>line. line \<in> set d \<Longrightarrow> \<exists>u n. located u = Some n \<and> findRule (g_Rules g) u \<noteq> None \<and>
        line = ruleDetail changedMarker (sc_rule n)"
    using synthetic_detail [OF M k l r(1) [OF g]] by blast
  have allowed: "\<exists>ls. allowedScopedDetails groups uids (groupID g) = Some ls \<and>
      ruleDetail changedMarker (sc_rule n) \<in> ls" if n: "located u = Some n" "findRule (g_Rules g) u \<noteq> None" for u n
  proof -
    have "h = ?s" if hg: "h \<in> set (present groups)" and hu: "findRule (g_Rules h) u \<noteq> None" for h
    proof -
      obtain g' where g': "g' \<in> set gs" and h: "h = syntheticGroup g' located"
        using hg unfolding groups by blast
      have "findRule (g_Rules g') u \<noteq> None"
        using hu findRule_same_uids [OF synthetic_uids [OF l], of g'] by (simp add: h)
      then have "g' = g" using once gs [OF g'] gs [OF g] n(2) unfolding held_once_def by blast
      with h show ?thesis by simp
    qed
    note only = this
    have "u \<in> set uids" using n(1) dom by auto
    moreover have "?s \<in> set (present groups)" unfolding groups using g by (rule imageI)
    moreover have "findRule (g_Rules ?s) u = Some (sc_rule n)"
      by (rule synthetic_findRule(1) [OF l r(2) [OF g] n(2,1)])
    ultimately have "\<exists>ls. allowedScopedDetails groups uids (groupID ?s) = Some ls \<and>
        ruleDetail changedMarker (sc_rule n) \<in> ls"
      using only by (intro allowed_complete)
    then show ?thesis by simp
  qed
  obtain u where "u \<in> set uids" and u: "findRule (g_Rules g) u \<noteq> None" using holds [OF g] by blast
  then obtain n where n: "located u = Some n" using dom by blast
  from allowed [OF n u] obtain ls where ls: "allowedScopedDetails groups uids (groupID g) = Some ls" by blast
  have "set d \<subseteq> ls" using lines allowed ls by fastforce
  then have "find (\<lambda>line. line \<notin> ls) d = None" by (auto simp: find_None_iff)
  then show ?thesis
    using ls by (simp add: planRuleGroup_def found d Let_def scopedOffence_def actionFor_def)
qed

text \<open>The check never refuses what the builder makes from real data: when Grafana reports
  pairwise different groups and uids and no rule in two groups, every pair \<open>scopeBundles\<close> builds is
  planned without an error.\<close>

theorem planScoped_accepts:
  assumes M: "marshals (m_rule M)" and k: "readonly_keys M" and rep: "reported remote"
    and once: "held_once remote" and ok: "scopeBundles local remote uids = Inr (S, H)"
  shows "\<exists>cs. planScoped M S H uids = Inr cs"
proof -
  obtain located gs where l: "located_in local located" "dom located = set uids"
    and S: "S = groupsBundle (map (\<lambda>g. syntheticGroup g located) gs)" and H: "H = groupsBundle gs"
    and d: "distinct (map groupID gs)" and gs: "\<And>g. g \<in> set gs \<Longrightarrow> Some g \<in> set (b_Groups remote)"
    and holds: "\<And>g. g \<in> set gs \<Longrightarrow> \<exists>u \<in> set uids. findRule (g_Rules g) u \<noteq> None"
    using ok by (rule scopeBundles_shape) blast
  let ?gs = "sort_key groupRef gs" and ?allowed = "allowedScopedDetails (b_Groups S) uids"
  have "distinct (map groupRef gs)"
    using d by (auto simp: distinct_map groupID_def inj_on_def)
  then have dg: "distinct (map groupRef ?gs)" by (simp add: distinct_map)
  have found: "findGroup (b_Groups H) (g_FolderUID g) (g_Title g) = Some g" if "g \<in> set gs" for g
    using findGroup_member [of "map Some ?gs" g] dg that by (simp add: H groupsBundle_def)
  have "\<exists>c. planRuleGroup M (b_Groups H) (syntheticGroup g located) = Inr c \<and> scopedOffence c ?allowed = []"
    if "g \<in> set gs" for g
    by (rule synthetic_accepted [OF M k rep once l gs holds _ that found [OF that]])
       (auto simp: S groupsBundle_synthetic image_iff)
  then obtain c where c: "\<And>g. g \<in> set gs \<Longrightarrow>
      planRuleGroup M (b_Groups H) (syntheticGroup g located) = Inr (c g) \<and> scopedOffence (c g) ?allowed = []"
    by metis
  have "planRuleGroups M (b_Groups S) (b_Groups H) = Inr (map c ?gs)"
    using c by (auto simp: planRuleGroups_def S groupsBundle_synthetic mapR_Inr_iff list.rel_map
        intro!: list.rel_refl_strong)
  then have "Plan M S H = Inr (sort_key changeKey (map c ?gs))"
    by (simp add: Plan_def planContactPoints_def planPolicyTree_def S groupsBundle_def)
  moreover have "find (\<lambda>x. scopedOffence x ?allowed \<noteq> []) (sort_key changeKey (map c ?gs)) = None"
    using c by (auto simp: find_None_iff)
  ultimately show ?thesis by (simp add: planScoped_def Let_def)
qed

theorem planScoped_accepts_witness:
  "\<exists>cs. planScoped sample_marshaller (groupsBundle [paused_group]) (groupsBundle [sample_group]) [''cpu''] = Inr cs"
proof (rule planScoped_accepts)
  show "reported (groupsBundle [sample_group])"
    by (simp add: groupsBundle_def reported_def reported_group_def uids_distinct_def uids_given_def
        groupRef_def sample_defs)
  show "held_once (groupsBundle [sample_group])" by (simp add: groupsBundle_def held_once_def)
  show "scopeBundles (groupsBundle [paused_group]) (groupsBundle [sample_group]) [''cpu''] =
      Inr (groupsBundle [paused_group], groupsBundle [sample_group])" by code_simp
qed simp_all

text \<open>The version of a rule the bundle holds: the one in the first group file with that uid.\<close>

definition bundle_version :: "Bundle \<Rightarrow> string \<Rightarrow> rule option" where
  "bundle_version local u =
     (case remoteGroupHolding (b_Groups local) u of None \<Rightarrow> None | Some g \<Rightarrow> findRule (g_Rules g) u)"

text \<open>A remote group with the named rules replaced by the bundle's versions.\<close>

definition scoped_group :: "Bundle \<Rightarrow> string set \<Rightarrow> rule_group \<Rightarrow> rule_group" where
  "scoped_group local uids g = g\<lparr>g_Rules := map (\<lambda>y. case y of None \<Rightarrow> None
     | Some b \<Rightarrow> if r_UID b \<in> uids then bundle_version local (r_UID b) else Some b) (g_Rules g)\<rparr>"

lemma groupRef_scoped [simp]: "groupRef (scoped_group local uids g) = groupRef g"
  by (simp add: groupRef_def scoped_group_def)

lemma syntheticGroup_scoped:
  assumes l: "located_in local located" and dom: "dom located = uids"
  shows "syntheticGroup g located = scoped_group local uids g"
proof -
  have "syntheticRule located y = (case y of None \<Rightarrow> None
      | Some b \<Rightarrow> if r_UID b \<in> uids then bundle_version local (r_UID b) else Some b)" for y
  proof (cases y)
    case (Some b)
    have "r_UID b \<in> uids \<longleftrightarrow> located (r_UID b) \<noteq> None" by (simp add: dom [symmetric] domIff)
    then show ?thesis
      using l Some by (cases "located (r_UID b)") (auto simp: syntheticRule_def bundle_version_def located_in_def)
  qed (simp add: syntheticRule_def)
  then show ?thesis by (simp add: syntheticGroup_def scoped_group_def)
qed

lemma scopeBundles_groups:
  assumes "scopeBundles local remote uids = Inr (S, H)"
  obtains gs where "S = \<lparr>b_Groups = map (\<lambda>g. Some (scoped_group local (set uids) g)) gs,
      b_ContactPoints = [], b_Policies = None\<rparr>"
    and "H = \<lparr>b_Groups = map Some gs, b_ContactPoints = [], b_Policies = None\<rparr>"
    and "\<And>g. g \<in> set gs \<Longrightarrow> Some g \<in> set (b_Groups remote)"
proof -
  obtain located gs where l: "located_in local located" "dom located = set uids"
    and S: "S = groupsBundle (map (\<lambda>g. syntheticGroup g located) gs)" and H: "H = groupsBundle gs"
    and gs: "\<And>g. g \<in> set gs \<Longrightarrow> Some g \<in> set (b_Groups remote)"
    using assms by (rule scopeBundles_shape) blast
  show thesis
    using that [of "sort_key groupRef gs"] gs
    by (simp add: S H syntheticGroup_scoped [OF l] groupsBundle_def sort_key_map comp_def)
qed

text \<open>What a rule-scoped push sends: the groups it builds are remote groups, with their
  identity, interval, rule count and rule order, in which every rule that was named is the bundle's
  version and every other rule (nil elements included) is the remote one; no contact point and no
  policy tree comes along.\<close>

theorem scopeBundles_pair:
  assumes "scopeBundles local remote uids = Inr (S, H)"
  shows "b_ContactPoints S = [] \<and> b_Policies S = None \<and>
     list_all2 (\<lambda>s h. \<exists>l r. s = Some l \<and> h = Some r \<and> Some r \<in> set (b_Groups remote) \<and>
         groupRef l = groupRef r \<and> g_Interval l = g_Interval r \<and>
         list_all2 (\<lambda>x y. x = (case y of None \<Rightarrow> None
             | Some b \<Rightarrow> if r_UID b \<in> set uids then bundle_version local (r_UID b) else Some b))
           (g_Rules l) (g_Rules r))
       (b_Groups S) (b_Groups H)"
  using assms
  by (rule scopeBundles_groups) (auto simp: list.rel_map scoped_group_def groupRef_def intro!: list.rel_refl_strong)

theorem scopeBundles_pair_witness:
  "\<exists>S H. scopeBundles (groupsBundle [paused_group]) (groupsBundle [sample_group]) [''cpu''] = Inr (S, H) \<and>
     b_ContactPoints S = [] \<and> b_Policies S = None \<and>
     list_all2 (\<lambda>s h. \<exists>l r. s = Some l \<and> h = Some r \<and> Some r \<in> set (b_Groups (groupsBundle [sample_group])) \<and>
         groupRef l = groupRef r \<and> g_Interval l = g_Interval r \<and>
         list_all2 (\<lambda>x y. x = (case y of None \<Rightarrow> None
             | Some b \<Rightarrow> if r_UID b \<in> set [''cpu'']
                 then bundle_version (groupsBundle [paused_group]) (r_UID b) else Some b))
           (g_Rules l) (g_Rules r))
       (b_Groups S) (b_Groups H)"
proof -
  have ok: "scopeBundles (groupsBundle [paused_group]) (groupsBundle [sample_group]) [''cpu''] =
      Inr (groupsBundle [paused_group], groupsBundle [sample_group])" by code_simp
  from scopeBundles_pair [OF ok] ok show ?thesis by blast
qed

end
