(* ===== verification/Grafana_Client.thy ===== *)
theory Grafana_Client
  imports Scope_Properties
begin

text \<open>
  The Grafana the alerting component talks to. The generated client and the server behind it are
  not part of the repository: they are the parameter \<open>server\<close>, one function per endpoint the
  code calls, from the server's state to a typed answer (or the failure the client reports) and the
  state it leaves. A request is recorded in the trace when it is made, so that what an operation
  sends, and in which order, is a property of its result.

  The generated readers allocate the payload of a rule group and of the policy tree before they
  decode into it, so those two answers always carry one; a single rule may come back empty, which
  \<^verbatim>\<open>fetchRule\<close> handles. Log lines are kept in the world as well.
\<close>

section \<open>Requests and answers\<close>

datatype request =
    ReqRules
  | ReqRule string
  | ReqGroup GroupRef
  | ReqPoints
  | ReqTree
  | ReqFolder string
  | ReqStates
  | PostPoint contact_point "string option"
  | PutPoint string contact_point "string option"
  | PutTree route "string option"
  | PutGroup GroupRef rule_group "string option"
  | DelRule string "string option"

fun is_write :: "request \<Rightarrow> bool" where
  "is_write (PostPoint _ _) \<longleftrightarrow> True"
| "is_write (PutPoint _ _ _) \<longleftrightarrow> True"
| "is_write (PutTree _ _) \<longleftrightarrow> True"
| "is_write (PutGroup _ _ _) \<longleftrightarrow> True"
| "is_write (DelRule _ _) \<longleftrightarrow> True"
| "is_write _ \<longleftrightarrow> False"

text \<open>What the state endpoint answers: a status code and a body. A body that decodes is given by the
  fields of the envelope (\<^verbatim>\<open>ruleDiscoveryResponse\<close>); its text is what an error message quotes.\<close>

record alert_instance =
  ai_State :: string

record alerting_rule =
  al_UID :: string
  al_State :: string
  al_Health :: string
  al_LastEvaluation :: int        \<comment> \<open>0 is Go's zero time\<close>
  al_Alerts :: "alert_instance list"

record state_group =
  sg_File :: string
  sg_FolderUID :: string
  sg_Rules :: "alerting_rule list"

record state_envelope =
  se_Status :: string
  se_Error :: string
  se_ErrorType :: string
  se_Groups :: "state_group list"

record state_answer =
  sa_Code :: nat
  sa_Body :: string
  sa_Decoded :: "state_envelope option"

record 's server =
  ep_rules :: "'s \<Rightarrow> (client_err + rule option list) \<times> 's"
  ep_rule :: "string \<Rightarrow> 's \<Rightarrow> (client_err + rule option) \<times> 's"
  ep_group :: "GroupRef \<Rightarrow> 's \<Rightarrow> (client_err + rule_group) \<times> 's"
  ep_points :: "'s \<Rightarrow> (client_err + contact_point option list) \<times> 's"
  ep_tree :: "'s \<Rightarrow> (client_err + route) \<times> 's"
  ep_folder :: "string \<Rightarrow> 's \<Rightarrow> (client_err + unit) \<times> 's"
  ep_states :: "'s \<Rightarrow> (client_err + state_answer) \<times> 's"
  ep_write :: "request \<Rightarrow> 's \<Rightarrow> (client_err + unit) \<times> 's"

datatype log_line =
    OtherDifferencesNotPushed nat string
  | StateUnavailable err

record 's world =
  w_srv :: 's
  w_trace :: "request list"
  w_log :: "log_line list"

type_synonym ('s, 'a) prog = "'s world \<Rightarrow> (err + 'a) \<times> 's world"

section \<open>Programs\<close>

definition returnP :: "'a \<Rightarrow> ('s, 'a) prog" where
  "returnP a = (\<lambda>w. (Inr a, w))"

definition failP :: "err \<Rightarrow> ('s, 'a) prog" where
  "failP e = (\<lambda>w. (Inl e, w))"

definition liftP :: "err + 'a \<Rightarrow> ('s, 'a) prog" where
  "liftP r = (\<lambda>w. (r, w))"

definition bindP :: "('s, 'a) prog \<Rightarrow> ('a \<Rightarrow> ('s, 'b) prog) \<Rightarrow> ('s, 'b) prog" where
  "bindP m f = (\<lambda>w. case m w of (Inl e, w') \<Rightarrow> (Inl e, w') | (Inr a, w') \<Rightarrow> f a w')"

text \<open>The result of a call as a value: the code inspects the error before it decides.\<close>

definition attemptP :: "('s, 'a) prog \<Rightarrow> ('s, err + 'a) prog" where
  "attemptP m = (\<lambda>w. case m w of (r, w') \<Rightarrow> (Inr r, w'))"

definition callP :: "request \<Rightarrow> ('s \<Rightarrow> (client_err + 'a) \<times> 's) \<Rightarrow> ('s, 'a) prog" where
  "callP req endpoint = (\<lambda>w. case endpoint (w_srv w) of (r, s) \<Rightarrow>
     ((case r of Inl c \<Rightarrow> Inl (Client c) | Inr a \<Rightarrow> Inr a),
      w\<lparr>w_srv := s, w_trace := w_trace w @ [req]\<rparr>))"

definition logP :: "log_line list \<Rightarrow> ('s, unit) prog" where
  "logP lines = (\<lambda>w. (Inr (), w\<lparr>w_log := w_log w @ lines\<rparr>))"

fun foldP :: "('b \<Rightarrow> 'a \<Rightarrow> ('s, 'b) prog) \<Rightarrow> 'b \<Rightarrow> 'a list \<Rightarrow> ('s, 'b) prog" where
  "foldP step b [] = returnP b"
| "foldP step b (x # xs) = bindP (step b x) (\<lambda>b'. foldP step b' xs)"

definition writeP :: "'s server \<Rightarrow> request \<Rightarrow> ('s, unit) prog" where
  "writeP sv req = callP req (ep_write sv req)"

section \<open>What a program sends\<close>

text \<open>\<open>sends P m\<close>: the program appends requests to the trace, all of which satisfy \<open>P\<close>.\<close>

definition sends :: "(request \<Rightarrow> bool) \<Rightarrow> ('s, 'a) prog \<Rightarrow> bool" where
  "sends P m \<longleftrightarrow> (\<forall>w. \<exists>reqs. w_trace (snd (m w)) = w_trace w @ reqs \<and> list_all P reqs)"

lemma sendsD: "sends P m \<Longrightarrow> \<exists>reqs. w_trace (snd (m w)) = w_trace w @ reqs \<and> list_all P reqs"
  by (simp add: sends_def)

lemma sends_pure [go_frame]:
  "sends P (returnP a)" "sends P (failP e)" "sends P (liftP r)" "sends P (logP lines)"
  by (simp_all add: sends_def returnP_def failP_def liftP_def logP_def)

lemma sends_call [go_frame]: "P req \<Longrightarrow> sends P (callP req endpoint)"
  by (simp add: sends_def callP_def split: prod.splits)

lemma sends_write [go_frame]: "P req \<Longrightarrow> sends P (writeP sv req)"
  by (simp add: writeP_def sends_call)

lemma sends_attempt [go_frame]: "sends P m \<Longrightarrow> sends P (attemptP m)"
  by (simp add: sends_def attemptP_def split: prod.splits) (metis snd_conv)

lemma sends_bind [go_frame]:
  assumes "sends P m" and "\<And>a. sends P (f a)"
  shows "sends P (bindP m f)"
  unfolding sends_def
proof
  fix w
  obtain r w' where m: "m w = (r, w')" by (cases "m w")
  obtain reqs where reqs: "w_trace w' = w_trace w @ reqs" "list_all P reqs"
    using sendsD [OF assms(1), of w] m by auto
  show "\<exists>reqs. w_trace (snd (bindP m f w)) = w_trace w @ reqs \<and> list_all P reqs"
  proof (cases r)
    case (Inr a)
    obtain more where "w_trace (snd (f a w')) = w_trace w' @ more" "list_all P more"
      using sendsD [OF assms(2), of a w'] by auto
    then show ?thesis using m reqs Inr by (intro exI [of _ "reqs @ more"]) (simp add: bindP_def)
  qed (use m reqs in \<open>simp add: bindP_def\<close>)
qed

lemma sends_fold [go_frame]: "(\<And>b x. sends P (step b x)) \<Longrightarrow> sends P (foldP step b xs)"
  by (induction xs arbitrary: b) (auto intro!: go_frame)

lemma sends_mono: "sends P m \<Longrightarrow> (\<And>r. P r \<Longrightarrow> Q r) \<Longrightarrow> sends Q m"
  unfolding sends_def by (metis list.pred_mono_strong)

lemma bindP_Inr: "bindP m f w = (Inr b, w') \<longleftrightarrow> (\<exists>a v. m w = (Inr a, v) \<and> f a v = (Inr b, w'))"
  by (auto simp: bindP_def split: prod.splits sum.splits)

section \<open>Loops that a dead session stops\<close>

text \<open>The write loops keep a report in their state and stop on the error a step asks to stop on.\<close>

fun runS :: "('a \<Rightarrow> 'st \<Rightarrow> 'e option \<times> 'st) \<Rightarrow> 'a list \<Rightarrow> 'st \<Rightarrow> 'e option \<times> 'st" where
  "runS step [] st = (None, st)"
| "runS step (x # xs) st =
     (case step x st of (Some e, st') \<Rightarrow> (Some e, st') | (None, st') \<Rightarrow> runS step xs st')"

definition thenS :: "('st \<Rightarrow> 'e option \<times> 'st) \<Rightarrow> ('st \<Rightarrow> 'e option \<times> 'st) \<Rightarrow> 'st \<Rightarrow> 'e option \<times> 'st" where
  "thenS f g st = (case f st of (Some e, st') \<Rightarrow> (Some e, st') | (None, st') \<Rightarrow> g st')"

lemma runS_invariant:
  assumes "I st" and "\<And>x s. x \<in> set xs \<Longrightarrow> I s \<Longrightarrow> I (snd (step x s))"
  shows "I (snd (runS step xs st))"
  using assms
proof (induction xs arbitrary: st)
  case (Cons x xs)
  have "I (snd (step x st))" using Cons.prems by simp
  with Cons show ?case by (cases "step x st"; cases "fst (step x st)") auto
qed simp

lemma thenS_invariant:
  "I st \<Longrightarrow> (\<And>s. I s \<Longrightarrow> I (snd (f s))) \<Longrightarrow> (\<And>s. I s \<Longrightarrow> I (snd (g s))) \<Longrightarrow> I (snd (thenS f g st))"
  by (auto simp: thenS_def split: prod.splits option.splits) (metis snd_conv)+

section \<open>Schedules\<close>

text \<open>
  The order in which concurrent requests reach the server: for the fetches and for the writes of an
  operation, and for a number of them, the indices in order. The bound on the requests in flight
  (\<^verbatim>\<open>maxConcurrent\<close>) restricts which orders can happen; every permutation is allowed here.
\<close>

datatype phase = Fetching | Writing

type_synonym schedule = "phase \<Rightarrow> nat \<Rightarrow> nat list"

definition valid_schedule :: "schedule \<Rightarrow> bool" where
  "valid_schedule sched \<longleftrightarrow> (\<forall>p n. distinct (sched p n) \<and> set (sched p n) = {..<n})"

definition in_order :: schedule where
  "in_order p n = [0..<n]"

definition backwards :: schedule where
  "backwards p n = rev [0..<n]"

lemma valid_in_order [simp]: "valid_schedule in_order"
  by (auto simp: valid_schedule_def in_order_def)

lemma valid_backwards [simp]: "valid_schedule backwards"
  by (auto simp: valid_schedule_def backwards_def)

end
