(* ===== verification/Pull.thy ===== *)
theory Pull
  imports Grafana_Client
begin

text \<open>
  Fetching a bundle (\<^verbatim>\<open>internal/alerts/pull.go\<close>, \<^verbatim>\<open>contactpoints.go\<close>, and \<^verbatim>\<open>fetchRule\<close> of
  \<^verbatim>\<open>ruleops.go\<close>). The concurrent rule-group fetches run in the order of a schedule; the first
  failure cancels the group, so the fetches after it are not made (requests already in flight at
  that moment are reads whose answers are dropped; they are not in the trace).
\<close>

section \<open>Single requests\<close>

definition DefaultMaxConcurrent :: int where "DefaultMaxConcurrent = 10"

definition maxConcurrent :: "int \<Rightarrow> int" where
  "maxConcurrent requested = (if requested \<le> 0 then DefaultMaxConcurrent else requested)"

definition getFolderOperation :: string where
  "getFolderOperation = ''[GET /folders/{folder_uid}] getFolderByUID''"

definition ListContactPoints :: "'s server option \<Rightarrow> ('s, contact_point list) prog" where
  "ListContactPoints client =
     (case client of None \<Rightarrow> failP (Leaf NoClient)
      | Some sv \<Rightarrow> bindP (attemptP (callP ReqPoints (ep_points sv))) (\<lambda>resp.
          case resp of Inl e \<Rightarrow> failP (Wrap ListContactPointsFailed e)
          | Inr payload \<Rightarrow> returnP (sort_key (\<lambda>p. (cp_Name p, cp_UID p)) (present payload))))"

definition fetchRule :: "'s server \<Rightarrow> string \<Rightarrow> ('s, rule option) prog" where
  "fetchRule sv uid =
     (if uid = [] then returnP None
      else bindP (attemptP (callP (ReqRule uid) (ep_rule sv uid))) (\<lambda>resp.
        case resp of
          Inl e \<Rightarrow> if err_cause e = Some RuleNotFoundResponse then returnP None
                   else failP (Wrap (GetRule uid) e)
        | Inr payload \<Rightarrow> returnP payload))"

definition fetchGroup :: "'s server \<Rightarrow> GroupRef \<Rightarrow> ('s, rule_group option) prog" where
  "fetchGroup sv ref =
     bindP (attemptP (callP (ReqGroup ref) (ep_group sv ref))) (\<lambda>resp.
       case resp of
         Inl e \<Rightarrow> if err_cause e = Some GroupNotFoundResponse then returnP None
                  else failP (Wrap (PullRuleGroup ref) e)
       | Inr payload \<Rightarrow> returnP (Some payload))"

definition folderExists :: "'s server \<Rightarrow> string \<Rightarrow> ('s, bool) prog" where
  "folderExists sv uid =
     bindP (attemptP (callP (ReqFolder uid) (ep_folder sv uid))) (\<lambda>resp.
       case resp of
         Inl e \<Rightarrow> if err_cause e = Some FolderNotFoundResponse then returnP False
                  else failP (asAPIError getFolderOperation e)
       | Inr u \<Rightarrow> returnP True)"

section \<open>Rule groups\<close>

definition dedupeGroupRefs :: "GroupRef list \<Rightarrow> GroupRef list" where
  "dedupeGroupRefs refs = remdups_adj (sort refs)"

definition fetchGroupAt ::
  "'s server \<Rightarrow> GroupRef list \<Rightarrow> rule_group option list \<Rightarrow> nat \<Rightarrow> ('s, rule_group option list) prog" where
  "fetchGroupAt sv refs fetched i =
     bindP (fetchGroup sv (refs ! i)) (\<lambda>found.
       returnP (case found of Some g \<Rightarrow> fetched[i := Some g] | None \<Rightarrow> fetched))"

definition fetchGroups :: "'s server \<Rightarrow> schedule \<Rightarrow> GroupRef list \<Rightarrow> ('s, rule_group list) prog" where
  "fetchGroups sv sched refs =
     bindP (foldP (fetchGroupAt sv refs) (replicate (length refs) None) (sched Fetching (length refs)))
       (\<lambda>fetched. returnP (sort_key groupRef (present fetched)))"

record PullOptions =
  po_FolderUIDs :: "string list"
  po_Groups :: "GroupRef list option"
  po_RuleUIDs :: "string list"

definition validateFolder :: "'s server \<Rightarrow> unit \<Rightarrow> string \<Rightarrow> ('s, unit) prog" where
  "validateFolder sv u uid =
     bindP (attemptP (folderExists sv uid)) (\<lambda>r.
       case r of Inl e \<Rightarrow> failP (Wrap (PullFolder uid) e)
       | Inr exists \<Rightarrow> if exists then returnP () else failP (Leaf (PullFolderNotFound uid)))"

definition validateFolders :: "'s server \<Rightarrow> string list \<Rightarrow> ('s, unit) prog" where
  "validateFolders sv uids = foldP (validateFolder sv) () uids"

text \<open>The group a listed rule selects, if any (the loop of \<^verbatim>\<open>pullGroupRefs\<close>).\<close>

definition selectedRef :: "string list \<Rightarrow> rule \<Rightarrow> GroupRef option" where
  "selectedRef folderUIDs r =
     (case (r_FolderUID r, r_RuleGroup r) of
        (Some f, Some t) \<Rightarrow>
          if f = [] \<or> t = [] then None
          else if folderUIDs \<noteq> [] \<and> f \<notin> set folderUIDs then None
          else Some (GroupRef f t)
      | _ \<Rightarrow> None)"

definition pullGroupRefs :: "'s server \<Rightarrow> PullOptions \<Rightarrow> ('s, GroupRef list) prog" where
  "pullGroupRefs sv opts =
     (case po_Groups opts of
        Some groups \<Rightarrow> returnP (dedupeGroupRefs groups)
      | None \<Rightarrow>
          bindP (validateFolders sv (po_FolderUIDs opts)) (\<lambda>u.
          bindP (attemptP (callP ReqRules (ep_rules sv))) (\<lambda>resp.
            case resp of Inl e \<Rightarrow> failP (Wrap PullAlertRules e)
            | Inr payload \<Rightarrow>
                returnP (dedupeGroupRefs (List.map_filter (selectedRef (po_FolderUIDs opts)) (present payload))))))"

definition ruleGroupRef ::
  "'s server \<Rightarrow> GroupRef list \<times> (string \<rightharpoonup> GroupRef) \<Rightarrow> string
     \<Rightarrow> ('s, GroupRef list \<times> (string \<rightharpoonup> GroupRef)) prog" where
  "ruleGroupRef sv s uid =
     bindP (fetchRule sv uid) (\<lambda>found.
       case found of None \<Rightarrow> failP (ruleNotFoundError uid)
       | Some r \<Rightarrow> returnP (fst s @ [ruleRef r], (snd s)(uid \<mapsto> ruleRef r)))"

definition ruleGroupRefs ::
  "'s server \<Rightarrow> string list \<Rightarrow> ('s, GroupRef list \<times> (string \<rightharpoonup> GroupRef)) prog" where
  "ruleGroupRefs sv uids =
     bindP (foldP (ruleGroupRef sv) ([], Map.empty) uids) (\<lambda>s. returnP (dedupeGroupRefs (fst s), snd s))"

text \<open>A uid without a holder cannot occur after \<^verbatim>\<open>ruleGroupRefs\<close>; Go's map would answer the zero
  \<^verbatim>\<open>GroupRef\<close>.\<close>

definition requireRules :: "rule_group list \<Rightarrow> string list \<Rightarrow> (string \<rightharpoonup> GroupRef) \<Rightarrow> err + unit" where
  "requireRules gs uids holders =
     (case find (\<lambda>uid. \<not> (\<exists>g \<in> set gs. findRule (g_Rules g) uid \<noteq> None)) uids of
        None \<Rightarrow> Inr ()
      | Some uid \<Rightarrow> Inl (Leaf (PullRuleGone uid
          (case holders uid of Some ref \<Rightarrow> ref | None \<Rightarrow> GroupRef [] []))))"

definition pullRules :: "'s server \<Rightarrow> schedule \<Rightarrow> PullOptions \<Rightarrow> ('s, Bundle) prog" where
  "pullRules sv sched opts =
     (if po_Groups opts \<noteq> None \<or> po_FolderUIDs opts \<noteq> [] then failP (Leaf PullSelectionConflict)
      else let uids = dedupeUIDs (po_RuleUIDs opts) in
        bindP (ruleGroupRefs sv uids) (\<lambda>(refs, holders).
        bindP (fetchGroups sv sched refs) (\<lambda>gs.
        bindP (liftP (requireRules gs uids holders)) (\<lambda>u.
        returnP \<lparr>b_Groups = map Some gs, b_ContactPoints = [], b_Policies = None\<rparr>))))"

definition Pull :: "'s server option \<Rightarrow> schedule \<Rightarrow> PullOptions \<Rightarrow> ('s, Bundle) prog" where
  "Pull client sched opts =
     (case client of None \<Rightarrow> failP (Leaf NoClient)
      | Some sv \<Rightarrow>
          if po_RuleUIDs opts \<noteq> [] then pullRules sv sched opts
          else
            bindP (pullGroupRefs sv opts) (\<lambda>refs.
            bindP (fetchGroups sv sched refs) (\<lambda>gs.
            bindP (ListContactPoints client) (\<lambda>points.
            bindP (attemptP (callP ReqTree (ep_tree sv))) (\<lambda>resp.
              case resp of Inl e \<Rightarrow> failP (Wrap PullPolicyTree e)
              | Inr tree \<Rightarrow> returnP \<lparr>b_Groups = map Some gs, b_ContactPoints = map Some points,
                                    b_Policies = Some tree\<rparr>)))))"

section \<open>Fetching sends reads\<close>

abbreviation is_read :: "request \<Rightarrow> bool" where "is_read r \<equiv> \<not> is_write r"

definition is_group_read :: "request \<Rightarrow> bool" where
  "is_group_read r = (case r of ReqGroup _ \<Rightarrow> True | _ \<Rightarrow> False)"

definition is_rule_read :: "request \<Rightarrow> bool" where
  "is_rule_read r = (case r of ReqGroup _ \<Rightarrow> True | ReqRule _ \<Rightarrow> True | _ \<Rightarrow> False)"

lemma rule_read_is_read: "is_rule_read r \<Longrightarrow> is_read r"
  by (cases r) (simp_all add: is_rule_read_def)

lemma sends_fetchRule [go_frame]: "P (ReqRule uid) \<Longrightarrow> sends P (fetchRule sv uid)"
  by (auto simp: fetchRule_def intro!: go_frame split: sum.split)

lemma sends_fetchGroup [go_frame]: "P (ReqGroup ref) \<Longrightarrow> sends P (fetchGroup sv ref)"
  by (auto simp: fetchGroup_def intro!: go_frame split: sum.split)

lemma sends_folderExists [go_frame]: "P (ReqFolder uid) \<Longrightarrow> sends P (folderExists sv uid)"
  by (auto simp: folderExists_def intro!: go_frame split: sum.split)

lemma sends_ListContactPoints [go_frame]: "P ReqPoints \<Longrightarrow> sends P (ListContactPoints client)"
  by (auto simp: ListContactPoints_def intro!: go_frame split: sum.split option.split)

lemma sends_fetchGroups [go_frame]: "(\<And>ref. P (ReqGroup ref)) \<Longrightarrow> sends P (fetchGroups sv sched refs)"
  by (auto simp: fetchGroups_def fetchGroupAt_def intro!: go_frame)

lemma sends_pullRules [go_frame]:
  "(\<And>ref. P (ReqGroup ref)) \<Longrightarrow> (\<And>uid. P (ReqRule uid)) \<Longrightarrow> sends P (pullRules sv sched opts)"
  by (auto simp: pullRules_def ruleGroupRefs_def ruleGroupRef_def Let_def intro!: go_frame split: option.split)

lemma sends_validateFolders [go_frame]: "(\<And>uid. P (ReqFolder uid)) \<Longrightarrow> sends P (validateFolders sv uids)"
  by (auto simp: validateFolders_def validateFolder_def intro!: go_frame split: sum.split)

lemma sends_pullGroupRefs [go_frame]:
  "(\<And>uid. P (ReqFolder uid)) \<Longrightarrow> P ReqRules \<Longrightarrow> sends P (pullGroupRefs sv opts)"
  by (auto simp: pullGroupRefs_def intro!: go_frame split: sum.split option.split)

lemma sends_Pull [go_frame]: "sends is_read (Pull client sched opts)"
  by (auto simp: Pull_def intro!: go_frame split: sum.split option.split)

end
