(* ===== verification/Pull_Properties.thy ===== *)
theory Pull_Properties
  imports Pull
begin

text \<open>
  What a fetch promises: the groups of a pull depend on what Grafana holds and not on the order the
  concurrent requests complete in, a rule selection holds every named rule or fails, and fetching
  makes no write.
\<close>

section \<open>A server whose groups stand still\<close>

definition steady_groups :: "'s server \<Rightarrow> (GroupRef \<Rightarrow> client_err + rule_group) \<Rightarrow> bool" where
  "steady_groups sv lookup \<longleftrightarrow> (\<forall>ref s. ep_group sv ref s = (lookup ref, s))"

text \<open>A 404 is absence, any other failure ends the fetch.\<close>

definition reachable :: "client_err + rule_group \<Rightarrow> bool" where
  "reachable r \<longleftrightarrow> (\<forall>c. r = Inl c \<longrightarrow> c = GroupNotFoundResponse)"

definition held :: "client_err + rule_group \<Rightarrow> rule_group option" where
  "held r = (case r of Inl c \<Rightarrow> None | Inr g \<Rightarrow> Some g)"

lemma fetchGroup_steady:
  assumes "steady_groups sv lookup"
  shows "fetchGroup sv ref w =
     ((case lookup ref of
         Inr g \<Rightarrow> Inr (Some g)
       | Inl c \<Rightarrow> if c = GroupNotFoundResponse then Inr None else Inl (Wrap (PullRuleGroup ref) (Client c))),
      w\<lparr>w_trace := w_trace w @ [ReqGroup ref]\<rparr>)"
  using assms
  by (auto simp: fetchGroup_def bindP_def attemptP_def callP_def returnP_def failP_def steady_groups_def
      split: sum.splits)

definition place :: "(GroupRef \<Rightarrow> client_err + rule_group) \<Rightarrow> GroupRef list \<Rightarrow> rule_group option list \<Rightarrow> nat
    \<Rightarrow> rule_group option list" where
  "place lookup refs fetched i =
     (case held (lookup (refs ! i)) of Some g \<Rightarrow> fetched[i := Some g] | None \<Rightarrow> fetched)"

lemma fold_steady:
  assumes sv: "steady_groups sv lookup"
  shows "if \<forall>i \<in> set ks. reachable (lookup (refs ! i))
     then foldP (fetchGroupAt sv refs) fetched ks w =
       (Inr (foldl (place lookup refs) fetched ks), w\<lparr>w_trace := w_trace w @ map (\<lambda>i. ReqGroup (refs ! i)) ks\<rparr>)
     else \<exists>i \<in> set ks. \<exists>c. lookup (refs ! i) = Inl c \<and> c \<noteq> GroupNotFoundResponse \<and>
       fst (foldP (fetchGroupAt sv refs) fetched ks w) = Inl (Wrap (PullRuleGroup (refs ! i)) (Client c))"
proof (induction ks arbitrary: fetched w)
  case (Cons i ks)
  let ?w = "w\<lparr>w_trace := w_trace w @ [ReqGroup (refs ! i)]\<rparr>"
  show ?case
  proof (cases "reachable (lookup (refs ! i))")
    case True
    then have "fetchGroupAt sv refs fetched i w = (Inr (place lookup refs fetched i), ?w)"
      by (auto simp: fetchGroupAt_def bindP_def fetchGroup_steady [OF sv] returnP_def place_def held_def
          reachable_def split: sum.splits)
    then have "foldP (fetchGroupAt sv refs) fetched (i # ks) w =
        foldP (fetchGroupAt sv refs) (place lookup refs fetched i) ks ?w"
      by (simp add: bindP_def)
    with Cons [of "place lookup refs fetched i" ?w] True show ?thesis
      by (auto split: if_splits)
  next
    case False
    then obtain c where c: "lookup (refs ! i) = Inl c" "c \<noteq> GroupNotFoundResponse"
      by (auto simp: reachable_def)
    then have "fst (foldP (fetchGroupAt sv refs) fetched (i # ks) w) =
        Inl (Wrap (PullRuleGroup (refs ! i)) (Client c))"
      by (simp add: fetchGroupAt_def bindP_def fetchGroup_steady [OF sv])
    with False c show ?thesis by auto
  qed
qed (simp add: returnP_def)

lemma length_place [simp]: "length (place lookup refs fetched i) = length fetched"
  by (simp add: place_def split: option.splits)

lemma place_all:
  assumes "set ks \<subseteq> {..<length fetched}"
  shows "length (foldl (place lookup refs) fetched ks) = length fetched \<and>
     (\<forall>j < length fetched. foldl (place lookup refs) fetched ks ! j =
        (if j \<in> set ks \<and> held (lookup (refs ! j)) \<noteq> None then held (lookup (refs ! j)) else fetched ! j))"
  using assms
proof (induction ks arbitrary: fetched)
  case (Cons i ks)
  have "place lookup refs fetched i ! j =
      (if j = i \<and> held (lookup (refs ! j)) \<noteq> None then held (lookup (refs ! j)) else fetched ! j)"
    if "j < length fetched" for j
    using that by (auto simp: place_def nth_list_update split: option.splits)
  with Cons.IH [of "place lookup refs fetched i"] Cons.prems show ?case by auto
qed simp

lemma place_permutation:
  assumes "set ks = {..<length refs}"
  shows "foldl (place lookup refs) (replicate (length refs) None) ks = map (\<lambda>ref. held (lookup ref)) refs"
  using place_all [of ks "replicate (length refs) None" lookup refs] assms
  by (intro nth_equalityI) auto

text \<open>C14: the rule groups of a pull do not depend on the order in which the concurrent requests are
  answered: for every valid schedule the fetch returns exactly the groups Grafana holds of the refs
  asked for, in bundle order, a 404 being absence; and when a ref fails otherwise the fetch is the
  failure of such a ref.\<close>

theorem fetchGroups_any_schedule:
  assumes sv: "steady_groups sv lookup" and sched: "valid_schedule sched"
  shows "if \<forall>ref \<in> set refs. reachable (lookup ref)
     then fst (fetchGroups sv sched refs w) =
       Inr (sort_key groupRef (present (map (\<lambda>ref. held (lookup ref)) refs)))
     else \<exists>ref \<in> set refs. \<exists>c. lookup ref = Inl c \<and> c \<noteq> GroupNotFoundResponse \<and>
       fst (fetchGroups sv sched refs w) = Inl (Wrap (PullRuleGroup ref) (Client c))"
proof -
  let ?ks = "sched Fetching (length refs)"
  have ks: "set ?ks = {..<length refs}" using sched by (simp add: valid_schedule_def)
  have all: "(\<forall>i \<in> set ?ks. reachable (lookup (refs ! i))) \<longleftrightarrow> (\<forall>ref \<in> set refs. reachable (lookup ref))"
    by (auto simp: ks all_set_conv_all_nth)
  show ?thesis
  proof (cases "\<forall>ref \<in> set refs. reachable (lookup ref)")
    case True
    then show ?thesis
      using fold_steady [OF sv, of ?ks refs "replicate (length refs) None" w] all
      by (simp add: fetchGroups_def bindP_def returnP_def place_permutation [OF ks])
  next
    case False
    then obtain i c where i: "i \<in> set ?ks" "lookup (refs ! i) = Inl c" "c \<noteq> GroupNotFoundResponse"
        "fst (foldP (fetchGroupAt sv refs) (replicate (length refs) None) ?ks w) =
          Inl (Wrap (PullRuleGroup (refs ! i)) (Client c))"
      using fold_steady [OF sv, of ?ks refs "replicate (length refs) None" w, unfolded all if_not_P [OF False]]
      by blast
    have "refs ! i \<in> set refs" using i(1) ks by auto
    moreover have "fst (fetchGroups sv sched refs w) = Inl (Wrap (PullRuleGroup (refs ! i)) (Client c))"
      using i(4) by (auto simp: fetchGroups_def bindP_def split: prod.splits)
    ultimately show ?thesis using False i(2,3) by auto
  qed
qed

text \<open>A Grafana for the examples: the sample bundle, read-only but for the rule groups.\<close>

definition fixed_server :: "unit server" where
  "fixed_server = \<lparr>
     ep_rules = \<lambda>s. (Inr (g_Rules sample_group), s),
     ep_rule = \<lambda>u s. (Inr (findRule (g_Rules sample_group) u), s),
     ep_group = \<lambda>ref s. (if ref = groupRef sample_group then Inr sample_group
         else Inl GroupNotFoundResponse, s),
     ep_points = \<lambda>s. (Inr [Some sample_point], s),
     ep_tree = \<lambda>s. (Inr sample_tree, s),
     ep_folder = \<lambda>u s. (Inr (), s),
     ep_states = \<lambda>s. (Inr \<lparr>sa_Code = 200, sa_Body = [], sa_Decoded = None\<rparr>, s),
     ep_write = \<lambda>req s. (Inr (), s)\<rparr>"

definition start_world :: "'s \<Rightarrow> 's world" where
  "start_world s = \<lparr>w_srv = s, w_trace = [], w_log = []\<rparr>"

definition fixed_lookup :: "GroupRef \<Rightarrow> client_err + rule_group" where
  "fixed_lookup ref = (if ref = groupRef sample_group then Inr sample_group else Inl GroupNotFoundResponse)"

theorem fetchGroups_any_schedule_witness:
  "fst (fetchGroups fixed_server backwards [GroupRef ''infra'' ''gone'', groupRef sample_group] (start_world ())) =
     Inr [sample_group]"
proof -
  have "steady_groups fixed_server fixed_lookup"
    by (simp add: steady_groups_def fixed_server_def fixed_lookup_def)
  from fetchGroups_any_schedule [OF this valid_backwards, of "[GroupRef ''infra'' ''gone'', groupRef sample_group]"
      "start_world ()"]
  show ?thesis by (simp add: reachable_def held_def fixed_lookup_def groupRef_def sample_group_def)
qed

section \<open>Selecting rules\<close>

lemma requireRules_ok_iff:
  "requireRules gs uids holders = Inr () \<longleftrightarrow> (\<forall>u \<in> set uids. \<exists>g \<in> set gs. findRule (g_Rules g) u \<noteq> None)"
  by (auto simp: requireRules_def find_None_iff split: option.splits dest: find_Some_in)

text \<open>A pull that names rules returns a bundle holding every one of them, with no contact point
  and no policy tree, and asks Grafana for rules and rule groups only, whatever Grafana does
  between the two requests.\<close>

theorem pull_rules_complete:
  assumes ok: "Pull (Some sv) sched opts w = (Inr b, w')" and sel: "po_RuleUIDs opts \<noteq> []"
  shows "(\<forall>u \<in> set (po_RuleUIDs opts). remoteGroupHolding (b_Groups b) u \<noteq> None) \<and>
     b_ContactPoints b = [] \<and> b_Policies b = None \<and>
     (\<exists>reqs. w_trace w' = w_trace w @ reqs \<and> list_all is_rule_read reqs)"
proof -
  have rules: "pullRules sv sched opts w = (Inr b, w')" using ok sel by (simp add: Pull_def)
  then obtain gs holders where b: "b = \<lparr>b_Groups = map Some gs, b_ContactPoints = [], b_Policies = None\<rparr>"
    and req: "requireRules gs (dedupeUIDs (po_RuleUIDs opts)) holders = Inr ()"
    by (auto simp: pullRules_def Let_def bindP_Inr liftP_def returnP_def failP_def split: if_splits prod.splits)
  have "remoteGroupHolding (map Some gs) u \<noteq> None" if "u \<in> set (po_RuleUIDs opts)" for u
    using req that by (simp add: requireRules_ok_iff remoteGroupHolding_def find_None_iff) blast
  moreover have "sends is_rule_read (pullRules sv sched opts)"
    by (rule sends_pullRules) (simp_all add: is_rule_read_def)
  from sendsD [OF this, of w] have "\<exists>reqs. w_trace w' = w_trace w @ reqs \<and> list_all is_rule_read reqs"
    using rules by simp
  ultimately show ?thesis by (simp add: b)
qed

theorem pull_rules_complete_witness:
  "\<exists>b w'. Pull (Some fixed_server) in_order \<lparr>po_FolderUIDs = [], po_Groups = None, po_RuleUIDs = [''cpu'']\<rparr>
       (start_world ()) = (Inr b, w') \<and>
     (\<forall>u \<in> set [''cpu'']. remoteGroupHolding (b_Groups b) u \<noteq> None) \<and> b_ContactPoints b = [] \<and>
     (\<exists>reqs. w_trace w' = [] @ reqs \<and> list_all is_rule_read reqs)"
proof -
  let ?opts = "\<lparr>po_FolderUIDs = [], po_Groups = None, po_RuleUIDs = [''cpu'']\<rparr>"
  have run: "Pull (Some fixed_server) in_order ?opts (start_world ()) =
      (Inr (groupsBundle [sample_group]),
       \<lparr>w_srv = (), w_trace = [ReqRule ''cpu'', ReqGroup (groupRef sample_group)], w_log = []\<rparr>)"
    by code_simp
  from pull_rules_complete [OF run] run show ?thesis by (simp add: start_world_def)
qed

end
