(* ===== verification/Push.thy ===== *)
theory Push
  imports Pull_Properties
begin

text \<open>
  Applying a bundle (\<^verbatim>\<open>internal/alerts/push.go\<close>, and \<^verbatim>\<open>scopedBundles\<close> of \<^verbatim>\<open>scope.go\<close>):
  plan, then contact points, the policy tree and the rule groups, with the result accumulated as
  the code does. A phase is a function on the pair of the result so far and the world; it returns
  the error that stops the push, if any. The concurrent writes run in the order of a schedule; they
  are all made, whatever fails.
\<close>

section \<open>The run\<close>

record Result =
  res_Applied :: "Change list"
  res_Failed :: "(Change \<times> err) list"

record PushOptions =
  op_DryRun :: bool
  op_StopOnError :: bool
  op_UIEditable :: bool
  op_RuleUIDs :: "string list"
  op_OrgID :: int

record 's pushRun =
  pr_sv :: "'s server"
  pr_M :: marshaller
  pr_local :: Bundle
  pr_remote :: Bundle
  pr_opts :: PushOptions

record ruleGroupTarget =
  rt_change :: Change
  rt_local :: rule_group
  rt_remote :: "rule_group option"

type_synonym 's push_state = "Result \<times> 's world"

definition changeError :: "Change \<Rightarrow> err \<Rightarrow> err" where
  "changeError change e = operationError (PushOperation (c_Kind change) (c_ID change)) e"

definition withError :: "(err \<Rightarrow> err) \<Rightarrow> ('s, 'a) prog \<Rightarrow> ('s, 'a) prog" where
  "withError f m = (\<lambda>w. case m w of (Inl e, w') \<Rightarrow> (Inl (f e), w') | (Inr a, w') \<Rightarrow> (Inr a, w'))"

definition recordChange :: "PushOptions \<Rightarrow> Change \<Rightarrow> err + unit \<Rightarrow> Result \<Rightarrow> err option \<times> Result" where
  "recordChange opts change outcome result =
     (case outcome of
        Inr u \<Rightarrow> (None, result\<lparr>res_Applied := res_Applied result @ [change]\<rparr>)
      | Inl e \<Rightarrow> (if op_StopOnError opts \<or> isUnauthorized e then Some e else None,
                  result\<lparr>res_Failed := res_Failed result @ [(change, e)]\<rparr>))"

definition runChange ::
  "PushOptions \<Rightarrow> Change \<Rightarrow> ('s, unit) prog \<Rightarrow> 's push_state \<Rightarrow> err option \<times> 's push_state" where
  "runChange opts change m st =
     (case st of (result, w) \<Rightarrow> case m w of (outcome, w') \<Rightarrow>
      case recordChange opts change outcome result of (stop, result') \<Rightarrow> (stop, (result', w')))"

definition changesByID :: "Change list \<Rightarrow> Kind \<Rightarrow> (string \<rightharpoonup> Change)" where
  "changesByID changes kind = map_of (rev (map (\<lambda>c. (c_ID c, c)) (filter (\<lambda>c. c_Kind c = kind) changes)))"

section \<open>Contact points\<close>

definition redactedFields :: "marshaller \<Rightarrow> contact_point \<Rightarrow> err + string list" where
  "redactedFields M point =
     (case encodableValue (m_point M) stripContactPointFields point of
        Inl e \<Rightarrow> Inl e | Inr value \<Rightarrow> Inr (sort (collectRedacted value [])))"

definition createContactPoint :: "'s pushRun \<Rightarrow> Change \<Rightarrow> contact_point \<Rightarrow> ('s, unit) prog" where
  "createContactPoint p change local =
     withError (changeError change) (bindP (liftP (redactedFields (pr_M p) local)) (\<lambda>redacted.
       if redacted \<noteq> [] then failP (Leaf (RedactedSecrets redacted))
       else if op_DryRun (pr_opts p) then returnP ()
       else writeP (pr_sv p) (PostPoint (contactPointBody local (cp_UID local))
              (CreateProvenanceHeader (op_UIEditable (pr_opts p))))))"

definition updateContactPoint ::
  "'s pushRun \<Rightarrow> Change \<Rightarrow> contact_point \<Rightarrow> contact_point \<Rightarrow> ('s, unit) prog" where
  "updateContactPoint p change local remote =
     withError (changeError change) (bindP (liftP (ProvenanceHeader (cp_Provenance remote))) (\<lambda>header.
       if op_DryRun (pr_opts p) then returnP ()
       else writeP (pr_sv p) (PutPoint (cp_UID remote) (contactPointBody local (cp_UID remote)) header)))"

definition pushContactPoint :: "'s pushRun \<Rightarrow> Change \<Rightarrow> contact_point \<Rightarrow> ('s, unit) prog" where
  "pushContactPoint p change local =
     bindP (liftP (matchContactPoint local (b_ContactPoints (pr_remote p)))) (\<lambda>match.
       case match of None \<Rightarrow> createContactPoint p change local
       | Some (i, remote) \<Rightarrow> updateContactPoint p change local remote)"

definition applyContactPoint ::
  "'s pushRun \<Rightarrow> (string \<rightharpoonup> Change) \<Rightarrow> contact_point \<Rightarrow> 's push_state \<Rightarrow> err option \<times> 's push_state" where
  "applyContactPoint p pending point st =
     (case pending (contactPointID point) of None \<Rightarrow> (None, st)
      | Some change \<Rightarrow> runChange (pr_opts p) change (pushContactPoint p change point) st)"

definition applyContactPoints ::
  "'s pushRun \<Rightarrow> Change list \<Rightarrow> 's push_state \<Rightarrow> err option \<times> 's push_state" where
  "applyContactPoints p changes st =
     (if filter (\<lambda>c. c_Kind c = KindContactPoint) changes = [] then (None, st)
      else runS (applyContactPoint p (changesByID changes KindContactPoint))
             (present (b_ContactPoints (pr_local p))) st)"

section \<open>The policy tree\<close>

definition treeHeader :: "'s pushRun \<Rightarrow> err + string option" where
  "treeHeader p =
     (case b_Policies (pr_remote p) of
        None \<Rightarrow> Inr (CreateProvenanceHeader (op_UIEditable (pr_opts p)))
      | Some tree \<Rightarrow> ProvenanceHeader (rt_Provenance tree))"

definition pushPolicyTree :: "'s pushRun \<Rightarrow> Change \<Rightarrow> route \<Rightarrow> ('s, unit) prog" where
  "pushPolicyTree p change local =
     withError (changeError change) (bindP (liftP (treeHeader p)) (\<lambda>header.
       if op_DryRun (pr_opts p) then returnP ()
       else writeP (pr_sv p) (PutTree (routeBody local) header)))"

definition applyPolicyTree ::
  "'s pushRun \<Rightarrow> Change list \<Rightarrow> 's push_state \<Rightarrow> err option \<times> 's push_state" where
  "applyPolicyTree p changes st =
     (case (find (\<lambda>c. c_Kind c = KindPolicyTree) changes, b_Policies (pr_local p)) of
        (Some change, Some local) \<Rightarrow> runChange (pr_opts p) change (pushPolicyTree p change local) st
      | _ \<Rightarrow> (None, st))"

section \<open>Rule groups\<close>

definition ruleGroupHeader :: "ruleGroupTarget \<Rightarrow> bool \<Rightarrow> err + string option" where
  "ruleGroupHeader target uiEditable =
     (case rt_remote target of None \<Rightarrow> Inr (CreateProvenanceHeader uiEditable)
      | Some g \<Rightarrow> GroupProvenanceHeader (g_Rules g))"

definition pushRuleGroup :: "'s pushRun \<Rightarrow> ruleGroupTarget \<Rightarrow> ('s, unit) prog" where
  "pushRuleGroup p target =
     withError (changeError (rt_change target))
       (bindP (liftP (ruleGroupHeader target (op_UIEditable (pr_opts p)))) (\<lambda>header.
        let orgID = resolveOrgID (rt_remote target) (op_OrgID (pr_opts p)) in
        bindP (liftP (requireOrgID (rt_local target) orgID)) (\<lambda>u.
        if op_DryRun (pr_opts p) then returnP ()
        else writeP (pr_sv p) (PutGroup (groupRef (rt_local target)) (ruleGroupBody (rt_local target) orgID) header))))"

definition ruleGroupTargets :: "'s pushRun \<Rightarrow> Change list \<Rightarrow> ruleGroupTarget list" where
  "ruleGroupTargets p changes =
     (let pending = changesByID changes KindRuleGroup in
      List.map_filter (\<lambda>g. map_option (\<lambda>change.
          \<lparr>rt_change = change, rt_local = g,
           rt_remote = findGroup (b_Groups (pr_remote p)) (g_FolderUID g) (g_Title g)\<rparr>) (pending (groupID g)))
        (present (b_Groups (pr_local p))))"

definition checkFolder ::
  "'s pushRun \<Rightarrow> (string \<rightharpoonup> err) \<times> string set \<Rightarrow> ruleGroupTarget \<Rightarrow> ('s, (string \<rightharpoonup> err) \<times> string set) prog" where
  "checkFolder p s target =
     (let uid = g_FolderUID (rt_local target) in
      if uid \<in> snd s then returnP s
      else bindP (attemptP (folderExists (pr_sv p) uid)) (\<lambda>r.
        case r of
          Inl e \<Rightarrow> if isForbidden e
                   then returnP ((fst s)(uid \<mapsto> Message (FolderForbidden uid) [] e), insert uid (snd s))
                   else failP (Wrap (PushFolder uid) e)
        | Inr exists \<Rightarrow> if exists then returnP (fst s, insert uid (snd s))
                        else returnP ((fst s)(uid \<mapsto> Leaf (FolderMissing uid)), insert uid (snd s))))"

definition checkFolders :: "'s pushRun \<Rightarrow> ruleGroupTarget list \<Rightarrow> ('s, string \<rightharpoonup> err) prog" where
  "checkFolders p targets = bindP (foldP (checkFolder p) (Map.empty, {}) targets) (\<lambda>s. returnP (fst s))"

definition recordBlocked ::
  "'s pushRun \<Rightarrow> (string \<rightharpoonup> err) \<Rightarrow> ruleGroupTarget \<Rightarrow> 's push_state \<Rightarrow> err option \<times> 's push_state" where
  "recordBlocked p blocked target st =
     (case blocked (g_FolderUID (rt_local target)) of None \<Rightarrow> (None, st)
      | Some folderErr \<Rightarrow> runChange (pr_opts p) (rt_change target)
          (failP (changeError (rt_change target) folderErr)) st)"

definition applyRuleGroupsInOrder ::
  "'s pushRun \<Rightarrow> ruleGroupTarget list \<Rightarrow> 's push_state \<Rightarrow> err option \<times> 's push_state" where
  "applyRuleGroupsInOrder p targets st =
     runS (\<lambda>target. runChange (pr_opts p) (rt_change target) (pushRuleGroup p target)) targets st"

text \<open>The outcomes of the concurrent writes, by position, and the first 401 in completion order.\<close>

fun writeGroups ::
  "'s pushRun \<Rightarrow> ruleGroupTarget list \<Rightarrow> nat list \<Rightarrow> (err + unit) list \<times> err option \<times> 's world
     \<Rightarrow> (err + unit) list \<times> err option \<times> 's world" where
  "writeGroups p targets [] s = s"
| "writeGroups p targets (i # is) (outcomes, fatal, w) =
     (case pushRuleGroup p (targets ! i) w of (outcome, w') \<Rightarrow>
      writeGroups p targets is
        (outcomes[i := outcome],
         (case (fatal, outcome) of
            (None, Inl e) \<Rightarrow> if isUnauthorized e then Some e else None
          | _ \<Rightarrow> fatal),
         w'))"

definition applyRuleGroupsConcurrently ::
  "'s pushRun \<Rightarrow> schedule \<Rightarrow> ruleGroupTarget list \<Rightarrow> 's push_state \<Rightarrow> err option \<times> 's push_state" where
  "applyRuleGroupsConcurrently p sched targets st =
     (case st of (result, w) \<Rightarrow>
      case writeGroups p targets (sched Writing (length targets))
             (replicate (length targets) (Inr ()), None, w) of
        (outcomes, fatal, w') \<Rightarrow>
          (fatal, (fold (\<lambda>(target, outcome) res. snd (recordChange (pr_opts p) (rt_change target) outcome res))
                     (zip targets outcomes) result, w')))"

definition writeTargets ::
  "'s pushRun \<Rightarrow> schedule \<Rightarrow> ruleGroupTarget list \<Rightarrow> 's push_state \<Rightarrow> err option \<times> 's push_state" where
  "writeTargets p sched targets =
     (if op_StopOnError (pr_opts p) then applyRuleGroupsInOrder p targets
      else applyRuleGroupsConcurrently p sched targets)"

definition applyRuleGroups ::
  "'s pushRun \<Rightarrow> schedule \<Rightarrow> Change list \<Rightarrow> 's push_state \<Rightarrow> err option \<times> 's push_state" where
  "applyRuleGroups p sched changes st =
     (let targets = ruleGroupTargets p changes in
      if targets = [] then (None, st)
      else case st of (result, w) \<Rightarrow>
        case checkFolders p targets w of
          (Inl e, w') \<Rightarrow> (Some e, (result, w'))
        | (Inr blocked, w') \<Rightarrow>
            thenS (runS (recordBlocked p blocked) targets)
              (writeTargets p sched (filter (\<lambda>t. blocked (g_FolderUID (rt_local t)) = None) targets))
              (result, w'))"

section \<open>The push\<close>

definition recordUnchanged :: "Change list \<Rightarrow> Result \<Rightarrow> Change list \<times> Result" where
  "recordUnchanged changes result =
     (filter (\<lambda>c. c_Action c \<noteq> ActionUnchanged) changes,
      result\<lparr>res_Applied := res_Applied result @ filter (\<lambda>c. c_Action c = ActionUnchanged) changes\<rparr>)"

definition applyPlan ::
  "'s pushRun \<Rightarrow> schedule \<Rightarrow> Change list \<Rightarrow> 's push_state \<Rightarrow> err option \<times> 's push_state" where
  "applyPlan p sched changes st =
     (case recordUnchanged changes (fst st) of (pending, result) \<Rightarrow>
      thenS (applyContactPoints p pending)
        (thenS (applyPolicyTree p pending) (applyRuleGroups p sched pending)) (result, snd st))"

definition sortResult :: "Result \<Rightarrow> Result" where
  "sortResult result = \<lparr>res_Applied = sort_key changeKey (res_Applied result),
     res_Failed = sort_key (\<lambda>f. changeKey (fst f)) (res_Failed result)\<rparr>"

definition localGroupRefs :: "rule_group option list \<Rightarrow> GroupRef list" where
  "localGroupRefs gs = map groupRef (present gs)"

type_synonym scopeFunc = "Bundle \<Rightarrow> Bundle \<Rightarrow> string list \<Rightarrow> err + Bundle \<times> Bundle"

text \<open>The lines logged before a comparison that fails are not kept.\<close>

definition scopedBundles ::
  "'s server \<Rightarrow> schedule \<Rightarrow> marshaller \<Rightarrow> Bundle \<Rightarrow> PushOptions \<Rightarrow> scopeFunc \<Rightarrow> ('s, Bundle \<times> Bundle) prog" where
  "scopedBundles sv sched M local opts scope =
     (let uids = dedupeUIDs (op_RuleUIDs opts) in
      bindP (liftP (locateLocalRules local uids)) (\<lambda>located.
      bindP (Pull (Some sv) sched \<lparr>po_FolderUIDs = [], po_Groups = None, po_RuleUIDs = uids\<rparr>) (\<lambda>remote.
      bindP (liftP (warnOtherDifferences M located remote uids)) (\<lambda>warnings.
      bindP (logP (map (\<lambda>(i, n). OtherDifferencesNotPushed n i) warnings)) (\<lambda>u.
      liftP (scope local remote uids))))))"

text \<open>What is planned: the two bundles and the plan.\<close>

definition preparePush ::
  "'s server \<Rightarrow> schedule \<Rightarrow> marshaller \<Rightarrow> Bundle \<Rightarrow> PushOptions \<Rightarrow> scopeFunc
     \<Rightarrow> ('s, Bundle \<times> Bundle \<times> Change list) prog" where
  "preparePush sv sched M local opts scope =
     (if op_RuleUIDs opts \<noteq> [] then
        bindP (scopedBundles sv sched M local opts scope) (\<lambda>(l, r).
        bindP (liftP (planScoped M l r (dedupeUIDs (op_RuleUIDs opts)))) (\<lambda>changes.
        returnP (l, r, changes)))
      else
        bindP (Pull (Some sv) sched \<lparr>po_FolderUIDs = [], po_Groups = Some (localGroupRefs (b_Groups local)),
                 po_RuleUIDs = []\<rparr>) (\<lambda>r.
        bindP (liftP (Plan M local r)) (\<lambda>changes. returnP (local, r, changes))))"

definition noResult :: Result where
  "noResult = \<lparr>res_Applied = [], res_Failed = []\<rparr>"

definition pushWith ::
  "'s server option \<Rightarrow> schedule \<Rightarrow> marshaller \<Rightarrow> Bundle \<Rightarrow> PushOptions \<Rightarrow> scopeFunc
     \<Rightarrow> 's world \<Rightarrow> (Result \<times> err option) \<times> 's world" where
  "pushWith client sched M local opts scope w =
     (case client of None \<Rightarrow> ((noResult, Some (Leaf NoClient)), w)
      | Some sv \<Rightarrow>
          (case preparePush sv sched M local opts scope w of
             (Inl e, w') \<Rightarrow> ((noResult, Some e), w')
           | (Inr (l, r, changes), w') \<Rightarrow>
               (let opts' = (if op_DryRun opts then opts\<lparr>op_StopOnError := False\<rparr> else opts);
                    p = \<lparr>pr_sv = sv, pr_M = M, pr_local = l, pr_remote = r, pr_opts = opts'\<rparr>
                in case applyPlan p sched changes (noResult, w') of
                     (stop, (result, w'')) \<Rightarrow> ((sortResult result, stop), w''))))"

definition Push ::
  "'s server option \<Rightarrow> schedule \<Rightarrow> marshaller \<Rightarrow> Bundle \<Rightarrow> PushOptions
     \<Rightarrow> 's world \<Rightarrow> (Result \<times> err option) \<times> 's world" where
  "Push client sched M local opts = pushWith client sched M local opts scopeBundles"

end
