(* ===== verification/Push_Properties.thy ===== *)
theory Push_Properties
  imports Push
begin

text \<open>
  What a push promises: the writes it can make and what each carries, their order, that a dry run
  makes none, that every entry of the plan is accounted for exactly once, and what stops it.
\<close>

section \<open>Growing traces\<close>

definition extends :: "(request \<Rightarrow> bool) \<Rightarrow> 's world \<Rightarrow> 's world \<Rightarrow> bool" where
  "extends P w w' \<longleftrightarrow> (\<exists>reqs. w_trace w' = w_trace w @ reqs \<and> list_all P reqs)"

lemma extends_refl [simp]: "extends P w w"
  by (simp add: extends_def)

lemma extends_trans: "extends P u v \<Longrightarrow> extends P v w \<Longrightarrow> extends P u w"
  unfolding extends_def by (metis append_assoc list_all_append)

lemma extends_mono: "extends P v w \<Longrightarrow> (\<And>r. P r \<Longrightarrow> Q r) \<Longrightarrow> extends Q v w"
  unfolding extends_def by (metis list.pred_mono_strong)

lemma sends_extends: "sends P m \<Longrightarrow> extends P w (snd (m w))"
  by (simp add: sends_def extends_def)

lemma sends_withError [go_frame]: "sends P m \<Longrightarrow> sends P (withError f m)"
  unfolding sends_def withError_def by (auto split: prod.splits sum.splits) (metis snd_conv)+

lemma sends_bind_lift [go_frame]:
  "(\<And>a. r = Inr a \<Longrightarrow> sends P (f a)) \<Longrightarrow> sends P (bindP (liftP r) f)"
  by (cases r) (simp_all add: sends_def bindP_def liftP_def)

text \<open>
  A phase of an operation is a function on its report and the world. The contract the phases share:
  it grows the trace by permitted requests only. Running a phase over a list, and one phase after
  another, keeps the contract.
\<close>

locale request_phase =
  fixes allowed :: "request \<Rightarrow> bool" and phase :: "'r \<times> 's world \<Rightarrow> err option \<times> 'r \<times> 's world"
  assumes grows: "extends allowed (snd st) (snd (snd (phase st)))"
begin

lemma weaken: "(\<And>r. allowed r \<Longrightarrow> Q r) \<Longrightarrow> extends Q (snd st) (snd (snd (phase st)))"
  using extends_mono [OF grows] .

lemma then_grows:
  assumes "\<And>st. extends allowed (snd st) (snd (snd (next_phase st)))"
  shows "extends allowed (snd st) (snd (snd (thenS phase next_phase st)))"
proof -
  obtain stop st' where eq: "phase st = (stop, st')" by (cases "phase st")
  have "extends allowed (snd st) (snd st')" using grows [of st] eq by simp
  then show ?thesis
    using extends_trans [OF _ assms] eq by (cases stop) (simp_all add: thenS_def)
qed

end

lemma runS_grows:
  "(\<And>x st. x \<in> set xs \<Longrightarrow> extends P (snd st) (snd (snd (step x st)))) \<Longrightarrow>
     extends P (snd st) (snd (snd (runS step xs st)))"
  using runS_invariant [where I = "\<lambda>s. extends P (snd st) (snd s)" and st = st and step = step and xs = xs]
  by (blast intro: extends_refl extends_trans)

lemma runChange_grows:
  "sends P m \<Longrightarrow> extends P (snd st) (snd (snd (runChange opts change m st)))"
  using sends_extends [of P m "snd st"]
  by (cases st; cases "m (snd st)") (simp add: runChange_def split: prod.split)

lemmas runChange_grows_pair = runChange_grows [where st = "(res, w)" for res w, simplified]

lemma changesByID_Some:
  "changesByID changes kind i = Some c \<Longrightarrow> c \<in> set changes \<and> c_Kind c = kind \<and> c_ID c = i"
  by (auto simp: changesByID_def dest!: map_of_SomeD)

section \<open>The writes a push may make\<close>

text \<open>What a write of the run may be: it belongs to one of the entries \<open>todo\<close>, of the kind and under
  the ID of its object, the object's checks passed, the body is the local object's and the header
  mirrors what Grafana has stored.\<close>

definition asked :: "Change list \<Rightarrow> Kind \<Rightarrow> string \<Rightarrow> bool" where
  "asked todo kind i \<longleftrightarrow> (\<exists>c \<in> set todo. c_Kind c = kind \<and> c_ID c = i)"

lemma changesByID_asked: "changesByID todo kind i = Some c \<Longrightarrow> asked todo kind i"
  using changesByID_Some unfolding asked_def by blast

definition permitted_post :: "Change list \<Rightarrow> 's pushRun \<Rightarrow> contact_point \<Rightarrow> string option \<Rightarrow> bool" where
  "permitted_post todo p body header \<longleftrightarrow>
     (\<exists>l. Some l \<in> set (b_ContactPoints (pr_local p)) \<and> asked todo KindContactPoint (contactPointID l) \<and>
        matchContactPoint l (b_ContactPoints (pr_remote p)) = Inr None \<and>
        redactedFields (pr_M p) l = Inr [] \<and> body = contactPointBody l (cp_UID l) \<and>
        header = CreateProvenanceHeader (op_UIEditable (pr_opts p)))"

definition permitted_put :: "Change list \<Rightarrow> 's pushRun \<Rightarrow> string \<Rightarrow> contact_point \<Rightarrow> string option \<Rightarrow> bool" where
  "permitted_put todo p uid body header \<longleftrightarrow>
     (\<exists>l i r. Some l \<in> set (b_ContactPoints (pr_local p)) \<and> asked todo KindContactPoint (contactPointID l) \<and>
        matchContactPoint l (b_ContactPoints (pr_remote p)) = Inr (Some (i, r)) \<and>
        uid = cp_UID r \<and> body = contactPointBody l (cp_UID r) \<and>
        cp_Provenance r \<in> {[], apiProvenance} \<and> stored_after header = cp_Provenance r)"

definition permitted_tree :: "Change list \<Rightarrow> 's pushRun \<Rightarrow> route \<Rightarrow> string option \<Rightarrow> bool" where
  "permitted_tree todo p body header \<longleftrightarrow>
     (\<exists>l. b_Policies (pr_local p) = Some l \<and> (\<exists>c \<in> set todo. c_Kind c = KindPolicyTree) \<and> body = routeBody l \<and>
        (case b_Policies (pr_remote p) of
           None \<Rightarrow> header = CreateProvenanceHeader (op_UIEditable (pr_opts p))
         | Some t \<Rightarrow> rt_Provenance t \<in> {[], apiProvenance} \<and> stored_after header = rt_Provenance t))"

definition permitted_group :: "Change list \<Rightarrow> 's pushRun \<Rightarrow> GroupRef \<Rightarrow> rule_group \<Rightarrow> string option \<Rightarrow> bool" where
  "permitted_group todo p ref body header \<longleftrightarrow>
     (\<exists>l org. Some l \<in> set (b_Groups (pr_local p)) \<and> asked todo KindRuleGroup (groupID l) \<and> ref = groupRef l \<and> body = ruleGroupBody l org \<and>
        (\<forall>r. Some r \<in> set (g_Rules body) \<longrightarrow> r_OrgID r \<noteq> None) \<and>
        (case findGroup (b_Groups (pr_remote p)) (g_FolderUID l) (g_Title l) of
           None \<Rightarrow> header = CreateProvenanceHeader (op_UIEditable (pr_opts p))
         | Some g \<Rightarrow> \<forall>r. Some r \<in> set (g_Rules g) \<longrightarrow>
             r_Provenance r \<in> {[], apiProvenance} \<and> stored_after header = r_Provenance r))"

fun permitted :: "Change list \<Rightarrow> 's pushRun \<Rightarrow> request \<Rightarrow> bool" where
  "permitted todo p (PostPoint body header) \<longleftrightarrow> \<not> op_DryRun (pr_opts p) \<and> permitted_post todo p body header"
| "permitted todo p (PutPoint uid body header) \<longleftrightarrow> \<not> op_DryRun (pr_opts p) \<and> permitted_put todo p uid body header"
| "permitted todo p (PutTree body header) \<longleftrightarrow> \<not> op_DryRun (pr_opts p) \<and> permitted_tree todo p body header"
| "permitted todo p (PutGroup ref body header) \<longleftrightarrow> \<not> op_DryRun (pr_opts p) \<and> permitted_group todo p ref body header"
| "permitted todo p (DelRule uid header) \<longleftrightarrow> False"
| "permitted todo p req \<longleftrightarrow> True"

text \<open>The phase a request belongs to.\<close>

fun stage :: "request \<Rightarrow> nat" where
  "stage (PostPoint _ _) = 0"
| "stage (PutPoint _ _ _) = 0"
| "stage (PutTree _ _) = 1"
| "stage _ = 2"

definition stage_ok :: "Change list \<Rightarrow> 's pushRun \<Rightarrow> nat \<Rightarrow> request \<Rightarrow> bool" where
  "stage_ok todo p n req \<longleftrightarrow> permitted todo p req \<and> (is_write req \<longrightarrow> stage req = n)"

lemma stored_header:
  "ProvenanceHeader stored = Inr header \<Longrightarrow> stored \<in> {[], apiProvenance} \<and> stored_after header = stored"
  using ProvenanceHeader_ok_iff [of stored] ProvenanceHeader_mirrors [of stored header] by simp

lemma stored_group_header:
  assumes "GroupProvenanceHeader rules = Inr header" and "Some r \<in> set rules"
  shows "r_Provenance r \<in> {[], apiProvenance} \<and> stored_after header = r_Provenance r"
proof -
  obtain p where p: "groupProvenance rules = Inr p" "ProvenanceHeader p = Inr header"
    using assms(1) by (auto simp: GroupProvenanceHeader_def split: sum.splits)
  have "present rules \<noteq> []" using assms(2) by (auto simp: present_Nil_iff)
  then have "r_Provenance r = p" using p(1) assms(2) by (auto simp: groupProvenance_Inr_iff)
  then show ?thesis using stored_header [OF p(2)] by simp
qed

lemma permitted_postI:
  "Some l \<in> set (b_ContactPoints (pr_local p)) \<Longrightarrow>
     asked todo KindContactPoint (contactPointID l) \<Longrightarrow>
     matchContactPoint l (b_ContactPoints (pr_remote p)) = Inr None \<Longrightarrow> redactedFields (pr_M p) l = Inr [] \<Longrightarrow>
     permitted_post todo p (contactPointBody l (cp_UID l)) (CreateProvenanceHeader (op_UIEditable (pr_opts p)))"
  unfolding permitted_post_def by blast

lemma permitted_putI:
  "Some l \<in> set (b_ContactPoints (pr_local p)) \<Longrightarrow>
     asked todo KindContactPoint (contactPointID l) \<Longrightarrow>
     matchContactPoint l (b_ContactPoints (pr_remote p)) = Inr (Some (i, r)) \<Longrightarrow>
     ProvenanceHeader (cp_Provenance r) = Inr header \<Longrightarrow>
     permitted_put todo p (cp_UID r) (contactPointBody l (cp_UID r)) header"
  unfolding permitted_put_def using stored_header by blast

lemma sends_pushContactPoint:
  assumes "Some l \<in> set (b_ContactPoints (pr_local p))" and "asked todo KindContactPoint (contactPointID l)"
  shows "sends (stage_ok todo p 0) (pushContactPoint p change l)"
  unfolding pushContactPoint_def createContactPoint_def updateContactPoint_def
  using assms
  by (auto intro!: go_frame permitted_postI split: option.split simp: stage_ok_def)
    (auto intro: permitted_putI)

lemma sends_pushPolicyTree:
  assumes "b_Policies (pr_local p) = Some l" and "\<exists>c \<in> set todo. c_Kind c = KindPolicyTree"
  shows "sends (stage_ok todo p 1) (pushPolicyTree p change l)"
  unfolding pushPolicyTree_def treeHeader_def
  using assms
  by (auto intro!: go_frame dest!: stored_header split: option.splits simp: stage_ok_def permitted_tree_def) blast+

definition target_ok :: "Change list \<Rightarrow> 's pushRun \<Rightarrow> ruleGroupTarget \<Rightarrow> bool" where
  "target_ok todo p t \<longleftrightarrow> Some (rt_local t) \<in> set (b_Groups (pr_local p)) \<and>
     asked todo KindRuleGroup (groupID (rt_local t)) \<and>
     rt_remote t = findGroup (b_Groups (pr_remote p)) (g_FolderUID (rt_local t)) (g_Title (rt_local t))"

lemma sends_pushRuleGroup:
  assumes t: "target_ok todo p t"
  shows "sends (stage_ok todo p 2) (pushRuleGroup p t)"
proof -
  have "permitted_group todo p (groupRef (rt_local t)) (ruleGroupBody (rt_local t) org) header"
    if h: "ruleGroupHeader t (op_UIEditable (pr_opts p)) = Inr header"
      and o: "requireOrgID (rt_local t) org = Inr ()" for header org
  proof -
    have "r_OrgID r \<noteq> None" if "Some r \<in> set (g_Rules (ruleGroupBody (rt_local t) org))" for r
      using requireOrgID_complete [OF o, of r] that unfolding set_present by blast
    then show ?thesis
      using t h stored_group_header unfolding permitted_group_def target_ok_def ruleGroupHeader_def
      by (intro exI [of _ "rt_local t"] exI [of _ org]) (auto split: option.splits)
  qed
  then show ?thesis
    unfolding pushRuleGroup_def Let_def
    by (auto intro!: go_frame simp: stage_ok_def)
qed

section \<open>The phases\<close>

lemma targets_ok: "t \<in> set (ruleGroupTargets p changes) \<Longrightarrow> target_ok changes p t"
  by (auto simp: ruleGroupTargets_def Let_def map_filter_def target_ok_def
      intro: changesByID_asked split: option.splits if_splits)

lemma sends_checkFolders: "(\<And>uid. P (ReqFolder uid)) \<Longrightarrow> sends P (checkFolders p targets)"
  by (auto simp: checkFolders_def checkFolder_def Let_def intro!: go_frame split: sum.split)

lemma writeGroups_grows:
  assumes "\<And>t. t \<in> set targets \<Longrightarrow> target_ok todo p t" and "set ks \<subseteq> {..<length targets}"
  shows "extends (stage_ok todo p 2) (snd (snd s)) (snd (snd (writeGroups p targets ks s)))"
  using assms(2)
proof (induction ks arbitrary: s)
  case (Cons k ks)
  obtain outcomes fatal w where s: "s = (outcomes, fatal, w)" by (cases s)
  obtain r w' where r: "pushRuleGroup p (targets ! k) w = (r, w')" by (cases "pushRuleGroup p (targets ! k) w")
  have "extends (stage_ok todo p 2) w w'"
    using sends_extends [OF sends_pushRuleGroup [OF assms(1)], of "targets ! k" w] Cons.prems r by simp
  moreover have "set ks \<subseteq> {..<length targets}" using Cons.prems by simp
  ultimately show ?case
    using extends_trans [OF _ Cons.IH] by (simp add: s r)
qed simp

interpretation points_phase: request_phase "stage_ok changes p 0" "applyContactPoints p changes" for p changes
proof
  fix st :: "'a push_state"
  show "extends (stage_ok changes p 0) (snd st) (snd (snd (applyContactPoints p changes st)))"
    unfolding applyContactPoints_def
    by (auto simp: applyContactPoint_def split: option.split
        intro!: runS_grows runChange_grows_pair sends_pushContactPoint intro: changesByID_asked)
qed

interpretation tree_phase: request_phase "stage_ok changes p 1" "applyPolicyTree p changes" for p changes
proof
  fix st :: "'a push_state"
  show "extends (stage_ok changes p 1) (snd st) (snd (snd (applyPolicyTree p changes st)))"
    unfolding applyPolicyTree_def
    by (auto split: option.split intro!: runChange_grows sends_pushPolicyTree simp del: One_nat_def
        simp: find_Some_iff)
qed

interpretation blocked_phase: request_phase "stage_ok todo p 2" "runS (recordBlocked p blocked) targets" for todo p blocked targets
proof
  fix st :: "'a push_state"
  show "extends (stage_ok todo p 2) (snd st) (snd (snd (runS (recordBlocked p blocked) targets st)))"
    by (auto simp: recordBlocked_def split: option.split intro!: runS_grows runChange_grows_pair go_frame)
qed

lemma writeTargets_grows:
  assumes ok: "\<And>t. t \<in> set targets \<Longrightarrow> target_ok todo p t" and sched: "valid_schedule sched"
  shows "extends (stage_ok todo p 2) (snd st) (snd (snd (writeTargets p sched targets st)))"
proof (cases "op_StopOnError (pr_opts p)")
  case True
  then show ?thesis
    by (auto simp: writeTargets_def applyRuleGroupsInOrder_def
        intro!: runS_grows runChange_grows_pair sends_pushRuleGroup ok)
next
  case False
  obtain result w where st: "st = (result, w)" by (cases st)
  obtain outcomes fatal w' where run: "writeGroups p targets (sched Writing (length targets))
      (replicate (length targets) (Inr ()), None, w) = (outcomes, fatal, w')" by (metis prod_cases3)
  have "set (sched Writing (length targets)) \<subseteq> {..<length targets}"
    using sched by (simp add: valid_schedule_def)
  from writeGroups_grows [OF ok this, where s = "(replicate (length targets) (Inr ()), None, w)"] run
  have "extends (stage_ok todo p 2) w w'" by simp
  then show ?thesis using False by (simp add: st run writeTargets_def applyRuleGroupsConcurrently_def)
qed

lemma applyRuleGroups_grows:
  assumes sched: "valid_schedule sched"
  shows "extends (stage_ok changes p 2) (snd st) (snd (snd (applyRuleGroups p sched changes st)))"
proof -
  let ?ts = "ruleGroupTargets p changes"
  obtain result w where st: "st = (result, w)" by (cases st)
  obtain r w' where r: "checkFolders p ?ts w = (r, w')" by (cases "checkFolders p ?ts w")
  have "sends (stage_ok changes p 2) (checkFolders p ?ts)"
    by (rule sends_checkFolders) (simp add: stage_ok_def)
  from sends_extends [OF this, of w] r have "extends (stage_ok changes p 2) w w'" by simp
  moreover have "extends (stage_ok changes p 2) w' (snd (snd (thenS (runS (recordBlocked p blocked) ?ts)
      (writeTargets p sched (filter (\<lambda>t. blocked (g_FolderUID (rt_local t)) = None) ?ts)) (result, w'))))"
    for blocked
  proof -
    let ?writable = "filter (\<lambda>t. blocked (g_FolderUID (rt_local t)) = None) ?ts"
    have "extends (stage_ok changes p 2) (snd s) (snd (snd (writeTargets p sched ?writable s)))" for s
      by (rule writeTargets_grows [OF _ sched]) (auto intro: targets_ok)
    from blocked_phase.then_grows [where next_phase = "writeTargets p sched ?writable", OF this]
    show ?thesis by fastforce
  qed
  ultimately show ?thesis
    by (auto simp: applyRuleGroups_def Let_def st r intro: extends_trans split: sum.split)
qed

lemma sends_preparePush: "sends is_read (preparePush sv sched M local opts scope)"
  by (auto simp: preparePush_def scopedBundles_def Let_def intro!: go_frame)

text \<open>The trace of an apply: the contact points, then the tree, then the rule groups.\<close>

definition staged :: "Change list \<Rightarrow> 's pushRun \<Rightarrow> 's world \<Rightarrow> 's world \<Rightarrow> bool" where
  "staged todo p w w' \<longleftrightarrow> (\<exists>u v. extends (stage_ok todo p 0) w u \<and> extends (stage_ok todo p 1) u v \<and> extends (stage_ok todo p 2) v w')"

lemma extends_anything: "extends P w w"
  by simp

text \<open>The entries of a plan that ask for a change.\<close>

definition changing :: "Change list \<Rightarrow> Change list" where
  "changing changes = filter (\<lambda>c. c_Action c \<noteq> ActionUnchanged) changes"

lemma applyPlan_staged:
  assumes "valid_schedule sched"
  shows "staged (changing changes) p (snd st) (snd (snd (applyPlan p sched changes st)))"
proof -
  let ?ok = "stage_ok (changing changes) p"
  obtain pending result where u: "recordUnchanged changes (fst st) = (pending, result)"
    and pending: "pending = changing changes"
    by (auto simp: recordUnchanged_def changing_def)
  obtain stop1 st1 where p1: "applyContactPoints p pending (result, snd st) = (stop1, st1)"
    by (cases "applyContactPoints p pending (result, snd st)")
  obtain stop2 st2 where p2: "applyPolicyTree p pending st1 = (stop2, st2)"
    by (cases "applyPolicyTree p pending st1")
  have "extends (?ok 0) (snd st) (snd st1)"
    using pending points_phase.grows [where p = p and st = "(result, snd st)" and changes = pending] p1 by simp
  moreover have "extends (?ok 1) (snd st1) (snd st2)"
    using pending tree_phase.grows [where p = p and st = st1 and changes = pending] p2 by simp
  moreover have "extends (?ok 2) (snd st2) (snd (snd (applyRuleGroups p sched pending st2)))"
    unfolding pending by (rule applyRuleGroups_grows [OF assms])
  ultimately show ?thesis
    unfolding applyPlan_def u staged_def
    by (auto simp: thenS_def p1 p2 split: option.split) (metis extends_anything)+
qed

lemma staged_writes:
  assumes "staged todo p w w'"
  shows "\<exists>reqs. w_trace w' = w_trace w @ reqs \<and> list_all (permitted todo p) reqs \<and>
     sorted (map stage (filter is_write reqs))"
proof -
  obtain u v where "extends (stage_ok todo p 0) w u" "extends (stage_ok todo p 1) u v" "extends (stage_ok todo p 2) v w'"
    using assms unfolding staged_def by blast
  then obtain a b c where t: "w_trace w' = w_trace w @ a @ b @ c"
    and ok: "list_all (stage_ok todo p 0) a" "list_all (stage_ok todo p 1) b" "list_all (stage_ok todo p 2) c"
    unfolding extends_def by (metis append_assoc)
  have const: "map stage (filter is_write xs) = replicate (length (filter is_write xs)) n"
    if "list_all (stage_ok todo p n) xs" for xs n
    using that by (induction xs) (auto simp: stage_ok_def)
  have "sorted (map stage (filter is_write (a @ b @ c)))"
    using const [OF ok(1)] const [OF ok(2)] const [OF ok(3)] by (auto simp: sorted_append)
  moreover have "list_all (permitted todo p) (a @ b @ c)"
    using ok by (auto simp: list_all_iff stage_ok_def)
  ultimately show ?thesis using t by blast
qed

text \<open>The run a push makes when its plan is ready.\<close>

definition run_of :: "'s server \<Rightarrow> marshaller \<Rightarrow> PushOptions \<Rightarrow> Bundle \<Rightarrow> Bundle \<Rightarrow> 's pushRun" where
  "run_of sv M opts l r = \<lparr>pr_sv = sv, pr_M = M, pr_local = l, pr_remote = r,
     pr_opts = (if op_DryRun opts then opts\<lparr>op_StopOnError := False\<rparr> else opts)\<rparr>"

lemma pushWith_ready:
  "preparePush sv sched M local opts scope w = (Inr (l, r, changes), w') \<Longrightarrow>
     pushWith (Some sv) sched M local opts scope w =
       (case applyPlan (run_of sv M opts l r) sched changes (noResult, w') of
          (stop, (result, w'')) \<Rightarrow> ((sortResult result, stop), w''))"
  by (simp add: pushWith_def run_of_def Let_def)

lemma push_staged:
  assumes sched: "valid_schedule sched"
    and ready: "preparePush sv sched M local opts scope w = (Inr (l, r, changes), w')"
    and push: "pushWith (Some sv) sched M local opts scope w = (outcome, w'')"
  shows "staged (changing changes) (run_of sv M opts l r) w' w''"
  using applyPlan_staged [OF sched, where p = "run_of sv M opts l r" and st = "(noResult, w')" and changes = changes] push pushWith_ready [OF ready]
  by (auto split: prod.splits)

text \<open>How many writes a step makes: one at most, and exactly one when it succeeds outside a dry run.
  Over a phase, an entry is reported for every write made, and a write was made for every entry
  reported as applied.\<close>

definition writes_of :: "request list \<Rightarrow> nat" where
  "writes_of reqs = length (filter is_write reqs)"

definition one_write :: "bool \<Rightarrow> ('s, unit) prog \<Rightarrow> bool" where
  "one_write dry m \<longleftrightarrow> (\<forall>w. \<exists>reqs. w_trace (snd (m w)) = w_trace w @ reqs \<and> writes_of reqs \<le> 1 \<and>
     (isOk (fst (m w)) \<and> \<not> dry \<longrightarrow> writes_of reqs = 1))"

named_theorems one_write_intros

lemma one_write_fail [one_write_intros]: "one_write dry (failP e)"
  by (simp add: one_write_def failP_def writes_of_def)

lemma one_write_send [one_write_intros]: "is_write req \<Longrightarrow> one_write dry (writeP sv req)"
  by (simp add: one_write_def writeP_def callP_def writes_of_def split: prod.split)

lemma one_write_return [one_write_intros]: "one_write True (returnP ())"
  by (simp add: one_write_def returnP_def writes_of_def)

lemma one_write_dry [one_write_intros]:
  "(\<not> dry \<Longrightarrow> one_write dry m) \<Longrightarrow> one_write dry (if dry then returnP () else m)"
  by (simp add: one_write_def returnP_def writes_of_def)

lemma one_write_lift [one_write_intros]:
  "(\<And>a. r = Inr a \<Longrightarrow> one_write dry (f a)) \<Longrightarrow> one_write dry (bindP (liftP r) f)"
  by (cases r) (simp_all add: one_write_def bindP_def liftP_def writes_of_def)

lemma one_write_error [one_write_intros]:
  assumes "one_write dry m" shows "one_write dry (withError f m)"
  unfolding one_write_def
proof
  fix w
  from assms obtain reqs where "w_trace (snd (m w)) = w_trace w @ reqs" "writes_of reqs \<le> 1"
    "isOk (fst (m w)) \<and> \<not> dry \<longrightarrow> writes_of reqs = 1" unfolding one_write_def by blast
  then show "\<exists>reqs. w_trace (snd (withError f m w)) = w_trace w @ reqs \<and> writes_of reqs \<le> 1 \<and>
      (isOk (fst (withError f m w)) \<and> \<not> dry \<longrightarrow> writes_of reqs = 1)"
    by (cases "m w"; cases "fst (m w)") (auto simp: withError_def)
qed

lemma one_write_point: "one_write (op_DryRun (pr_opts p)) (pushContactPoint p change point)"
  unfolding pushContactPoint_def createContactPoint_def updateContactPoint_def
  by (auto intro!: one_write_intros split: option.split)

lemma one_write_tree: "one_write (op_DryRun (pr_opts p)) (pushPolicyTree p change tree)"
  unfolding pushPolicyTree_def by (auto intro!: one_write_intros)

lemma one_write_group: "one_write (op_DryRun (pr_opts p)) (pushRuleGroup p t)"
  unfolding pushRuleGroup_def Let_def by (auto intro!: one_write_intros)

definition tallied :: "bool \<Rightarrow> 's push_state \<Rightarrow> 's push_state \<Rightarrow> bool" where
  "tallied dry s t \<longleftrightarrow> (\<exists>reqs. w_trace (snd t) = w_trace (snd s) @ reqs \<and>
     length (res_Applied (fst s)) + length (res_Failed (fst s)) + writes_of reqs
       \<le> length (res_Applied (fst t)) + length (res_Failed (fst t)) \<and>
     (dry \<or> length (res_Applied (fst t)) \<le> length (res_Applied (fst s)) + writes_of reqs))"

lemma tallied_refl [simp]: "tallied dry s s"
  by (simp add: tallied_def writes_of_def)

lemma tallied_trans:
  assumes "tallied dry s t" and "tallied dry t u" shows "tallied dry s u"
proof -
  from assms obtain a b where "w_trace (snd t) = w_trace (snd s) @ a" "w_trace (snd u) = w_trace (snd t) @ b"
    "length (res_Applied (fst s)) + length (res_Failed (fst s)) + writes_of a
       \<le> length (res_Applied (fst t)) + length (res_Failed (fst t))"
    "length (res_Applied (fst t)) + length (res_Failed (fst t)) + writes_of b
       \<le> length (res_Applied (fst u)) + length (res_Failed (fst u))"
    "dry \<or> length (res_Applied (fst t)) \<le> length (res_Applied (fst s)) + writes_of a"
    "dry \<or> length (res_Applied (fst u)) \<le> length (res_Applied (fst t)) + writes_of b"
    unfolding tallied_def by blast
  then show ?thesis
    unfolding tallied_def by (intro exI [of _ "a @ b"]) (auto simp: writes_of_def)
qed

lemma runChange_tallied:
  assumes "one_write dry m" shows "tallied dry st (snd (runChange opts change m st))"
proof -
  obtain result w where st: "st = (result, w)" by (cases st)
  obtain outcome w' where m: "m w = (outcome, w')" by (cases "m w")
  then obtain reqs where "w_trace w' = w_trace w @ reqs" "writes_of reqs \<le> 1"
    "isOk outcome \<and> \<not> dry \<longrightarrow> writes_of reqs = 1"
    using assms unfolding one_write_def by (metis fst_conv snd_conv)
  then show ?thesis
    by (cases outcome) (auto simp: st m runChange_def recordChange_def tallied_def)
qed

lemma runS_tallied:
  "(\<And>x st. x \<in> set xs \<Longrightarrow> tallied dry st (snd (step x st))) \<Longrightarrow> tallied dry st (snd (runS step xs st))"
  using runS_invariant [where I = "tallied dry st" and st = st and step = step and xs = xs]
  by (blast intro: tallied_refl tallied_trans)

lemma thenS_tallied:
  assumes "\<And>st. tallied dry st (snd (f st))" and "\<And>st. tallied dry st (snd (g st))"
  shows "tallied dry st (snd (thenS f g st))"
proof -
  obtain stop st' where f: "f st = (stop, st')" by (cases "f st")
  then have "tallied dry st st'" using assms(1) [of st] by simp
  moreover from this have "tallied dry st (snd (g st'))" using assms(2) by (rule tallied_trans)
  ultimately show ?thesis by (cases stop) (simp_all add: thenS_def f)
qed

text \<open>The concurrent writes: one at most per slot, filed slot by slot afterwards.\<close>

lemma writeGroups_tally:
  assumes "set ks \<subseteq> {..<length targets}" and "distinct ks" and "length outcomes = length targets"
    and "writeGroups p targets ks (outcomes, fatal, w) = (outcomes', fatal', w')"
  shows "\<exists>reqs. w_trace w' = w_trace w @ reqs \<and> length outcomes' = length targets \<and>
     writes_of reqs \<le> length ks \<and> (\<forall>i. i \<notin> set ks \<longrightarrow> outcomes' ! i = outcomes ! i) \<and>
     (op_DryRun (pr_opts p) \<or> length (filter (\<lambda>i. isOk (outcomes' ! i)) ks) \<le> writes_of reqs)"
  using assms
proof (induction ks arbitrary: outcomes fatal w)
  case Nil
  then show ?case by (simp add: writes_of_def)
next
  case (Cons k ks)
  let ?dry = "op_DryRun (pr_opts p)"
  obtain r v where r: "pushRuleGroup p (targets ! k) w = (r, v)" by (cases "pushRuleGroup p (targets ! k) w")
  obtain a where a: "w_trace v = w_trace w @ a" "writes_of a \<le> 1" "isOk r \<and> \<not> ?dry \<longrightarrow> writes_of a = 1"
    using one_write_group [of p "targets ! k"] r unfolding one_write_def by (metis fst_conv snd_conv)
  obtain fatal1 where g: "writeGroups p targets ks (outcomes[k := r], fatal1, v) = (outcomes', fatal', w')"
    using Cons.prems(4) by (auto simp: r)
  obtain b where b: "w_trace w' = w_trace v @ b" "length outcomes' = length targets" "writes_of b \<le> length ks"
    "\<forall>i. i \<notin> set ks \<longrightarrow> outcomes' ! i = outcomes[k := r] ! i"
    "?dry \<or> length (filter (\<lambda>i. isOk (outcomes' ! i)) ks) \<le> writes_of b"
    using Cons.IH [OF _ _ _ g] Cons.prems by auto
  have "outcomes' ! k = r" using b(4) Cons.prems by simp
  with a b show ?case by (intro exI [of _ "a @ b"]) (auto simp: writes_of_def)
qed

lemma recordChange_lengths [simp]:
  "length (res_Applied (snd (recordChange opts change outcome res))) =
     length (res_Applied res) + (if isOk outcome then 1 else 0)"
  "length (res_Failed (snd (recordChange opts change outcome res))) =
     length (res_Failed res) + (if isOk outcome then 0 else 1)"
  by (cases outcome; simp add: recordChange_def)+

lemma record_outcomes_length:
  assumes "length outcomes = length targets"
  shows "let res = fold (\<lambda>(target, outcome) res. snd (recordChange opts (rt_change target) outcome res))
             (zip targets outcomes) result in
     length (res_Applied res) = length (res_Applied result) + length (filter isOk outcomes) \<and>
     length (res_Failed res) + length (filter isOk outcomes) = length (res_Failed result) + length targets"
  using assms
proof (induction targets outcomes arbitrary: result rule: list_induct2')
  case (4 t ts out outs)
  then show ?case by (simp add: Let_def)
qed (simp_all add: Let_def)

lemma count_by_position:
  "mset ks = mset [0..<length xs] \<Longrightarrow> length (filter (\<lambda>i. P (xs ! i)) ks) = length (filter P xs)"
proof -
  assume "mset ks = mset [0..<length xs]"
  then have "size (filter_mset (\<lambda>i. P (xs ! i)) (mset ks)) = size (filter_mset (\<lambda>i. P (xs ! i)) (mset [0..<length xs]))"
    by simp
  moreover have "length (filter P xs) = length (filter (\<lambda>i. P (xs ! i)) [0..<length xs])"
    by (metis (no_types, lifting) comp_apply filter_cong filter_map length_map map_nth)
  ultimately show ?thesis by (simp only: mset_filter [symmetric] size_mset)
qed

lemma concurrent_tallied:
  assumes "valid_schedule sched"
  shows "tallied (op_DryRun (pr_opts p)) st (snd (applyRuleGroupsConcurrently p sched targets st))"
proof -
  let ?n = "length targets"
  let ?ks = "sched Writing ?n"
  obtain result w where st: "st = (result, w)" by (cases st)
  obtain outs fatal w' where g: "writeGroups p targets ?ks (replicate ?n (Inr ()), None, w) = (outs, fatal, w')"
    by (metis prod_cases3)
  have d: "distinct ?ks" "set ?ks = {..<?n}" using assms by (simp_all add: valid_schedule_def)
  then have ks: "mset ?ks = mset [0..<?n]"
    by (metis atLeast_upt distinct_upt set_eq_iff_mset_eq_distinct)
  then have "length ?ks = ?n" by (metis length_upt minus_nat.diff_0 size_mset)
  obtain reqs where r: "w_trace w' = w_trace w @ reqs" "length outs = ?n" "writes_of reqs \<le> ?n"
    "op_DryRun (pr_opts p) \<or> length (filter (\<lambda>i. isOk (outs ! i)) ?ks) \<le> writes_of reqs"
    using writeGroups_tally [OF _ d(1) _ g] d \<open>length ?ks = ?n\<close> by auto
  have "length (filter (\<lambda>i. isOk (outs ! i)) ?ks) = length (filter isOk outs)"
    by (rule count_by_position) (simp add: ks r(2))
  with r record_outcomes_length [OF r(2), of "pr_opts p" result] show ?thesis
    by (auto simp: st g applyRuleGroupsConcurrently_def tallied_def Let_def)
qed

lemma applyPlan_tallied:
  assumes sched: "valid_schedule sched"
    and u: "recordUnchanged changes (fst st) = (pending, result)"
  shows "tallied (op_DryRun (pr_opts p)) (result, snd st) (snd (applyPlan p sched changes st))"
proof -
  let ?dry = "op_DryRun (pr_opts p)"
  have points: "tallied ?dry s (snd (applyContactPoints p pending s))" for s
    by (auto simp: applyContactPoints_def applyContactPoint_def split: option.split
        intro!: runS_tallied runChange_tallied one_write_point)
  have tree: "tallied ?dry s (snd (applyPolicyTree p pending s))" for s
    by (auto simp: applyPolicyTree_def split: option.split intro!: runChange_tallied one_write_tree)
  have blocked: "tallied ?dry s (snd (runS (recordBlocked p b) ts s))" for s b ts
    by (auto simp: recordBlocked_def split: option.split intro!: runS_tallied runChange_tallied one_write_intros)
  have "tallied ?dry s (snd (applyRuleGroupsInOrder p ts s))" for s ts
    unfolding applyRuleGroupsInOrder_def by (intro runS_tallied runChange_tallied one_write_group)
  then have targets: "tallied ?dry s (snd (writeTargets p sched ts s))" for s ts
    using concurrent_tallied [OF sched, where p = p] by (simp add: writeTargets_def)
  have rule_groups: "tallied ?dry s (snd (applyRuleGroups p sched pending s))" for s
  proof -
    let ?ts = "ruleGroupTargets p pending"
    obtain r w' where c: "checkFolders p ?ts (snd s) = (r, w')" by (cases "checkFolders p ?ts (snd s)")
    have "sends is_read (checkFolders p ?ts)" by (rule sends_checkFolders) simp
    from sendsD [OF this, of "snd s"] c have "tallied ?dry s (fst s, w')"
      by (auto simp: tallied_def writes_of_def list_all_iff)
    moreover have "tallied ?dry (fst s, w') (snd (thenS (runS (recordBlocked p b) ?ts)
        (writeTargets p sched ts) (fst s, w')))" for b ts
      by (intro thenS_tallied blocked targets)
    ultimately show ?thesis
      using c by (cases s) (auto simp: applyRuleGroups_def Let_def intro: tallied_trans split: sum.split)
  qed
  show ?thesis
    unfolding applyPlan_def u prod.case by (intro thenS_tallied points tree rule_groups)
qed

text \<open>What the report \<open>result\<close> of a plan says of the \<open>n\<close> writes made for it: an entry is
  reported for each, beside the unchanged ones, and outside a dry run one was made for every changing
  entry that is reported as applied.\<close>

definition one_each :: "bool \<Rightarrow> Change list \<Rightarrow> Result \<Rightarrow> nat \<Rightarrow> bool" where
  "one_each dry changes result n \<longleftrightarrow>
     (let unchanged = length (filter (\<lambda>c. c_Action c = ActionUnchanged) changes);
          applied = length (res_Applied result)
      in n + unchanged \<le> applied + length (res_Failed result) \<and> (dry \<or> applied \<le> n + unchanged))"

lemma push_one_each:
  assumes sched: "valid_schedule sched"
    and ready: "preparePush sv sched M local opts scope w = (Inr (l, r, changes), w')"
    and push: "pushWith (Some sv) sched M local opts scope w = (outcome, w'')"
    and trace: "w_trace w'' = w_trace w' @ reqs"
  shows "one_each (op_DryRun opts) changes (fst outcome) (length (filter is_write reqs))"
proof -
  let ?p = "run_of sv M opts l r"
  obtain pending result where u: "recordUnchanged changes noResult = (pending, result)"
    by (cases "recordUnchanged changes noResult")
  obtain stop final v where a: "applyPlan ?p sched changes (noResult, w') = (stop, (final, v))"
    by (metis prod_cases3)
  have out: "outcome = (sortResult final, stop)" "v = w''"
    using push pushWith_ready [OF ready] a by simp_all
  have "op_DryRun (pr_opts ?p) = op_DryRun opts" by (simp add: run_of_def)
  then have "tallied (op_DryRun opts) (result, w') (final, w'')"
    using applyPlan_tallied [OF sched, where st = "(noResult, w')" and p = ?p and changes = changes] u a out by simp
  moreover have "res_Applied result = filter (\<lambda>c. c_Action c = ActionUnchanged) changes" "res_Failed result = []"
    using u by (auto simp: recordUnchanged_def noResult_def)
  ultimately show ?thesis
    using trace by (auto simp: tallied_def one_each_def Let_def out sortResult_def writes_of_def)
qed

text \<open>C2: the writes of a push. When the bundles and the plan are ready, everything the push sends
  from there on is a read or a permitted write, in the order contact points, policy tree, rule
  groups: each write belongs to an entry of the plan that asks for a change, of the kind and under
  the ID of the object of the local bundle it carries, so that an unchanged object is never written;
  a contact point is created only when no redaction marker is left in it, every rule of a written
  group has an organisation, and the provenance header keeps the provenance Grafana has stored for
  the object, which another provisioner never owns. There is an entry reported for every write, and
  outside a dry run a write was made for every changing entry that is reported as applied.\<close>

theorem push_writes_permitted:
  assumes sched: "valid_schedule sched"
    and ready: "preparePush sv sched M local opts scope w = (Inr (l, r, changes), w')"
    and push: "pushWith (Some sv) sched M local opts scope w = (outcome, w'')"
  shows "\<exists>reqs. w_trace w'' = w_trace w' @ reqs \<and>
     list_all (permitted (changing changes) (run_of sv M opts l r)) reqs \<and>
     sorted (map stage (filter is_write reqs)) \<and>
     one_each (op_DryRun opts) changes (fst outcome) (length (filter is_write reqs))"
  using staged_writes [OF push_staged [OF assms]] push_one_each [OF assms] by blast

definition push_options :: PushOptions where
  "push_options = \<lparr>op_DryRun = False, op_StopOnError = False, op_UIEditable = False, op_RuleUIDs = [],
     op_OrgID = 1\<rparr>"

text \<open>The sample files with one rule paused and a contact point that Grafana does not hold.\<close>

definition edited_files :: Bundle where
  "edited_files = \<lparr>b_Groups = [Some paused_group],
     b_ContactPoints = [Some (sample_point\<lparr>cp_UID := ''new'', cp_Name := ''New''\<rparr>)], b_Policies = None\<rparr>"

theorem push_writes_permitted_witness:
  "\<exists>l r changes w' reqs.
     preparePush fixed_server backwards sample_marshaller edited_files push_options scopeBundles (start_world ())
       = (Inr (l, r, changes), w') \<and>
     w_trace (snd (pushWith (Some fixed_server) backwards sample_marshaller edited_files push_options scopeBundles
       (start_world ()))) = w_trace w' @ reqs \<and>
     list_all (permitted (changing changes) (run_of fixed_server sample_marshaller push_options l r)) reqs \<and>
     sorted (map stage (filter is_write reqs)) \<and> map stage (filter is_write reqs) = [0, 2] \<and>
     one_each False changes (fst (fst (pushWith (Some fixed_server) backwards sample_marshaller edited_files
       push_options scopeBundles (start_world ())))) 2"
proof -
  let ?prepare = "preparePush fixed_server backwards sample_marshaller edited_files push_options scopeBundles"
  let ?push = "pushWith (Some fixed_server) backwards sample_marshaller edited_files push_options scopeBundles"
  have "isOk (fst (?prepare (start_world ())))" by code_simp
  then obtain l r changes w' where ready: "?prepare (start_world ()) = (Inr (l, r, changes), w')"
    by (cases "?prepare (start_world ())") (auto simp: isOk_iff)
  have push: "?push (start_world ()) = (fst (?push (start_world ())), snd (?push (start_world ())))" by simp
  obtain reqs where reqs: "w_trace (snd (?push (start_world ()))) = w_trace w' @ reqs"
    "list_all (permitted (changing changes) (run_of fixed_server sample_marshaller push_options l r)) reqs"
    "sorted (map stage (filter is_write reqs))"
    "one_each (op_DryRun push_options) changes (fst (fst (?push (start_world ())))) (length (filter is_write reqs))"
    using push_writes_permitted [OF valid_backwards ready push] by blast
  have "map stage (filter is_write (w_trace (snd (?push (start_world ()))))) = [0, 2]" by code_simp
  moreover have "filter is_write (w_trace (snd (?prepare (start_world ())))) = []" by code_simp
  ultimately have stages: "map stage (filter is_write reqs) = [0, 2]" using reqs(1) ready by simp
  then have "length (filter is_write reqs) = 2" by (metis length_map length_Cons list.size(3) numeral_2_eq_2)
  with reqs(4) have "one_each False changes (fst (fst (?push (start_world ())))) 2" by (simp add: push_options_def)
  with ready reqs stages show ?thesis
    by (intro exI [of _ l] exI [of _ r] exI [of _ changes] exI [of _ w'] exI [of _ reqs] conjI)
qed

text \<open>C5: a dry run never writes, whatever the bundle, the options, the scoping function and the
  server, and whether or not it gets as far as a plan.\<close>

theorem dry_run_writes_nothing:
  assumes "valid_schedule sched" and dry: "op_DryRun opts"
  shows "\<exists>reqs. w_trace (snd (pushWith client sched M local opts scope w)) = w_trace w @ reqs \<and>
     list_all is_read reqs"
proof (cases client)
  case (Some sv)
  obtain ready w' where p: "preparePush sv sched M local opts scope w = (ready, w')"
    by (cases "preparePush sv sched M local opts scope w")
  have reads: "extends is_read w w'"
    using sends_extends [OF sends_preparePush, of w sv sched M local opts scope] p by simp
  show ?thesis
  proof (cases ready)
    case (Inl e)
    then show ?thesis using reads p by (simp add: pushWith_def Some extends_def)
  next
    case (Inr lrc)
    then obtain l r changes where lrc: "ready = Inr (l, r, changes)" by (cases lrc) auto
    obtain outcome w'' where push: "pushWith (Some sv) sched M local opts scope w = (outcome, w'')"
      by (cases "pushWith (Some sv) sched M local opts scope w")
    obtain reqs where reqs: "w_trace w'' = w_trace w' @ reqs" "list_all (permitted (changing changes) (run_of sv M opts l r)) reqs"
      using staged_writes [OF push_staged [OF assms(1) p [unfolded lrc] push]] by blast
    have "is_read q" if "permitted (changing changes) (run_of sv M opts l r) q" for q
      using that dry by (cases q) (simp_all add: run_of_def)
    then have "list_all is_read reqs" using reqs(2) by (auto simp: list_all_iff)
    with reads reqs(1) push show ?thesis unfolding Some extends_def by auto
  qed
qed (simp add: pushWith_def)

theorem dry_run_writes_nothing_witness:
  "\<exists>reqs. w_trace (snd (pushWith (Some fixed_server) backwards sample_marshaller edited_files
       (push_options\<lparr>op_DryRun := True\<rparr>) scopeBundles (start_world ()))) = w_trace (start_world ()) @ reqs \<and>
     list_all is_read reqs"
  by (rule dry_run_writes_nothing) simp_all

section \<open>Accounting\<close>

definition accounted :: "Result \<Rightarrow> Change multiset" where
  "accounted result = mset (res_Applied result) + mset (map fst (res_Failed result))"

lemma accounted_recordChange [simp]:
  "accounted (snd (recordChange opts change outcome result)) = add_mset change (accounted result)"
  by (cases outcome) (simp_all add: recordChange_def accounted_def)

lemma accounted_runChange:
  "accounted (fst (snd (runChange opts change m st))) = add_mset change (accounted (fst st))"
proof -
  obtain result w where st: "st = (result, w)" by (cases st)
  obtain outcome w' where m: "m w = (outcome, w')" by (cases "m w")
  obtain stop result' where r: "recordChange opts change outcome result = (stop, result')"
    by (cases "recordChange opts change outcome result")
  show ?thesis using accounted_recordChange [of opts change outcome result] by (simp add: runChange_def st m r)
qed

text \<open>A loop that was not stopped has filed the entry of every element that has one.\<close>

lemma runS_accounted:
  assumes step: "\<And>x st. x \<in> set xs \<Longrightarrow>
      accounted (fst (snd (step x st))) = accounted (fst st) + mset_set (set_option (entry x))"
    and run: "runS step xs st = (None, st')"
  shows "accounted (fst st') = accounted (fst st) + mset (List.map_filter entry xs)"
  using assms
proof (induction xs arbitrary: st)
  case (Cons x xs)
  obtain s where s: "step x st = (None, s)" and rest: "runS step xs s = (None, st')"
    using Cons.prems(2) by (auto split: prod.splits option.splits)
  have "accounted (fst s) = accounted (fst st) + mset_set (set_option (entry x))"
    using Cons.prems(1) [of x st] s by simp
  moreover have "accounted (fst st') = accounted (fst s) + mset (List.map_filter entry xs)"
    using Cons.IH [OF _ rest] Cons.prems(1) by simp
  ultimately show ?case by (cases "entry x") (simp_all add: List.map_filter_simps)
qed (simp add: List.map_filter_simps)

lemma changesByID_member:
  assumes "distinct (map changeKey changes)" and "c \<in> set changes"
  shows "changesByID changes (c_Kind c) (c_ID c) = Some c"
proof -
  let ?cs = "filter (\<lambda>x. c_Kind x = c_Kind c) changes"
  have "inj_on c_ID (set ?cs)"
    using assms(1) by (auto simp: distinct_map inj_on_def changeKey_def)
  moreover have "distinct ?cs" using assms(1) by (simp add: distinct_map)
  ultimately have "distinct (map fst (rev (map (\<lambda>c. (c_ID c, c)) ?cs)))"
    by (simp add: rev_map [symmetric] comp_def distinct_map)
  then show ?thesis
    using assms(2) unfolding changesByID_def by (intro map_of_is_SomeI) auto
qed

text \<open>Walking the local objects of a kind visits every planned entry of the kind exactly once.\<close>

lemma walk_entries:
  assumes d: "distinct (map changeKey changes)" and ids: "distinct (map f xs)"
    and names: "\<And>c. c \<in> set changes \<Longrightarrow> c_Kind c = kind \<Longrightarrow> c_ID c \<in> f ` set xs"
  shows "mset (List.map_filter (\<lambda>x. changesByID changes kind (f x)) xs) =
     mset (filter (\<lambda>c. c_Kind c = kind) changes)"
proof (rule set_eq_iff_mset_eq_distinct [THEN iffD1])
  have "map c_ID (List.map_filter (\<lambda>x. changesByID changes kind (f x)) ys) =
      map f (filter (\<lambda>x. changesByID changes kind (f x) \<noteq> None) ys)" for ys
    by (induction ys) (auto simp: List.map_filter_simps dest: changesByID_Some)
  then have "distinct (map c_ID (List.map_filter (\<lambda>x. changesByID changes kind (f x)) xs))"
    using ids by (simp add: distinct_map_filter)
  then show "distinct (List.map_filter (\<lambda>x. changesByID changes kind (f x)) xs)"
    by (rule distinct_map [THEN iffD1, THEN conjunct1])
  show "distinct (filter (\<lambda>c. c_Kind c = kind) changes)" using d by (simp add: distinct_map)
  show "set (List.map_filter (\<lambda>x. changesByID changes kind (f x)) xs) = set (filter (\<lambda>c. c_Kind c = kind) changes)"
  proof (rule set_eqI, rule iffI)
    fix c
    assume "c \<in> set (List.map_filter (\<lambda>x. changesByID changes kind (f x)) xs)"
    then show "c \<in> set (filter (\<lambda>c. c_Kind c = kind) changes)"
      by (auto simp: map_filter_def dest: changesByID_Some)
  next
    fix c
    assume c: "c \<in> set (filter (\<lambda>c. c_Kind c = kind) changes)"
    then obtain x where x: "x \<in> set xs" "c_ID c = f x" using names [of c] by auto
    have "changesByID changes kind (f x) = Some c"
      using changesByID_member [OF d, of c] c x(2) by auto
    then show "c \<in> set (List.map_filter (\<lambda>x. changesByID changes kind (f x)) xs)"
      using x(1) by (force simp: map_filter_def)
  qed
qed

lemma points_accounted:
  assumes d: "distinct (map changeKey changes)"
    and ids: "distinct (map contactPointID (present (b_ContactPoints (pr_local p))))"
    and names: "\<And>c. c \<in> set changes \<Longrightarrow> c_Kind c = KindContactPoint \<Longrightarrow>
        c_ID c \<in> contactPointID ` set (present (b_ContactPoints (pr_local p)))"
    and run: "applyContactPoints p changes st = (None, st')"
  shows "accounted (fst st') = accounted (fst st) + mset (filter (\<lambda>c. c_Kind c = KindContactPoint) changes)"
proof (cases "filter (\<lambda>c. c_Kind c = KindContactPoint) changes = []")
  case False
  let ?entry = "\<lambda>x. changesByID changes KindContactPoint (contactPointID x)"
  have "runS (applyContactPoint p (changesByID changes KindContactPoint))
      (present (b_ContactPoints (pr_local p))) st = (None, st')"
    using run False by (simp add: applyContactPoints_def)
  then have "accounted (fst st') = accounted (fst st) +
      mset (List.map_filter ?entry (present (b_ContactPoints (pr_local p))))"
    by (rule runS_accounted [rotated])
       (auto simp: applyContactPoint_def accounted_runChange split: option.split)
  then show ?thesis by (simp only: walk_entries [OF d ids names])
qed (use run in \<open>simp add: applyContactPoints_def\<close>)

lemma single_key:
  assumes "distinct (map changeKey changes)" and "\<And>c. c \<in> set changes \<Longrightarrow> c_Kind c = kind \<Longrightarrow> c_ID c = i"
  shows "filter (\<lambda>c. c_Kind c = kind) changes =
     (case find (\<lambda>c. c_Kind c = kind) changes of None \<Rightarrow> [] | Some c \<Rightarrow> [c])"
  using assms
proof (induction changes)
  case (Cons c cs)
  show ?case
  proof (cases "c_Kind c = kind")
    case True
    have "c_Kind x \<noteq> kind" if "x \<in> set cs" for x
    proof
      assume "c_Kind x = kind"
      then have "changeKey x = changeKey c"
        using Cons.prems(2) [of x] Cons.prems(2) [of c] True that by (simp add: changeKey_def)
      then show False using Cons.prems(1) that by (metis distinct.simps(2) image_eqI list.set_map list.simps(9))
    qed
    with True show ?thesis by (simp add: filter_empty_conv)
  qed (use Cons in simp)
qed simp

lemma tree_accounted:
  assumes d: "distinct (map changeKey changes)"
    and one: "\<And>c. c \<in> set changes \<Longrightarrow> c_Kind c = KindPolicyTree \<Longrightarrow>
        c_ID c = policyTreeID \<and> b_Policies (pr_local p) \<noteq> None"
    and run: "applyPolicyTree p changes st = (None, st')"
  shows "accounted (fst st') = accounted (fst st) + mset (filter (\<lambda>c. c_Kind c = KindPolicyTree) changes)"
proof -
  have single: "filter (\<lambda>c. c_Kind c = KindPolicyTree) changes =
      (case find (\<lambda>c. c_Kind c = KindPolicyTree) changes of None \<Rightarrow> [] | Some c \<Rightarrow> [c])"
    using one by (intro single_key [OF d, where i = policyTreeID]) blast
  show ?thesis
  proof (cases "find (\<lambda>c. c_Kind c = KindPolicyTree) changes")
    case (Some c)
    obtain t where t: "b_Policies (pr_local p) = Some t" using one [of c] find_Some_in [OF Some] by auto
    have "accounted (fst st') = add_mset c (accounted (fst st))"
      using run Some t accounted_runChange [of "pr_opts p" c "pushPolicyTree p c t" st]
      by (simp add: applyPolicyTree_def)
    then show ?thesis using single Some by simp
  qed (use run single in \<open>simp add: applyPolicyTree_def\<close>)
qed

lemma length_writeGroups: "length (fst (writeGroups p targets ks s)) = length (fst s)"
  by (induction ks arbitrary: s) (auto split: prod.splits)

lemma accounted_fold:
  "length outcomes = length targets \<Longrightarrow>
     accounted (fold (\<lambda>(target, outcome) res. snd (recordChange opts (rt_change target) outcome res))
       (zip targets outcomes) result) = accounted result + mset (map rt_change targets)"
  by (induction targets outcomes arbitrary: result rule: list_induct2') auto

lemma writeTargets_accounted:
  assumes "writeTargets p sched targets st = (None, st')"
  shows "accounted (fst st') = accounted (fst st) + mset (map rt_change targets)"
proof (cases "op_StopOnError (pr_opts p)")
  case True
  have all: "List.map_filter (\<lambda>t. Some (rt_change t)) targets = map rt_change targets"
    by (induction targets) (simp_all add: List.map_filter_simps)
  have run: "runS (\<lambda>target. runChange (pr_opts p) (rt_change target) (pushRuleGroup p target)) targets st = (None, st')"
    using assms True by (simp add: writeTargets_def applyRuleGroupsInOrder_def)
  show ?thesis
    using runS_accounted [OF _ run, where entry = "\<lambda>t. Some (rt_change t)"]
    by (simp add: accounted_runChange all)
next
  case False
  obtain result w where st: "st = (result, w)" by (cases st)
  obtain outcomes fatal w' where run: "writeGroups p targets (sched Writing (length targets))
      (replicate (length targets) (Inr ()), None, w) = (outcomes, fatal, w')" by (metis prod_cases3)
  have "length outcomes = length targets"
    using length_writeGroups [of p targets "sched Writing (length targets)"
        "(replicate (length targets) (Inr ()), None, w)"] run by simp
  then show ?thesis
    using assms False accounted_fold [of outcomes targets "pr_opts p" result]
    by (auto simp: writeTargets_def applyRuleGroupsConcurrently_def st run)
qed

lemma groups_accounted:
  assumes d: "distinct (map changeKey changes)"
    and ids: "distinct (map groupID (present (b_Groups (pr_local p))))"
    and names: "\<And>c. c \<in> set changes \<Longrightarrow> c_Kind c = KindRuleGroup \<Longrightarrow>
        c_ID c \<in> groupID ` set (present (b_Groups (pr_local p)))"
    and run: "applyRuleGroups p sched changes st = (None, st')"
  shows "accounted (fst st') = accounted (fst st) + mset (filter (\<lambda>c. c_Kind c = KindRuleGroup) changes)"
proof -
  let ?ts = "ruleGroupTargets p changes"
  have changes: "map rt_change ?ts = List.map_filter (\<lambda>g. changesByID changes KindRuleGroup (groupID g))
      (present (b_Groups (pr_local p)))"
    unfolding ruleGroupTargets_def Let_def
    by (induction "present (b_Groups (pr_local p))") (auto simp: map_filter_def)
  have total: "mset (map rt_change ?ts) = mset (filter (\<lambda>c. c_Kind c = KindRuleGroup) changes)"
    unfolding changes by (rule walk_entries [OF d ids names])
  show ?thesis
  proof (cases "?ts = []")
    case True
    then show ?thesis using run total by (simp add: applyRuleGroups_def)
  next
    case False
    obtain result w where st: "st = (result, w)" by (cases st)
    obtain blocked w' where b: "checkFolders p ?ts w = (Inr blocked, w')"
      using run False by (auto simp: applyRuleGroups_def Let_def st split: prod.splits sum.splits)
    let ?free = "\<lambda>t. blocked (g_FolderUID (rt_local t)) = None"
    have "thenS (runS (recordBlocked p blocked) ?ts) (writeTargets p sched (filter ?free ?ts)) (result, w') = (None, st')"
      using run False by (simp add: applyRuleGroups_def Let_def st b)
    then obtain s where s: "runS (recordBlocked p blocked) ?ts (result, w') = (None, s)"
        and rest: "writeTargets p sched (filter ?free ?ts) s = (None, st')"
      by (auto simp: thenS_def split: prod.splits option.splits)
    let ?entry = "\<lambda>t. if ?free t then None else Some (rt_change t)"
    have "accounted (fst s) = accounted result + mset (List.map_filter ?entry ?ts)"
      using runS_accounted [OF _ s, where entry = ?entry]
      by (simp add: recordBlocked_def accounted_runChange split: option.splits)
    moreover have parts: "mset (List.map_filter ?entry ts) + mset (map rt_change (filter ?free ts)) = mset (map rt_change ts)"
      for ts by (induction ts) (auto simp: List.map_filter_simps)
    moreover note writeTargets_accounted [OF rest]
    ultimately have "accounted (fst st') = accounted result +
        (mset (List.map_filter ?entry ?ts) + mset (map rt_change (filter ?free ?ts)))"
      by (simp add: add.assoc del: mset_map)
    then show ?thesis unfolding parts total by (simp add: st)
  qed
qed

lemma preparePush_plan:
  "preparePush sv sched M local opts scope w = (Inr (l, r, changes), w') \<Longrightarrow> Plan M l r = Inr changes"
  by (auto simp: preparePush_def bindP_Inr liftP_def returnP_def split: if_splits prod.splits dest: planScopedE(1))

lemma mset_by_kind:
  "mset (filter (\<lambda>c. c_Kind c = KindContactPoint) cs) + (mset (filter (\<lambda>c. c_Kind c = KindPolicyTree) cs) +
     mset (filter (\<lambda>c. c_Kind c = KindRuleGroup) cs)) = mset cs"
proof (induction cs)
  case (Cons c cs)
  then show ?case by (cases "c_Kind c") auto
qed simp

lemma plan_names:
  assumes "Plan M l r = Inr changes" and "c \<in> set changes"
  shows "c_Kind c = KindContactPoint \<Longrightarrow> c_ID c \<in> contactPointID ` set (present (b_ContactPoints l))"
    and "c_Kind c = KindPolicyTree \<Longrightarrow> c_ID c = policyTreeID \<and> b_Policies l \<noteq> None"
    and "c_Kind c = KindRuleGroup \<Longrightarrow> c_ID c \<in> groupID ` set (present (b_Groups l))"
proof -
  have "(c_Kind c, c_ID c) \<in> set (localKeys l)"
    using plan_keys(2) [OF assms(1)] assms(2)
    by (metis changeKey_def image_eqI list.set_map mset_eq_setD)
  then show "c_Kind c = KindContactPoint \<Longrightarrow> c_ID c \<in> contactPointID ` set (present (b_ContactPoints l))"
    and "c_Kind c = KindPolicyTree \<Longrightarrow> c_ID c = policyTreeID \<and> b_Policies l \<noteq> None"
    and "c_Kind c = KindRuleGroup \<Longrightarrow> c_ID c \<in> groupID ` set (present (b_Groups l))"
    by (auto simp: localKeys_def split: option.splits dest: sym)
qed

lemma applyPlan_accounted:
  assumes plan: "Plan (pr_M p) (pr_local p) (pr_remote p) = Inr changes"
    and ids: "distinct (localKeys (pr_local p))"
    and run: "applyPlan p sched changes st = (None, st')"
  shows "accounted (fst st') = accounted (fst st) + mset changes"
proof -
  let ?pending = "filter (\<lambda>c. c_Action c \<noteq> ActionUnchanged) changes"
  obtain result w where st: "st = (result, w)" by (cases st)
  have "mset (map changeKey changes) = mset (localKeys (pr_local p))" by (rule plan_keys(2) [OF plan])
  then have "distinct (map changeKey changes)" using ids by (metis mset_eq_imp_distinct_iff)
  then have d: "distinct (map changeKey ?pending)" by (rule distinct_map_filter)
  have local: "distinct (map contactPointID (present (b_ContactPoints (pr_local p))))"
      "distinct (map groupID (present (b_Groups (pr_local p))))"
    using ids by (auto simp: localKeys_def distinct_map inj_on_def)
  note names = plan_names [OF plan]
  let ?start = "result\<lparr>res_Applied := res_Applied result @ filter (\<lambda>c. c_Action c = ActionUnchanged) changes\<rparr>"
  obtain s1 s2 where s1: "applyContactPoints p ?pending (?start, w) = (None, s1)"
    and s2: "applyPolicyTree p ?pending s1 = (None, s2)" and s3: "applyRuleGroups p sched ?pending s2 = (None, st')"
    using run by (auto simp: applyPlan_def recordUnchanged_def thenS_def st split: prod.splits option.splits)
  have a1: "accounted (fst s1) = accounted ?start + mset (filter (\<lambda>c. c_Kind c = KindContactPoint) ?pending)"
    using points_accounted [OF d local(1) _ s1] names(1) by auto
  have a2: "accounted (fst s2) = accounted (fst s1) + mset (filter (\<lambda>c. c_Kind c = KindPolicyTree) ?pending)"
    by (rule tree_accounted [OF d _ s2]) (use names(2) in auto)
  have a3: "accounted (fst st') = accounted (fst s2) + mset (filter (\<lambda>c. c_Kind c = KindRuleGroup) ?pending)"
    using groups_accounted [OF d local(2) _ s3] names(3) by auto
  have "accounted (fst st') = accounted ?start + mset ?pending"
    unfolding a3 a2 a1 by (simp only: add.assoc mset_by_kind)
  moreover have "accounted ?start = accounted result + mset (filter (\<lambda>c. c_Action c = ActionUnchanged) changes)"
    by (simp add: accounted_def)
  moreover have "mset (filter (\<lambda>c. c_Action c = ActionUnchanged) changes) + mset ?pending = mset changes"
    by (simp add: multiset_partition [symmetric])
  ultimately show ?thesis by (simp add: st add.assoc)
qed

text \<open>C6: accounting. A push that is not stopped reports every entry of its plan exactly once,
  applied or failed (a dry run included), and reports both lists in plan order, whatever order the
  concurrent writes completed in; the objects of the local bundle are taken to have different IDs.\<close>

theorem push_accounts_for_plan:
  assumes ready: "preparePush sv sched M local opts scope w = (Inr (l, r, changes), w')"
    and ids: "distinct (localKeys l)"
    and push: "pushWith (Some sv) sched M local opts scope w = ((result, None), w'')"
  shows "mset (res_Applied result) + mset (map fst (res_Failed result)) = mset changes \<and>
     sorted (map changeKey (res_Applied result)) \<and> sorted (map (\<lambda>f. changeKey (fst f)) (res_Failed result))"
proof -
  let ?p = "run_of sv M opts l r"
  obtain res where run: "applyPlan ?p sched changes (noResult, w') = (None, (res, w''))"
    and result: "result = sortResult res"
    using push pushWith_ready [OF ready] by (auto split: prod.splits)
  have "accounted res = mset changes"
    using applyPlan_accounted [OF _ _ run] preparePush_plan [OF ready] ids
    by (simp add: run_of_def noResult_def accounted_def)
  then show ?thesis by (simp add: result sortResult_def accounted_def)
qed

theorem push_accounts_for_plan_witness:
  "\<exists>l r changes w' result w''.
     preparePush fixed_server backwards sample_marshaller edited_files push_options scopeBundles (start_world ())
       = (Inr (l, r, changes), w') \<and>
     pushWith (Some fixed_server) backwards sample_marshaller edited_files push_options scopeBundles
       (start_world ()) = ((result, None), w'') \<and>
     mset (res_Applied result) + mset (map fst (res_Failed result)) = mset changes \<and>
     sorted (map changeKey (res_Applied result)) \<and> sorted (map (\<lambda>f. changeKey (fst f)) (res_Failed result))"
proof -
  let ?prepare = "preparePush fixed_server backwards sample_marshaller edited_files push_options scopeBundles"
  let ?push = "pushWith (Some fixed_server) backwards sample_marshaller edited_files push_options scopeBundles"
  have "case fst (?prepare (start_world ())) of Inl e \<Rightarrow> False
      | Inr (l, r, cs) \<Rightarrow> localKeys l = [(KindContactPoint, ''new''), (KindRuleGroup, ''infra/hosts'')]" by code_simp
  then obtain l r changes w' where ready: "?prepare (start_world ()) = (Inr (l, r, changes), w')"
    and ids: "distinct (localKeys l)"
    by (cases "?prepare (start_world ())") (auto split: sum.splits prod.splits)
  have "snd (fst (?push (start_world ()))) = None" by code_simp
  then obtain result w'' where push: "?push (start_world ()) = ((result, None), w'')"
    by (cases "?push (start_world ())") auto
  from push_accounts_for_plan [OF ready ids push] ready push show ?thesis
    by (intro exI [of _ l] exI [of _ r] exI [of _ changes] exI [of _ w'] exI [of _ result] exI [of _ w''] conjI) auto
qed

section \<open>What stops a push\<close>

definition strict :: "PushOptions \<Rightarrow> bool" where
  "strict opts \<longleftrightarrow> op_StopOnError opts \<and> \<not> op_DryRun opts"

text \<open>A report that did not ask to stop: no failure is a dead session, and none at all when the
  first one stops.\<close>

definition quiet :: "PushOptions \<Rightarrow> Result \<Rightarrow> bool" where
  "quiet opts result \<longleftrightarrow> (\<forall>f \<in> set (res_Failed result). \<not> isUnauthorized (snd f)) \<and>
     (op_StopOnError opts \<longrightarrow> res_Failed result = [])"

definition one_failure :: "PushOptions \<Rightarrow> Result \<Rightarrow> bool" where
  "one_failure opts result \<longleftrightarrow> (op_StopOnError opts \<longrightarrow> length (res_Failed result) \<le> 1)"

lemma quiet_one: "quiet opts result \<Longrightarrow> one_failure opts result"
  by (simp add: quiet_def one_failure_def)

locale stopping_phase =
  fixes opts :: PushOptions and phase :: "'s push_state \<Rightarrow> err option \<times> 's push_state"
  assumes goes_on: "quiet opts (fst st) \<Longrightarrow> phase st = (None, st') \<Longrightarrow> quiet opts (fst st')"
    and at_most_one: "quiet opts (fst st) \<Longrightarrow> one_failure opts (fst (snd (phase st)))"
begin

lemma then_stops:
  assumes "stopping_phase opts next_phase"
  shows "stopping_phase opts (thenS phase next_phase)"
proof
  note nxt_goes_on = stopping_phase.goes_on [OF assms] and nxt_one = stopping_phase.at_most_one [OF assms]
  fix st st' :: "'s push_state"
  assume q: "quiet opts (fst st)"
  obtain stop s where s: "phase st = (stop, s)" by (cases "phase st")
  show "one_failure opts (fst (snd (thenS phase next_phase st)))"
    using at_most_one [OF q] goes_on [OF q] nxt_one [of s] s by (cases stop) (auto simp: thenS_def)
  assume "thenS phase next_phase st = (None, st')"
  then show "quiet opts (fst st')"
    using goes_on [OF q] nxt_goes_on [of s] s by (cases stop) (auto simp: thenS_def)
qed

end

lemma runS_stops:
  assumes "\<And>x. x \<in> set xs \<Longrightarrow> stopping_phase opts (step x)"
  shows "stopping_phase opts (runS step xs)"
  using assms
proof (induction xs)
  case Nil
  show ?case by (unfold_locales) (simp_all add: quiet_one)
next
  case (Cons x xs)
  have eq: "runS step (x # xs) = thenS (step x) (runS step xs)"
    by (rule ext) (simp add: thenS_def)
  show ?case unfolding eq using Cons by (intro stopping_phase.then_stops) simp_all
qed

lemma idle_stops: "stopping_phase opts (\<lambda>st. (None, st))"
  by unfold_locales (simp_all add: quiet_one)

lemma recordChange_stops:
  assumes "quiet opts result" and "recordChange opts change outcome result = (stop, result')"
  shows "(stop = None \<longrightarrow> quiet opts result') \<and> one_failure opts result'"
  using assms by (cases outcome) (auto simp: recordChange_def quiet_def one_failure_def split: if_splits)

lemma runChange_stops: "stopping_phase opts (runChange opts change m)"
proof
  fix st st' :: "'a push_state"
  assume q: "quiet opts (fst st)"
  obtain result w where st: "st = (result, w)" by (cases st)
  obtain outcome w' where m: "m w = (outcome, w')" by (cases "m w")
  obtain stop result' where r: "recordChange opts change outcome result = (stop, result')"
    by (cases "recordChange opts change outcome result")
  note stops = recordChange_stops [OF _ r]
  show "one_failure opts (fst (snd (runChange opts change m st)))"
    using stops q by (simp add: runChange_def st m r)
  assume "runChange opts change m st = (None, st')"
  then show "quiet opts (fst st')"
    using stops q by (simp add: runChange_def st m r) auto
qed

lemma writeGroups_keeps_fatal:
  "writeGroups p targets ks (outcomes, fatal, w) = (outcomes', None, w') \<Longrightarrow> fatal = None"
proof (induction ks arbitrary: outcomes fatal w)
  case (Cons k ks)
  obtain r v where r: "pushRuleGroup p (targets ! k) w = (r, v)" by (cases "pushRuleGroup p (targets ! k) w")
  show ?case using Cons.IH Cons.prems by (cases fatal) (auto simp: r)
qed simp

lemma writeGroups_fatal:
  assumes "writeGroups p targets ks (outcomes, fatal, w) = (outcomes', None, w')"
    and "\<forall>r \<in> set outcomes. \<forall>e. r = Inl e \<longrightarrow> \<not> isUnauthorized e"
  shows "fatal = None \<and> (\<forall>r \<in> set outcomes'. \<forall>e. r = Inl e \<longrightarrow> \<not> isUnauthorized e)"
  using assms
proof (induction ks arbitrary: outcomes fatal w)
  case (Cons k ks)
  obtain r v where r: "pushRuleGroup p (targets ! k) w = (r, v)" by (cases "pushRuleGroup p (targets ! k) w")
  let ?fatal = "case (fatal, r) of (None, Inl e) \<Rightarrow> if isUnauthorized e then Some e else None | _ \<Rightarrow> fatal"
  have rest: "writeGroups p targets ks (outcomes[k := r], ?fatal, v) = (outcomes', None, w')"
    using Cons.prems(1) by (simp add: r)
  show ?case
  proof (cases "\<exists>e. r = Inl e \<and> isUnauthorized e")
    case True
    then have "?fatal \<noteq> None" by (auto split: option.splits)
    then show ?thesis using writeGroups_keeps_fatal [OF rest] by blast
  next
    case False
    have "\<forall>x \<in> set (outcomes[k := r]). \<forall>e. x = Inl e \<longrightarrow> \<not> isUnauthorized e"
      using Cons.prems(2) False set_update_subset_insert [of outcomes k r] by blast
    from Cons.IH [OF rest this] show ?thesis by (auto split: option.splits sum.splits if_splits)
  qed
qed simp

lemma fold_quiet:
  assumes "\<not> op_StopOnError opts" and "quiet opts result"
    and "\<forall>r \<in> set outcomes. \<forall>e. r = Inl e \<longrightarrow> \<not> isUnauthorized e"
  shows "quiet opts (fold (\<lambda>(target, outcome) res. snd (recordChange opts (rt_change target) outcome res))
     (zip targets outcomes) result)"
  using assms(2,3)
proof (induction targets outcomes arbitrary: result rule: list_induct2')
  case (4 t ts r rs)
  have "quiet opts (snd (recordChange opts (rt_change t) r result))"
    using 4(2,3) assms(1) by (cases r) (auto simp: recordChange_def quiet_def)
  with 4 show ?case by simp
qed simp_all

lemma writeTargets_stops: "stopping_phase (pr_opts p) (writeTargets p sched targets)"
proof (cases "op_StopOnError (pr_opts p)")
  case True
  have "writeTargets p sched targets =
      runS (\<lambda>target. runChange (pr_opts p) (rt_change target) (pushRuleGroup p target)) targets"
    using True by (intro ext) (simp add: writeTargets_def applyRuleGroupsInOrder_def)
  then show ?thesis by (simp add: runS_stops runChange_stops)
next
  case False
  show ?thesis
  proof
    fix st st' :: "'a push_state"
    assume q: "quiet (pr_opts p) (fst st)"
    obtain result w where st: "st = (result, w)" by (cases st)
    show "one_failure (pr_opts p) (fst (snd (writeTargets p sched targets st)))"
      using False by (simp add: one_failure_def)
    assume run: "writeTargets p sched targets st = (None, st')"
    obtain outcomes fatal w' where out: "writeGroups p targets (sched Writing (length targets))
        (replicate (length targets) (Inr ()), None, w) = (outcomes, fatal, w')" by (metis prod_cases3)
    have "fatal = None" and res: "fst st' = fold (\<lambda>(target, outcome) res.
          snd (recordChange (pr_opts p) (rt_change target) outcome res)) (zip targets outcomes) result"
      using run False by (auto simp: writeTargets_def applyRuleGroupsConcurrently_def st out)
    then have "\<forall>r \<in> set outcomes. \<forall>e. r = Inl e \<longrightarrow> \<not> isUnauthorized e"
      using writeGroups_fatal [OF out [unfolded \<open>fatal = None\<close>]] by simp
    then show "quiet (pr_opts p) (fst st')"
      unfolding res using fold_quiet [OF False] q by (simp add: st)
  qed
qed

lemma applyRuleGroups_stops: "stopping_phase (pr_opts p) (applyRuleGroups p sched changes)"
proof
  fix st st' :: "'a push_state"
  let ?ts = "ruleGroupTargets p changes"
  assume q: "quiet (pr_opts p) (fst st)"
  obtain result w where st: "st = (result, w)" by (cases st)
  obtain r w' where r: "checkFolders p ?ts w = (r, w')" by (cases "checkFolders p ?ts w")
  have phases: "stopping_phase (pr_opts p) (thenS (runS (recordBlocked p blocked) ?ts)
      (writeTargets p sched (filter (\<lambda>t. blocked (g_FolderUID (rt_local t)) = None) ?ts)))" for blocked
  proof (intro stopping_phase.then_stops writeTargets_stops runS_stops)
    fix t
    show "stopping_phase (pr_opts p) (recordBlocked p blocked t)"
      using idle_stops runChange_stops by (cases "blocked (g_FolderUID (rt_local t))")
        (simp_all add: recordBlocked_def [abs_def])
  qed
  show "one_failure (pr_opts p) (fst (snd (applyRuleGroups p sched changes st)))"
    using stopping_phase.at_most_one [OF phases, of "(result, w')"] q quiet_one [OF q]
    by (auto simp: applyRuleGroups_def Let_def st r split: sum.split)
  assume "applyRuleGroups p sched changes st = (None, st')"
  then show "quiet (pr_opts p) (fst st')"
    using stopping_phase.goes_on [OF phases, of "(result, w')"] q
    by (auto simp: applyRuleGroups_def Let_def st r split: sum.splits if_splits)
qed

lemma applyContactPoints_stops: "stopping_phase (pr_opts p) (applyContactPoints p changes)"
proof (cases "filter (\<lambda>c. c_Kind c = KindContactPoint) changes = []")
  case False
  have "stopping_phase (pr_opts p) (applyContactPoint p pending point)" for pending point
    using idle_stops runChange_stops by (cases "pending (contactPointID point)")
      (simp_all add: applyContactPoint_def [abs_def])
  with False show ?thesis by (simp add: applyContactPoints_def [abs_def] runS_stops)
qed (simp add: applyContactPoints_def [abs_def] idle_stops)

lemma applyPolicyTree_stops: "stopping_phase (pr_opts p) (applyPolicyTree p changes)"
  by (cases "find (\<lambda>c. c_Kind c = KindPolicyTree) changes"; cases "b_Policies (pr_local p)")
     (simp_all add: applyPolicyTree_def [abs_def] idle_stops runChange_stops)

text \<open>The three phases of \<^verbatim>\<open>pushRun.apply\<close> keep the contract.\<close>

interpretation points_stop: stopping_phase "pr_opts p" "applyContactPoints p changes" for p changes
  by (rule applyContactPoints_stops)

interpretation tree_stop: stopping_phase "pr_opts p" "applyPolicyTree p changes" for p changes
  by (rule applyPolicyTree_stops)

interpretation groups_stop: stopping_phase "pr_opts p" "applyRuleGroups p sched changes" for p sched changes
  by (rule applyRuleGroups_stops)

lemma applyPlan_stops:
  assumes run: "applyPlan p sched changes (noResult, w) = (stop, (result, w'))"
  shows "(stop = None \<longrightarrow> quiet (pr_opts p) result) \<and> one_failure (pr_opts p) result"
proof -
  let ?pending = "fst (recordUnchanged changes noResult)" and ?start = "(snd (recordUnchanged changes noResult), w)"
  have all: "stopping_phase (pr_opts p) (thenS (applyContactPoints p ?pending)
      (thenS (applyPolicyTree p ?pending) (applyRuleGroups p sched ?pending)))"
    by (intro points_stop.then_stops tree_stop.then_stops groups_stop.stopping_phase_axioms)
  have "quiet (pr_opts p) (fst ?start)" by (simp add: recordUnchanged_def noResult_def quiet_def)
  from stopping_phase.goes_on [OF all this] stopping_phase.at_most_one [OF all this] run
  show ?thesis by (cases stop) (auto simp: applyPlan_def recordUnchanged_def)
qed

text \<open>C7: what stops a push. A push that returns no error has met no dead session: none of the
  failures it reports is a 401, and with \<open>StopOnError\<close> (and no dry run, over which it has no say)
  it reports no failure at all; and whatever it returns, \<open>StopOnError\<close> leaves at most one failure.\<close>

theorem push_stops:
  assumes push: "pushWith client sched M local opts scope w = ((result, stop), w')"
  shows "(stop = None \<longrightarrow> (\<forall>f \<in> set (res_Failed result). \<not> isUnauthorized (snd f)) \<and>
        (strict opts \<longrightarrow> res_Failed result = [])) \<and>
     (strict opts \<longrightarrow> length (res_Failed result) \<le> 1)"
proof (cases "\<exists>sv l r changes v. client = Some sv \<and> preparePush sv sched M local opts scope w = (Inr (l, r, changes), v)")
  case True
  then obtain sv l r changes v where c: "client = Some sv"
      and ready: "preparePush sv sched M local opts scope w = (Inr (l, r, changes), v)" by blast
  let ?p = "run_of sv M opts l r"
  obtain res where run: "applyPlan ?p sched changes (noResult, v) = (stop, (res, w'))"
    and result: "result = sortResult res"
    using push pushWith_ready [OF ready] c by (auto split: prod.splits)
  have "op_StopOnError (pr_opts ?p) \<longleftrightarrow> strict opts" by (simp add: run_of_def strict_def)
  moreover have "set (res_Failed result) = set (res_Failed res)"
      "length (res_Failed result) = length (res_Failed res)"
      "res_Failed result = [] \<longleftrightarrow> res_Failed res = []"
    by (simp_all add: result sortResult_def) (metis length_0_conv length_sort)
  ultimately show ?thesis
    using applyPlan_stops [OF run] by (simp add: quiet_def one_failure_def)
next
  case False
  then have "result = noResult"
    using push by (auto simp: pushWith_def split: option.splits prod.splits sum.splits)
  then show ?thesis by (simp add: noResult_def)
qed

text \<open>A session that dies before the first write.\<close>

definition dead_server :: "unit server" where
  "dead_server = fixed_server\<lparr>ep_write := \<lambda>req s. (Inl (APIError ''write'' 401), s)\<rparr>"

theorem push_stops_witness:
  "\<exists>result e w'. pushWith (Some dead_server) in_order sample_marshaller edited_files
       (push_options\<lparr>op_StopOnError := True\<rparr>) scopeBundles (start_world ()) = ((result, Some e), w') \<and>
     length (res_Failed result) \<le> 1 \<and> map (c_ID \<circ> fst) (res_Failed result) = [''new'']"
proof -
  let ?opts = "push_options\<lparr>op_StopOnError := True\<rparr>"
  let ?push = "pushWith (Some dead_server) in_order sample_marshaller edited_files ?opts scopeBundles (start_world ())"
  have "map (c_ID \<circ> fst) (res_Failed (fst (fst ?push))) = [''new''] \<and> snd (fst ?push) \<noteq> None" by code_simp
  then obtain result e w' where push: "?push = ((result, Some e), w')"
    and failed: "map (c_ID \<circ> fst) (res_Failed result) = [''new'']"
    by (cases "?push") auto
  have "strict ?opts" by (simp add: strict_def push_options_def)
  with push_stops [OF push] push failed show ?thesis
    by (intro exI [of _ result] exI [of _ e] exI [of _ w'] conjI) simp_all
qed

section \<open>Pushing what was pulled, and pushing named rules\<close>

lemma applyPlan_unchanged:
  assumes "\<forall>c \<in> set changes. c_Action c = ActionUnchanged"
  shows "applyPlan p sched changes (result, w) = (None, (result\<lparr>res_Applied := res_Applied result @ changes\<rparr>, w))"
proof -
  have "filter (\<lambda>c. c_Action c = ActionUnchanged) changes = changes"
      "filter (\<lambda>c. c_Action c \<noteq> ActionUnchanged) changes = []"
    using assms by (simp_all add: filter_id_conv filter_empty_conv)
  moreover have "ruleGroupTargets p [] = []"
    by (simp add: ruleGroupTargets_def changesByID_def Let_def map_filter_def)
  ultimately show ?thesis
    by (simp add: applyPlan_def recordUnchanged_def thenS_def applyContactPoints_def applyPolicyTree_def
        applyRuleGroups_def split: option.split)
qed

text \<open>C1: pushing back what was pulled from the same instance makes no request after the reads that
  build the plan, fails at nothing, and reports every entry of the plan as applied, unchanged.\<close>

theorem push_of_pulled:
  assumes M: "marshals (m_rule M)" "marshals (m_point M)" "marshals (m_route M)" "readonly_keys M"
    and ready: "preparePush sv sched M local opts scope w = (Inr (l, r, changes), w')"
    and R: "reported r" and f: "file_of l r"
  shows "pushWith (Some sv) sched M local opts scope w =
       ((\<lparr>res_Applied = changes, res_Failed = []\<rparr>, None), w') \<and>
     (\<forall>c \<in> set changes. c_Action c = ActionUnchanged \<and> c_Detail c = [])"
proof -
  have plan: "Plan M l r = Inr changes" by (rule preparePush_plan [OF ready])
  then have all: "\<forall>c \<in> set changes. c_Action c = ActionUnchanged \<and> c_Detail c = []"
    using plan_file_unchanged [OF M R f] by auto
  have "sort_key changeKey changes = changes"
    by (rule sort_key_id_if_sorted) (rule plan_keys(1) [OF plan])
  moreover have "applyPlan (run_of sv M opts l r) sched changes (noResult, w') =
      (None, (\<lparr>res_Applied = changes, res_Failed = []\<rparr>, w'))"
    using applyPlan_unchanged [of changes "run_of sv M opts l r" sched noResult w'] all by (simp add: noResult_def)
  ultimately show ?thesis
    using all by (simp add: pushWith_ready [OF ready] sortResult_def)
qed

theorem push_of_pulled_witness:
  "\<exists>changes w'. pushWith (Some fixed_server) in_order sample_marshaller sample_files push_options scopeBundles
       (start_world ()) = ((\<lparr>res_Applied = changes, res_Failed = []\<rparr>, None), w') \<and> length changes = 3 \<and>
     (\<forall>c \<in> set changes. c_Action c = ActionUnchanged \<and> c_Detail c = [])"
proof -
  let ?prepare = "preparePush fixed_server in_order sample_marshaller sample_files push_options scopeBundles (start_world ())"
  have "case ?prepare of (Inr (l, r, cs), w') \<Rightarrow> (l, r) = (sample_files, sample_bundle) \<and> length cs = 3
      | _ \<Rightarrow> False" by code_simp
  then obtain changes w' where ready: "?prepare = (Inr (sample_files, sample_bundle, changes), w')"
    and n: "length changes = 3" by (cases "?prepare") (auto split: sum.splits prod.splits)
  have "reported sample_bundle"
    by (simp add: reported_def reported_group_def uids_distinct_def uids_given_def groupRef_def sample_defs)
  moreover have "file_of sample_files sample_bundle"
    by (simp add: file_of_def file_group_def file_rule_def file_point_def groupRef_def sample_defs)
  ultimately show ?thesis
    using push_of_pulled [OF sample_marshals(1,3,4) sample_readonly ready] n by blast
qed

lemma scoped_ready:
  assumes "preparePush sv sched M local opts scope w = (Inr (l, r, changes), w')" and "op_RuleUIDs opts \<noteq> []"
  shows "\<exists>remote. scope local remote (dedupeUIDs (op_RuleUIDs opts)) = Inr (l, r)"
  using assms
  by (auto simp: preparePush_def scopedBundles_def Let_def bindP_Inr liftP_def returnP_def split: prod.splits)



end
