(* ===== verification/Rule_Ops.thy ===== *)
theory Rule_Ops
  imports Push_Properties
begin

text \<open>
  Pausing, resuming and deleting named rules (\<^verbatim>\<open>internal/alerts/ruleops.go\<close>). A run keeps the
  outcome of every uid (\<^verbatim>\<open>ruleOpRun.outcome\<close>) and the world; a step returns the error the run
  must stop on, which only a dead session asks for.

  The rules \<^verbatim>\<open>pauseTargets\<close> returns point into the body of the write: they are the first rules
  of their uid in it, and flipping them is \<open>flipRules\<close>.
\<close>

section \<open>Outcomes\<close>

record RuleOpOptions =
  ro_Paused :: bool
  ro_DryRun :: bool

record RuleOpResult =
  rr_UID :: string
  rr_Title :: string
  rr_Group :: string
  rr_Changed :: bool
  rr_Err :: "err option"

type_synonym outcomes = "string \<rightharpoonup> RuleOpResult"
type_synonym 's op_state = "outcomes \<times> 's world"

definition ruleOpResult :: "rule \<Rightarrow> RuleOpResult" where
  "ruleOpResult r = \<lparr>rr_UID = r_UID r, rr_Title = stringValue (r_Title r),
     rr_Group = stringValue (r_RuleGroup r), rr_Changed = False, rr_Err = None\<rparr>"

definition ruleOpFailure :: "rule \<Rightarrow> err \<Rightarrow> RuleOpResult" where
  "ruleOpFailure r e = (ruleOpResult r)\<lparr>rr_Err := Some e\<rparr>"

definition fileOutcome :: "RuleOpResult \<Rightarrow> 's op_state \<Rightarrow> err option \<times> 's op_state" where
  "fileOutcome result st =
     ((case rr_Err result of None \<Rightarrow> None | Some e \<Rightarrow> if isUnauthorized e then Some e else None),
      ((fst st)(rr_UID result \<mapsto> result), snd st))"

definition recordChanged :: "rule list \<Rightarrow> 's op_state \<Rightarrow> err option \<times> 's op_state" where
  "recordChanged rules = runS (\<lambda>r. fileOutcome ((ruleOpResult r)\<lparr>rr_Changed := True\<rparr>)) rules"

definition failRules :: "rule list \<Rightarrow> err \<Rightarrow> 's op_state \<Rightarrow> err option \<times> 's op_state" where
  "failRules rules e = runS (\<lambda>r. fileOutcome (ruleOpFailure r e)) rules"

definition results :: "string list \<Rightarrow> outcomes \<Rightarrow> RuleOpResult list" where
  "results order outcome = List.map_filter outcome order"

section \<open>Looking the rules up\<close>

definition resolveRule ::
  "'s server \<Rightarrow> string \<Rightarrow> rule list \<times> 's op_state \<Rightarrow> err option \<times> (rule list \<times> 's op_state)" where
  "resolveRule sv uid s =
     (case s of (rules, outcome, w) \<Rightarrow>
      case fetchRule sv uid w of (answer, w') \<Rightarrow>
      case answer of
        Inr (Some r) \<Rightarrow> (None, (rules @ [r], outcome, w'))
      | Inr None \<Rightarrow>
          (case fileOutcome \<lparr>rr_UID = uid, rr_Title = [], rr_Group = [], rr_Changed = False,
                   rr_Err = Some (ruleNotFoundError uid)\<rparr> (outcome, w') of
             (stop, st) \<Rightarrow> (stop, (rules, st)))
      | Inl e \<Rightarrow>
          (case fileOutcome \<lparr>rr_UID = uid, rr_Title = [], rr_Group = [], rr_Changed = False,
                   rr_Err = Some e\<rparr> (outcome, w') of
             (stop, st) \<Rightarrow> (stop, (rules, st))))"

definition resolveRules ::
  "'s server \<Rightarrow> string list \<Rightarrow> 's op_state \<Rightarrow> err option \<times> (rule list \<times> 's op_state)" where
  "resolveRules sv order st = runS (resolveRule sv) order ([], st)"

section \<open>Deleting\<close>

definition deleteRule ::
  "'s server \<Rightarrow> bool \<Rightarrow> rule \<Rightarrow> 's op_state \<Rightarrow> err option \<times> 's op_state" where
  "deleteRule sv dryRun r st =
     (case ProvenanceHeader (r_Provenance r) of
        Inl e \<Rightarrow> fileOutcome (ruleOpFailure r (operationError (DeleteRule (r_UID r)) e)) st
      | Inr header \<Rightarrow>
          if dryRun then recordChanged [r] st
          else case writeP sv (DelRule (r_UID r) header) (snd st) of
            (Inl e, w') \<Rightarrow> fileOutcome (ruleOpFailure r (operationError (DeleteRule (r_UID r)) e)) (fst st, w')
          | (Inr u, w') \<Rightarrow> recordChanged [r] (fst st, w'))"

section \<open>Pausing and resuming\<close>

record ruleGroupBatch =
  bt_ref :: GroupRef
  bt_rules :: "rule list"

fun addToBatch :: "rule \<Rightarrow> ruleGroupBatch list \<Rightarrow> ruleGroupBatch list" where
  "addToBatch r [] = [\<lparr>bt_ref = ruleRef r, bt_rules = [r]\<rparr>]"
| "addToBatch r (b # bs) =
     (if bt_ref b = ruleRef r then b\<lparr>bt_rules := bt_rules b @ [r]\<rparr> # bs else b # addToBatch r bs)"

definition groupBatches :: "rule list \<Rightarrow> ruleGroupBatch list" where
  "groupBatches rules = fold addToBatch rules []"

definition pauseTarget ::
  "ruleGroupBatch \<Rightarrow> rule_group \<Rightarrow> RuleOpOptions \<Rightarrow> rule \<Rightarrow> rule list \<times> 's op_state
     \<Rightarrow> err option \<times> (rule list \<times> 's op_state)" where
  "pauseTarget batch body opts r s =
     (case findRule (g_Rules body) (r_UID r) of
        None \<Rightarrow>
          (case fileOutcome (ruleOpFailure r (Leaf (PausedRuleGone (ro_Paused opts) (r_UID r) (bt_ref batch)))) (snd s) of
             (stop, st) \<Rightarrow> (stop, (fst s, st)))
      | Some current \<Rightarrow>
          if r_IsPaused current = ro_Paused opts
          then (case fileOutcome (ruleOpResult r) (snd s) of (stop, st) \<Rightarrow> (stop, (fst s, st)))
          else (None, (fst s @ [current], snd s)))"

definition pauseTargets ::
  "ruleGroupBatch \<Rightarrow> rule_group \<Rightarrow> RuleOpOptions \<Rightarrow> 's op_state \<Rightarrow> err option \<times> (rule list \<times> 's op_state)" where
  "pauseTargets batch body opts st = runS (pauseTarget batch body opts) (bt_rules batch) ([], st)"

fun flipFirst :: "bool \<Rightarrow> string \<Rightarrow> rule option list \<Rightarrow> rule option list" where
  "flipFirst paused uid [] = []"
| "flipFirst paused uid (None # rs) = None # flipFirst paused uid rs"
| "flipFirst paused uid (Some r # rs) =
     (if r_UID r = uid then Some (r\<lparr>r_IsPaused := paused\<rparr>) # rs else Some r # flipFirst paused uid rs)"

definition flipRules :: "bool \<Rightarrow> rule list \<Rightarrow> rule_group \<Rightarrow> rule_group" where
  "flipRules paused flip body =
     body\<lparr>g_Rules := fold (\<lambda>r. flipFirst paused (r_UID r)) flip (g_Rules body)\<rparr>"

definition putPausedGroup ::
  "'s server \<Rightarrow> ruleGroupBatch \<Rightarrow> rule_group \<Rightarrow> string option \<Rightarrow> rule list \<Rightarrow> RuleOpOptions \<Rightarrow> 's op_state
     \<Rightarrow> err option \<times> 's op_state" where
  "putPausedGroup sv batch body header flip opts st =
     (case writeP sv (PutGroup (bt_ref batch) body header) (snd st) of
        (Inl e, w') \<Rightarrow> failRules flip (operationError (SetPaused (ro_Paused opts) (bt_ref batch)) e) (fst st, w')
      | (Inr u, w') \<Rightarrow> recordChanged flip (fst st, w'))"

text \<open>What is done with the group once it is fetched: the body is a copy without an organisation of
  its own (\<^verbatim>\<open>ruleGroupBody(group, nil)\<close>).\<close>

definition pauseFetched ::
  "'s server \<Rightarrow> ruleGroupBatch \<Rightarrow> RuleOpOptions \<Rightarrow> rule_group \<Rightarrow> 's op_state \<Rightarrow> err option \<times> 's op_state" where
  "pauseFetched sv batch opts g st =
     (let body = ruleGroupBody g None in
      case pauseTargets batch body opts st of
        (Some e, (flip, st')) \<Rightarrow> (Some e, st')
      | (None, (flip, st')) \<Rightarrow>
          if flip = [] then (None, st')
          else (case GroupProvenanceHeader (g_Rules g) of
             Inl e \<Rightarrow> failRules flip (operationError (SetPaused (ro_Paused opts) (bt_ref batch)) e) st'
           | Inr header \<Rightarrow>
               if ro_DryRun opts then recordChanged flip st'
               else putPausedGroup sv batch (flipRules (ro_Paused opts) flip body) header flip opts st'))"

definition pauseGroup ::
  "'s server \<Rightarrow> RuleOpOptions \<Rightarrow> ruleGroupBatch \<Rightarrow> 's op_state \<Rightarrow> err option \<times> 's op_state" where
  "pauseGroup sv opts batch st =
     (case fetchGroup sv (bt_ref batch) (snd st) of
        (Inl e, w') \<Rightarrow> failRules (bt_rules batch) e (fst st, w')
      | (Inr None, w') \<Rightarrow>
          failRules (bt_rules batch) (Leaf (PausedGroupNotFound (ro_Paused opts) (bt_ref batch))) (fst st, w')
      | (Inr (Some g), w') \<Rightarrow> pauseFetched sv batch opts g (fst st, w'))"

section \<open>The operations\<close>

text \<open>Resolve everything, then work through what was found.\<close>

definition ruleOperation ::
  "'s server option \<Rightarrow> string list \<Rightarrow> ('s server \<Rightarrow> rule list \<Rightarrow> 's op_state \<Rightarrow> err option \<times> 's op_state)
     \<Rightarrow> 's world \<Rightarrow> (RuleOpResult list \<times> err option) \<times> 's world" where
  "ruleOperation client uids work w =
     (case client of None \<Rightarrow> (([], Some (Leaf NoClient)), w)
      | Some sv \<Rightarrow>
          (let order = dedupeUIDs uids in
           case resolveRules sv order (Map.empty, w) of
             (Some e, (rules, outcome, w')) \<Rightarrow> ((results order outcome, Some e), w')
           | (None, (rules, st)) \<Rightarrow>
               (case work sv rules st of (stop, (outcome, w')) \<Rightarrow> ((results order outcome, stop), w'))))"

definition DeleteRules ::
  "'s server option \<Rightarrow> string list \<Rightarrow> RuleOpOptions \<Rightarrow> 's world \<Rightarrow> (RuleOpResult list \<times> err option) \<times> 's world" where
  "DeleteRules client uids opts =
     ruleOperation client uids (\<lambda>sv rules. runS (deleteRule sv (ro_DryRun opts)) rules)"

definition SetRulesPaused ::
  "'s server option \<Rightarrow> string list \<Rightarrow> RuleOpOptions \<Rightarrow> 's world \<Rightarrow> (RuleOpResult list \<times> err option) \<times> 's world" where
  "SetRulesPaused client uids opts =
     ruleOperation client uids (\<lambda>sv rules. runS (pauseGroup sv opts) (groupBatches rules))"

end
