(* ===== verification/Rule_Ops_Properties.thy ===== *)
theory Rule_Ops_Properties
  imports Rule_Ops
begin

text \<open>
  What the rule operations promise: one line per named uid in the order of the command line, writes
  for named rules only, each with the header its stored provenance implies, and no write at all for
  what is already in the requested state.
\<close>

section \<open>Lookups answer the uid they were asked for\<close>

definition answers_by_uid :: "'s server \<Rightarrow> bool" where
  "answers_by_uid sv \<longleftrightarrow> (\<forall>u s r s'. ep_rule sv u s = (Inr (Some r), s') \<longrightarrow> r_UID r = u)"

lemma fetchRule_uid:
  "answers_by_uid sv \<Longrightarrow> fetchRule sv u w = (Inr (Some r), w') \<Longrightarrow> r_UID r = u"
  by (auto simp: fetchRule_def bindP_Inr attemptP_def callP_def returnP_def failP_def answers_by_uid_def
      split: if_splits prod.splits sum.splits)

section \<open>Traces\<close>

lemma fileOutcome_world [simp]: "snd (snd (fileOutcome result st)) = snd st"
  by (simp add: fileOutcome_def)

lemma recordChanged_world [simp]: "snd (snd (recordChanged rules st)) = snd st"
  unfolding recordChanged_def by (rule runS_invariant [where I = "\<lambda>s. snd s = snd st"]) simp_all

lemma failRules_world [simp]: "snd (snd (failRules rules e st)) = snd st"
  unfolding failRules_def by (rule runS_invariant [where I = "\<lambda>s. snd s = snd st"]) simp_all

lemma resolveRules_grows:
  assumes "resolveRules sv order st = (stop, (rules, st'))"
  shows "extends is_read (snd st) (snd st')"
proof -
  have step: "extends is_read (snd (snd s)) (snd (snd (snd (resolveRule sv uid s))))" for uid s
  proof -
    obtain rs o' w where s: "s = (rs, o', w)" by (cases s)
    obtain answer w' where f: "fetchRule sv uid w = (answer, w')" by (cases "fetchRule sv uid w")
    have "extends is_read w w'"
      using sends_extends [OF sends_fetchRule [where P = is_read], of uid w sv] f by simp
    then show ?thesis
      by (auto simp: resolveRule_def s f fileOutcome_def split: sum.split option.split)
  qed
  have "extends is_read (snd st) (snd (snd (snd (resolveRules sv order st))))"
    unfolding resolveRules_def
    by (rule runS_invariant [where I = "\<lambda>s. extends is_read (snd st) (snd (snd s))"])
       (auto intro: extends_trans step)
  then show ?thesis using assms by simp
qed

lemma resolveRule_uids:
  assumes "answers_by_uid sv" and "resolveRule sv u (rs, outs, w) = (stop, (rs', outs', w'))"
  shows "set (map r_UID rs') \<subseteq> insert u (set (map r_UID rs))"
  using assms(2) fetchRule_uid [OF assms(1)]
  by (auto simp: resolveRule_def fileOutcome_def split: prod.splits sum.splits option.splits)

lemma resolveRules_uids:
  assumes sv: "answers_by_uid sv" and "resolveRules sv order st = (stop, (rules, st'))"
  shows "set (map r_UID rules) \<subseteq> set order"
proof -
  have "set (map r_UID (fst (snd (runS (resolveRule sv) order ([], st))))) \<subseteq> set order"
  proof (rule runS_invariant [where I = "\<lambda>s. set (map r_UID (fst s)) \<subseteq> set order"])
    fix u and s :: "rule list \<times> 'a op_state"
    assume "u \<in> set order" and "set (map r_UID (fst s)) \<subseteq> set order"
    then show "set (map r_UID (fst (snd (resolveRule sv u s)))) \<subseteq> set order"
      using resolveRule_uids [OF sv, of u "fst s" "fst (snd s)" "snd (snd s)"]
      by (cases "resolveRule sv u s") (auto, blast)
  qed simp
  then show ?thesis using assms(2) by (simp add: resolveRules_def)
qed

section \<open>Deleting\<close>

definition delete_permitted :: "bool \<Rightarrow> rule set \<Rightarrow> request \<Rightarrow> bool" where
  "delete_permitted dryRun rules req \<longleftrightarrow> (is_write req \<longrightarrow> \<not> dryRun \<and>
     (\<exists>r \<in> rules. \<exists>header. req = DelRule (r_UID r) header \<and>
        r_Provenance r \<in> {[], apiProvenance} \<and> stored_after header = r_Provenance r))"

lemma deleteRule_grows:
  assumes "r \<in> rules"
  shows "extends (delete_permitted dryRun rules) (snd st) (snd (snd (deleteRule sv dryRun r st)))"
proof (cases "ProvenanceHeader (r_Provenance r)")
  case (Inl e)
  then show ?thesis by (simp add: deleteRule_def)
next
  case (Inr header)
  show ?thesis
  proof (cases dryRun)
    case False
    have "delete_permitted dryRun rules (DelRule (r_UID r) header)"
      using assms stored_header [OF Inr] False unfolding delete_permitted_def by blast
    then have "sends (delete_permitted dryRun rules) (writeP sv (DelRule (r_UID r) header))"
      by (rule sends_write)
    from sends_extends [OF this, of "snd st"] Inr False show ?thesis
      by (cases "writeP sv (DelRule (r_UID r) header) (snd st)")
         (auto simp: deleteRule_def split: sum.split)
  qed (simp add: deleteRule_def Inr)
qed

lemma ruleOperation_grows:
  assumes r: "resolveRules sv (dedupeUIDs uids) (Map.empty, w) = (stop, (rules, st))"
    and reads: "\<And>q. is_read q \<Longrightarrow> P q"
    and work: "\<And>s. extends P (snd s) (snd (snd (work sv rules s)))"
    and run: "ruleOperation (Some sv) uids work w = (report, w')"
  shows "extends P w w'"
proof -
  obtain outs v where st: "st = (outs, v)" by (cases st)
  have "extends P w v"
    using extends_mono [OF resolveRules_grows [OF r] reads] by (simp add: st)
  moreover have "w' = v \<or> w' = snd (snd (work sv rules st))"
    using run r by (auto simp: ruleOperation_def Let_def st split: option.splits prod.splits)
  ultimately show ?thesis using extends_trans [OF _ work [of st]] by (auto simp: st)
qed



section \<open>Pausing\<close>

text \<open>The body of a pause, written out: the group Grafana answered with, every rule of it in its
  order, pinned to the group and cleared of the fields Grafana owns, with the pause flag of the
  first rule of each uid of \<open>named\<close> set.\<close>

definition cleared :: "rule_group \<Rightarrow> rule \<Rightarrow> rule" where
  "cleared g r = r\<lparr>r_FolderUID := Some (g_FolderUID g), r_RuleGroup := Some (g_Title g), r_ID := 0,
     r_Provenance := [], r_Updated := 0\<rparr>"

fun pauseNamed :: "bool \<Rightarrow> string set \<Rightarrow> rule list \<Rightarrow> rule list" where
  "pauseNamed paused named [] = []"
| "pauseNamed paused named (r # rs) =
     (if r_UID r \<in> named then r\<lparr>r_IsPaused := paused\<rparr> # pauseNamed paused (named - {r_UID r}) rs
      else r # pauseNamed paused named rs)"

definition paused_group :: "bool \<Rightarrow> string set \<Rightarrow> rule_group \<Rightarrow> rule_group" where
  "paused_group paused named g =
     g\<lparr>g_Rules := map Some (pauseNamed paused named (map (cleared g) (present (g_Rules g))))\<rparr>"

lemma cleared_body: "g_Rules (ruleGroupBody g None) = map Some (map (cleared g) (present (g_Rules g)))"
  by (simp add: ruleGroupBody_def cleared_def pinRule_def comp_def)

lemma pauseNamed_none: "pauseNamed paused {} rs = rs"
  by (induction rs) simp_all

lemma flipFirst_named:
  "flipFirst paused u (map Some (pauseNamed paused named rs)) = map Some (pauseNamed paused (insert u named) rs)"
  by (induction rs arbitrary: named) (auto simp: insert_Diff_if)

lemma flips_named:
  "fold (\<lambda>r. flipFirst paused (r_UID r)) flip (map Some (pauseNamed paused named rs)) =
     map Some (pauseNamed paused (named \<union> r_UID ` set flip) rs)"
  by (induction flip arbitrary: named) (simp_all add: flipFirst_named)

text \<open>Rules that are in the requested state already may be named or not.\<close>

lemma pauseNamed_same:
  assumes "some \<subseteq> named"
    and "\<forall>u \<in> named - some. \<forall>r. find (\<lambda>r. r_UID r = u) rs = Some r \<longrightarrow> r_IsPaused r = paused"
  shows "pauseNamed paused some rs = pauseNamed paused named rs"
  using assms
proof (induction rs arbitrary: some named)
  case (Cons r rs)
  have rest: "\<forall>u \<in> (named - {r_UID r}) - (some - {r_UID r}). \<forall>x. find (\<lambda>x. r_UID x = u) rs = Some x \<longrightarrow>
      r_IsPaused x = paused"
    using Cons.prems(2) by auto
  show ?case
  proof (cases "r_UID r \<in> named \<and> r_UID r \<notin> some")
    case True
    then have "r\<lparr>r_IsPaused := paused\<rparr> = r" using Cons.prems(2) by auto
    moreover have "some - {r_UID r} = some" using True by simp
    ultimately show ?thesis using Cons.IH [of some "named - {r_UID r}"] rest Cons.prems(1) True by auto
  next
    case False
    then consider "r_UID r \<in> some" "r_UID r \<in> named" | "r_UID r \<notin> some" "r_UID r \<notin> named"
      using Cons.prems(1) by blast
    then show ?thesis
    proof cases
      case 1
      then show ?thesis using Cons.IH [OF _ rest] Cons.prems(1) by (simp add: Diff_mono)
    next
      case 2
      then have "some - {r_UID r} = some" "named - {r_UID r} = named" by simp_all
      then show ?thesis using Cons.IH [OF Cons.prems(1)] rest 2 by simp
    qed
  qed
qed simp

lemma pauseNamed_find:
  "u \<in> named \<Longrightarrow> find (\<lambda>r. r_UID r = u) (pauseNamed paused named rs) =
     map_option (\<lambda>r. r\<lparr>r_IsPaused := paused\<rparr>) (find (\<lambda>r. r_UID r = u) rs)"
  by (induction rs arbitrary: named) auto

lemma pauseTargets_flip:
  assumes "pauseTargets batch body opts st = (stop, (flip, st'))"
  shows "snd st' = snd st \<and> (\<forall>r \<in> set flip. findRule (g_Rules body) (r_UID r) = Some r \<and>
     r_IsPaused r \<noteq> ro_Paused opts \<and> r_UID r \<in> set (map r_UID (bt_rules batch)))"
proof -
  let ?I = "\<lambda>s. snd (snd s) = snd st \<and> (\<forall>r \<in> set (fst s). findRule (g_Rules body) (r_UID r) = Some r \<and>
     r_IsPaused r \<noteq> ro_Paused opts \<and> r_UID r \<in> set (map r_UID (bt_rules batch)))"
  have "?I (snd (runS (pauseTarget batch body opts) (bt_rules batch) ([], st)))"
  proof (rule runS_invariant [where I = ?I])
    fix x and s :: "rule list \<times> 'a op_state"
    assume x: "x \<in> set (bt_rules batch)" and s: "?I s"
    show "?I (snd (pauseTarget batch body opts x s))"
    proof (cases "findRule (g_Rules body) (r_UID x)")
      case None
      then show ?thesis using s by (simp add: pauseTarget_def fileOutcome_def)
    next
      case (Some c)
      then have "r_UID c = r_UID x" by (auto dest: findRule_Some)
      then show ?thesis using s x Some by (auto simp: pauseTarget_def fileOutcome_def)
    qed
  qed simp
  then show ?thesis using assms by (simp add: pauseTargets_def)
qed

text \<open>A run that was not stopped has every rule to flip among its targets.\<close>

lemma pauseTargets_all:
  assumes "pauseTargets batch body opts st = (None, (flip, st'))" and "r \<in> set (bt_rules batch)"
    and "findRule (g_Rules body) (r_UID r) = Some c" and "r_IsPaused c \<noteq> ro_Paused opts"
  shows "c \<in> set flip"
proof -
  have "set (fst s) \<subseteq> set flip \<and>
      (\<forall>r \<in> set rs. findRule (g_Rules body) (r_UID r) = Some c \<longrightarrow> c \<in> set flip)"
    if "runS (pauseTarget batch body opts) rs s = (None, (flip, st'))" for rs s
    using that
  proof (induction rs arbitrary: s)
    case (Cons r rs)
    obtain s' where s: "pauseTarget batch body opts r s = (None, s')"
        and rest: "runS (pauseTarget batch body opts) rs s' = (None, (flip, st'))"
      using Cons.prems by (auto split: prod.splits option.splits)
    have "set (fst s) \<subseteq> set (fst s') \<and> (findRule (g_Rules body) (r_UID r) = Some c \<longrightarrow> c \<in> set (fst s'))"
      using s assms(4) by (auto simp: pauseTarget_def split: option.splits if_splits prod.splits)
    then show ?case using Cons.IH [OF rest] by auto
  qed simp
  then show ?thesis using assms unfolding pauseTargets_def by blast
qed

lemma flipped_body:
  assumes t: "pauseTargets batch (ruleGroupBody g None) opts st = (None, (flip, st'))"
    and uids: "\<forall>r \<in> set (bt_rules batch). r_UID r \<noteq> []"
  shows "flipRules (ro_Paused opts) flip (ruleGroupBody g None) =
     paused_group (ro_Paused opts) (r_UID ` set (bt_rules batch)) g"
proof -
  let ?rs = "map (cleared g) (present (g_Rules g))"
  let ?named = "r_UID ` set (bt_rules batch)"
  have "pauseNamed (ro_Paused opts) (r_UID ` set flip) ?rs = pauseNamed (ro_Paused opts) ?named ?rs"
  proof (rule pauseNamed_same)
    show "r_UID ` set flip \<subseteq> ?named" using pauseTargets_flip [OF t] by auto
    show "\<forall>u \<in> ?named - r_UID ` set flip. \<forall>r. find (\<lambda>r. r_UID r = u) ?rs = Some r \<longrightarrow>
        r_IsPaused r = ro_Paused opts"
    proof (intro ballI allI impI)
      fix u c
      assume u: "u \<in> ?named - r_UID ` set flip" and c: "find (\<lambda>r. r_UID r = u) ?rs = Some c"
      then obtain r where r: "r \<in> set (bt_rules batch)" "u = r_UID r" by auto
      have "r_UID c = u" using c by (auto simp: find_Some_iff)
      moreover have "findRule (g_Rules (ruleGroupBody g None)) (r_UID r) = Some c"
        using c r uids by (simp add: findRule_def cleared_body present_map_Some del: map_map)
      ultimately show "r_IsPaused c = ro_Paused opts"
        using pauseTargets_all [OF t r(1)] u by blast
    qed
  qed
  then show ?thesis
    using flips_named [of "ro_Paused opts" flip "{}" ?rs]
    by (simp add: flipRules_def paused_group_def cleared_body pauseNamed_none)
qed

text \<open>What a run has sent so far, and where that has left the server: the requests take the server
  from state to state, so that what it answers to one of them is fixed by the ones before it.\<close>

fun answered :: "'s server \<Rightarrow> request \<Rightarrow> 's \<Rightarrow> 's" where
  "answered sv ReqRules s = snd (ep_rules sv s)"
| "answered sv (ReqRule u) s = snd (ep_rule sv u s)"
| "answered sv (ReqGroup ref) s = snd (ep_group sv ref s)"
| "answered sv ReqPoints s = snd (ep_points sv s)"
| "answered sv ReqTree s = snd (ep_tree sv s)"
| "answered sv (ReqFolder u) s = snd (ep_folder sv u s)"
| "answered sv ReqStates s = snd (ep_states sv s)"
| "answered sv req s = snd (ep_write sv req s)"

definition served :: "'s server \<Rightarrow> 's world \<Rightarrow> 's world \<Rightarrow> request list \<Rightarrow> bool" where
  "served sv w w' reqs \<longleftrightarrow> w_trace w' = w_trace w @ reqs \<and> w_srv w' = fold (answered sv) reqs (w_srv w)"

lemma served_refl: "served sv w w []"
  by (simp add: served_def)

lemma served_trans: "served sv u v a \<Longrightarrow> served sv v w b \<Longrightarrow> served sv u w (a @ b)"
  by (simp add: served_def)

lemma served_write: "is_write req \<Longrightarrow> served sv w (snd (writeP sv req w)) [req]"
  by (cases req) (simp_all add: served_def writeP_def callP_def split: prod.split)

lemma fetchGroup_served:
  assumes "fetchGroup sv ref w = (found, w')"
  shows "served sv w w' [ReqGroup ref]" and "found = Inr (Some g) \<Longrightarrow> fst (ep_group sv ref (w_srv w)) = Inr g"
  using assms
  by (auto simp: fetchGroup_def served_def bindP_def attemptP_def callP_def returnP_def failP_def
      split: prod.splits sum.splits if_splits)

lemma fetchRule_served:
  assumes "fetchRule sv u w = (found, w')"
  shows "\<exists>reqs. served sv w w' reqs \<and> list_all is_read reqs"
  using assms
  by (cases "u = []")
     (auto simp: fetchRule_def served_def bindP_def attemptP_def callP_def returnP_def failP_def
      split: prod.splits sum.splits if_splits intro: exI [of _ "[]"] exI [of _ "[ReqRule u]"])

lemma resolveRules_served:
  assumes "resolveRules sv order st = (stop, (rules, st'))"
  shows "\<exists>reqs. served sv (snd st) (snd st') reqs \<and> list_all is_read reqs"
proof -
  let ?I = "\<lambda>s. \<exists>reqs. served sv (snd st) (snd (snd s)) reqs \<and> list_all is_read reqs"
  have "?I (snd (runS (resolveRule sv) order ([], st)))"
  proof (rule runS_invariant [where I = ?I])
    fix u and s :: "rule list \<times> 'a op_state"
    assume s: "?I s"
    obtain rs outs w where eq: "s = (rs, outs, w)" by (cases s)
    obtain found w' where f: "fetchRule sv u w = (found, w')" by (cases "fetchRule sv u w")
    have "snd (snd (snd (resolveRule sv u s))) = w'"
      by (auto simp: resolveRule_def eq f fileOutcome_def split: sum.split option.split)
    then show "?I (snd (resolveRule sv u s))"
      using s fetchRule_served [OF f] by (auto simp: eq) (meson served_trans list_all_append)
  qed (auto intro: served_refl)
  then show ?thesis using assms by (simp add: resolveRules_def)
qed

text \<open>A write of a pause: the group was asked for just before, the server answered with it, a rule
  of it that was found under a named uid in this group was not in the requested state, the body is
  that group with exactly the rules found in it set, and the header keeps the provenance all its
  rules share. \<open>s\<close> is the server's state at the start, \<open>earlier\<close> what was sent before the write.\<close>

definition pause_put ::
  "'s server \<Rightarrow> RuleOpOptions \<Rightarrow> rule list \<Rightarrow> 's \<Rightarrow> request list \<Rightarrow> request \<Rightarrow> bool" where
  "pause_put sv opts rules s earlier q \<longleftrightarrow> \<not> ro_DryRun opts \<and>
     (\<exists>before ref g header. earlier = before @ [ReqGroup ref] \<and>
        fst (ep_group sv ref (fold (answered sv) before s)) = Inr g \<and>
        (let named = r_UID ` {r \<in> set rules. ruleRef r = ref} in
         q = PutGroup ref (paused_group (ro_Paused opts) named g) header \<and>
         (\<exists>x \<in> set (present (g_Rules g)). r_UID x \<in> named \<and> r_IsPaused x \<noteq> ro_Paused opts) \<and>
         (\<forall>x \<in> set (present (g_Rules g)). r_Provenance x \<in> {[], apiProvenance} \<and>
            stored_after header = r_Provenance x)))"

definition pause_puts :: "'s server \<Rightarrow> RuleOpOptions \<Rightarrow> rule list \<Rightarrow> 's \<Rightarrow> request list \<Rightarrow> bool" where
  "pause_puts sv opts rules s reqs \<longleftrightarrow>
     (\<forall>earlier q later. reqs = earlier @ q # later \<longrightarrow> is_write q \<longrightarrow> pause_put sv opts rules s earlier q)"

lemma pause_puts_snoc:
  "pause_puts sv opts rules s reqs \<Longrightarrow> (is_write q \<Longrightarrow> pause_put sv opts rules s reqs q) \<Longrightarrow>
     pause_puts sv opts rules s (reqs @ [q])"
  unfolding pause_puts_def
  by (metis append_butlast_last_id butlast.simps(2) butlast_append butlast_snoc last.simps last_appendR last_snoc list.distinct(1))

lemma pause_puts_reads: "list_all is_read reqs \<Longrightarrow> pause_puts sv opts rules s reqs"
  by (auto simp: pause_puts_def)

text \<open>An outcome reported as changed has its write.\<close>

definition set_in :: "bool \<Rightarrow> string \<Rightarrow> request \<Rightarrow> bool" where
  "set_in paused u q \<longleftrightarrow> (\<exists>ref body header x. q = PutGroup ref body header \<and>
     findRule (g_Rules body) u = Some x \<and> r_IsPaused x = paused)"

definition changes_written :: "RuleOpOptions \<Rightarrow> RuleOpResult set \<Rightarrow> request list \<Rightarrow> bool" where
  "changes_written opts lines reqs \<longleftrightarrow> ro_DryRun opts \<or>
     (\<forall>line \<in> lines. rr_Changed line \<longrightarrow> (\<exists>q \<in> set reqs. set_in (ro_Paused opts) (rr_UID line) q))"

text \<open>The run so far.\<close>

definition pausing :: "'s server \<Rightarrow> RuleOpOptions \<Rightarrow> rule list \<Rightarrow> 's world \<Rightarrow> 's op_state \<Rightarrow> bool" where
  "pausing sv opts rules w st \<longleftrightarrow> (\<exists>reqs. served sv w (snd st) reqs \<and>
     pause_puts sv opts rules (w_srv w) reqs \<and> changes_written opts (ran (fst st)) reqs)"

lemma changes_written_more:
  "changes_written opts lines reqs \<Longrightarrow> changes_written opts lines (reqs @ later)"
  by (auto simp: changes_written_def)

lemma pausing_file:
  assumes "pausing sv opts rules w st" and "\<not> rr_Changed result"
  shows "pausing sv opts rules w (snd (fileOutcome result st))"
proof -
  have "ran ((fst st)(rr_UID result \<mapsto> result)) \<subseteq> insert result (ran (fst st))"
    by (auto simp: ran_def split: if_splits)
  then show ?thesis
    using assms unfolding pausing_def changes_written_def fileOutcome_def by simp blast
qed

lemma pausing_failRules:
  "pausing sv opts rules w st \<Longrightarrow> pausing sv opts rules w (snd (failRules rs e st))"
  unfolding failRules_def
  by (rule runS_invariant) (auto intro!: pausing_file simp: ruleOpFailure_def ruleOpResult_def)

lemma recordChanged_ran:
  "ran (fst (snd (recordChanged rs st))) \<subseteq> ran (fst st) \<union> (\<lambda>r. (ruleOpResult r)\<lparr>rr_Changed := True\<rparr>) ` set rs"
  unfolding recordChanged_def
  by (rule runS_invariant [where I = "\<lambda>s. ran (fst s) \<subseteq> ran (fst st) \<union> (\<lambda>r. (ruleOpResult r)\<lparr>rr_Changed := True\<rparr>) ` set rs"])
     (auto simp: fileOutcome_def ran_def split: if_splits)

lemma pausing_recordChanged:
  assumes "served sv w (snd st) reqs" and "pause_puts sv opts rules (w_srv w) reqs"
    and "changes_written opts (ran (fst st)) reqs"
    and "ro_DryRun opts \<or> (\<forall>r \<in> set rs. \<exists>q \<in> set reqs. set_in (ro_Paused opts) (r_UID r) q)"
  shows "pausing sv opts rules w (snd (recordChanged rs st))"
  unfolding pausing_def
proof (intro exI [of _ reqs] conjI)
  show "changes_written opts (ran (fst (snd (recordChanged rs st)))) reqs"
    using assms(3,4) recordChanged_ran [of rs st] unfolding changes_written_def
    by (fastforce simp: ruleOpResult_def)
qed (use assms in simp_all)

lemma pausing_targets:
  assumes "pausing sv opts rules w st" and "pauseTargets batch body opts st = (stop, (flip, st'))"
  shows "pausing sv opts rules w st'"
proof -
  have "pausing sv opts rules w (snd (snd (runS (pauseTarget batch body opts) (bt_rules batch) ([], st))))"
  proof (rule runS_invariant [where I = "\<lambda>s. pausing sv opts rules w (snd s)"])
    fix r and s :: "rule list \<times> 'a op_state"
    assume "pausing sv opts rules w (snd s)"
    then have filed: "pausing sv opts rules w (snd (fileOutcome x (snd s)))" if "\<not> rr_Changed x" for x
      by (rule pausing_file [OF _ that])
    show "pausing sv opts rules w (snd (snd (pauseTarget batch body opts r s)))"
      using filed [of "ruleOpResult r"] \<open>pausing sv opts rules w (snd s)\<close>
        filed [of "ruleOpFailure r (Leaf (PausedRuleGone (ro_Paused opts) (r_UID r) (bt_ref batch)))"]
      by (auto simp: pauseTarget_def ruleOpFailure_def ruleOpResult_def split: option.split prod.split)
  qed (use assms(1) in simp)
  then show ?thesis using assms(2) by (simp add: pauseTargets_def)
qed

text \<open>A batch holds the rules that were found in its group.\<close>

definition batch_of :: "rule list \<Rightarrow> ruleGroupBatch \<Rightarrow> bool" where
  "batch_of rules b \<longleftrightarrow> set (bt_rules b) = {r \<in> set rules. ruleRef r = bt_ref b}"

lemma addToBatch_refs:
  "map bt_ref (addToBatch r bs) =
     (if ruleRef r \<in> bt_ref ` set bs then map bt_ref bs else map bt_ref bs @ [ruleRef r])"
  by (induction bs) auto

lemma addToBatch_rules:
  "distinct (map bt_ref bs) \<Longrightarrow> b \<in> set (addToBatch r bs) \<Longrightarrow>
     (bt_ref b \<noteq> ruleRef r \<and> b \<in> set bs) \<or>
     (bt_ref b = ruleRef r \<and> (\<exists>c \<in> set bs. bt_ref c = ruleRef r \<and> set (bt_rules b) = insert r (set (bt_rules c)))) \<or>
     (bt_ref b = ruleRef r \<and> ruleRef r \<notin> bt_ref ` set bs \<and> bt_rules b = [r])"
proof (induction bs)
  case (Cons c bs)
  then show ?case by (cases "bt_ref c = ruleRef r") (auto simp: image_iff)
qed simp

lemma groupBatches_inv:
  "distinct (map bt_ref (groupBatches rules)) \<and> bt_ref ` set (groupBatches rules) = ruleRef ` set rules \<and>
     (\<forall>b \<in> set (groupBatches rules). batch_of rules b)"
proof (induction rules rule: rev_induct)
  case (snoc r rules)
  let ?bs = "groupBatches rules"
  have new: "groupBatches (rules @ [r]) = addToBatch r ?bs" by (simp add: groupBatches_def)
  have d: "distinct (map bt_ref ?bs)" and refs: "bt_ref ` set ?bs = ruleRef ` set rules"
    and old: "\<And>b. b \<in> set ?bs \<Longrightarrow> batch_of rules b" using snoc.IH by blast+
  have "set (map bt_ref (addToBatch r ?bs)) = insert (ruleRef r) (set (map bt_ref ?bs))"
    unfolding addToBatch_refs by auto
  moreover have "distinct (map bt_ref (addToBatch r ?bs))" using d by (auto simp: addToBatch_refs)
  moreover have "batch_of (rules @ [r]) b" if "b \<in> set (addToBatch r ?bs)" for b
    using addToBatch_rules [OF d that] old refs unfolding batch_of_def by (auto simp: image_iff)
  ultimately show ?case using refs unfolding new by simp
qed (simp add: groupBatches_def)

lemma resolveRules_named:
  assumes sv: "answers_by_uid sv" and "resolveRules sv order st = (stop, (rules, st'))"
  shows "\<forall>r \<in> set rules. r_UID r \<noteq> []"
proof -
  have "\<forall>r \<in> set (fst (snd (runS (resolveRule sv) order ([], st)))). r_UID r \<noteq> []"
  proof (rule runS_invariant [where I = "\<lambda>s. \<forall>r \<in> set (fst s). r_UID r \<noteq> []"])
    fix u and s :: "rule list \<times> 'a op_state"
    assume s: "\<forall>r \<in> set (fst s). r_UID r \<noteq> []"
    obtain rs outs w where eq: "s = (rs, outs, w)" by (cases s)
    obtain found w' where f: "fetchRule sv u w = (found, w')" by (cases "fetchRule sv u w")
    have "r_UID r \<noteq> []" if "found = Inr (Some r)" for r
      using fetchRule_uid [OF sv, of u w r w'] f that by (cases u) (auto simp: fetchRule_def returnP_def)
    then show "\<forall>r \<in> set (fst (snd (resolveRule sv u s))). r_UID r \<noteq> []"
      using s by (auto simp: resolveRule_def eq f fileOutcome_def split: sum.split option.split)
  qed simp
  then show ?thesis using assms(2) by (simp add: resolveRules_def)
qed

lemma resolveRules_unchanged:
  assumes "resolveRules sv order (Map.empty, w) = (stop, (rules, st))"
  shows "\<forall>line \<in> ran (fst st). \<not> rr_Changed line"
proof -
  let ?I = "\<lambda>s. \<forall>line \<in> ran (fst (snd s)). \<not> rr_Changed line"
  have "?I (snd (runS (resolveRule sv) order ([], (Map.empty, w))))"
  proof (rule runS_invariant [where I = ?I])
    fix u and s :: "rule list \<times> 'a op_state"
    assume s: "?I s"
    obtain rs outs w where eq: "s = (rs, outs, w)" by (cases s)
    obtain found w' where f: "fetchRule sv u w = (found, w')" by (cases "fetchRule sv u w")
    show "?I (snd (resolveRule sv u s))"
      using s by (auto simp: resolveRule_def eq f fileOutcome_def ran_def split: sum.split option.split if_splits)
  qed (simp add: ran_def)
  then show ?thesis using assms by (simp add: resolveRules_def)
qed

text \<open>The write of a batch keeps the run as it should be.\<close>

lemma pause_put_flipped:
  assumes t: "pauseTargets batch (ruleGroupBody g None) opts st = (None, (flip, st'))" and "flip \<noteq> []"
    and h: "GroupProvenanceHeader (g_Rules g) = Inr header" and dry: "\<not> ro_DryRun opts"
    and g: "fst (ep_group sv (bt_ref batch) (fold (answered sv) before s)) = Inr g"
    and batch: "batch_of rules batch" and uids: "\<forall>r \<in> set rules. r_UID r \<noteq> []"
  defines "q \<equiv> PutGroup (bt_ref batch) (flipRules (ro_Paused opts) flip (ruleGroupBody g None)) header"
  shows "pause_put sv opts rules s (before @ [ReqGroup (bt_ref batch)]) q"
    and "\<forall>r \<in> set flip. set_in (ro_Paused opts) (r_UID r) q"
proof -
  let ?named = "r_UID ` {r \<in> set rules. ruleRef r = bt_ref batch}"
  let ?body = "paused_group (ro_Paused opts) ?named g"
  note flip = pauseTargets_flip [OF t]
  have named: "r_UID ` set (bt_rules batch) = ?named" and given: "\<forall>r \<in> set (bt_rules batch). r_UID r \<noteq> []"
    using batch uids by (auto simp: batch_of_def)
  have q: "q = PutGroup (bt_ref batch) ?body header"
    using flipped_body [OF t given] named by (simp add: q_def)
  have found: "r_UID r \<in> ?named \<and> r_UID r \<noteq> [] \<and> r_IsPaused r \<noteq> ro_Paused opts \<and>
      find (\<lambda>x. r_UID x = r_UID r) (map (cleared g) (present (g_Rules g))) = Some r" if "r \<in> set flip" for r
    using flip that named by (auto simp: findRule_def cleared_body simp del: map_map split: if_splits)
  show "\<forall>r \<in> set flip. set_in (ro_Paused opts) (r_UID r) q"
  proof
    fix r assume "r \<in> set flip"
    then have "findRule (g_Rules ?body) (r_UID r) = Some (r\<lparr>r_IsPaused := ro_Paused opts\<rparr>)"
      using found pauseNamed_find [of "r_UID r" ?named] by (simp add: findRule_def paused_group_def)
    then show "set_in (ro_Paused opts) (r_UID r) q" unfolding set_in_def q by fastforce
  qed
  obtain r where "r \<in> set flip" using \<open>flip \<noteq> []\<close> by (cases flip) auto
  then have "r \<in> set (map (cleared g) (present (g_Rules g)))"
    using found by (metis find_Some_iff nth_mem)
  then obtain x where "x \<in> set (present (g_Rules g))" "r = cleared g x" by auto
  moreover from this have "r_UID x = r_UID r" "r_IsPaused x = r_IsPaused r" by (simp_all add: cleared_def)
  ultimately have "\<exists>x \<in> set (present (g_Rules g)). r_UID x \<in> ?named \<and> r_IsPaused x \<noteq> ro_Paused opts"
    using found [OF \<open>r \<in> set flip\<close>] by auto
  then show "pause_put sv opts rules s (before @ [ReqGroup (bt_ref batch)]) q"
    using dry g stored_group_header [OF h] unfolding pause_put_def q Let_def set_present by blast
qed

lemma pausing_fetched:
  assumes st: "served sv w (snd st) (before @ [ReqGroup (bt_ref batch)])"
    and puts: "pause_puts sv opts rules (w_srv w) (before @ [ReqGroup (bt_ref batch)])"
    and wr: "changes_written opts (ran (fst st)) (before @ [ReqGroup (bt_ref batch)])"
    and g: "fst (ep_group sv (bt_ref batch) (fold (answered sv) before (w_srv w))) = Inr g"
    and batch: "batch_of rules batch" and uids: "\<forall>r \<in> set rules. r_UID r \<noteq> []"
  shows "pausing sv opts rules w (snd (pauseFetched sv batch opts g st))"
proof -
  let ?body = "ruleGroupBody g None" and ?reqs = "before @ [ReqGroup (bt_ref batch)]"
  obtain stop flip st' where t: "pauseTargets batch ?body opts st = (stop, (flip, st'))" by (metis prod_cases3)
  have "pausing sv opts rules w st" using st puts wr by (auto simp: pausing_def)
  then have now: "pausing sv opts rules w st'" by (rule pausing_targets [OF _ t])
  have "snd st' = snd st" using pauseTargets_flip [OF t] by simp
  with now st have s': "served sv w (snd st') ?reqs" "changes_written opts (ran (fst st')) ?reqs"
    by (auto simp: pausing_def served_def)
  show ?thesis
  proof (cases "stop = None \<and> flip \<noteq> [] \<and> \<not> ro_DryRun opts \<and> isOk (GroupProvenanceHeader (g_Rules g))")
    case True
    then obtain header where h: "GroupProvenanceHeader (g_Rules g) = Inr header" by (auto simp: isOk_iff)
    let ?q = "PutGroup (bt_ref batch) (flipRules (ro_Paused opts) flip ?body) header"
    obtain answer v where a: "writeP sv ?q (snd st') = (answer, v)" by (cases "writeP sv ?q (snd st')")
    have sent: "served sv w v (?reqs @ [?q])"
      using served_trans [OF s'(1) served_write [of ?q sv "snd st'"]] a by simp
    have puts': "pause_puts sv opts rules (w_srv w) (?reqs @ [?q])"
      using True t by (intro pause_puts_snoc [OF puts] pause_put_flipped(1) [OF _ _ h _ g batch uids]) auto
    have in_body: "\<forall>r \<in> set flip. set_in (ro_Paused opts) (r_UID r) ?q"
      using True t by (intro pause_put_flipped(2) [OF _ _ h _ g batch uids]) auto
    note wr' = changes_written_more [OF s'(2)]
    have "pausing sv opts rules w (fst st', v)" using sent puts' wr' unfolding pausing_def by fastforce
    then have "pausing sv opts rules w (snd (failRules flip e (fst st', v)))" for e by (rule pausing_failRules)
    moreover have "pausing sv opts rules w (snd (recordChanged flip (fst st', v)))"
      by (rule pausing_recordChanged [OF _ puts']) (use sent wr' in_body in auto)
    ultimately show ?thesis
      using True h t a by (auto simp: pauseFetched_def putPausedGroup_def split: sum.split)
  next
    case False
    have "pausing sv opts rules w (snd (recordChanged flip st'))" if "ro_DryRun opts"
      by (rule pausing_recordChanged [OF s'(1) puts s'(2)]) (simp add: that)
    then show ?thesis
      using False t now pausing_failRules [OF now, of flip]
      by (auto simp: pauseFetched_def split: option.split sum.split)
  qed
qed

lemma pausing_group:
  assumes "pausing sv opts rules w st" and batch: "batch_of rules batch" and uids: "\<forall>r \<in> set rules. r_UID r \<noteq> []"
  shows "pausing sv opts rules w (snd (pauseGroup sv opts batch st))"
proof -
  obtain reqs where now: "served sv w (snd st) reqs" "pause_puts sv opts rules (w_srv w) reqs"
    "changes_written opts (ran (fst st)) reqs" using assms(1) unfolding pausing_def by blast
  obtain found v where f: "fetchGroup sv (bt_ref batch) (snd st) = (found, v)"
    by (cases "fetchGroup sv (bt_ref batch) (snd st)")
  let ?reqs = "reqs @ [ReqGroup (bt_ref batch)]"
  have s: "served sv w v ?reqs" by (rule served_trans [OF now(1) fetchGroup_served(1) [OF f]])
  have puts: "pause_puts sv opts rules (w_srv w) ?reqs" by (rule pause_puts_snoc [OF now(2)]) simp
  have wr: "changes_written opts (ran (fst (fst st, v))) ?reqs" using changes_written_more [OF now(3)] by simp
  have "pausing sv opts rules w (fst st, v)" using s puts wr unfolding pausing_def by auto
  then have failed: "pausing sv opts rules w (snd (failRules rs e (fst st, v)))" for rs e
    by (rule pausing_failRules)
  have "w_srv (snd st) = fold (answered sv) reqs (w_srv w)" using now(1) by (simp add: served_def)
  then have "pausing sv opts rules w (snd (pauseFetched sv batch opts g (fst st, v)))" if "found = Inr (Some g)" for g
    using pausing_fetched [OF _ puts wr _ batch uids] s fetchGroup_served(2) [OF f that] by simp
  then show ?thesis using failed by (auto simp: pauseGroup_def f split: sum.split option.split)
qed

lemma addToBatch_uids:
  "(\<Union>b \<in> set (addToBatch r bs). set (map r_UID (bt_rules b))) = insert (r_UID r) (\<Union>b \<in> set bs. set (map r_UID (bt_rules b)))"
  by (induction bs) auto

lemma groupBatches_uids: "(\<Union>b \<in> set (groupBatches rules). set (map r_UID (bt_rules b))) = set (map r_UID rules)"
proof -
  have "(\<Union>b \<in> set (fold addToBatch rs bs). set (map r_UID (bt_rules b))) =
      set (map r_UID rs) \<union> (\<Union>b \<in> set bs. set (map r_UID (bt_rules b)))" for rs bs
    by (induction rs arbitrary: bs) (auto simp: addToBatch_uids simp del: set_map)
  from this [of rules "[]"] show ?thesis by (simp add: groupBatches_def)
qed

text \<open>C11: pausing and resuming rules: every write is the PUT of a whole rule group, made right after
  that group was asked for, never in a dry run. Its body is the group the server answered with at
  that point, every rule of it in its order with the read-only fields cleared, with the pause flag set
  on exactly the rules that the lookups found in this group under the named uids, at least one of
  which was in the other state: a group in which nothing has to change is not written, and a sibling
  rule is written as it was answered. The header keeps the provenance all rules of the group share,
  and a group another provisioner owns is not written. Outside a dry run every uid that is reported
  as changed was written in the requested state. Lookups are taken to answer with the rule of the uid
  they were asked for.\<close>

theorem pause_writes:
  assumes sv: "answers_by_uid sv"
    and found: "resolveRules sv (dedupeUIDs uids) (Map.empty, w) = (stop, (rules, st))"
    and run: "SetRulesPaused (Some sv) uids opts w = (report, w')"
  shows "set (map r_UID rules) \<subseteq> set uids \<and>
     (\<exists>reqs. w_trace w' = w_trace w @ reqs \<and> pause_puts sv opts rules (w_srv w) reqs \<and>
       changes_written opts (set (fst report)) reqs)"
proof -
  obtain outs v where st: "st = (outs, v)" by (cases st)
  have uids: "\<forall>r \<in> set rules. r_UID r \<noteq> []" by (rule resolveRules_named [OF sv found])
  obtain reads where "served sv w v reads" "list_all is_read reads"
    using resolveRules_served [OF found] by (auto simp: st)
  moreover have "\<forall>line \<in> ran outs. \<not> rr_Changed line" using resolveRules_unchanged [OF found] by (simp add: st)
  ultimately have start: "pausing sv opts rules w st"
    unfolding pausing_def st by (auto simp: changes_written_def intro!: exI [of _ reads] pause_puts_reads)
  have "pausing sv opts rules w (snd (runS (pauseGroup sv opts) (groupBatches rules) st))"
    by (rule runS_invariant [where I = "pausing sv opts rules w"])
       (use start groupBatches_inv uids in \<open>auto intro: pausing_group\<close>)
  then obtain outs' where last: "pausing sv opts rules w (outs', w')" "fst report = results (dedupeUIDs uids) outs'"
    using start run
    by (auto simp: SetRulesPaused_def ruleOperation_def Let_def found st split: option.splits prod.splits)
  then obtain reqs where "served sv w w' reqs" "pause_puts sv opts rules (w_srv w) reqs"
    "changes_written opts (ran outs') reqs" unfolding pausing_def by auto
  moreover have "set (fst report) \<subseteq> ran outs'"
    by (auto simp: last(2) results_def map_filter_def ran_def)
  ultimately show ?thesis
    using resolveRules_uids [OF sv found] unfolding served_def changes_written_def by auto
qed

theorem pause_writes_witness:
  "\<exists>rules reqs. w_trace (snd (SetRulesPaused (Some fixed_server) [''cpu'', ''mem'']
       \<lparr>ro_Paused = True, ro_DryRun = False\<rparr> (start_world ()))) = reqs \<and>
     pause_puts fixed_server \<lparr>ro_Paused = True, ro_DryRun = False\<rparr> rules () reqs \<and>
     filter is_write reqs = [PutGroup (groupRef sample_group) (paused_group True {''cpu'', ''mem''} sample_group) None]"
proof -
  let ?opts = "\<lparr>ro_Paused = True, ro_DryRun = False\<rparr>"
  let ?w = "start_world () :: unit world"
  let ?uids = "[''cpu'', ''mem'']"
  have sv: "answers_by_uid fixed_server"
    by (auto simp: answers_by_uid_def fixed_server_def dest: findRule_Some)
  obtain stop rules st where found: "resolveRules fixed_server (dedupeUIDs ?uids) (Map.empty, ?w) = (stop, (rules, st))"
    by (metis prod_cases3)
  obtain reqs where t: "w_trace (snd (SetRulesPaused (Some fixed_server) ?uids ?opts ?w)) = w_trace ?w @ reqs"
    and ok: "pause_puts fixed_server ?opts rules (w_srv ?w) reqs"
    using pause_writes [OF sv found surjective_pairing, of ?opts] by blast
  have "w_trace ?w = []" "w_srv ?w = ()" by (simp_all add: start_world_def)
  moreover have "filter is_write (w_trace (snd (SetRulesPaused (Some fixed_server) ?uids ?opts ?w))) =
      [PutGroup (groupRef sample_group) (paused_group True {''cpu'', ''mem''} sample_group) None]" by code_simp
  ultimately show ?thesis using t ok by (intro exI [of _ rules] exI [of _ reqs] conjI) simp_all
qed

section \<open>The report\<close>

text \<open>Outcomes are kept under their own uid.\<close>

definition keyed :: "outcomes \<Rightarrow> bool" where
  "keyed outcome \<longleftrightarrow> (\<forall>u r. outcome u = Some r \<longrightarrow> rr_UID r = u)"

text \<open>A step that was not stopped has recorded an outcome for each of the uids.\<close>

definition covers_at :: "string set \<Rightarrow> 's op_state \<Rightarrow> err option \<times> 's op_state \<Rightarrow> bool" where
  "covers_at uids st r \<longleftrightarrow> (keyed (fst st) \<longrightarrow> keyed (fst (snd r))) \<and> dom (fst st) \<subseteq> dom (fst (snd r)) \<and>
     (fst r = None \<longrightarrow> uids \<subseteq> dom (fst (snd r)))"

definition covers :: "string set \<Rightarrow> ('s op_state \<Rightarrow> err option \<times> 's op_state) \<Rightarrow> bool" where
  "covers uids f \<longleftrightarrow> (\<forall>st. covers_at uids st (f st))"

lemma covers_atI: "covers uids g \<Longrightarrow> fst s = fst st \<Longrightarrow> covers_at uids st (g s)"
  unfolding covers_def covers_at_def by metis

lemma covers_file: "covers {rr_UID result} (fileOutcome result)"
  by (auto simp: covers_def covers_at_def fileOutcome_def keyed_def)

lemma covers_mono: "covers us f \<Longrightarrow> vs \<subseteq> us \<Longrightarrow> covers vs f"
  unfolding covers_def covers_at_def by blast

lemma covers_run:
  assumes "\<And>x. x \<in> set xs \<Longrightarrow> covers (us x) (step x)"
  shows "covers (\<Union>x \<in> set xs. us x) (runS step xs)"
  using assms
proof (induction xs)
  case (Cons x xs)
  have head: "covers (us x) (step x)" and tail: "covers (\<Union>y \<in> set xs. us y) (runS step xs)"
    using Cons by simp_all
  show ?case
    unfolding covers_def covers_at_def
  proof (intro allI conjI impI)
    fix st :: "'b op_state"
    obtain stop s where s: "step x st = (stop, s)" by (cases "step x st")
    have h: "keyed (fst st) \<longrightarrow> keyed (fst s)" "dom (fst st) \<subseteq> dom (fst s)" "stop = None \<longrightarrow> us x \<subseteq> dom (fst s)"
      using head s unfolding covers_def covers_at_def by (metis fst_conv snd_conv)+
    have t: "keyed (fst s) \<longrightarrow> keyed (fst (snd (runS step xs s)))" "dom (fst s) \<subseteq> dom (fst (snd (runS step xs s)))"
        "fst (runS step xs s) = None \<longrightarrow> (\<Union>y \<in> set xs. us y) \<subseteq> dom (fst (snd (runS step xs s)))"
      using tail unfolding covers_def covers_at_def by blast+
    show "keyed (fst (snd (runS step (x # xs) st)))" if "keyed (fst st)"
      using that h t s by (cases stop) auto
    show "dom (fst st) \<subseteq> dom (fst (snd (runS step (x # xs) st)))"
      using h t s by (cases stop) auto
    show "(\<Union>y \<in> set (x # xs). us y) \<subseteq> dom (fst (snd (runS step (x # xs) st)))"
      if "fst (runS step (x # xs) st) = None"
      using that h t s by (cases stop) auto
  qed
qed (simp add: covers_def covers_at_def)

lemma covers_rules:
  "covers (r_UID ` set rules) (recordChanged rules)" "covers (r_UID ` set rules) (failRules rules e)"
  using covers_run [of rules "\<lambda>r. {r_UID r}"] covers_file
  by (force simp: recordChanged_def failRules_def ruleOpResult_def ruleOpFailure_def
      intro!: covers_mono [OF covers_run [of rules "\<lambda>r. {r_UID r}"]] intro: covers_mono [OF covers_file])+

lemma covers_failure: "covers {r_UID r} (fileOutcome (ruleOpFailure r e))"
  using covers_file [of "ruleOpFailure r e"] by (simp add: ruleOpFailure_def ruleOpResult_def)

lemma covers_delete: "covers {r_UID r} (deleteRule sv dryRun r)"
proof -
  have changed: "covers {r_UID r} (recordChanged [r])" using covers_rules(1) [of "[r]"] by simp
  show ?thesis
    unfolding covers_def deleteRule_def
    by (auto intro: covers_atI [OF covers_failure] covers_atI [OF changed]
        split: sum.split prod.split simp del: split_paired_All)
qed

text \<open>Two loops that also collect rules: every element has an outcome or is collected.\<close>

definition gathers :: "('x \<Rightarrow> string) \<Rightarrow> ('x \<Rightarrow> rule list \<times> 's op_state \<Rightarrow> err option \<times> (rule list \<times> 's op_state)) \<Rightarrow> bool" where
  "gathers uid step \<longleftrightarrow> (\<forall>x s. case step x s of (stop, t) \<Rightarrow>
     (keyed (fst (snd s)) \<longrightarrow> keyed (fst (snd t))) \<and> dom (fst (snd s)) \<subseteq> dom (fst (snd t)) \<and>
     set (fst s) \<subseteq> set (fst t) \<and> (stop = None \<longrightarrow> uid x \<in> dom (fst (snd t)) \<union> r_UID ` set (fst t)))"

lemma gathers_run:
  assumes g: "gathers uid step" and "runS step xs s = (stop, t)"
  shows "(keyed (fst (snd s)) \<longrightarrow> keyed (fst (snd t))) \<and> dom (fst (snd s)) \<subseteq> dom (fst (snd t)) \<and>
     set (fst s) \<subseteq> set (fst t) \<and> (stop = None \<longrightarrow> uid ` set xs \<subseteq> dom (fst (snd t)) \<union> r_UID ` set (fst t))"
  using assms(2)
proof (induction xs arbitrary: s)
  case (Cons x xs)
  obtain stop1 v where v: "step x s = (stop1, v)" by (cases "step x s")
  have one: "case step x s of (stop, t) \<Rightarrow>
     (keyed (fst (snd s)) \<longrightarrow> keyed (fst (snd t))) \<and> dom (fst (snd s)) \<subseteq> dom (fst (snd t)) \<and>
     set (fst s) \<subseteq> set (fst t) \<and> (stop = None \<longrightarrow> uid x \<in> dom (fst (snd t)) \<union> r_UID ` set (fst t))"
    by (rule g [unfolded gathers_def, THEN spec, THEN spec])
  show ?case
  proof (cases stop1)
    case None
    then have "runS step xs v = (stop, t)" using Cons.prems v by simp
    note rest = Cons.IH [OF this]
    have one': "keyed (fst (snd s)) \<longrightarrow> keyed (fst (snd v))" "dom (fst (snd s)) \<subseteq> dom (fst (snd v))"
        "set (fst s) \<subseteq> set (fst v)" "uid x \<in> dom (fst (snd v)) \<union> r_UID ` set (fst v)"
      using one by (simp_all add: v None)
    have "dom (fst (snd v)) \<union> r_UID ` set (fst v) \<subseteq> dom (fst (snd t)) \<union> r_UID ` set (fst t)"
      using rest by (intro Un_mono image_mono) simp_all
    with one'(4) have "uid x \<in> dom (fst (snd t)) \<union> r_UID ` set (fst t)" by (rule subsetD [rotated])
    moreover have "dom (fst (snd s)) \<subseteq> dom (fst (snd t))"
      by (rule subset_trans [OF one'(2)]) (use rest in simp)
    moreover have "set (fst s) \<subseteq> set (fst t)"
      by (rule subset_trans [OF one'(3)]) (use rest in simp)
    ultimately show ?thesis using one'(1) rest by simp
  next
    case (Some e)
    then have "stop = Some e" "t = v" using Cons.prems v by simp_all
    then show ?thesis using one by (auto simp: v)
  qed
qed simp

lemma keyed_file: "keyed outs \<Longrightarrow> rr_UID result = u \<Longrightarrow> keyed (outs(u \<mapsto> result))"
  by (simp add: keyed_def)

lemma gathers_pause: "gathers r_UID (pauseTarget batch body opts)"
proof -
  have "r_UID c = r_UID x" if "findRule (g_Rules body) (r_UID x) = Some c" for c x :: rule
    using that by (auto dest: findRule_Some)
  note uid = this [symmetric]
  show ?thesis
    unfolding gathers_def pauseTarget_def
    by (auto simp: fileOutcome_def ruleOpFailure_def ruleOpResult_def keyed_file image_iff dest: uid
        split: option.splits)
qed

lemma gathers_resolve:
  assumes "answers_by_uid sv"
  shows "gathers (\<lambda>u. u) (resolveRule sv)"
  using fetchRule_uid [OF assms]
  by (auto simp: gathers_def resolveRule_def fileOutcome_def keyed_file image_iff
      split: option.splits sum.splits prod.splits)

lemma covers_at_self:
  "(keyed (fst st) \<longrightarrow> keyed (fst st')) \<Longrightarrow> dom (fst st) \<subseteq> dom (fst st') \<Longrightarrow>
     (stop = None \<Longrightarrow> us \<subseteq> dom (fst st')) \<Longrightarrow> covers_at us st (stop, st')"
  by (simp add: covers_at_def)

lemma covers_at_after:
  assumes "keyed (fst st) \<longrightarrow> keyed (fst st')" and d: "dom (fst st) \<subseteq> dom (fst st')"
    and us: "us \<subseteq> dom (fst st') \<union> vs" and c: "covers_at vs st' r"
  shows "covers_at us st r"
proof -
  have "dom (fst st') \<subseteq> dom (fst (snd r))" using c by (simp add: covers_at_def)
  moreover have "us \<subseteq> dom (fst (snd r))" if "fst r = None"
  proof (rule subset_trans [OF us], rule Un_least)
    show "vs \<subseteq> dom (fst (snd r))" using c that by (simp add: covers_at_def)
  qed (rule calculation)
  ultimately show ?thesis
    using assms(1) c d by (auto simp: covers_at_def simp del: domIff intro: subset_trans)
qed

lemma covers_pauseFetched: "covers (r_UID ` set (bt_rules batch)) (pauseFetched sv batch opts g)"
  unfolding covers_def
proof
  fix st :: "'a op_state"
  let ?body = "ruleGroupBody g None"
  obtain stop flip st' where t: "pauseTargets batch ?body opts st = (stop, (flip, st'))" by (metis prod_cases3)
  have first: "keyed (fst st) \<longrightarrow> keyed (fst st')" "dom (fst st) \<subseteq> dom (fst st')"
      "stop = None \<Longrightarrow> r_UID ` set (bt_rules batch) \<subseteq> dom (fst st') \<union> r_UID ` set flip"
    using gathers_run [OF gathers_pause t [unfolded pauseTargets_def]] by auto
  show "covers_at (r_UID ` set (bt_rules batch)) st (pauseFetched sv batch opts g st)"
  proof (cases "stop = None \<and> flip \<noteq> []")
    case True
    have after: "covers_at (r_UID ` set flip) st' (recordChanged flip (fst st', v))"
        "covers_at (r_UID ` set flip) st' (failRules flip e (fst st', v))" for v e
      by (rule covers_atI [OF covers_rules(1)], simp) (rule covers_atI [OF covers_rules(2)], simp)
    have "covers_at (r_UID ` set flip) st' (pauseFetched sv batch opts g st)"
    proof (cases "GroupProvenanceHeader (g_Rules g)")
      case (Inl e)
      then show ?thesis using True t after(2) [of _ "snd st'"] by (simp add: pauseFetched_def)
    next
      case (Inr header)
      obtain answer v where "writeP sv (PutGroup (bt_ref batch) (flipRules (ro_Paused opts) flip ?body) header)
          (snd st') = (answer, v)" by fastforce
      then show ?thesis using True t Inr after(1) [of "snd st'"] after(1) [of v] after(2) [of _ v]
        by (cases answer) (simp_all add: pauseFetched_def putPausedGroup_def)
    qed
    then show ?thesis using first True by (intro covers_at_after [OF first(1,2)]) simp_all
  next
    case False
    then have "pauseFetched sv batch opts g st = (stop, st')"
      using t by (cases stop) (auto simp: pauseFetched_def)
    moreover have "covers_at (r_UID ` set (bt_rules batch)) st (stop, st')"
    proof (rule covers_at_self [OF first(1,2)])
      assume "stop = None"
      then have "flip = []" using False by simp
      with first(3) [OF \<open>stop = None\<close>] show "r_UID ` set (bt_rules batch) \<subseteq> dom (fst st')" by simp
    qed
    ultimately show ?thesis by simp
  qed
qed

lemma covers_pauseGroup: "covers (r_UID ` set (bt_rules batch)) (pauseGroup sv opts batch)"
  unfolding covers_def
proof
  fix st :: "'a op_state"
  obtain answer v where f: "fetchGroup sv (bt_ref batch) (snd st) = (answer, v)" by fastforce
  have after: "covers_at (r_UID ` set (bt_rules batch)) st (failRules (bt_rules batch) e (fst st, v))"
      "covers_at (r_UID ` set (bt_rules batch)) st (pauseFetched sv batch opts g (fst st, v))" for e g
    by (rule covers_atI [OF covers_rules(2)], simp) (rule covers_atI [OF covers_pauseFetched], simp)
  show "covers_at (r_UID ` set (bt_rules batch)) st (pauseGroup sv opts batch st)"
    using after by (simp add: pauseGroup_def f split: sum.split option.split)
qed

lemma results_complete:
  "keyed outcome \<Longrightarrow> set order \<subseteq> dom outcome \<Longrightarrow> map rr_UID (results order outcome) = order"
  unfolding results_def by (induction order) (auto simp: List.map_filter_simps keyed_def)

lemma ruleOperation_report:
  assumes sv: "answers_by_uid sv" and work: "\<And>rules. covers (r_UID ` set rules) (work sv rules)"
    and run: "ruleOperation (Some sv) uids work w = ((report, None), w')"
  shows "map rr_UID report = dedupeUIDs uids"
proof -
  obtain rules st where r: "resolveRules sv (dedupeUIDs uids) (Map.empty, w) = (None, (rules, st))"
    using run by (auto simp: ruleOperation_def Let_def split: prod.splits option.splits)
  have res: "keyed (fst st)" "set (dedupeUIDs uids) \<subseteq> dom (fst st) \<union> r_UID ` set rules"
    using gathers_run [OF gathers_resolve [OF sv] r [unfolded resolveRules_def]] by (auto simp: keyed_def)
  obtain stop outcome v where wk: "work sv rules st = (stop, (outcome, v))" by (metis prod_cases3)
  have "stop = None" and report: "report = results (dedupeUIDs uids) outcome"
    using run r wk by (simp_all add: ruleOperation_def Let_def)
  then have "keyed outcome" "dom (fst st) \<subseteq> dom outcome" "r_UID ` set rules \<subseteq> dom outcome"
    using work [of rules, unfolded covers_def, rule_format, of st] wk res(1) by (simp_all add: covers_at_def)
  with res(2) have "set (dedupeUIDs uids) \<subseteq> dom outcome" by blast
  with \<open>keyed outcome\<close> show ?thesis unfolding report by (rule results_complete)
qed

text \<open>C13: a delete, pause or resume that was not stopped reports one line for every named uid, in the
  order in which the uids were first named, whatever happened to each. Lookups are taken to answer
  with the rule of the uid they were asked for.\<close>

theorem rule_operations_report:
  assumes sv: "answers_by_uid sv"
    and op: "operation \<in> {DeleteRules (Some sv) uids opts, SetRulesPaused (Some sv) uids opts}"
    and run: "operation w = ((report, None), w')"
  shows "map rr_UID report = dedupeUIDs uids"
proof -
  have delete: "covers (r_UID ` set rules) (runS (deleteRule sv (ro_DryRun opts)) rules)" for rules
  proof -
    have "covers (\<Union>r \<in> set rules. {r_UID r}) (runS (deleteRule sv (ro_DryRun opts)) rules)"
      by (rule covers_run) (rule covers_delete)
    then show ?thesis by (simp add: UNION_singleton_eq_range)
  qed
  have pause: "covers (r_UID ` set rules) (runS (pauseGroup sv opts) (groupBatches rules))" for rules
  proof -
    have "covers (\<Union>b \<in> set (groupBatches rules). r_UID ` set (bt_rules b)) (runS (pauseGroup sv opts) (groupBatches rules))"
      by (rule covers_run) (rule covers_pauseGroup)
    then show ?thesis using groupBatches_uids [of rules] by simp
  qed
  from op show ?thesis
  proof (elim insertE emptyE)
    assume "operation = DeleteRules (Some sv) uids opts"
    then show ?thesis
      using ruleOperation_report [OF sv _ run [unfolded \<open>operation = _\<close> DeleteRules_def]] delete by blast
  next
    assume "operation = SetRulesPaused (Some sv) uids opts"
    then show ?thesis
      using ruleOperation_report [OF sv _ run [unfolded \<open>operation = _\<close> SetRulesPaused_def]] pause by blast
  qed
qed

theorem rule_operations_report_witness:
  "\<exists>report w'. SetRulesPaused (Some fixed_server) [''mem'', ''gone'', ''cpu'', ''mem'']
       \<lparr>ro_Paused = True, ro_DryRun = True\<rparr> (start_world ()) = ((report, None), w') \<and>
     map rr_UID report = [''mem'', ''gone'', ''cpu'']"
proof -
  let ?op = "SetRulesPaused (Some fixed_server) [''mem'', ''gone'', ''cpu'', ''mem''] \<lparr>ro_Paused = True, ro_DryRun = True\<rparr>"
  have sv: "answers_by_uid fixed_server"
    by (auto simp: answers_by_uid_def fixed_server_def dest: findRule_Some)
  have "snd (fst (?op (start_world ()))) = None" by code_simp
  then obtain report w' where run: "?op (start_world ()) = ((report, None), w')"
    by (cases "?op (start_world ())") auto
  have "map rr_UID report = dedupeUIDs [''mem'', ''gone'', ''cpu'', ''mem'']"
    by (rule rule_operations_report [where operation = ?op and opts = "\<lparr>ro_Paused = True, ro_DryRun = True\<rparr>",
        OF sv _ run]) simp
  also have "\<dots> = [''mem'', ''gone'', ''cpu'']" by code_simp
  finally show ?thesis using run by (intro exI [of _ report] exI [of _ w'] conjI)
qed

end
