(* ===== verification/Go_Strings.thy ===== *)
theory Go_Strings
  imports Prelude
begin

text \<open>
  The parts of Go's \<^verbatim>\<open>strings\<close>, \<^verbatim>\<open>path/filepath\<close> and \<^verbatim>\<open>unicode/utf8\<close> the repository uses.

  Go strings are bytes, so the Unicode case and space tables of \<^verbatim>\<open>strings\<close> enter through the
  byte sequences that matter to the code: the code points that lower-case or fold into ASCII letters,
  and the white space \<^verbatim>\<open>strings.TrimSpace\<close> removes. Any other non-ASCII letter lower-cases to a
  non-ASCII letter, which none of the ASCII words the code compares against holds.
\<close>

section \<open>Case, white space, prefixes and suffixes\<close>

definition lower_char :: "char \<Rightarrow> char" where
  "lower_char c = (let n = of_char c :: nat in if 65 \<le> n \<and> n \<le> 90 then char_of (n + 32) else c)"

text \<open>KELVIN SIGN and LATIN CAPITAL LETTER I WITH DOT ABOVE lower-case to ASCII.\<close>

fun toLower :: "string \<Rightarrow> string" where
  "toLower [] = []"
| "toLower [a] = [lower_char a]"
| "toLower (a # b # cs) =
     (if [a, b] = [CHR 0xC4, CHR 0xB0] then CHR ''i'' # toLower cs
      else case cs of
        c # ds \<Rightarrow> if [a, b, c] = [CHR 0xE2, CHR 0x84, CHR 0xAA] then CHR ''k'' # toLower ds
                  else lower_char a # toLower (b # cs)
      | [] \<Rightarrow> lower_char a # toLower (b # cs))"

text \<open>\<^verbatim>\<open>strings.EqualFold\<close> against an ASCII string: KELVIN SIGN folds to k and LATIN SMALL LETTER
  LONG S to s.\<close>

fun foldCase :: "string \<Rightarrow> string" where
  "foldCase [] = []"
| "foldCase [a] = [lower_char a]"
| "foldCase (a # b # cs) =
     (if [a, b] = [CHR 0xC5, CHR 0xBF] then CHR ''s'' # foldCase cs
      else case cs of
        c # ds \<Rightarrow> if [a, b, c] = [CHR 0xE2, CHR 0x84, CHR 0xAA] then CHR ''k'' # foldCase ds
                  else lower_char a # foldCase (b # cs)
      | [] \<Rightarrow> lower_char a # foldCase (b # cs))"

definition equalFold :: "string \<Rightarrow> string \<Rightarrow> bool" where
  "equalFold a b \<longleftrightarrow> foldCase a = foldCase b"

definition whitespace :: "string list" where
  "whitespace = [[CHR 0x09], [CHR 0x0A], [CHR 0x0B], [CHR 0x0C], [CHR 0x0D], [CHR 0x20],
     [CHR 0xC2, CHR 0x85], [CHR 0xC2, CHR 0xA0], [CHR 0xE1, CHR 0x9A, CHR 0x80],
     [CHR 0xE2, CHR 0x80, CHR 0x80], [CHR 0xE2, CHR 0x80, CHR 0x81], [CHR 0xE2, CHR 0x80, CHR 0x82],
     [CHR 0xE2, CHR 0x80, CHR 0x83], [CHR 0xE2, CHR 0x80, CHR 0x84], [CHR 0xE2, CHR 0x80, CHR 0x85],
     [CHR 0xE2, CHR 0x80, CHR 0x86], [CHR 0xE2, CHR 0x80, CHR 0x87], [CHR 0xE2, CHR 0x80, CHR 0x88],
     [CHR 0xE2, CHR 0x80, CHR 0x89], [CHR 0xE2, CHR 0x80, CHR 0x8A], [CHR 0xE2, CHR 0x80, CHR 0xA8],
     [CHR 0xE2, CHR 0x80, CHR 0xA9], [CHR 0xE2, CHR 0x80, CHR 0xAF], [CHR 0xE2, CHR 0x81, CHR 0x9F],
     [CHR 0xE3, CHR 0x80, CHR 0x80]]"

definition starts_with :: "string \<Rightarrow> string \<Rightarrow> bool" where
  "starts_with p s \<longleftrightarrow> take (length p) s = p"

function trim_left :: "string list \<Rightarrow> string \<Rightarrow> string" where
  "trim_left spaces s =
     (case find (\<lambda>p. p \<noteq> [] \<and> starts_with p s) spaces of
        None \<Rightarrow> s | Some p \<Rightarrow> trim_left spaces (drop (length p) s))"
  by pat_completeness auto
termination
proof (relation "measure (\<lambda>(spaces, s). length s)")
  fix spaces s p
  assume "find (\<lambda>p. p \<noteq> [] \<and> starts_with p s) spaces = Some p"
  then have "p \<noteq> [] \<and> starts_with p s" by (auto dest: find_Some_in)
  then have "p \<noteq> []" and "s \<noteq> []" by (auto simp: starts_with_def)
  then show "((spaces, drop (length p) s), spaces, s) \<in> measure (\<lambda>(spaces, s). length s)" by simp
qed simp

declare trim_left.simps [simp del]

definition trimSpace :: "string \<Rightarrow> string" where
  "trimSpace s = rev (trim_left (map rev whitespace) (rev (trim_left whitespace s)))"

text \<open>\<^verbatim>\<open>strings.Cut\<close>: the part before the first separator.\<close>

fun before :: "string \<Rightarrow> string \<Rightarrow> string" where
  "before sep [] = []"
| "before sep (c # cs) = (if starts_with sep (c # cs) then [] else c # before sep cs)"

text \<open>\<^verbatim>\<open>strings.Split\<close> at every character of a kind: always one piece at least.\<close>

fun split_on :: "(char \<Rightarrow> bool) \<Rightarrow> string \<Rightarrow> string list" where
  "split_on P [] = [[]]"
| "split_on P (c # cs) =
     (if P c then [] # split_on P cs
      else case split_on P cs of e # es \<Rightarrow> (c # e) # es | [] \<Rightarrow> [[c]])"

definition ends_with :: "string \<Rightarrow> string \<Rightarrow> bool" where
  "ends_with suffix s \<longleftrightarrow> length suffix \<le> length s \<and> drop (length s - length suffix) s = suffix"

definition trim_suffix :: "string \<Rightarrow> string \<Rightarrow> string" where
  "trim_suffix suffix s = (if ends_with suffix s then take (length s - length suffix) s else s)"

text \<open>\<^verbatim>\<open>strings.Contains\<close> and \<^verbatim>\<open>bytes.Contains\<close>.\<close>

fun contains :: "string \<Rightarrow> string \<Rightarrow> bool" where
  "contains [] p = (p = [])"
| "contains (c # cs) p = (starts_with p (c # cs) \<or> contains cs p)"

section \<open>Laws\<close>

definition ascii_spaces :: string where
  "ascii_spaces = [CHR 0x09, CHR 0x0A, CHR 0x0B, CHR 0x0C, CHR 0x0D, CHR 0x20]"

definition letters :: string where
  "letters = ''abcdefghijklmnopqrstuvwxyzABCDEFGHIJKLMNOPQRSTUVWXYZ''"

text \<open>Letters, spaces and the bytes of the other white space differ in their top bits.\<close>

lemma letters_bits: "list_all (\<lambda>c. \<not> digit7 c \<and> digit6 c) letters"
  by (simp add: letters_def)

lemma whitespace_bits:
  "list_all (\<lambda>p. digit7 (hd p) \<or> \<not> digit6 (hd p)) whitespace"
  "list_all (\<lambda>p. digit7 (hd p) \<or> \<not> digit6 (hd p)) (map rev whitespace)"
  by (simp_all add: whitespace_def)

lemma letter_no_space:
  assumes "c \<in> set letters"
  shows "\<forall>p \<in> set whitespace. hd p \<noteq> c" and "\<forall>p \<in> set (map rev whitespace). hd p \<noteq> c"
    and "\<not> digit7 c"
  using assms letters_bits whitespace_bits by (auto simp only: list_all_iff)

lemma starts_with_hd: "p \<noteq> [] \<Longrightarrow> starts_with p (c # s) \<Longrightarrow> hd p = c"
  by (cases p) (auto simp: starts_with_def)

lemma trim_left_stop:
  assumes "\<forall>p \<in> set spaces. hd p \<noteq> c"
  shows "trim_left spaces (c # s) = c # s"
proof -
  have "find (\<lambda>p. p \<noteq> [] \<and> starts_with p (c # s)) spaces = None"
    using assms starts_with_hd by (fastforce simp: find_None_iff)
  then show ?thesis by (simp add: trim_left.simps [of spaces "c # s"])
qed

lemma find_single:
  "c \<in> set cs \<Longrightarrow> find (\<lambda>p. p \<noteq> [] \<and> starts_with p (c # s)) (map (\<lambda>c. [c]) cs @ rest) = Some [c]"
  by (induction cs) (auto simp: starts_with_def)

lemma whitespace_singles:
  "whitespace = map (\<lambda>c. [c]) ascii_spaces @ drop 6 whitespace"
  "map rev whitespace = map (\<lambda>c. [c]) ascii_spaces @ map rev (drop 6 whitespace)"
  by (simp_all add: whitespace_def ascii_spaces_def)

lemma trim_left_space:
  assumes "c \<in> set ascii_spaces"
  shows "trim_left whitespace (c # s) = trim_left whitespace s"
    and "trim_left (map rev whitespace) (c # s) = trim_left (map rev whitespace) s"
proof -
  have "find (\<lambda>p. p \<noteq> [] \<and> starts_with p (c # s)) whitespace = Some [c]"
    by (subst whitespace_singles(1)) (rule find_single [OF assms])
  moreover have "find (\<lambda>p. p \<noteq> [] \<and> starts_with p (c # s)) (map rev whitespace) = Some [c]"
    by (subst whitespace_singles(2)) (rule find_single [OF assms])
  ultimately show "trim_left whitespace (c # s) = trim_left whitespace s"
    "trim_left (map rev whitespace) (c # s) = trim_left (map rev whitespace) s"
    by (simp_all add: trim_left.simps [of _ "c # s"])
qed

lemma trim_left_spaces:
  assumes "set a \<subseteq> set ascii_spaces"
  shows "trim_left whitespace (a @ s) = trim_left whitespace s"
    and "trim_left (map rev whitespace) (a @ s) = trim_left (map rev whitespace) s"
  using assms by (induction a) (simp_all add: trim_left_space)

lemma trimSpace_word:
  assumes "set a \<subseteq> set ascii_spaces" "set b \<subseteq> set ascii_spaces" "set name \<subseteq> set letters" "name \<noteq> []"
  shows "trimSpace (a @ name @ b) = name"
proof -
  obtain c cs where name: "name = c # cs" using assms(4) by (cases name) auto
  obtain d ds where rname: "rev name = d # ds" using assms(4) by (cases "rev name") auto
  have "d \<in> set letters" using assms(3) rname by (metis list.set_intros(1) set_rev subsetD)
  then have "trim_left (map rev whitespace) (rev b @ rev name) = rev name"
    using assms(2) by (simp add: trim_left_spaces rname trim_left_stop letter_no_space)
  moreover have "trim_left whitespace (a @ name @ b) = name @ b"
    using assms(1,3) by (simp add: trim_left_spaces name trim_left_stop letter_no_space)
  ultimately show ?thesis by (simp add: trimSpace_def)
qed

lemma toLower_ascii: "\<not> digit7 c \<Longrightarrow> toLower (c # cs) = lower_char c # toLower cs"
  by (cases cs; cases "tl cs") auto

lemma toLower_letters: "set name \<subseteq> set letters \<Longrightarrow> toLower name = map lower_char name"
  by (induction name) (simp_all add: toLower_ascii letter_no_space(3))

lemma ends_with_rev: "ends_with p s \<longleftrightarrow> take (length p) (rev s) = rev p"
proof
  assume "ends_with p s"
  then have le: "length p \<le> length s" and drop: "drop (length s - length p) s = p" by (simp_all add: ends_with_def)
  have "rev (drop (length s - length p) s) = take (length p) (rev s)" using le by (subst rev_drop) simp
  then show "take (length p) (rev s) = rev p" by (simp only: drop)
next
  assume eq: "take (length p) (rev s) = rev p"
  then have le: "length p \<le> length s" by (metis length_rev length_take min.absorb_iff2 min.commute)
  have "rev (take (length p) (rev s)) = drop (length s - length p) s" by (simp add: rev_take)
  with eq le show "ends_with p s" by (simp add: ends_with_def)
qed

lemma split_on_Nil [simp]: "split_on P s \<noteq> []"
  by (induction s) (auto split: list.splits)

lemma split_on_none: "\<forall>c \<in> set s. \<not> P c \<Longrightarrow> split_on P s = [s]"
  by (induction s) auto

lemma trim_suffix_append [simp]: "trim_suffix p (s @ p) = s"
  by (simp add: trim_suffix_def ends_with_def)

end
