(* ===== verification/Rule_List.thy ===== *)
theory Rule_List
  imports Rule_Ops_Properties Go_Strings
begin

text \<open>
  Reading alert rules joined with their live state (\<^verbatim>\<open>internal/alerts/rules.go\<close>,
  \<^verbatim>\<open>state.go\<close>, \<^verbatim>\<open>get.go\<close>).

  A time is its
  distance from Go's zero time, so 0 is \<^verbatim>\<open>IsZero\<close>. The request itself (URL, headers, transport,
  timeout) is the endpoint of the \<^typ>\<open>'s server\<close>.
\<close>

section \<open>Strings\<close>

text \<open>\<^verbatim>\<open>strings.ReplaceAll(s, `\/`, "/")\<close>.\<close>

fun unescape :: "string \<Rightarrow> string" where
  "unescape [] = []"
| "unescape [c] = [c]"
| "unescape (a # b # cs) =
     (if a = CHR 0x5C \<and> b = CHR ''/'' then CHR ''/'' # unescape cs else a # unescape (b # cs))"

section \<open>State names\<close>

definition NormalStateAlias :: string where "NormalStateAlias = ''normal''"
definition alertingRuleType :: string where "alertingRuleType = ''alerting''"
definition recordingRuleType :: string where "recordingRuleType = ''recording''"
definition firingState :: string where "firingState = ''firing''"
definition pendingState :: string where "pendingState = ''pending''"
definition recoveringState :: string where "recoveringState = ''recovering''"
definition inactiveState :: string where "inactiveState = ''inactive''"
definition unknownState :: string where "unknownState = ''unknown''"
definition recordingState :: string where "recordingState = ''recording''"
definition unavailableState :: string where "unavailableState = ''unavailable''"

lemmas state_names = NormalStateAlias_def alertingRuleType_def recordingRuleType_def firingState_def
  pendingState_def recoveringState_def inactiveState_def unknownState_def recordingState_def
  unavailableState_def

definition KnownStates :: "string list" where
  "KnownStates = [firingState, pendingState, recoveringState, inactiveState, unknownState,
     recordingState, unavailableState]"

definition NormalizeState :: "string \<Rightarrow> string" where
  "NormalizeState state =
     (let normalized = toLower (trimSpace state)
      in if normalized = NormalStateAlias then inactiveState else normalized)"

definition ValidateState :: "string \<Rightarrow> err + string" where
  "ValidateState state =
     (let normalized = NormalizeState state
      in if normalized = [] \<or> normalized \<in> set KnownStates then Inr normalized
         else Inl (Leaf (InvalidState state)))"

section \<open>Durations\<close>

definition zeroDuration :: string where "zeroDuration = ''0s''"

text \<open>\<^verbatim>\<open>time.Duration.String\<close> of a positive number of nanoseconds. A fraction is printed without
  its trailing zeros, and not at all when it is 0.\<close>

definition pad_left :: "nat \<Rightarrow> string \<Rightarrow> string" where
  "pad_left n s = replicate (n - length s) (CHR ''0'') @ s"

definition fraction :: "nat \<Rightarrow> nat \<Rightarrow> string" where
  "fraction n digits =
     (if n = 0 then []
      else ''.'' @ rev (dropWhile (\<lambda>c. c = CHR ''0'') (rev (pad_left digits (show_nat n)))))"

definition micro_suffix :: string where "micro_suffix = [CHR 0xC2, CHR 0xB5, CHR ''s'']"

definition duration_string :: "nat \<Rightarrow> string" where
  "duration_string d =
     (if d < 1000 then show_nat d @ ''ns''
      else if d < 1000000 then show_nat (d div 1000) @ fraction (d mod 1000) 3 @ micro_suffix
      else if d < 1000000000 then show_nat (d div 1000000) @ fraction (d mod 1000000) 6 @ ''ms''
      else let s = d div 1000000000; m = s div 60; h = m div 60;
               seconds = show_nat (s mod 60) @ fraction (d mod 1000000000) 9 @ ''s''
           in if m = 0 then seconds
              else if h = 0 then show_nat (m mod 60) @ ''m'' @ seconds
              else show_nat h @ ''h'' @ show_nat (m mod 60) @ ''m'' @ seconds)"

definition formatDuration :: "int \<Rightarrow> string" where
  "formatDuration d =
     (if d \<le> 0 then zeroDuration
      else let f0 = duration_string (nat d);
               f1 = (if ends_with ''m0s'' f0 then trim_suffix ''0s'' f0 else f0)
           in if ends_with ''h0m'' f1 then trim_suffix ''0m'' f1 else f1)"

section \<open>Folders\<close>

definition backslash :: char where "backslash = CHR 0x5C"

text \<open>The loop over positions from the end: a slash that is first or not preceded by a backslash
  separates.\<close>

fun leaf_start :: "string \<Rightarrow> nat \<Rightarrow> nat" where
  "leaf_start path 0 = 0"
| "leaf_start path (Suc i) =
     (if path ! i \<noteq> CHR ''/'' \<or> (i > 0 \<and> path ! (i - 1) = backslash) then leaf_start path i else Suc i)"

definition folderLeaf :: "string \<Rightarrow> string" where
  "folderLeaf path = unescape (drop (leaf_start path (length path)) path)"

section \<open>The state view\<close>

record RuleState =
  rs_Folder :: string
  rs_State :: string
  rs_Health :: string
  rs_LastEvaluation :: "int option"
  rs_ActiveAlerts :: nat

record RuleStates =
  st_ByUID :: "string \<rightharpoonup> RuleState"
  st_FolderPaths :: "string \<rightharpoonup> string"

definition normalAlertState :: string where "normalAlertState = ''normal''"
definition statusSuccess :: string where "statusSuccess = ''success''"
definition stateReasonSeparator :: string where "stateReasonSeparator = '' (''"
definition maxErrorBodySnippet :: nat where "maxErrorBodySnippet = 2048"

definition isNormalInstance :: "string \<Rightarrow> bool" where
  "isNormalInstance state =
     (let base = trimSpace (before stateReasonSeparator state)
      in base = [] \<or> equalFold base normalAlertState)"

definition activeAlerts :: "alerting_rule \<Rightarrow> nat" where
  "activeAlerts r = length (filter (\<lambda>i. \<not> isNormalInstance (ai_State i)) (al_Alerts r))"

definition ruleState :: "alerting_rule \<Rightarrow> string \<Rightarrow> RuleState" where
  "ruleState r folder = \<lparr>rs_Folder = folder, rs_State = al_State r, rs_Health = al_Health r,
     rs_LastEvaluation = (if al_LastEvaluation r = 0 then None else Some (al_LastEvaluation r)),
     rs_ActiveAlerts = activeAlerts r\<rparr>"

definition addRuleState :: "string \<Rightarrow> alerting_rule \<Rightarrow> RuleStates \<Rightarrow> RuleStates" where
  "addRuleState file r states =
     (if al_UID r = [] then states
      else states\<lparr>st_ByUID := (st_ByUID states)(al_UID r \<mapsto> ruleState r file)\<rparr>)"

definition addStateGroup :: "state_group \<Rightarrow> RuleStates \<Rightarrow> RuleStates" where
  "addStateGroup g states =
     fold (addRuleState (sg_File g)) (sg_Rules g)
       (if sg_FolderUID g \<noteq> [] \<and> sg_File g \<noteq> []
        then states\<lparr>st_FolderPaths := (st_FolderPaths states)(sg_FolderUID g \<mapsto> sg_File g)\<rparr> else states)"

definition noStates :: RuleStates where
  "noStates = \<lparr>st_ByUID = Map.empty, st_FolderPaths = Map.empty\<rparr>"

definition ruleStatesFrom :: "state_envelope \<Rightarrow> RuleStates" where
  "ruleStatesFrom decoded = fold addStateGroup (se_Groups decoded) noStates"

definition statusError :: "state_envelope \<Rightarrow> err" where
  "statusError decoded = Leaf (StateStatusError (se_Status decoded) (se_ErrorType decoded) (se_Error decoded))"

definition readBodySnippet :: "string \<Rightarrow> string" where
  "readBodySnippet body = trimSpace (take maxErrorBodySnippet body)"

definition handleStateResponse :: "state_answer \<Rightarrow> err + RuleStates" where
  "handleStateResponse resp =
     (if sa_Code resp = 200 then
        (case sa_Decoded resp of None \<Rightarrow> Inl (Leaf StateDecoding)
         | Some decoded \<Rightarrow>
             if se_Status decoded \<noteq> statusSuccess then Inl (statusError decoded)
             else Inr (ruleStatesFrom decoded))
      else if sa_Code resp = 401 then Inl (Client (APIError ''alert rule state'' 401))
      else Inl (Leaf (UnexpectedStatus (sa_Code resp) (readBodySnippet (sa_Body resp)))))"

text \<open>A context without a Grafana section is \<^const>\<open>False\<close> for \<open>hasContext\<close>.\<close>

definition FetchRuleStates :: "'s server \<Rightarrow> bool \<Rightarrow> ('s, RuleStates) prog" where
  "FetchRuleStates sv hasContext =
     (if \<not> hasContext then failP (Leaf NoContext)
      else bindP (attemptP (callP ReqStates (ep_states sv))) (\<lambda>r.
        case r of Inl e \<Rightarrow> failP (Wrap StateRequest e) | Inr resp \<Rightarrow> liftP (handleStateResponse resp)))"

section \<open>The joined rule\<close>

record Rule =
  R_UID :: string
  R_Title :: string
  R_Type :: string
  R_FolderUID :: string
  R_Folder :: string
  R_RuleGroup :: string
  R_For :: string
  R_IsPaused :: bool
  R_Provenance :: string
  R_Labels :: "(string \<times> string) list"
  R_Annotations :: "(string \<times> string) list"
  R_Updated :: "int option"
  R_State :: string
  R_Health :: string
  R_LastEvaluation :: "int option"
  R_ActiveAlerts :: nat

definition ruleFromProvisioned :: "rule \<Rightarrow> Rule" where
  "ruleFromProvisioned def = \<lparr>
     R_UID = r_UID def, R_Title = stringValue (r_Title def),
     R_Type = (if r_Record def \<noteq> None then recordingRuleType else alertingRuleType),
     R_FolderUID = stringValue (r_FolderUID def), R_Folder = [], R_RuleGroup = stringValue (r_RuleGroup def),
     R_For = (case r_For def of None \<Rightarrow> zeroDuration | Some d \<Rightarrow> formatDuration d),
     R_IsPaused = r_IsPaused def, R_Provenance = r_Provenance def, R_Labels = r_Labels def,
     R_Annotations = r_Annotations def,
     R_Updated = (if r_Updated def = 0 then None else Some (r_Updated def)),
     R_State = [], R_Health = [], R_LastEvaluation = None, R_ActiveAlerts = 0\<rparr>"

definition zeroState :: RuleState where
  "zeroState = \<lparr>rs_Folder = [], rs_State = [], rs_Health = [], rs_LastEvaluation = None, rs_ActiveAlerts = 0\<rparr>"

definition applyState :: "RuleStates \<Rightarrow> string \<Rightarrow> Rule \<Rightarrow> Rule" where
  "applyState states unjoined r =
     (let state = (case st_ByUID states (R_UID r) of Some s \<Rightarrow> s | None \<Rightarrow> zeroState)
      in r\<lparr>R_Folder := (if rs_Folder state = []
             then (case st_FolderPaths states (R_FolderUID r) of Some p \<Rightarrow> p | None \<Rightarrow> [])
             else rs_Folder state),
           R_Health := rs_Health state, R_LastEvaluation := rs_LastEvaluation state,
           R_ActiveAlerts := rs_ActiveAlerts state,
           R_State := (if R_Type r = recordingRuleType then recordingState
             else if rs_State state \<noteq> [] then rs_State state else unjoined)\<rparr>)"

definition matchesFolder :: "Rule \<Rightarrow> string \<Rightarrow> bool" where
  "matchesFolder r folder \<longleftrightarrow> R_FolderUID r = folder \<or> R_Folder r = folder \<or> folderLeaf (R_Folder r) = folder"

definition matches :: "Rule \<Rightarrow> string \<Rightarrow> string \<Rightarrow> bool" where
  "matches r folder state =
     (if folder \<noteq> [] \<and> \<not> matchesFolder r folder then False
      else state = [] \<or> equalFold (R_State r) state)"

definition ruleSortKey :: "Rule \<Rightarrow> string \<times> string \<times> string \<times> string" where
  "ruleSortKey r = (R_Folder r, R_RuleGroup r, R_Title r, R_UID r)"

definition stateDependentFilter :: "string \<Rightarrow> string \<Rightarrow> string" where
  "stateDependentFilter folder state =
     (if folder \<noteq> [] then ''--folder''
      else if state \<noteq> [] \<and> state \<noteq> recordingState \<and> state \<noteq> unavailableState then ''--state '' @ state
      else [])"

section \<open>Listing and getting\<close>

record ListRulesOptions =
  lo_Folder :: string
  lo_State :: string

definition joinRule :: "RuleStates \<Rightarrow> string \<Rightarrow> rule \<Rightarrow> Rule" where
  "joinRule states unjoined def = applyState states unjoined (ruleFromProvisioned def)"

definition listJoined ::
  "rule option list \<Rightarrow> RuleStates \<Rightarrow> string \<Rightarrow> string \<Rightarrow> string \<Rightarrow> Rule list" where
  "listJoined defs states unjoined folder state =
     sort_key ruleSortKey (filter (\<lambda>r. matches r folder state) (map (joinRule states unjoined) (present defs)))"

definition ListRules :: "'s server option \<Rightarrow> bool \<Rightarrow> ListRulesOptions \<Rightarrow> ('s, Rule list) prog" where
  "ListRules client hasContext opts =
     (case client of None \<Rightarrow> failP (Leaf NoClient)
      | Some sv \<Rightarrow>
          if \<not> hasContext then failP (Leaf NoContext)
          else case ValidateState (lo_State opts) of
            Inl e \<Rightarrow> failP e
          | Inr stateFilter \<Rightarrow>
              bindP (attemptP (callP ReqRules (ep_rules sv))) (\<lambda>defs.
              case defs of Inl e \<Rightarrow> failP (Wrap ListAlertRules e)
              | Inr payload \<Rightarrow>
                  bindP (attemptP (FetchRuleStates sv hasContext)) (\<lambda>r.
                  case r of
                    Inr states \<Rightarrow> returnP (listJoined payload states unknownState (lo_Folder opts) stateFilter)
                  | Inl e \<Rightarrow>
                      if isUnauthorized e then failP e
                      else let filter = stateDependentFilter (lo_Folder opts) stateFilter
                           in if filter \<noteq> [] then failP (Wrap (CannotApplyFilter filter) e)
                              else bindP (logP [StateUnavailable e]) (\<lambda>u.
                                returnP (listJoined payload noStates unavailableState (lo_Folder opts) stateFilter)))))"

record RuleDetail =
  rd_Rule :: Rule
  rd_Definition :: json

definition GetAlertRule ::
  "'s server option \<Rightarrow> bool \<Rightarrow> marshaller \<Rightarrow> string \<Rightarrow> ('s, RuleDetail) prog" where
  "GetAlertRule client hasContext M uid =
     (case client of None \<Rightarrow> failP (Leaf NoClient)
      | Some sv \<Rightarrow>
          if \<not> hasContext then failP (Leaf NoContext)
          else
            bindP (fetchRule sv uid) (\<lambda>found.
            case found of None \<Rightarrow> failP (ruleNotFoundError uid)
            | Some def \<Rightarrow>
                bindP (attemptP (FetchRuleStates sv hasContext)) (\<lambda>r.
                bindP (case r of Inr states \<Rightarrow> returnP (states, unknownState)
                       | Inl e \<Rightarrow> if isUnauthorized e then failP e
                                  else bindP (logP [StateUnavailable e]) (\<lambda>u. returnP (noStates, unavailableState)))
                  (\<lambda>(states, unjoined).
                    case encodableValue (m_rule M) stripRuleFields def of
                      Inl e \<Rightarrow> failP (Wrap (GetRule uid) e)
                    | Inr definition_ \<Rightarrow>
                        returnP \<lparr>rd_Rule = joinRule states unjoined def, rd_Definition = definition_\<rparr>))))"

end
