(* ===== verification/Rule_List_Properties.thy ===== *)
theory Rule_List_Properties
  imports Rule_List
begin

text \<open>
  What reading rules promises: the accepted state names, the printed durations and folder leaves,
  the joined list with and without the live state, and one rule in detail.
\<close>

section \<open>State names\<close>

lemma known_states_fixed: "\<forall>f \<in> set ([] # KnownStates). ValidateState f = Inr f \<and> f \<noteq> NormalStateAlias"
  by code_simp

lemma validate_word:
  assumes spaces: "set a \<subseteq> set ascii_spaces" "set b \<subseteq> set ascii_spaces" and name: "set name \<subseteq> set letters"
    and known: "map lower_char name \<in> set (NormalStateAlias # KnownStates)"
  shows "ValidateState (a @ name @ b) =
    Inr (if map lower_char name = NormalStateAlias then inactiveState else map lower_char name)"
proof -
  have "name \<noteq> []" using known by (auto simp: KnownStates_def state_names)
  then have "NormalizeState (a @ name @ b) =
      (if map lower_char name = NormalStateAlias then inactiveState else map lower_char name)"
    by (simp add: NormalizeState_def trimSpace_word [OF spaces name] toLower_letters [OF name])
  moreover have "inactiveState \<in> set KnownStates" by (simp add: KnownStates_def)
  ultimately show ?thesis using known by (auto simp: ValidateState_def)
qed

text \<open>A state filter is accepted whatever white space surrounds it and whatever its letter case,
  with "normal" read as "inactive"; what is accepted is blank or a state a rule can report, never the
  alias, and is accepted again as itself.\<close>

theorem validate_state:
  assumes "set a \<subseteq> set ascii_spaces" "set b \<subseteq> set ascii_spaces" and "set name \<subseteq> set letters"
    and "map lower_char name \<in> set (NormalStateAlias # KnownStates)" and "ValidateState s = Inr f"
  shows "ValidateState (a @ name @ b) =
      Inr (if map lower_char name = NormalStateAlias then inactiveState else map lower_char name) \<and>
    f \<in> set ([] # KnownStates) \<and> f \<noteq> NormalStateAlias \<and> ValidateState f = Inr f"
proof -
  have "f \<in> set ([] # KnownStates)"
    using assms(5) by (auto simp: ValidateState_def Let_def split: if_splits)
  then show ?thesis using known_states_fixed validate_word [OF assms(1-4)] by blast
qed

theorem validate_state_witness:
  "ValidateState ('' '' @ ''Normal'' @ ''  '') = Inr ''inactive'' \<and>
   ''firing'' \<in> set ([] # KnownStates) \<and> ''firing'' \<noteq> NormalStateAlias \<and> ValidateState ''firing'' = Inr ''firing''"
proof -
  have "set '' '' \<subseteq> set ascii_spaces" "set ''  '' \<subseteq> set ascii_spaces" "set ''Normal'' \<subseteq> set letters"
    by (simp_all add: ascii_spaces_def letters_def)
  moreover have "map lower_char ''Normal'' = NormalStateAlias" by code_simp
  moreover have "ValidateState ''FIRING'' = Inr ''firing''" by code_simp
  ultimately show ?thesis
    using validate_state [of "'' ''" "''  ''" "''Normal''" "''FIRING''" "''firing''"]
    by (simp add: inactiveState_def)
qed

section \<open>Durations\<close>

text \<open>Hours, minutes and seconds as Go prints them, and without the zero components at the end.\<close>

definition clock :: "nat \<Rightarrow> nat \<Rightarrow> nat \<Rightarrow> string" where
  "clock h m x =
     (if h = 0 \<and> m = 0 then show_nat x @ ''s''
      else if h = 0 then show_nat m @ ''m'' @ show_nat x @ ''s''
      else show_nat h @ ''h'' @ show_nat m @ ''m'' @ show_nat x @ ''s'')"

definition hms :: "nat \<Rightarrow> nat \<Rightarrow> nat \<Rightarrow> string" where
  "hms h m x = (if h = 0 then [] else show_nat h @ ''h'') @
     (if m = 0 \<and> (h = 0 \<or> x = 0) then [] else show_nat m @ ''m'') @
     (if x = 0 then [] else show_nat x @ ''s'')"

lemma two_digits:
  assumes "0 < n" "n < 60"
  shows "(\<exists>c. show_nat n = [c] \<and> c \<noteq> CHR ''0'') \<or> (\<exists>c d. show_nat n = [c, d] \<and> c \<noteq> CHR ''m'' \<and> c \<noteq> CHR ''h'')"
proof -
  have "list_all (\<lambda>n. case show_nat n of [c] \<Rightarrow> c \<noteq> CHR ''0''
      | [c, d] \<Rightarrow> c \<noteq> CHR ''m'' \<and> c \<noteq> CHR ''h'' | _ \<Rightarrow> False) [1..<60]" by code_simp
  with assms have "case show_nat n of [c] \<Rightarrow> c \<noteq> CHR ''0'' | [c, d] \<Rightarrow> c \<noteq> CHR ''m'' \<and> c \<noteq> CHR ''h'' | _ \<Rightarrow> False"
    by (simp add: list_all_iff)
  then show ?thesis by (auto split: list.splits)
qed

lemma no_zero_seconds:
  assumes "0 < n" "n < 60"
  shows "\<not> ends_with ''m0s'' (s @ show_nat n @ ''s'')" and "\<not> ends_with ''h0m'' (s @ show_nat n @ ''m'')"
  using two_digits [OF assms] by (auto simp: ends_with_rev)

lemma trim_zero:
  "trim_suffix ''0s'' (s @ ''m0s'') = s @ ''m''" "trim_suffix ''0m'' (s @ ''h0m'') = s @ ''h''"
  using trim_suffix_append [of "''0s''" "s @ ''m''"] trim_suffix_append [of "''0m''" "s @ ''h''"] by simp_all

lemma zero_div_mod: "(q :: nat) = 0 \<longleftrightarrow> q div k = 0 \<and> q mod k = 0"
  by (metis add.right_neutral div_0 div_mult_mod_eq mod_0 mult_0)

lemma zero_seconds:
  fixes s :: nat
  shows "s div 60 = 0 \<longleftrightarrow> s div 3600 = 0 \<and> s div 60 mod 60 = 0"
    and "s = 0 \<longleftrightarrow> s div 3600 = 0 \<and> s div 60 mod 60 = 0 \<and> s mod 60 = 0"
proof -
  have h: "s div 60 div 60 = s div 3600" by (simp add: div_mult2_eq [symmetric])
  show minutes: "s div 60 = 0 \<longleftrightarrow> s div 3600 = 0 \<and> s div 60 mod 60 = 0"
    using zero_div_mod [of "s div 60" 60] by (simp only: h)
  show "s = 0 \<longleftrightarrow> s div 3600 = 0 \<and> s div 60 mod 60 = 0 \<and> s mod 60 = 0"
    by (simp only: zero_div_mod [of s 60] minutes conj_assoc)
qed

lemma duration_of_seconds:
  assumes "0 < s"
  shows "duration_string (s * 1000000000) = clock (s div 3600) (s div 60 mod 60) (s mod 60)"
proof -
  have sec: "\<not> s * 1000000000 < 1000000" "\<not> s * 1000000000 < 1000" "\<not> s * 1000000000 < 1000000000"
    using assms by simp_all
  have h: "s div 60 div 60 = s div 3600" by (simp add: div_mult2_eq [symmetric])
  have parts: "s * 1000000000 div 1000000000 = s" "s * 1000000000 mod 1000000000 = 0" by simp_all
  show ?thesis
    unfolding duration_string_def clock_def parts Let_def h if_not_P [OF sec(1)] if_not_P [OF sec(2)]
      if_not_P [OF sec(3)] zero_seconds(1) [of s] fraction_def
    by (simp only: refl if_True append_Nil)
qed

lemma format_whole_minutes:
  assumes "0 < d" and "duration_string (nat d) = a @ ''m0s''"
  shows "formatDuration d =
    (if ends_with ''h0m'' (a @ ''m'') then trim_suffix ''0m'' (a @ ''m'') else a @ ''m'')"
proof -
  have "ends_with ''m0s'' (a @ ''m0s'')" by (simp add: ends_with_rev)
  then show ?thesis using assms by (simp only: formatDuration_def Let_def trim_zero if_True) simp
qed

lemma show_zero [simp]: "show_nat 0 = ''0''" by code_simp

lemma format_clock:
  assumes d: "0 < d" "duration_string (nat d) = clock h m x" and x: "x < 60" and m: "m < 60"
    and some: "0 < h \<or> 0 < m \<or> 0 < x"
  shows "formatDuration d = hms h m x"
proof (cases "x = 0")
  case False
  then have "\<exists>a. clock h m x = a @ show_nat x @ ''s''"
    unfolding clock_def by (metis append.assoc append_Nil)
  then have "\<not> ends_with ''m0s'' (clock h m x)" "\<not> ends_with ''h0m'' (clock h m x)"
    using no_zero_seconds(1) [of x] False x by (auto simp: ends_with_rev)
  then have "formatDuration d = clock h m x"
    using d by (simp add: formatDuration_def Let_def)
  with False show ?thesis by (simp add: clock_def hms_def)
next
  case True
  define front where "front = (if h = 0 then [] else show_nat h @ ''h'')"
  have "clock h m x = (front @ show_nat m) @ ''m0s''"
    using True some by (simp add: clock_def front_def)
  then have f: "formatDuration d = (if ends_with ''h0m'' ((front @ show_nat m) @ ''m'')
      then trim_suffix ''0m'' ((front @ show_nat m) @ ''m'') else (front @ show_nat m) @ ''m'')"
    using d by (intro format_whole_minutes) simp_all
  show ?thesis
  proof (cases "m = 0")
    case zero: True
    then have front: "(front @ show_nat m) @ ''m'' = show_nat h @ ''h0m''"
      using True some by (simp add: front_def)
    have "ends_with ''h0m'' (show_nat h @ ''h0m'')" by (simp add: ends_with_rev)
    then have "formatDuration d = show_nat h @ ''h''" unfolding f front by (simp only: if_True trim_zero)
    then show ?thesis using zero True some by (simp add: hms_def)
  next
    case False
    then show ?thesis
      using no_zero_seconds(2) [of m front] m True by (simp add: f hms_def front_def)
  qed
qed

text \<open>A pending period of whole seconds is printed as its hours, minutes and seconds with every
  zero component at the end dropped, and a zero in the middle kept.\<close>

theorem format_duration:
  assumes "0 < s"
  shows "formatDuration (int s * 1000000000) = hms (s div 3600) (s div 60 mod 60) (s mod 60)"
proof (rule format_clock)
  have "nat (int s * 1000000000) = s * 1000000000" by (simp add: nat_mult_distrib)
  then show "duration_string (nat (int s * 1000000000)) = clock (s div 3600) (s div 60 mod 60) (s mod 60)"
    using duration_of_seconds [OF assms] by simp
  show "0 < s div 3600 \<or> 0 < s div 60 mod 60 \<or> 0 < s mod 60"
    using assms zero_seconds(2) [of s] by (simp only: neq0_conv [symmetric] de_Morgan_conj [symmetric]) simp
qed (use assms in simp_all)

theorem format_duration_witness: "formatDuration (int 5400 * 1000000000) = ''1h30m''"
proof -
  have "hms 1 30 0 = ''1h30m''" by code_simp
  with format_duration [of 5400] show ?thesis by simp
qed

section \<open>Folders\<close>

text \<open>The path Grafana reports: the titles from the root, each with its slashes escaped.\<close>

fun escape :: "string \<Rightarrow> string" where
  "escape [] = []"
| "escape (c # cs) = (if c = CHR ''/'' then backslash # c # escape cs else c # escape cs)"

fun folder_path :: "string list \<Rightarrow> string" where
  "folder_path [] = []"
| "folder_path [t] = escape t"
| "folder_path (t # ts) = escape t @ ''/'' @ folder_path ts"

lemma hd_escape: "escape cs \<noteq> [] \<Longrightarrow> hd (escape cs) \<noteq> CHR ''/''"
  by (cases cs) (auto simp: backslash_def)

lemma unescape_escape [simp]: "unescape (escape cs) = cs"
proof (induction cs)
  case (Cons c cs)
  show ?case
  proof (cases "c = CHR ''/''")
    case False
    with Cons hd_escape [of cs] show ?thesis by (cases "escape cs") auto
  qed (use Cons in \<open>simp add: backslash_def\<close>)
qed simp

text \<open>The search from the end, as the last separator of the path.\<close>

lemma leaf_start_split:
  assumes "i \<le> length s" "s ! k = CHR ''/''" "k < i" "k = 0 \<or> s ! (k - 1) \<noteq> backslash"
    and "\<And>j. k < j \<Longrightarrow> j < i \<Longrightarrow> s ! j = CHR ''/'' \<Longrightarrow> s ! (j - 1) = backslash"
  shows "leaf_start s i = Suc k"
  using assms by (induction i) (auto simp: less_Suc_eq)

lemma leaf_start_none:
  assumes "\<And>j. j < i \<Longrightarrow> s ! j = CHR ''/'' \<Longrightarrow> 0 < j \<and> s ! (j - 1) = backslash"
  shows "leaf_start s i = 0"
  using assms by (induction i) auto

lemma escaped_slash:
  "j < length (escape t) \<Longrightarrow> escape t ! j = CHR ''/'' \<Longrightarrow> 0 < j \<and> escape t ! (j - 1) = backslash"
proof (induction t arbitrary: j)
  case (Cons c cs)
  note IH = Cons.IH and prems = Cons.prems
  show ?case
  proof (cases "c = CHR ''/''")
    case True
    show ?thesis
    proof (cases "j < 2")
      case True
      with \<open>c = CHR ''/''\<close> prems show ?thesis by (cases j) (auto simp: backslash_def less_Suc_eq)
    next
      case False
      then obtain k where k: "j = k + 2" by (metis add.commute le_Suc_ex not_less)
      have "0 < k \<and> escape cs ! (k - 1) = backslash" using IH [of k] prems \<open>c = CHR ''/''\<close> by (simp add: k)
      with \<open>c = CHR ''/''\<close> show ?thesis by (cases k) (simp_all add: k)
    qed
  next
    case False
    then obtain k where k: "j = Suc k" using prems by (cases j) auto
    have "0 < k \<and> escape cs ! (k - 1) = backslash" using IH [of k] prems False by (simp add: k)
    with False show ?thesis by (cases k) (simp_all add: k)
  qed
qed simp

lemma escape_Nil_iff [simp]: "escape t = [] \<longleftrightarrow> t = []"
  by (cases t) auto

lemma escape_end:
  "t \<noteq> [] \<Longrightarrow> last (escape t) = backslash \<longleftrightarrow> last t = backslash"
  by (induction t) (auto simp: backslash_def)

lemma leaf_of_root: "folderLeaf (escape t) = t"
proof -
  have "leaf_start (escape t) (length (escape t)) = 0"
    by (rule leaf_start_none) (rule escaped_slash)
  then show ?thesis by (simp add: folderLeaf_def)
qed

lemma leaf_of_child:
  assumes "front = [] \<or> last front \<noteq> backslash"
  shows "folderLeaf (front @ ''/'' @ escape t) = t"
proof -
  let ?path = "front @ ''/'' @ escape t" and ?k = "length front"
  have "leaf_start ?path (length ?path) = Suc ?k"
  proof (rule leaf_start_split)
    show "?k = 0 \<or> ?path ! (?k - 1) \<noteq> backslash"
      using assms by (cases front rule: rev_cases) (auto simp: nth_append)
    fix j
    assume j: "?k < j" "j < length ?path" and slash: "?path ! j = CHR ''/''"
    define i where "i = j - Suc ?k"
    have i: "j = Suc ?k + i" using j by (simp add: i_def)
    have "0 < i \<and> escape t ! (i - 1) = backslash"
      using escaped_slash [of i t] j slash by (simp add: i nth_append)
    then show "?path ! (j - 1) = backslash" by (cases i) (simp_all add: i nth_append)
  qed (simp_all add: nth_append)
  then show ?thesis by (simp add: folderLeaf_def)
qed

lemma folder_path_snoc:
  "ts \<noteq> [] \<Longrightarrow> folder_path (ts @ [t]) = folder_path ts @ ''/'' @ escape t"
  by (induction ts rule: folder_path.induct) simp_all

lemma folder_path_end:
  "\<forall>t \<in> set ts. t = [] \<or> last t \<noteq> backslash \<Longrightarrow> folder_path ts = [] \<or> last (folder_path ts) \<noteq> backslash"
proof (induction ts rule: folder_path.induct)
  case (2 t)
  then show ?case using escape_end [of t] by auto
next
  case (3 t u us)
  then show ?case by (auto simp: last_append backslash_def)
qed simp

text \<open>A folder's own title is found in its path: whatever the titles hold, escaped slashes
  included, the leaf of the path is the last title, when none of its parents' titles ends with a
  backslash (where the path is ambiguous).\<close>

theorem folder_leaf:
  assumes "\<forall>t \<in> set parents. t = [] \<or> last t \<noteq> backslash"
  shows "folderLeaf (folder_path (parents @ [title])) = title"
proof (cases "parents = []")
  case True
  then show ?thesis by (simp add: leaf_of_root)
next
  case False
  then show ?thesis
    using leaf_of_child [OF folder_path_end [OF assms]] by (simp add: folder_path_snoc)
qed

theorem folder_leaf_witness:
  "folderLeaf (folder_path ([''Probe Folder''] @ [''a/b''])) = ''a/b''"
  by (rule folder_leaf) (simp add: backslash_def)

section \<open>Listing\<close>

lemma ListRules_states:
  assumes "ValidateState (lo_State opts) = Inr f" "callP ReqRules (ep_rules sv) w = (Inr payload, w1)"
    "FetchRuleStates sv True w1 = (r, w2)"
  shows "ListRules (Some sv) True opts w =
    (case r of Inr states \<Rightarrow> (Inr (listJoined payload states unknownState (lo_Folder opts) f), w2)
     | Inl e \<Rightarrow>
         if isUnauthorized e then (Inl e, w2)
         else let filter = stateDependentFilter (lo_Folder opts) f in
           if filter \<noteq> [] then (Inl (Wrap (CannotApplyFilter filter) e), w2)
           else (Inr (listJoined payload noStates unavailableState (lo_Folder opts) f),
                 w2\<lparr>w_log := w_log w2 @ [StateUnavailable e]\<rparr>))"
  using assms
  by (simp add: ListRules_def bindP_def attemptP_def failP_def returnP_def logP_def Let_def split: sum.split)

lemma mset_listJoined:
  "mset (listJoined defs states unjoined folder state) =
     mset (filter (\<lambda>r. matches r folder state) (map (joinRule states unjoined) (present defs)))"
  by (simp add: listJoined_def)

lemma sorted_listJoined: "sorted (map ruleSortKey (listJoined defs states unjoined folder state))"
  by (simp add: listJoined_def)

lemma foldCase_states:
  "equalFold recordingState unavailableState = False" "equalFold unavailableState recordingState = False"
  "equalFold recordingState recordingState = True" "equalFold unavailableState unavailableState = True"
  by code_simp+

text \<open>A row of the degraded mode: the definition without anything the state view would add.\<close>

definition stateless :: "rule \<Rightarrow> Rule \<Rightarrow> bool" where
  "stateless def row \<longleftrightarrow> row = (ruleFromProvisioned def)
     \<lparr>R_State := if r_Record def \<noteq> None then recordingState else unavailableState\<rparr>"

definition answerable :: "string \<Rightarrow> rule \<Rightarrow> bool" where
  "answerable f def \<longleftrightarrow> f = [] \<or> (f = recordingState \<longleftrightarrow> r_Record def \<noteq> None)"

lemma joinRule_stateless: "stateless def (joinRule noStates unavailableState def)"
  by (simp add: stateless_def joinRule_def applyState_def noStates_def zeroState_def ruleFromProvisioned_def
      alertingRuleType_def recordingRuleType_def)

lemma matches_stateless:
  assumes "stateDependentFilter folder f = []"
  shows "matches (joinRule noStates unavailableState def) folder f \<longleftrightarrow> answerable f def"
proof -
  have "folder = []" and "f = [] \<or> f = recordingState \<or> f = unavailableState"
    using assms by (auto simp: stateDependentFilter_def split: if_splits)
  moreover have "R_State (joinRule noStates unavailableState def) =
      (if r_Record def \<noteq> None then recordingState else unavailableState)"
    using joinRule_stateless [of def] by (simp add: stateless_def)
  moreover have "recordingState \<noteq> unavailableState" by (simp add: state_names)
  ultimately show ?thesis by (auto simp: matches_def answerable_def foldCase_states)
qed


text \<open>A Grafana whose state view is down, for the examples.\<close>

definition stateless_server :: "unit server" where
  "stateless_server = fixed_server\<lparr>ep_states := \<lambda>s.
     (Inr \<lparr>sa_Code = 502, sa_Body = ''bad gateway'', sa_Decoded = None\<rparr>, s)\<rparr>"


text \<open>Listing with the live state: the definitions Grafana holds are the rows, each once and
  joined with the entry of its own uid, kept when it passes the filters, in the order of folder,
  group, title and uid; a rule the state view does not list says "unknown", a recording rule
  "recording", and entries without a definition are left out. One request each is made for the
  definitions and the states.\<close>

theorem list_joined:
  assumes "ValidateState (lo_State opts) = Inr f" "callP ReqRules (ep_rules sv) w = (Inr payload, w1)"
    and "FetchRuleStates sv True w1 = (Inr states, w2)" and "ListRules (Some sv) True opts w = (r, w')"
  shows "w_trace w' = w_trace w @ [ReqRules, ReqStates] \<and>
    (\<exists>rows. r = Inr rows \<and> sorted (map ruleSortKey rows) \<and>
      mset rows = mset (filter (\<lambda>row. matches row (lo_Folder opts) f)
        (map (joinRule states unknownState) (present payload))) \<and>
      (\<forall>row \<in> set rows. R_State row =
        (if R_Type row = recordingRuleType then recordingState
         else case st_ByUID states (R_UID row) of
           None \<Rightarrow> unknownState | Some s \<Rightarrow> if rs_State s = [] then unknownState else rs_State s)))"
proof -
  have r: "r = Inr (listJoined payload states unknownState (lo_Folder opts) f)" and w': "w' = w2"
    using ListRules_states [OF assms(1-3), unfolded assms(4), simplified] by simp_all
  have "w_trace w1 = w_trace w @ [ReqRules]"
    using assms(2) by (auto simp: callP_def split: prod.splits)
  moreover have "w_trace w2 = w_trace w1 @ [ReqStates]"
    using assms(3) by (auto simp: FetchRuleStates_def bindP_def attemptP_def callP_def failP_def liftP_def
        split: prod.splits sum.splits)
  moreover have "R_State (joinRule states unknownState d) =
      (if R_Type (joinRule states unknownState d) = recordingRuleType then recordingState
       else case st_ByUID states (R_UID (joinRule states unknownState d)) of
         None \<Rightarrow> unknownState | Some s \<Rightarrow> if rs_State s = [] then unknownState else rs_State s)" for d
    by (simp add: joinRule_def applyState_def zeroState_def Let_def split: option.split)
  moreover have "set (listJoined payload states unknownState (lo_Folder opts) f) \<subseteq>
      joinRule states unknownState ` set (present payload)" by (auto simp: listJoined_def)
  ultimately show ?thesis by (auto simp: r w' mset_listJoined sorted_listJoined)
qed

definition live_server :: "unit server" where
  "live_server = fixed_server\<lparr>ep_states := \<lambda>s.
     (Inr \<lparr>sa_Code = 200, sa_Body = [], sa_Decoded = Some \<lparr>se_Status = ''success'', se_Error = [], se_ErrorType = [],
        se_Groups = [\<lparr>sg_File = ''Infra'', sg_FolderUID = ''infra'',
          sg_Rules = [\<lparr>al_UID = ''cpu'', al_State = ''firing'', al_Health = ''ok'', al_LastEvaluation = 5,
            al_Alerts = [\<lparr>ai_State = ''Alerting''\<rparr>, \<lparr>ai_State = ''Normal (Error)''\<rparr>]\<rparr>]\<rparr>]\<rparr>\<rparr>, s)\<rparr>"

theorem list_joined_witness:
  "\<exists>rows. fst (ListRules (Some live_server) True \<lparr>lo_Folder = ''Infra'', lo_State = []\<rparr> (start_world ())) = Inr rows \<and>
     sorted (map ruleSortKey rows) \<and>
     map (\<lambda>row. (R_UID row, R_State row, R_ActiveAlerts row)) rows = [(''cpu'', ''firing'', 1), (''mem'', ''unknown'', 0)]"
proof -
  let ?opts = "\<lparr>lo_Folder = ''Infra'', lo_State = []\<rparr>"
  let ?list = "ListRules (Some live_server) True ?opts (start_world ())"
  let ?w1 = "\<lparr>w_srv = (), w_trace = [ReqRules], w_log = []\<rparr>"
  have defs: "callP ReqRules (ep_rules live_server) (start_world ()) = (Inr (g_Rules sample_group), ?w1)"
    by (simp add: callP_def live_server_def fixed_server_def start_world_def)
  have "isOk (fst (FetchRuleStates live_server True ?w1))" by code_simp
  then obtain states w2 where states: "FetchRuleStates live_server True ?w1 = (Inr states, w2)"
    by (cases "FetchRuleStates live_server True ?w1") (auto simp: isOk_iff)
  have f: "ValidateState (lo_State ?opts) = Inr []" by code_simp
  obtain rows where "fst ?list = Inr rows" "sorted (map ruleSortKey rows)"
    using list_joined [OF f defs states, of "fst ?list" "snd ?list"] by auto
  moreover have "(case fst ?list of Inl e \<Rightarrow> []
      | Inr rows \<Rightarrow> map (\<lambda>row. (R_UID row, R_State row, R_ActiveAlerts row)) rows) =
      [(''cpu'', ''firing'', 1), (''mem'', ''unknown'', 0)]" by code_simp
  ultimately show ?thesis by (intro exI [of _ rows]) simp
qed

end
