(* ===== verification/Utf8.thy ===== *)
theory Utf8
  imports Go_Strings
begin

text \<open>
  Runes of a Go string: \<^verbatim>\<open>utf8.DecodeRuneInString\<close>, \<^verbatim>\<open>utf8.AppendRune\<close> (what
  \<^verbatim>\<open>strings.Builder.WriteRune\<close> writes), the runes a \<^verbatim>\<open>range\<close> loop visits and
  \<^verbatim>\<open>strings.Map\<close>. A byte that does not start a well-formed sequence decodes as U+FFFD of
  width 1.
\<close>

section \<open>Decoding and encoding\<close>

abbreviation byte :: "char \<Rightarrow> nat" where
  "byte c \<equiv> of_char c"

definition runeError :: nat where "runeError = 0xFFFD"

definition continues :: "char \<Rightarrow> bool" where
  "continues c \<longleftrightarrow> 0x80 \<le> byte c \<and> byte c \<le> 0xBF"

definition low_bits :: "char \<Rightarrow> nat" where
  "low_bits c = byte c - 0x80"

text \<open>The second byte of some sequences is restricted: no overlong forms, no surrogates, nothing
  above U+10FFFF.\<close>

definition second_ok :: "char \<Rightarrow> char \<Rightarrow> bool" where
  "second_ok a b \<longleftrightarrow>
     (if byte a = 0xE0 then 0xA0 \<le> byte b \<and> byte b \<le> 0xBF
      else if byte a = 0xED then 0x80 \<le> byte b \<and> byte b \<le> 0x9F
      else if byte a = 0xF0 then 0x90 \<le> byte b \<and> byte b \<le> 0xBF
      else if byte a = 0xF4 then 0x80 \<le> byte b \<and> byte b \<le> 0x8F
      else continues b)"

fun decodeRune :: "string \<Rightarrow> nat \<times> nat" where
  "decodeRune [] = (runeError, 0)"
| "decodeRune (a # cs) =
     (if byte a < 0x80 then (byte a, 1)
      else if 0xC2 \<le> byte a \<and> byte a \<le> 0xDF then
        (case cs of b # _ \<Rightarrow> if continues b then ((byte a - 0xC0) * 0x40 + low_bits b, 2) else (runeError, 1)
         | _ \<Rightarrow> (runeError, 1))
      else if 0xE0 \<le> byte a \<and> byte a \<le> 0xEF then
        (case cs of b # c # _ \<Rightarrow>
           if second_ok a b \<and> continues c
           then ((byte a - 0xE0) * 0x1000 + low_bits b * 0x40 + low_bits c, 3) else (runeError, 1)
         | _ \<Rightarrow> (runeError, 1))
      else if 0xF0 \<le> byte a \<and> byte a \<le> 0xF4 then
        (case cs of b # c # d # _ \<Rightarrow>
           if second_ok a b \<and> continues c \<and> continues d
           then ((byte a - 0xF0) * 0x40000 + low_bits b * 0x1000 + low_bits c * 0x40 + low_bits d, 4)
           else (runeError, 1)
         | _ \<Rightarrow> (runeError, 1))
      else (runeError, 1))"

definition valid_rune :: "nat \<Rightarrow> bool" where
  "valid_rune r \<longleftrightarrow> r < 0xD800 \<or> 0xE000 \<le> r \<and> r < 0x110000"

definition encodeRune :: "nat \<Rightarrow> string" where
  "encodeRune r =
     (if \<not> valid_rune r then map char_of [0xEF, 0xBF, 0xBD :: nat]
      else if r < 0x80 then [char_of r]
      else if r < 0x800 then [char_of (0xC0 + r div 0x40), char_of (0x80 + r mod 0x40)]
      else if r < 0x10000 then
        [char_of (0xE0 + r div 0x1000), char_of (0x80 + r div 0x40 mod 0x40), char_of (0x80 + r mod 0x40)]
      else [char_of (0xF0 + r div 0x40000), char_of (0x80 + r div 0x1000 mod 0x40),
            char_of (0x80 + r div 0x40 mod 0x40), char_of (0x80 + r mod 0x40)])"

lemma decodeRune_width:
  "s \<noteq> [] \<Longrightarrow> 1 \<le> snd (decodeRune s) \<and> snd (decodeRune s) \<le> length s"
  by (cases s rule: decodeRune.cases) (auto split: list.splits)

section \<open>The runes of a string\<close>

function runes :: "string \<Rightarrow> nat list" where
  "runes s = (if s = [] then [] else fst (decodeRune s) # runes (drop (snd (decodeRune s)) s))"
  by pat_completeness auto
termination
proof (relation "measure length")
  fix s :: string
  assume "s \<noteq> []"
  with decodeRune_width [of s] show "(drop (snd (decodeRune s)) s, s) \<in> measure length" by simp
qed simp

declare runes.simps [simp del]

lemma runes_Nil [simp]: "runes [] = []"
  by (simp add: runes.simps)

definition stringsMap :: "(nat \<Rightarrow> nat) \<Rightarrow> string \<Rightarrow> string" where
  "stringsMap f s = concat (map (\<lambda>r. encodeRune (f r)) (runes s))"

section \<open>Round trip\<close>

lemma byte_char_of [simp]: "n < 256 \<Longrightarrow> byte (char_of n) = n"
  by simp

lemma decode_encode:
  assumes "valid_rune r"
  shows "decodeRune (encodeRune r @ s) = (r, length (encodeRune r))"
proof -
  consider "r < 0x80" | "0x80 \<le> r" "r < 0x800" | "0x800 \<le> r" "r < 0x10000" | "0x10000 \<le> r" "r < 0x110000"
    using assms unfolding valid_rune_def by linarith
  then show ?thesis
  proof cases
    case 1
    then show ?thesis using assms by (simp add: encodeRune_def)
  next
    case 2
    define a b where "a = r div 0x40" and "b = r mod 0x40"
    have r: "r = a * 0x40 + b" "b < 0x40" by (simp_all add: a_def b_def)
    with 2 have "2 \<le> a" "a < 0x20" by linarith+
    then show ?thesis using assms 2 r(2)
      by (simp add: encodeRune_def a_def [symmetric] b_def [symmetric] continues_def low_bits_def r(1))
  next
    case 3
    define a b c where "a = r div 0x1000" and "b = r div 0x40 mod 0x40" and "c = r mod 0x40"
    have "r div 0x40 div 0x40 = a" by (simp add: a_def div_mult2_eq [symmetric])
    then have high: "r div 0x40 = a * 0x40 + b"
      using div_mult_mod_eq [of "r div 0x40" "0x40"] by (simp add: b_def)
    have "r = r div 0x40 * 0x40 + c" by (simp add: c_def)
    then have "r = (a * 0x40 + b) * 0x40 + c" by (simp only: high)
    then have r: "r = a * 0x1000 + b * 0x40 + c" by simp
    have small: "b < 0x40" "c < 0x40" by (simp_all add: b_def c_def)
    have range: "0x800 \<le> a * 0x1000 + b * 0x40 + c" "a * 0x1000 + b * 0x40 + c < 0x10000"
      using 3 by (simp_all only: r [symmetric])
    have "a < 0x10" using range by linarith
    have "a = 0 \<Longrightarrow> 0x20 \<le> b" using range small by linarith
    moreover have "a = 0xD \<Longrightarrow> b < 0x20"
      using assms [unfolded valid_rune_def r] small by linarith
    ultimately have "second_ok (char_of (0xE0 + a)) (char_of (0x80 + b))"
      using small \<open>a < 0x10\<close> by (auto simp: second_ok_def continues_def)
    moreover have "encodeRune r = [char_of (0xE0 + a), char_of (0x80 + b), char_of (0x80 + c)]"
      using assms 3 by (simp add: encodeRune_def a_def b_def c_def)
    ultimately show ?thesis using small \<open>a < 0x10\<close>
      by (simp add: continues_def low_bits_def r [symmetric])
  next
    case 4
    define a b c d where "a = r div 0x40000" and "b = r div 0x1000 mod 0x40" and "c = r div 0x40 mod 0x40"
      and "d = r mod 0x40"
    have "r div 0x1000 div 0x40 = a" by (simp add: a_def div_mult2_eq [symmetric])
    then have high: "r div 0x1000 = a * 0x40 + b"
      using div_mult_mod_eq [of "r div 0x1000" "0x40"] by (simp add: b_def)
    have "r div 0x40 div 0x40 = r div 0x1000" by (simp add: div_mult2_eq [symmetric])
    then have middle: "r div 0x40 = r div 0x1000 * 0x40 + c"
      using div_mult_mod_eq [of "r div 0x40" "0x40"] by (simp add: c_def)
    have "r = r div 0x40 * 0x40 + d" by (simp add: d_def)
    then have "r = ((a * 0x40 + b) * 0x40 + c) * 0x40 + d" by (simp only: middle high)
    then have r: "r = a * 0x40000 + b * 0x1000 + c * 0x40 + d" by simp
    have small: "b < 0x40" "c < 0x40" "d < 0x40" by (simp_all add: b_def c_def d_def)
    have range: "0x10000 \<le> a * 0x40000 + b * 0x1000 + c * 0x40 + d"
      "a * 0x40000 + b * 0x1000 + c * 0x40 + d < 0x110000"
      using 4 by (simp_all only: r [symmetric])
    have "a \<le> 4" using range by linarith
    have "a = 0 \<Longrightarrow> 0x10 \<le> b" using range small by linarith
    moreover have "a = 4 \<Longrightarrow> b < 0x10" using range small by linarith
    ultimately have "second_ok (char_of (0xF0 + a)) (char_of (0x80 + b))"
      using small \<open>a \<le> 4\<close> by (auto simp: second_ok_def continues_def)
    moreover have "encodeRune r = [char_of (0xF0 + a), char_of (0x80 + b), char_of (0x80 + c), char_of (0x80 + d)]"
      using assms 4 by (simp add: encodeRune_def a_def b_def c_def d_def)
    ultimately show ?thesis using small \<open>a \<le> 4\<close>
      by (simp add: continues_def low_bits_def r [symmetric])
  qed
qed

lemma encodeRune_nonempty [simp]: "encodeRune r \<noteq> []"
  by (simp add: encodeRune_def)

lemma runes_encode [simp]: "valid_rune r \<Longrightarrow> runes (encodeRune r @ s) = r # runes s"
  using decode_encode [of r s] by (subst runes.simps) simp

lemma runes_concat:
  "\<forall>r \<in> set rs. valid_rune r \<Longrightarrow> runes (concat (map encodeRune rs)) = rs"
  by (induction rs) simp_all

lemma low_bits_small: "continues c \<Longrightarrow> low_bits c < 0x40"
  unfolding continues_def low_bits_def by linarith

lemma second_bits:
  "second_ok a b \<Longrightarrow> low_bits b < 0x40 \<and> (byte a = 0xED \<longrightarrow> low_bits b < 0x20) \<and>
     (byte a = 0xF0 \<longrightarrow> 0x10 \<le> low_bits b) \<and> (byte a = 0xF4 \<longrightarrow> low_bits b < 0x10)"
  by (simp add: second_ok_def continues_def low_bits_def split: if_splits) linarith+

lemma valid_two: "a < 0x20 \<Longrightarrow> b < 0x40 \<Longrightarrow> valid_rune (a * 0x40 + b)"
  unfolding valid_rune_def by linarith

lemma valid_three:
  "a < 0x10 \<Longrightarrow> b < 0x40 \<Longrightarrow> c < 0x40 \<Longrightarrow> a = 0xD \<longrightarrow> b < 0x20 \<Longrightarrow> valid_rune (a * 0x1000 + b * 0x40 + c)"
  unfolding valid_rune_def by (cases "a < 0xD"; cases "a = 0xD") auto

lemma valid_four:
  "a \<le> 4 \<Longrightarrow> b < 0x40 \<Longrightarrow> c < 0x40 \<Longrightarrow> d < 0x40 \<Longrightarrow> a = 0 \<longrightarrow> 0x10 \<le> b \<Longrightarrow> a = 4 \<longrightarrow> b < 0x10 \<Longrightarrow>
     valid_rune (a * 0x40000 + b * 0x1000 + c * 0x40 + d)"
  unfolding valid_rune_def by (cases "a = 0"; cases "a = 4") auto

lemma valid_runeError [simp]: "valid_rune runeError"
  by (simp add: valid_rune_def runeError_def)

lemma decodeRune_valid: "valid_rune (fst (decodeRune s))"
proof (cases s)
  case (Cons a cs)
  consider "byte a < 0x80" | "0xC2 \<le> byte a \<and> byte a \<le> 0xDF" | "0xE0 \<le> byte a \<and> byte a \<le> 0xEF"
    | "0xF0 \<le> byte a \<and> byte a \<le> 0xF4" | "0x80 \<le> byte a \<and> byte a < 0xC2 \<or> 0xF4 < byte a" by linarith
  then show ?thesis
  proof cases
    case 2
    then have small: "byte a - 0xC0 < 0x20" by linarith
    show ?thesis using 2 valid_two [OF small low_bits_small]
      by (simp add: Cons split: list.split)
  next
    case 3
    then have small: "byte a - 0xE0 < 0x10" and ed: "byte a - 0xE0 = 0xD \<Longrightarrow> byte a = 0xED" by linarith+
    show ?thesis using 3 valid_three [OF small _ low_bits_small] second_bits [of a] ed
      by (simp add: Cons split: list.split)
  next
    case 4
    then have small: "byte a - 0xF0 \<le> 4" and ends: "byte a - 0xF0 = 0 \<Longrightarrow> byte a = 0xF0"
        "byte a - 0xF0 = 4 \<Longrightarrow> byte a = 0xF4" by linarith+
    show ?thesis using 4 valid_four [OF small _ low_bits_small low_bits_small] second_bits [of a] ends
      by (simp add: Cons split: list.split)
  next
    case 5
    then have "\<not> byte a < 0x80" "\<not> (0xC2 \<le> byte a \<and> byte a \<le> 0xDF)" "\<not> (0xE0 \<le> byte a \<and> byte a \<le> 0xEF)"
      "\<not> (0xF0 \<le> byte a \<and> byte a \<le> 0xF4)" by linarith+
    then show ?thesis by (simp only: Cons decodeRune.simps if_False fst_conv valid_runeError)
  qed (simp add: Cons valid_rune_def)
qed simp

lemma runes_valid: "r \<in> set (runes s) \<Longrightarrow> valid_rune r"
proof (induction s rule: runes.induct)
  case (1 s)
  then show ?case
    by (cases "s = []") (auto simp: runes.simps [of s] decodeRune_valid)
qed

lemma runes_stringsMap:
  assumes "\<forall>r \<in> set (runes s). valid_rune (f r)"
  shows "runes (stringsMap f s) = map f (runes s)"
proof -
  have "stringsMap f s = concat (map encodeRune (map f (runes s)))"
    by (simp add: stringsMap_def comp_def)
  then show ?thesis using runes_concat [of "map f (runes s)"] assms by simp
qed

lemma runes_Cons_ascii: "byte c < 0x80 \<Longrightarrow> runes (c # s) = byte c # runes s"
  by (subst runes.simps) simp

end
