(* ===== verification/Termsafe.thy ===== *)
theory Termsafe
  imports Utf8
begin

text \<open>
  Server-controlled text on a terminal (\<^verbatim>\<open>internal/termsafe/termsafe.go\<close>): escape sequences
  are dropped whole, the remaining control and format runes become spaces. Byte and rune positions
  of the Go loops are lengths of prefixes; a slice \<^verbatim>\<open>s[i:]\<close> is \<^term>\<open>drop i s\<close>.
\<close>

section \<open>Runes\<close>

definition isControl :: "nat \<Rightarrow> bool" where
  "isControl r \<longleftrightarrow> r \<le> 0x1F \<or> 0x7F \<le> r \<and> r \<le> 0x9F"

text \<open>The category Cf of Go's Unicode tables, as closed ranges.\<close>

definition formatRanges :: "(nat \<times> nat) list" where
  "formatRanges = [(0xAD, 0xAD), (0x600, 0x605), (0x61C, 0x61C), (0x6DD, 0x6DD), (0x70F, 0x70F),
     (0x890, 0x891), (0x8E2, 0x8E2), (0x180E, 0x180E), (0x200B, 0x200F), (0x202A, 0x202E),
     (0x2060, 0x2064), (0x2066, 0x206F), (0xFEFF, 0xFEFF), (0xFFF9, 0xFFFB), (0x110BD, 0x110BD),
     (0x110CD, 0x110CD), (0x13430, 0x1343F), (0x1BCA0, 0x1BCA3), (0x1D173, 0x1D17A),
     (0xE0001, 0xE0001), (0xE0020, 0xE007F)]"

definition isUnsafe :: "nat \<Rightarrow> bool" where
  "isUnsafe r \<longleftrightarrow> isControl r \<or> list_ex (\<lambda>(lo, hi). lo \<le> r \<and> r \<le> hi) formatRanges"

definition Runes :: "string \<Rightarrow> string" where
  "Runes value = stringsMap (\<lambda>r. if isUnsafe r then 0x20 else r) value"

section \<open>Escape sequences\<close>

definition esc :: nat where "esc = 0x1B"
definition bel :: nat where "bel = 0x07"
definition can :: nat where "can = 0x18"
definition sub :: nat where "sub = 0x1A"
definition c1DCS :: nat where "c1DCS = 0x90"
definition c1SOS :: nat where "c1SOS = 0x98"
definition c1CSI :: nat where "c1CSI = 0x9B"
definition c1ST :: nat where "c1ST = 0x9C"
definition c1OSC :: nat where "c1OSC = 0x9D"
definition c1PM :: nat where "c1PM = 0x9E"
definition c1APC :: nat where "c1APC = 0x9F"

lemmas introducers = esc_def bel_def can_def sub_def c1DCS_def c1SOS_def c1CSI_def c1ST_def c1OSC_def
  c1PM_def c1APC_def

definition within :: "char \<Rightarrow> char \<Rightarrow> char \<Rightarrow> bool" where
  "within lo hi c \<longleftrightarrow> byte lo \<le> byte c \<and> byte c \<le> byte hi"

text \<open>The number of leading bytes in a range: the loops that advance \<^verbatim>\<open>i\<close>.\<close>

definition run_length :: "char \<Rightarrow> char \<Rightarrow> string \<Rightarrow> nat" where
  "run_length lo hi s = length (takeWhile (within lo hi) s)"

definition csiLen :: "string \<Rightarrow> nat \<Rightarrow> nat" where
  "csiLen s start =
     (let i = start + run_length (CHR ''0'') (CHR ''?'') (drop start s);
          j = i + run_length (CHR '' '') (CHR ''/'') (drop i s)
      in if j < length s \<and> within (CHR ''@'') (CHR ''~'') (s ! j) then j + 1 else j)"

function stringEnd :: "string \<Rightarrow> nat \<Rightarrow> nat" where
  "stringEnd s i =
     (if i < length s then
        (case decodeRune (drop i s) of (r, width) \<Rightarrow>
           if r \<in> {bel, can, sub, c1ST} then i + width
           else if r = esc then (if i + 1 < length s \<and> s ! (i + 1) = CHR 0x5C then i + 2 else i)
           else stringEnd s (i + width))
      else length s)"
  by pat_completeness auto
termination
proof (relation "measure (\<lambda>(s, i). length s - i)")
  fix s :: string and i r width :: nat
  assume "i < length s" "(r, width) = decodeRune (drop i s)"
  then have "1 \<le> width" using decodeRune_width [of "drop i s"] by (metis drop_eq_Nil2 not_less snd_conv)
  with \<open>i < length s\<close> show "((s, i + width), s, i) \<in> measure (\<lambda>(s, i). length s - i)" by auto
qed simp

declare stringEnd.simps [simp del]

definition stringLen :: "string \<Rightarrow> nat \<Rightarrow> nat" where
  "stringLen s start = stringEnd s start"

definition escapeLen :: "string \<Rightarrow> nat" where
  "escapeLen s =
     (if length s = 1 then 1
      else if s ! 1 = CHR ''['' then csiLen s 2
      else if s ! 1 \<in> set '']PX^_'' then stringLen s 2
      else let i = 1 + run_length (CHR '' '') (CHR ''/'') (drop 1 s)
           in if i < length s \<and> within (CHR ''0'') (CHR ''~'') (s ! i) then i + 1 else 1)"

definition sequenceLen :: "string \<Rightarrow> nat" where
  "sequenceLen s =
     (case decodeRune s of (r, width) \<Rightarrow>
        if r = esc then escapeLen s
        else if r = c1CSI then csiLen s width
        else if r \<in> {c1OSC, c1DCS, c1SOS, c1PM, c1APC} then stringLen s width
        else 0)"

section \<open>The walk\<close>

definition shown :: "bool \<Rightarrow> nat \<Rightarrow> nat" where
  "shown keepLayout r =
     (if keepLayout \<and> (r = 0x0A \<or> r = 0x09) then r else if isUnsafe r then 0x20 else r)"

function sanitize :: "string \<Rightarrow> bool \<Rightarrow> string" where
  "sanitize s keepLayout =
     (if s = [] then []
      else if sequenceLen s > 0 then sanitize (drop (sequenceLen s) s) keepLayout
      else case decodeRune s of (r, width) \<Rightarrow>
        encodeRune (shown keepLayout r) @ sanitize (drop width s) keepLayout)"
  by pat_completeness auto
termination
proof (relation "measure (\<lambda>(s, k). length s)")
  fix s :: string and k :: bool and r width :: nat
  assume "s \<noteq> []" "(r, width) = decodeRune s"
  then have "1 \<le> width" using decodeRune_width [of s] by (metis snd_conv)
  with \<open>s \<noteq> []\<close> show "((drop width s, k), s, k) \<in> measure (\<lambda>(s, k). length s)" by auto
qed auto

declare sanitize.simps [simp del]

definition Cell :: "string \<Rightarrow> string" where
  "Cell value = sanitize value False"

definition Text :: "string \<Rightarrow> string" where
  "Text value = sanitize value True"

section \<open>Bounds\<close>

lemma run_length_bound: "run_length lo hi s \<le> length s"
  by (simp add: run_length_def length_takeWhile_le)

lemma csiLen_bounds: "start \<le> length s \<Longrightarrow> start \<le> csiLen s start \<and> csiLen s start \<le> length s"
  using run_length_bound [of "CHR ''0''" "CHR ''?''" "drop start s"]
    run_length_bound [of "CHR '' ''" "CHR ''/''"
      "drop (start + run_length (CHR ''0'') (CHR ''?'') (drop start s)) s"]
  by (auto simp: csiLen_def Let_def)

lemma stringEnd_bounds: "i \<le> length s \<Longrightarrow> i \<le> stringEnd s i \<and> stringEnd s i \<le> length s"
proof (induction s i rule: stringEnd.induct)
  case (1 s i)
  obtain r width where d: "decodeRune (drop i s) = (r, width)" by (cases "decodeRune (drop i s)")
  show ?case
  proof (cases "i < length s")
    case True
    then have w: "1 \<le> width" "i + width \<le> length s"
      using decodeRune_width [of "drop i s"] d by auto
    show ?thesis
      using 1(1) [OF True d [symmetric]] w True
      by (subst (1 2) stringEnd.simps) (auto simp: d)
  qed (use 1(2) in \<open>simp add: stringEnd.simps\<close>)
qed

lemma escapeLen_bounds:
  assumes "s \<noteq> []"
  shows "1 \<le> escapeLen s \<and> escapeLen s \<le> length s"
proof (cases "length s = 1")
  case False
  with assms have "2 \<le> length s" by (cases s) (auto simp: Suc_le_eq)
  with csiLen_bounds [OF this] stringEnd_bounds [OF this] show ?thesis
    unfolding escapeLen_def stringLen_def Let_def by (simp only: if_not_P [OF False] split: if_split)
      (intro conjI impI TrueI; linarith)
qed (simp add: escapeLen_def)

lemma sequenceLen_bound: "sequenceLen s \<le> length s"
proof (cases "s = []")
  case True
  then show ?thesis by (simp add: sequenceLen_def runeError_def introducers)
next
  case False
  obtain r width where d: "decodeRune s = (r, width)" by (cases "decodeRune s")
  then have "width \<le> length s" using decodeRune_width [OF False] by simp
  then show ?thesis
    using escapeLen_bounds [OF False] csiLen_bounds [of width s] stringEnd_bounds [of width s]
    by (auto simp: sequenceLen_def d stringLen_def)
qed

section \<open>What reaches the terminal\<close>

definition keeps :: "bool \<Rightarrow> nat \<Rightarrow> bool" where
  "keeps keepLayout r \<longleftrightarrow> valid_rune r \<and> (isUnsafe r \<longrightarrow> keepLayout \<and> (r = 0x0A \<or> r = 0x09))"

lemma shown_keeps: "valid_rune r \<Longrightarrow> keeps k (shown k r)"
proof -
  have "\<not> isUnsafe 0x20 \<and> valid_rune 0x20"
    by (simp add: valid_rune_def isUnsafe_def isControl_def formatRanges_def)
  then show "valid_rune r \<Longrightarrow> keeps k (shown k r)" by (auto simp: keeps_def shown_def)
qed

lemma shown_kept: "keeps k r \<Longrightarrow> shown k r = r"
  by (auto simp: keeps_def shown_def)

lemma introducers_unsafe:
  "isUnsafe r \<and> r \<noteq> 0x0A \<and> r \<noteq> 0x09" if "r \<in> {esc, c1CSI, c1OSC, c1DCS, c1SOS, c1PM, c1APC}"
proof -
  have "isControl r" "r \<noteq> 0x0A" "r \<noteq> 0x09" using that by (auto simp: introducers isControl_def)
  then show ?thesis by (simp only: isUnsafe_def simp_thms)
qed

lemma sanitize_rune:
  assumes "keeps k r"
  shows "sanitize (encodeRune r @ s) k = encodeRune r @ sanitize s k"
proof -
  have d: "decodeRune (encodeRune r @ s) = (r, length (encodeRune r))"
    using assms by (simp add: keeps_def decode_encode)
  have "r \<notin> {esc, c1CSI, c1OSC, c1DCS, c1SOS, c1PM, c1APC}"
    using introducers_unsafe [of r] assms by (auto simp: keeps_def)
  then have "sequenceLen (encodeRune r @ s) = 0" by (simp add: sequenceLen_def d)
  then show ?thesis using shown_kept [OF assms] by (subst sanitize.simps) (simp add: d)
qed

lemma sanitize_kept:
  "\<forall>r \<in> set rs. keeps k r \<Longrightarrow> sanitize (concat (map encodeRune rs)) k = concat (map encodeRune rs)"
  by (induction rs) (simp_all add: sanitize_rune, simp add: sanitize.simps)

lemma sanitize_runes:
  "\<exists>rs. sanitize s k = concat (map encodeRune rs) \<and> (\<forall>r \<in> set rs. keeps k r)"
proof (induction s k rule: sanitize.induct)
  case (1 s k)
  obtain r width where d: "decodeRune s = (r, width)" by (cases "decodeRune s")
  consider "s = []" | "s \<noteq> []" "sequenceLen s > 0" | "s \<noteq> []" "sequenceLen s = 0" by auto
  then show ?case
  proof cases
    case 1
    then show ?thesis by (intro exI [of _ "[]"]) (simp add: sanitize.simps)
  next
    case 2
    then show ?thesis using 1(1) by (simp add: sanitize.simps [of s])
  next
    case 3
    then obtain rs where "sanitize (drop width s) k = concat (map encodeRune rs)" "\<forall>r \<in> set rs. keeps k r"
      using 1(2) d by auto
    moreover have "keeps k (shown k r)" using decodeRune_valid [of s] d by (simp add: shown_keeps)
    ultimately show ?thesis using 3 d
      by (intro exI [of _ "shown k r # rs"]) (simp add: sanitize.simps [of s])
  qed
qed

section \<open>Payloads\<close>

definition string_introducer :: "string \<Rightarrow> bool" where
  "string_introducer i \<longleftrightarrow> (\<exists>c \<in> set '']PX^_''. i = [char_of esc, c]) \<or>
     (\<exists>r \<in> {c1OSC, c1DCS, c1SOS, c1PM, c1APC}. i = encodeRune r)"

definition payload_rune :: "nat \<Rightarrow> bool" where
  "payload_rune r \<longleftrightarrow> valid_rune r \<and> r \<notin> {esc, bel, can, sub, c1ST}"

lemma drop_split: "drop i s = p @ q \<Longrightarrow> drop (i + length p) s = q"
  by (metis add.commute append_eq_conv_conj drop_drop)

lemma stringEnd_payload:
  assumes "\<forall>r \<in> set ps. payload_rune r" and "drop i s = concat (map encodeRune ps) @ rest"
  shows "stringEnd s i = stringEnd s (i + length (concat (map encodeRune ps)))"
  using assms
proof (induction ps arbitrary: i)
  case (Cons r rs)
  have d: "decodeRune (drop i s) = (r, length (encodeRune r))"
    using Cons.prems by (simp add: payload_rune_def decode_encode)
  have "i < length s" using Cons.prems(2) by (metis append_is_Nil_conv concat.simps(2) drop_eq_Nil2
        encodeRune_nonempty list.simps(9) not_less)
  then have "stringEnd s i = stringEnd s (i + length (encodeRune r))"
    using Cons.prems(1) by (subst stringEnd.simps) (simp add: d payload_rune_def)
  moreover have "drop (i + length (encodeRune r)) s = concat (map encodeRune rs) @ rest"
    using Cons.prems(2) drop_split [of i s "encodeRune r"] by simp
  ultimately show ?case using Cons.IH Cons.prems(1) by (simp add: add.assoc)
qed simp

lemma sequenceLen_string:
  assumes "string_introducer i"
  shows "sequenceLen (i @ rest) = stringEnd (i @ rest) (length i)"
proof -
  have ascii: "decodeRune (char_of esc # cs) = (esc, 1)" for cs by (simp add: esc_def)
  consider c where "c \<in> set '']PX^_''" "i = [char_of esc, c]"
    | r where "r \<in> {c1OSC, c1DCS, c1SOS, c1PM, c1APC}" "i = encodeRune r"
    using assms by (auto simp: string_introducer_def)
  then show ?thesis
  proof cases
    case 1
    have "sequenceLen (i @ rest) = escapeLen (i @ rest)"
      by (simp only: sequenceLen_def 1(2) append_Cons ascii prod.case if_True refl)
    also have "\<dots> = stringEnd (i @ rest) (length i)"
    proof -
      have "(i @ rest) ! 1 = c" "length (i @ rest) \<noteq> 1" "length i = 2" by (simp_all add: 1(2))
      moreover have "c \<noteq> CHR ''[''" using 1(1) by auto
      ultimately show ?thesis
        using 1(1) by (simp only: escapeLen_def stringLen_def if_False if_True)
    qed
    finally show ?thesis .
  next
    case 2
    then have "valid_rune r" "r \<noteq> esc" "r \<noteq> c1CSI" by (auto simp: introducers valid_rune_def)
    with 2 show ?thesis
      by (simp add: sequenceLen_def decode_encode stringLen_def)
  qed
qed

lemma introducer_nonempty: "string_introducer i \<Longrightarrow> i \<noteq> []"
  by (auto simp: string_introducer_def encodeRune_nonempty [THEN not_sym])

section \<open>The sequences\<close>

text \<open>The grammar the sequences follow, written out: CSI sequences (parameters, intermediates, one final
  byte), string sequences with a payload and their terminator, and the other sequences of ESC
  (intermediates and one final byte).\<close>

definition csi_sequence :: "string \<Rightarrow> bool" where
  "csi_sequence q \<longleftrightarrow> (\<exists>i ps ms f. i \<in> {[char_of esc, CHR ''[''], encodeRune c1CSI} \<and>
     (\<forall>c \<in> set ps. within (CHR ''0'') (CHR ''?'') c) \<and> (\<forall>c \<in> set ms. within (CHR '' '') (CHR ''/'') c) \<and>
     within (CHR ''@'') (CHR ''~'') f \<and> q = i @ ps @ ms @ [f])"

definition string_sequence :: "string \<Rightarrow> bool" where
  "string_sequence q \<longleftrightarrow> (\<exists>i ps t. string_introducer i \<and> (\<forall>r \<in> set ps. payload_rune r) \<and>
     t \<in> {encodeRune bel, encodeRune can, encodeRune sub, encodeRune c1ST, [char_of esc, CHR 0x5C]} \<and>
     q = i @ concat (map encodeRune ps) @ t)"

definition esc_sequence :: "string \<Rightarrow> bool" where
  "esc_sequence q \<longleftrightarrow> (\<exists>ms f. (\<forall>c \<in> set ms. within (CHR '' '') (CHR ''/'') c) \<and>
     within (CHR ''0'') (CHR ''~'') f \<and> (ms = [] \<longrightarrow> f \<notin> set ''[]PX^_'') \<and> q = char_of esc # ms @ [f])"

definition escape_sequence :: "string \<Rightarrow> bool" where
  "escape_sequence q \<longleftrightarrow> csi_sequence q \<or> string_sequence q \<or> esc_sequence q"

text \<open>A string sequence without its terminator.\<close>

definition unterminated :: "string \<Rightarrow> bool" where
  "unterminated q \<longleftrightarrow>
     (\<exists>i ps. string_introducer i \<and> (\<forall>r \<in> set ps. payload_rune r) \<and> q = i @ concat (map encodeRune ps))"

lemma drop_sequence:
  "sequenceLen (q @ rest) = length q \<Longrightarrow> q \<noteq> [] \<Longrightarrow> sanitize (q @ rest) k = sanitize rest k"
  by (subst sanitize.simps) simp

lemma string_sequence_dropped:
  assumes "string_sequence q"
  shows "sequenceLen (q @ rest) = length q \<and> q \<noteq> []"
proof -
  obtain i ps t where i: "string_introducer i" and ps: "\<forall>r \<in> set ps. payload_rune r"
    and t: "t \<in> {encodeRune bel, encodeRune can, encodeRune sub, encodeRune c1ST, [char_of esc, CHR 0x5C]}"
    and q: "q = i @ concat (map encodeRune ps) @ t" using assms unfolding string_sequence_def by blast
  let ?s = "q @ rest" and ?n = "length (i @ concat (map encodeRune ps))"
  have "stringEnd ?s (length i) = stringEnd ?s ?n"
    using stringEnd_payload [OF ps, of "length i" ?s "t @ rest"] by (simp add: q)
  also have "\<dots> = ?n + length t"
  proof (cases "t = [char_of esc, CHR 0x5C]")
    case True
    have "decodeRune (drop ?n ?s) = (esc, 1)" by (simp add: q True esc_def)
    moreover have "?s ! (?n + 1) = CHR 0x5C" "?n + 1 < length ?s"
      by (simp_all add: q True nth_append)
    ultimately show ?thesis by (subst stringEnd.simps) (simp add: True introducers)
  next
    case False
    then obtain r where r: "r \<in> {bel, can, sub, c1ST}" "t = encodeRune r" using t by auto
    then have "valid_rune r" by (auto simp: introducers valid_rune_def)
    then have "decodeRune (drop ?n ?s) = (r, length t)" by (simp add: q r(2) decode_encode)
    moreover have "?n < length ?s" using encodeRune_nonempty [of r] by (simp add: q r(2))
    ultimately show ?thesis using r(1) by (subst stringEnd.simps) (auto simp: introducers)
  qed
  finally have "sequenceLen ?s = length q"
    using sequenceLen_string [OF i, of "concat (map encodeRune ps) @ t @ rest"] by (simp add: q)
  then show ?thesis using introducer_nonempty [OF i] by (simp add: q)
qed

lemma unterminated_dropped:
  assumes "unterminated q"
  shows "sanitize q k = []"
proof -
  obtain i ps where i: "string_introducer i" and ps: "\<forall>r \<in> set ps. payload_rune r"
    and q: "q = i @ concat (map encodeRune ps)" using assms unfolding unterminated_def by blast
  have "stringEnd q (length i) = stringEnd q (length q)"
    using stringEnd_payload [OF ps, of "length i" q "[]"] by (simp add: q)
  also have "\<dots> = length q" by (subst stringEnd.simps) simp
  finally have "sequenceLen (q @ []) = length q" using sequenceLen_string [OF i] by (simp add: q)
  then show ?thesis using introducer_nonempty [OF i] drop_sequence [of q "[]"] by (simp add: q sanitize.simps)
qed

lemma run_all: "\<forall>c \<in> set ps. within lo hi c \<Longrightarrow> \<not> within lo hi f \<Longrightarrow> run_length lo hi (ps @ f # rest) = length ps"
  by (simp add: run_length_def takeWhile_append2)

text \<open>A byte of one class is of no other.\<close>

lemma byte_classes:
  "within (CHR '' '') (CHR ''/'') c \<Longrightarrow> \<not> within (CHR ''0'') (CHR ''?'') c"
  "within (CHR ''@'') (CHR ''~'') c \<Longrightarrow> \<not> within (CHR ''0'') (CHR ''?'') c \<and> \<not> within (CHR '' '') (CHR ''/'') c"
  "within (CHR ''0'') (CHR ''~'') c \<Longrightarrow> \<not> within (CHR '' '') (CHR ''/'') c"
  by (simp_all add: within_def)

lemma csiLen_sequence:
  assumes "\<forall>c \<in> set ps. within (CHR ''0'') (CHR ''?'') c" "\<forall>c \<in> set ms. within (CHR '' '') (CHR ''/'') c"
    and "within (CHR ''@'') (CHR ''~'') f"
  shows "csiLen (i @ ps @ ms @ f # rest) (length i) = length (i @ ps @ ms @ [f])"
proof -
  let ?s = "i @ ps @ ms @ f # rest"
  have "run_length (CHR ''0'') (CHR ''?'') (ps @ ms @ f # rest) = length ps"
  proof (cases ms)
    case Nil
    then show ?thesis using run_all [OF assms(1)] byte_classes(2) [OF assms(3)] by simp
  next
    case (Cons m ms')
    then show ?thesis using run_all [OF assms(1), of m "ms' @ f # rest"] byte_classes(1) [of m] assms(2) by simp
  qed
  moreover have "run_length (CHR '' '') (CHR ''/'') (ms @ f # rest) = length ms"
    using run_all [OF assms(2)] byte_classes(2) [OF assms(3)] by simp
  moreover have "?s ! (length i + length ps + length ms) = f" by (simp add: nth_append)
  ultimately show ?thesis using assms(3) by (simp add: csiLen_def Let_def)
qed

lemma csi_sequence_dropped:
  assumes "csi_sequence q"
  shows "sequenceLen (q @ rest) = length q \<and> q \<noteq> []"
proof -
  obtain i ps ms f where i: "i \<in> {[char_of esc, CHR ''[''], encodeRune c1CSI}"
    and parts: "\<forall>c \<in> set ps. within (CHR ''0'') (CHR ''?'') c" "\<forall>c \<in> set ms. within (CHR '' '') (CHR ''/'') c"
      "within (CHR ''@'') (CHR ''~'') f"
    and q: "q = i @ ps @ ms @ [f]" using assms unfolding csi_sequence_def by blast
  have "sequenceLen (q @ rest) = csiLen (q @ rest) (length i)"
  proof (cases "i = encodeRune c1CSI")
    case True
    have "valid_rune c1CSI" "c1CSI \<noteq> esc" by (simp_all add: introducers valid_rune_def)
    then show ?thesis by (simp add: sequenceLen_def q True decode_encode)
  next
    case False
    then have "i = [char_of esc, CHR ''['']" using i by simp
    moreover have "decodeRune (char_of esc # cs) = (esc, 1)" for cs by (simp add: esc_def)
    ultimately show ?thesis by (simp add: sequenceLen_def escapeLen_def q numeral_2_eq_2)
  qed
  also have "\<dots> = length q" using csiLen_sequence [OF parts, of i rest] by (simp add: q)
  finally show ?thesis by (simp add: q)
qed

lemma esc_sequence_dropped:
  assumes "esc_sequence q"
  shows "sequenceLen (q @ rest) = length q \<and> q \<noteq> []"
proof -
  obtain ms f where ms: "\<forall>c \<in> set ms. within (CHR '' '') (CHR ''/'') c" and f: "within (CHR ''0'') (CHR ''~'') f"
    and bare: "ms = [] \<longrightarrow> f \<notin> set ''[]PX^_''" and q: "q = char_of esc # ms @ [f]"
    using assms unfolding esc_sequence_def by blast
  have "decodeRune (char_of esc # cs) = (esc, 1)" for cs by (simp add: esc_def)
  then have "sequenceLen (q @ rest) = escapeLen (q @ rest)" by (simp add: sequenceLen_def q)
  moreover have "(q @ rest) ! 1 \<notin> set ''[]PX^_''"
  proof (cases ms)
    case (Cons m ms')
    then have "within (CHR '' '') (CHR ''/'') m" using ms by simp
    then have "m \<notin> set ''[]PX^_''" by (auto simp: within_def)
    then show ?thesis by (simp add: q Cons)
  qed (use bare in \<open>simp add: q\<close>)
  moreover have "run_length (CHR '' '') (CHR ''/'') (drop 1 (q @ rest)) = length ms"
    using run_all [OF ms] byte_classes(3) [OF f] by (simp add: q)
  moreover have "(q @ rest) ! (1 + length ms) = f" "length (q @ rest) \<noteq> 1" by (simp_all add: q nth_append)
  ultimately show ?thesis using f by (simp add: escapeLen_def Let_def q)
qed

lemma escape_sequence_dropped: "escape_sequence q \<Longrightarrow> sanitize (q @ rest) k = sanitize rest k"
  using drop_sequence csi_sequence_dropped string_sequence_dropped esc_sequence_dropped
  unfolding escape_sequence_def by metis

section \<open>What is shown\<close>

text \<open>A value in pieces, a rune or an escape sequence each, and what is to be seen of a piece: nothing of
  a sequence, a space for a control or format character (the two layout characters apart, where they
  are kept), every other rune itself.\<close>

datatype piece = Rune nat | Sequence string

definition isFormat :: "nat \<Rightarrow> bool" where
  "isFormat r \<longleftrightarrow> (\<exists>(lo, hi) \<in> set formatRanges. lo \<le> r \<and> r \<le> hi)"

fun pieceText :: "piece \<Rightarrow> string" where
  "pieceText (Rune r) = encodeRune r"
| "pieceText (Sequence q) = q"

fun proper_piece :: "piece \<Rightarrow> bool" where
  "proper_piece (Rune r) \<longleftrightarrow> valid_rune r \<and> r \<notin> {esc, c1CSI, c1OSC, c1DCS, c1SOS, c1PM, c1APC}"
| "proper_piece (Sequence q) \<longleftrightarrow> escape_sequence q"

fun pieceShown :: "bool \<Rightarrow> piece \<Rightarrow> string" where
  "pieceShown keepLayout (Rune r) =
     (if (isControl r \<or> isFormat r) \<and> \<not> (keepLayout \<and> (r = 0x0A \<or> r = 0x09)) then '' '' else encodeRune r)"
| "pieceShown keepLayout (Sequence q) = []"

lemma isUnsafe_iff: "isUnsafe r \<longleftrightarrow> isControl r \<or> isFormat r"
  by (simp add: isUnsafe_def isFormat_def list_ex_iff)

lemma sanitize_piece:
  assumes "proper_piece t"
  shows "sanitize (pieceText t @ rest) k = pieceShown k t @ sanitize rest k"
proof (cases t)
  case (Rune r)
  then have d: "decodeRune (encodeRune r @ rest) = (r, length (encodeRune r))"
    and "sequenceLen (encodeRune r @ rest) = 0"
    using assms by (simp_all add: decode_encode sequenceLen_def)
  then have "sanitize (encodeRune r @ rest) k = encodeRune (shown k r) @ sanitize rest k"
    by (subst sanitize.simps) (simp add: d)
  moreover have "encodeRune 0x20 = '' ''" by (simp add: encodeRune_def valid_rune_def) code_simp
  ultimately show ?thesis by (auto simp: Rune shown_def isUnsafe_iff)
next
  case (Sequence q)
  then show ?thesis using assms escape_sequence_dropped by simp
qed

lemma sanitize_pieces:
  assumes "\<forall>t \<in> set ts. proper_piece t" and "tail = [] \<or> unterminated tail"
  shows "sanitize (concat (map pieceText ts) @ tail) k = concat (map (pieceShown k) ts)"
  using assms(1)
proof (induction ts)
  case Nil
  have "sanitize [] k = []" by (simp add: sanitize.simps)
  then show ?case using assms(2) unterminated_dropped by auto
qed (simp add: sanitize_piece)


lemma encode_ascii: "byte c < 0x80 \<Longrightarrow> encodeRune (byte c) = [c]"
  by (simp add: encodeRune_def valid_rune_def)

lemma encode_ascii_text: "\<forall>c \<in> set s. byte c < 0x80 \<Longrightarrow> concat (map encodeRune (map byte s)) = s"
  by (induction s) (simp_all add: encode_ascii)


end
