(* ===== verification/Bundle_Files.thy ===== *)
theory Bundle_Files
  imports Rule_List_Properties Termsafe
begin

text \<open>
  A bundle as a directory of files (\<^verbatim>\<open>internal/alerts/files.go\<close>).

  The directory tree is the state: the entries of \<^verbatim>\<open>rules/\<close>, one level of folders with the files
  in them, and the files at the top. A symbolic link to a file is a file (it is read, written and
  removed as one); a link to a directory is told apart from a directory, as \<^verbatim>\<open>os.ReadDir\<close> does. The
  file system finds a name by its folded form, so two spellings with one folded form are one entry,
  which keeps the spelling it was created with. Failures that are not a matter of the tree
  (permissions, a full disk) are not modelled.

  What lies outside the repository is the record \<open>codecs\<close>: \<open>cd_fold\<close> stands for lower-casing
  after Unicode normalisation (\<^verbatim>\<open>golang.org/x/text\<close>), \<open>cd_encode\<close> for the YAML and JSON encoders,
  \<open>cd_group\<close>, \<open>cd_points\<close> and \<open>cd_route\<close> for strict decoding into the generated models (from JSON
  when the flag is set, from YAML otherwise), \<open>cd_route_ok\<close> for the generated validation.
\<close>

section \<open>The directory\<close>

datatype file_entry = Plain string | SubDir (is_empty: bool)

datatype folder_entry =
    FolderDir "(string \<times> file_entry) list"
  | FolderLink "(string \<times> file_entry) list"
  | FolderFile

datatype rules_entry = NoRules | RulesFile | RulesDir "(string \<times> folder_entry) list"

record bundle_dir =
  d_rules :: rules_entry
  d_top :: "(string \<times> file_entry) list"

text \<open>The path a command names: nothing yet, something that is no directory, or a directory.\<close>

datatype target = NoTarget | TargetFile | Target bundle_dir

record codecs =
  cd_fold :: "string \<Rightarrow> string"
  cd_encode :: "string \<Rightarrow> json \<Rightarrow> string option"
  cd_group :: "bool \<Rightarrow> string \<Rightarrow> rule_group option"
  cd_points :: "bool \<Rightarrow> string \<Rightarrow> contact_point option list option"
  cd_route :: "bool \<Rightarrow> string \<Rightarrow> route option"
  cd_route_ok :: "route \<Rightarrow> bool"

datatype file_err =
    UnsupportedFormat string
  | GroupsCollide GroupRef GroupRef string
  | CannotEncode string
  | FileSystem string
  | TargetMissing
  | TargetNotDirectory
  | CannotDecode string
  | UnsupportedExtension string
  | BothFilesExist string string
  | GroupFieldMissing string string
  | RuleEmpty string nat
  | RuleFieldMissing string nat string
  | RuleUIDTwice string nat nat string
  | GroupTwice string string string
  | RuleUIDInTwoFiles string string string
  | PointEmpty string
  | PointFieldMissing string string
  | PointTwice string string
  | RouteInvalid string
  | FolderNotPlain string
  | TargetUnreadable string file_err
  | TargetHoldsOther string GroupRef GroupRef
  | TargetOtherExtension string string
  | TargetComparison string err
  | TargetDiffers string nat

definition entry :: "codecs \<Rightarrow> string \<Rightarrow> (string \<times> 'e) list \<Rightarrow> 'e option" where
  "entry C name es = map_option snd (find (\<lambda>x. cd_fold C (fst x) = cd_fold C name) es)"

definition put_entry :: "codecs \<Rightarrow> string \<Rightarrow> 'e \<Rightarrow> (string \<times> 'e) list \<Rightarrow> (string \<times> 'e) list" where
  "put_entry C name e es =
     (if entry C name es = None then es @ [(name, e)]
      else map (\<lambda>x. if cd_fold C (fst x) = cd_fold C name then (fst x, e) else x) es)"

definition drop_entry :: "codecs \<Rightarrow> string \<Rightarrow> (string \<times> 'e) list \<Rightarrow> (string \<times> 'e) list" where
  "drop_entry C name es = filter (\<lambda>x. cd_fold C (fst x) \<noteq> cd_fold C name) es"

definition empty_dir :: bundle_dir where
  "empty_dir = \<lparr>d_rules = NoRules, d_top = []\<rparr>"

section \<open>Names\<close>

definition rulesDirName :: string where "rulesDirName = ''rules''"
definition contactPointsBaseName :: string where "contactPointsBaseName = ''contact-points''"
definition policiesBaseName :: string where "policiesBaseName = ''policies''"

definition bundleExtensions :: "string list" where
  "bundleExtensions = [''.yaml'', ''.yml'', ''.json'']"

text \<open>\<^verbatim>\<open>filepath.Ext\<close>: from the last dot of the last path element.\<close>

definition ext :: "string \<Rightarrow> string" where
  "ext path =
     (let stop = (\<lambda>c. c = CHR ''.'' \<or> c = CHR ''/'');
          back = takeWhile (\<lambda>c. \<not> stop c) (rev path)
      in case dropWhile (\<lambda>c. \<not> stop c) (rev path) of
           c # cs \<Rightarrow> if c = CHR ''.'' then c # rev back else []
         | [] \<Rightarrow> [])"

definition isBundleFile :: "string \<Rightarrow> bool" where
  "isBundleFile name \<longleftrightarrow> toLower (ext name) \<in> set bundleExtensions"

definition safe_char :: "nat \<Rightarrow> nat" where
  "safe_char r = (if r = 0x2F \<or> r = 0x5C \<or> isControl r then 0x5F else r)"

definition sanitizeFileName :: "string \<Rightarrow> string" where
  "sanitizeFileName name =
     (let sanitized = stringsMap safe_char name in
      if sanitized = [] then ''_''
      else if starts_with ''.'' sanitized then CHR ''_'' # tl sanitized
      else sanitized)"

definition groupFolder :: "rule_group \<Rightarrow> string" where
  "groupFolder g = sanitizeFileName (g_FolderUID g)"

definition groupFile :: "string \<Rightarrow> rule_group \<Rightarrow> string" where
  "groupFile fmt g = sanitizeFileName (g_Title g) @ ''.'' @ fmt"

definition rulesPath :: "string \<Rightarrow> string \<Rightarrow> string \<Rightarrow> string" where
  "rulesPath dir folder file = dir @ ''/'' @ rulesDirName @ ''/'' @ folder @ ''/'' @ file"

definition groupFilePath :: "string \<Rightarrow> string \<Rightarrow> rule_group \<Rightarrow> string" where
  "groupFilePath dir fmt g = rulesPath dir (groupFolder g) (groupFile fmt g)"

definition topPath :: "string \<Rightarrow> string \<Rightarrow> string" where
  "topPath dir name = dir @ ''/'' @ name"

section \<open>Writing\<close>

text \<open>A write returns the error that stopped it and the tree it leaves.\<close>

type_synonym write_result = "file_err option \<times> target"

definition opened :: "target \<Rightarrow> bundle_dir option" where
  "opened t = (case t of NoTarget \<Rightarrow> Some empty_dir | TargetFile \<Rightarrow> None | Target d \<Rightarrow> Some d)"

text \<open>\<^verbatim>\<open>os.MkdirAll\<close> of a group's folder and of the directory itself.\<close>

definition mkdirFolder :: "codecs \<Rightarrow> string \<Rightarrow> target \<Rightarrow> target option" where
  "mkdirFolder C folder t =
     (case opened t of None \<Rightarrow> None
      | Some d \<Rightarrow>
          (case d_rules d of
             RulesFile \<Rightarrow> None
           | NoRules \<Rightarrow> Some (Target (d\<lparr>d_rules := RulesDir [(folder, FolderDir [])]\<rparr>))
           | RulesDir fs \<Rightarrow>
               (case entry C folder fs of
                  None \<Rightarrow> Some (Target (d\<lparr>d_rules := RulesDir (put_entry C folder (FolderDir []) fs)\<rparr>))
                | Some FolderFile \<Rightarrow> None
                | Some e \<Rightarrow> Some (Target d))))"

definition writeEntry :: "codecs \<Rightarrow> string \<Rightarrow> string \<Rightarrow> (string \<times> file_entry) list \<Rightarrow> (string \<times> file_entry) list option"
where
  "writeEntry C name data es =
     (case entry C name es of Some (SubDir e) \<Rightarrow> None | _ \<Rightarrow> Some (put_entry C name (Plain data) es))"

definition writeInFolder :: "codecs \<Rightarrow> string \<Rightarrow> string \<Rightarrow> string \<Rightarrow> target \<Rightarrow> target option" where
  "writeInFolder C folder name data t =
     (case t of Target d \<Rightarrow>
        (case d_rules d of RulesDir fs \<Rightarrow>
           (case entry C folder fs of
              Some (FolderDir es) \<Rightarrow> map_option (\<lambda>es'. Target (d\<lparr>d_rules := RulesDir (put_entry C folder (FolderDir es') fs)\<rparr>))
                  (writeEntry C name data es)
            | Some (FolderLink es) \<Rightarrow> map_option (\<lambda>es'. Target (d\<lparr>d_rules := RulesDir (put_entry C folder (FolderLink es') fs)\<rparr>))
                  (writeEntry C name data es)
            | _ \<Rightarrow> None)
         | _ \<Rightarrow> None)
      | _ \<Rightarrow> None)"

text \<open>\<^verbatim>\<open>writeBundleFile\<close> for a group's file and for a file at the top.\<close>

definition writeGroupFile ::
  "codecs \<Rightarrow> string \<Rightarrow> string \<Rightarrow> string \<Rightarrow> string \<Rightarrow> json \<Rightarrow> target \<Rightarrow> write_result" where
  "writeGroupFile C fmt dir folder name v t =
     (case mkdirFolder C folder t of None \<Rightarrow> (Some (FileSystem (rulesPath dir folder name)), t)
      | Some t' \<Rightarrow>
          (case cd_encode C fmt v of None \<Rightarrow> (Some (CannotEncode (rulesPath dir folder name)), t')
           | Some data \<Rightarrow>
               (case writeInFolder C folder name data t' of
                  None \<Rightarrow> (Some (FileSystem (rulesPath dir folder name)), t')
                | Some t'' \<Rightarrow> (None, t''))))"

definition writeTopFile :: "codecs \<Rightarrow> string \<Rightarrow> string \<Rightarrow> string \<Rightarrow> json \<Rightarrow> target \<Rightarrow> write_result" where
  "writeTopFile C fmt dir name v t =
     (case opened t of None \<Rightarrow> (Some (FileSystem (topPath dir name)), t)
      | Some d \<Rightarrow>
          (case cd_encode C fmt v of None \<Rightarrow> (Some (CannotEncode (topPath dir name)), Target d)
           | Some data \<Rightarrow>
               (case writeEntry C name data (d_top d) of
                  None \<Rightarrow> (Some (FileSystem (topPath dir name)), Target d)
                | Some es \<Rightarrow> (None, Target (d\<lparr>d_top := es\<rparr>)))))"

text \<open>The first loop of \<^verbatim>\<open>writeGroupFiles\<close>: the folded paths claimed so far with their groups, and
  what to write, in order.\<close>

type_synonym claims = "(string \<rightharpoonup> rule_group) \<times> rule_group list"

definition claimGroup :: "codecs \<Rightarrow> string \<Rightarrow> string \<Rightarrow> claims \<Rightarrow> rule_group \<Rightarrow> file_err + claims" where
  "claimGroup C fmt dir s g =
     (let path = groupFilePath dir fmt g in
      case fst s (cd_fold C path) of
        Some previous \<Rightarrow> Inl (GroupsCollide (groupRef previous) (groupRef g) path)
      | None \<Rightarrow> Inr ((fst s)(cd_fold C path \<mapsto> g), snd s @ [g]))"

definition writeOneGroup ::
  "codecs \<Rightarrow> marshaller \<Rightarrow> string \<Rightarrow> string \<Rightarrow> rule_group \<Rightarrow> string set \<times> target \<Rightarrow> file_err option \<times> (string set \<times> target)"
where
  "writeOneGroup C M fmt dir g s =
     (case encodableValue (m_group M) stripGroupFields g of
        Inl e \<Rightarrow> (Some (CannotEncode (groupFilePath dir fmt g)), s)
      | Inr v \<Rightarrow>
          (case writeGroupFile C fmt dir (groupFolder g) (groupFile fmt g) v (snd s) of
             (Some e, t) \<Rightarrow> (Some e, (fst s, t))
           | (None, t) \<Rightarrow> (None, (insert (cd_fold C (groupFilePath dir fmt g)) (fst s), t))))"

definition writeGroupFiles ::
  "codecs \<Rightarrow> marshaller \<Rightarrow> string \<Rightarrow> string \<Rightarrow> rule_group option list \<Rightarrow> target \<Rightarrow> file_err option \<times> (string set \<times> target)"
where
  "writeGroupFiles C M fmt dir groups t =
     (case foldR (claimGroup C fmt dir) (Map.empty, []) (present groups) of
        Inl e \<Rightarrow> (Some e, ({}, t))
      | Inr s \<Rightarrow> runS (writeOneGroup C M fmt dir) (snd s) ({}, t))"

definition pruneFolder ::
  "codecs \<Rightarrow> string \<Rightarrow> string set \<Rightarrow> string list option \<Rightarrow> string \<times> folder_entry \<Rightarrow> string \<times> folder_entry" where
  "pruneFolder C dir written keepFolders f =
     (case snd f of
        FolderDir es \<Rightarrow>
          if (case keepFolders of None \<Rightarrow> True
              | Some keep \<Rightarrow> cd_fold C (fst f) \<in> set (map (\<lambda>k. cd_fold C (sanitizeFileName k)) keep))
          then (fst f, FolderDir (filter (\<lambda>x. cd_fold C (rulesPath dir (fst f) (fst x)) \<in> written \<or>
                  (\<forall>data. snd x \<noteq> Plain data) \<or> \<not> isBundleFile (fst x)) es))
          else f
      | _ \<Rightarrow> f)"

definition pruneGroupFiles ::
  "codecs \<Rightarrow> string \<Rightarrow> string set \<Rightarrow> string list option \<Rightarrow> target \<Rightarrow> write_result" where
  "pruneGroupFiles C dir written keepFolders t =
     (case t of
        NoTarget \<Rightarrow> (None, t)
      | TargetFile \<Rightarrow> (Some (FileSystem (topPath dir rulesDirName)), t)
      | Target d \<Rightarrow>
          (case d_rules d of
             NoRules \<Rightarrow> (None, t)
           | RulesFile \<Rightarrow> (Some (FileSystem (topPath dir rulesDirName)), t)
           | RulesDir fs \<Rightarrow> (None, Target (d\<lparr>d_rules := RulesDir (map (pruneFolder C dir written keepFolders) fs)\<rparr>))))"

text \<open>\<^verbatim>\<open>os.Remove\<close> of one spelling of a top-level file; a missing one is no failure.\<close>

definition removeTop :: "codecs \<Rightarrow> string \<Rightarrow> string \<Rightarrow> target \<Rightarrow> write_result" where
  "removeTop C dir name t =
     (case t of
        NoTarget \<Rightarrow> (None, t)
      | TargetFile \<Rightarrow> (Some (FileSystem (topPath dir name)), t)
      | Target d \<Rightarrow>
          (case entry C name (d_top d) of
             None \<Rightarrow> (None, t)
           | Some (SubDir False) \<Rightarrow> (Some (FileSystem (topPath dir name)), t)
           | Some e \<Rightarrow> (None, Target (d\<lparr>d_top := drop_entry C name (d_top d)\<rparr>))))"

text \<open>\<^verbatim>\<open>writeTopLevelFile\<close>: \<open>model\<close> is \<^const>\<open>None\<close> when the part is nil, and otherwise the result
  of \<^verbatim>\<open>encodableValue\<close>.\<close>

definition writeTopLevelFile ::
  "codecs \<Rightarrow> string \<Rightarrow> string \<Rightarrow> string \<Rightarrow> (err + json) option \<Rightarrow> target \<Rightarrow> write_result" where
  "writeTopLevelFile C fmt dir base model t =
     (let name = base @ ''.'' @ fmt in
      case model of
        Some (Inl e) \<Rightarrow> (Some (CannotEncode (topPath dir name)), t)
      | None \<Rightarrow> runS (\<lambda>x. removeTop C dir (base @ x)) bundleExtensions t
      | Some (Inr v) \<Rightarrow>
          thenS (runS (\<lambda>x. removeTop C dir (base @ x)) bundleExtensions) (writeTopFile C fmt dir name v) t)"

definition marshal_points :: "marshaller \<Rightarrow> contact_point option list \<Rightarrow> json option" where
  "marshal_points M ps =
     map_option JArr (those (map (\<lambda>p. case p of None \<Rightarrow> Some JNull | Some c \<Rightarrow> m_point M c) ps))"

record WriteOptions =
  wo_Format :: string
  wo_KeepFolders :: "string list option"

definition formats :: "string list" where "formats = [''json'', ''yaml'']"

text \<open>A list does not tell a nil slice from an empty one: \<open>nilPoints\<close> says that the bundle's
  \<^verbatim>\<open>ContactPoints\<close> is nil.\<close>

definition WriteBundle ::
  "codecs \<Rightarrow> marshaller \<Rightarrow> string \<Rightarrow> Bundle \<Rightarrow> bool \<Rightarrow> WriteOptions \<Rightarrow> target \<Rightarrow> write_result" where
  "WriteBundle C M dir b nilPoints opts t =
     (let fmt = wo_Format opts in
      if fmt \<notin> set formats then (Some (UnsupportedFormat fmt), t)
      else case writeGroupFiles C M fmt dir (b_Groups b) t of
        (Some e, (written, t1)) \<Rightarrow> (Some e, t1)
      | (None, (written, t1)) \<Rightarrow>
          thenS (pruneGroupFiles C dir written (wo_KeepFolders opts))
            (thenS (writeTopLevelFile C fmt dir contactPointsBaseName
                (if nilPoints then None
                 else Some (encodableValue (marshal_points M) stripContactPointListFields (b_ContactPoints b))))
              (writeTopLevelFile C fmt dir policiesBaseName
                (map_option (encodableValue (m_route M) stripRouteFields) (b_Policies b)))) t1)"

section \<open>Reading\<close>

text \<open>\<^verbatim>\<open>os.ReadDir\<close> lists by name.\<close>

definition readDir :: "(string \<times> 'e) list \<Rightarrow> (string \<times> 'e) list" where
  "readDir es = sort_key fst es"

definition decodeBundleFile ::
  "(bool \<Rightarrow> string \<Rightarrow> 'm option) \<Rightarrow> string \<Rightarrow> file_entry \<Rightarrow> file_err + 'm" where
  "decodeBundleFile decode path e =
     (case e of SubDir b \<Rightarrow> Inl (FileSystem path)
      | Plain data \<Rightarrow>
          (let x = toLower (ext path) in
           if x = ''.json'' then (case decode True data of None \<Rightarrow> Inl (CannotDecode path) | Some m \<Rightarrow> Inr m)
           else if x = ''.yaml'' \<or> x = ''.yml''
           then (case decode False data of None \<Rightarrow> Inl (CannotDecode path) | Some m \<Rightarrow> Inr m)
           else Inl (UnsupportedExtension path)))"

definition blank :: "string option \<Rightarrow> bool" where
  "blank v \<longleftrightarrow> v = None \<or> v = Some []"

definition validateRule :: "rule \<Rightarrow> string option" where
  "validateRule r =
     (if blank (r_Title r) then Some ''title is required''
      else if blank (r_Condition r) then Some ''condition is required''
      else if r_Data r = [] then Some ''data is required''
      else if blank (r_ExecErrState r) then Some ''execErrState is required''
      else if blank (r_NoDataState r) then Some ''noDataState is required''
      else if r_For r = None then Some ''for is required''
      else None)"

text \<open>One round of the loop of \<^verbatim>\<open>validateGroup\<close>, over the positions of the uids seen.\<close>

definition validateRuleAt ::
  "string \<Rightarrow> (string \<rightharpoonup> nat) \<Rightarrow> nat \<times> rule option \<Rightarrow> file_err + (string \<rightharpoonup> nat)" where
  "validateRuleAt path seen ir =
     (case snd ir of
        None \<Rightarrow> Inl (RuleEmpty path (fst ir))
      | Some r \<Rightarrow>
          (case validateRule r of
             Some what \<Rightarrow> Inl (RuleFieldMissing path (fst ir) what)
           | None \<Rightarrow>
               if r_UID r = [] then Inr seen
               else case seen (r_UID r) of
                 Some previous \<Rightarrow> Inl (RuleUIDTwice path previous (fst ir) (r_UID r))
               | None \<Rightarrow> Inr (seen(r_UID r \<mapsto> fst ir))))"

definition validateGroup :: "string \<Rightarrow> rule_group \<Rightarrow> file_err option" where
  "validateGroup path g =
     (if g_FolderUID g = [] then Some (GroupFieldMissing path ''folderUid is required'')
      else if g_Title g = [] then Some (GroupFieldMissing path ''title is required'')
      else if g_Interval g \<le> 0 then Some (GroupFieldMissing path ''interval must be greater than 0'')
      else case foldR (validateRuleAt path) Map.empty (zip [0..<length (g_Rules g)] (g_Rules g)) of
        Inl e \<Rightarrow> Some e | Inr s \<Rightarrow> None)"

definition declareRuleUID :: "string \<Rightarrow> (string \<rightharpoonup> string) \<Rightarrow> rule \<Rightarrow> file_err + (string \<rightharpoonup> string)" where
  "declareRuleUID path files r =
     (if r_UID r = [] then Inr files
      else case files (r_UID r) of
        Some previous \<Rightarrow> Inl (RuleUIDInTwoFiles previous path (r_UID r))
      | None \<Rightarrow> Inr (files(r_UID r \<mapsto> path)))"

definition declareRuleUIDs ::
  "string \<Rightarrow> rule_group \<Rightarrow> (string \<rightharpoonup> string) \<Rightarrow> file_err + (string \<rightharpoonup> string)" where
  "declareRuleUIDs path g files = foldR (declareRuleUID path) files (present (g_Rules g))"

text \<open>The bundle files under \<^verbatim>\<open>rules/\<close> in the order they are visited, each with its path.\<close>

definition folderFiles :: "string \<Rightarrow> string \<times> folder_entry \<Rightarrow> (string \<times> file_entry) list" where
  "folderFiles dir f =
     (case snd f of
        FolderDir es \<Rightarrow> map (\<lambda>x. (rulesPath dir (fst f) (fst x), snd x))
          (filter (\<lambda>x. (\<exists>data. snd x = Plain data) \<and> isBundleFile (fst x)) (readDir es))
      | _ \<Rightarrow> [])"

definition groupFiles :: "string \<Rightarrow> (string \<times> folder_entry) list \<Rightarrow> (string \<times> file_entry) list" where
  "groupFiles dir fs = concat (map (folderFiles dir) (readDir fs))"

type_synonym read_state = "rule_group list \<times> (string \<rightharpoonup> string) \<times> (string \<rightharpoonup> string)"

definition readGroupFile ::
  "codecs \<Rightarrow> read_state \<Rightarrow> string \<times> file_entry \<Rightarrow> file_err + read_state" where
  "readGroupFile C s f =
     (case s of (groups, declared, ruleFiles) \<Rightarrow>
      bindR (decodeBundleFile (cd_group C) (fst f) (snd f)) (\<lambda>g.
      case validateGroup (fst f) g of Some e \<Rightarrow> Inl e
      | None \<Rightarrow>
          (case declared (groupID g) of
             Some previous \<Rightarrow> Inl (GroupTwice previous (fst f) (groupID g))
           | None \<Rightarrow>
               bindR (declareRuleUIDs (fst f) g ruleFiles) (\<lambda>ruleFiles'.
               Inr (groups @ [g], declared(groupID g \<mapsto> fst f), ruleFiles')))))"

definition readGroupFiles :: "codecs \<Rightarrow> string \<Rightarrow> bundle_dir \<Rightarrow> file_err + rule_group list" where
  "readGroupFiles C dir d =
     (case d_rules d of
        NoRules \<Rightarrow> Inr []
      | RulesFile \<Rightarrow> Inl (FileSystem (topPath dir rulesDirName))
      | RulesDir fs \<Rightarrow>
          bindR (foldR (readGroupFile C) ([], Map.empty, Map.empty) (groupFiles dir fs))
            (\<lambda>s. Inr (sort_key groupRef (fst s))))"

definition findTop ::
  "codecs \<Rightarrow> string \<Rightarrow> bundle_dir \<Rightarrow> string \<Rightarrow> (string \<times> file_entry) option \<Rightarrow> string
     \<Rightarrow> file_err + (string \<times> file_entry) option" where
  "findTop C dir d base found x =
     (case entry C (base @ x) (d_top d) of
        Some (Plain data) \<Rightarrow>
          (case found of
             Some f \<Rightarrow> Inl (BothFilesExist (fst f) (topPath dir (base @ x)))
           | None \<Rightarrow> Inr (Some (topPath dir (base @ x), Plain data)))
      | _ \<Rightarrow> Inr found)"

definition bundleFilePath ::
  "codecs \<Rightarrow> string \<Rightarrow> bundle_dir \<Rightarrow> string \<Rightarrow> file_err + (string \<times> file_entry) option" where
  "bundleFilePath C dir d base = foldR (findTop C dir d base) None bundleExtensions"

definition validateContactPoint :: "string \<Rightarrow> contact_point \<Rightarrow> file_err option" where
  "validateContactPoint path p =
     (if blank (cp_Type p) then Some (PointFieldMissing path ''contact point type is required'')
      else if cp_Name p = [] then Some (PointFieldMissing path ''contact point name is required'')
      else if cp_Settings p = None then Some (PointFieldMissing path ''contact point settings are required'')
      else None)"

definition readContactPoint ::
  "string \<Rightarrow> string set \<Rightarrow> contact_point option \<Rightarrow> file_err + string set" where
  "readContactPoint path seen p =
     (case p of None \<Rightarrow> Inl (PointEmpty path)
      | Some c \<Rightarrow>
          (case validateContactPoint path c of Some e \<Rightarrow> Inl e
           | None \<Rightarrow> if contactPointID c \<in> seen then Inl (PointTwice path (contactPointID c))
                     else Inr (insert (contactPointID c) seen)))"

definition readContactPointsFile :: "codecs \<Rightarrow> string \<Rightarrow> bundle_dir \<Rightarrow> file_err + contact_point option list" where
  "readContactPointsFile C dir d =
     bindR (bundleFilePath C dir d contactPointsBaseName) (\<lambda>found.
     case found of None \<Rightarrow> Inr []
     | Some f \<Rightarrow>
         bindR (decodeBundleFile (cd_points C) (fst f) (snd f)) (\<lambda>points.
         bindR (foldR (readContactPoint (fst f)) {} points) (\<lambda>seen. Inr points)))"

definition readPolicyFile :: "codecs \<Rightarrow> string \<Rightarrow> bundle_dir \<Rightarrow> file_err + route option" where
  "readPolicyFile C dir d =
     bindR (bundleFilePath C dir d policiesBaseName) (\<lambda>found.
     case found of None \<Rightarrow> Inr None
     | Some f \<Rightarrow>
         bindR (decodeBundleFile (cd_route C) (fst f) (snd f)) (\<lambda>tree.
         if cd_route_ok C tree then Inr (Some tree) else Inl (RouteInvalid (fst f))))"

definition ReadBundle :: "codecs \<Rightarrow> string \<Rightarrow> target \<Rightarrow> file_err + Bundle" where
  "ReadBundle C dir t =
     (case t of
        NoTarget \<Rightarrow> Inl TargetMissing
      | TargetFile \<Rightarrow> Inl TargetNotDirectory
      | Target d \<Rightarrow>
          bindR (readGroupFiles C dir d) (\<lambda>groups.
          bindR (readContactPointsFile C dir d) (\<lambda>points.
          bindR (readPolicyFile C dir d) (\<lambda>policies.
          Inr \<lparr>b_Groups = map Some groups, b_ContactPoints = points, b_Policies = policies\<rparr>))))"

section \<open>Writing some rule groups\<close>

definition sameBase :: "codecs \<Rightarrow> rule_group \<Rightarrow> string \<Rightarrow> bool" where
  "sameBase C g name \<longleftrightarrow> cd_fold C (trim_suffix (ext name) name) = cd_fold C (sanitizeFileName (g_Title g))"

text \<open>The bundle files that stand for a group, one folder at a time.\<close>

definition candidatesIn ::
  "codecs \<Rightarrow> string \<Rightarrow> rule_group \<Rightarrow> (string \<times> file_entry) list \<Rightarrow> string \<times> folder_entry
     \<Rightarrow> file_err + (string \<times> file_entry) list" where
  "candidatesIn C dir g paths f =
     (if cd_fold C (fst f) \<noteq> cd_fold C (groupFolder g) then Inr paths
      else case snd f of
        FolderDir es \<Rightarrow> Inr (paths @ map (\<lambda>x. (rulesPath dir (fst f) (fst x), snd x))
          (filter (\<lambda>x. (\<exists>data. snd x = Plain data) \<and> isBundleFile (fst x) \<and> sameBase C g (fst x)) (readDir es)))
      | _ \<Rightarrow> Inl (FolderNotPlain (topPath (topPath dir rulesDirName) (fst f))))"

definition ruleGroupFiles ::
  "codecs \<Rightarrow> string \<Rightarrow> rule_group \<Rightarrow> target \<Rightarrow> file_err + (string \<times> file_entry) list" where
  "ruleGroupFiles C dir g t =
     (case t of
        NoTarget \<Rightarrow> Inr []
      | TargetFile \<Rightarrow> Inl (FileSystem (topPath dir rulesDirName))
      | Target d \<Rightarrow>
          (case d_rules d of
             NoRules \<Rightarrow> Inr []
           | RulesFile \<Rightarrow> Inl (FileSystem (topPath dir rulesDirName))
           | RulesDir fs \<Rightarrow> foldR (candidatesIn C dir g) [] (readDir fs)))"

definition readCandidate :: "codecs \<Rightarrow> string \<times> file_entry \<Rightarrow> file_err + rule_group" where
  "readCandidate C f =
     bindR (decodeBundleFile (cd_group C) (fst f) (snd f)) (\<lambda>g.
     case validateGroup (fst f) g of Some e \<Rightarrow> Inl e | None \<Rightarrow> Inr g)"

definition checkCandidate ::
  "codecs \<Rightarrow> marshaller \<Rightarrow> string \<Rightarrow> string \<Rightarrow> string set \<Rightarrow> bool \<Rightarrow> rule_group \<Rightarrow> string \<times> file_entry
     \<Rightarrow> file_err option" where
  "checkCandidate C M fmt dir named overwrite g f =
     (case readCandidate C f of
        Inl e \<Rightarrow> Some (TargetUnreadable (fst f) e)
      | Inr existing \<Rightarrow>
          if groupID existing \<noteq> groupID g then Some (TargetHoldsOther (fst f) (groupRef existing) (groupRef g))
          else if \<not> equalFold (ext (fst f)) (ext (groupFilePath dir fmt g))
          then Some (TargetOtherExtension (fst f) (groupFilePath dir fmt g))
          else case otherDifferences M existing g named of
            Inl e \<Rightarrow> Some (TargetComparison (fst f) e)
          | Inr lines \<Rightarrow>
              if lines \<noteq> [] \<and> \<not> overwrite then Some (TargetDiffers (fst f) (length lines)) else None)"

fun first_error :: "('a \<Rightarrow> 'e option) \<Rightarrow> 'a list \<Rightarrow> 'e option" where
  "first_error check [] = None"
| "first_error check (x # xs) = (case check x of Some e \<Rightarrow> Some e | None \<Rightarrow> first_error check xs)"

definition checkRuleGroupTargets ::
  "codecs \<Rightarrow> marshaller \<Rightarrow> string \<Rightarrow> string \<Rightarrow> string set \<Rightarrow> bool \<Rightarrow> target \<Rightarrow> rule_group \<Rightarrow> file_err option" where
  "checkRuleGroupTargets C M fmt dir named overwrite t g =
     (case ruleGroupFiles C dir g t of
        Inl e \<Rightarrow> Some e
      | Inr candidates \<Rightarrow> first_error (checkCandidate C M fmt dir named overwrite g) candidates)"

record RuleGroupWriteOptions =
  rw_Format :: string
  rw_RuleUIDs :: "string list"
  rw_Overwrite :: bool

definition WriteRuleGroups ::
  "codecs \<Rightarrow> marshaller \<Rightarrow> string \<Rightarrow> rule_group option list \<Rightarrow> RuleGroupWriteOptions \<Rightarrow> target \<Rightarrow> write_result" where
  "WriteRuleGroups C M dir groups opts t =
     (let fmt = rw_Format opts in
      if fmt \<notin> set formats then (Some (UnsupportedFormat fmt), t)
      else case first_error (checkRuleGroupTargets C M fmt dir (set (rw_RuleUIDs opts)) (rw_Overwrite opts) t)
          (present groups) of
        Some e \<Rightarrow> (Some e, t)
      | None \<Rightarrow> (case writeGroupFiles C M fmt dir groups t of (stop, (written, t')) \<Rightarrow> (stop, t')))"

end
