(* ===== verification/Bundle_File_Properties.thy ===== *)
theory Bundle_File_Properties
  imports Bundle_Files
begin

text \<open>
  What the bundle directory promises: path components that stay inside it, collisions refused before
  anything is written, and readings that satisfy what a push relies on.
\<close>

section \<open>Path components\<close>

lemma encodeRune_low:
  assumes "c \<in> set (encodeRune r)" and "byte c < 0x80"
  shows "r = byte c"
proof -
  have high: "0x80 \<le> byte c'" if "c' \<in> set (encodeRune r)" "\<not> r < 0x80" for c'
  proof -
    have small: "0xC0 + r div 0x40 < 256" if "r < 0x800" using that by (simp add: div_less_iff_less_mult)
    have a: "0xE0 + r div 0x1000 < 256" if "r < 0x10000"
    proof -
      have "r div 0x1000 < 0x10" using that by (simp add: div_less_iff_less_mult)
      then show ?thesis by simp
    qed
    have b: "0xF0 + r div 0x40000 < 256" if "r < 0x110000"
    proof -
      have "r div 0x40000 < 5" using that by (simp add: div_less_iff_less_mult)
      then show ?thesis by simp
    qed
    have c: "0x80 + n mod 0x40 < 256" for n :: nat
      using mod_less_divisor [of "0x40" n] by linarith
    show ?thesis
      using that small a b c [of r] c [of "r div 0x40"] c [of "r div 0x1000"]
      by (auto simp: encodeRune_def valid_rune_def split: if_splits)
  qed
  show ?thesis
  proof (cases "r < 0x80")
    case True
    then show ?thesis using assms by (auto simp: encodeRune_def valid_rune_def)
  next
    case False
    then show ?thesis using high [OF assms(1)] assms(2) by simp
  qed
qed

lemma stringsMap_low:
  assumes "c \<in> set (stringsMap f s)" and "byte c < 0x80"
  shows "\<exists>r \<in> set (runes s). f r = byte c"
  using assms encodeRune_low by (fastforce simp: stringsMap_def)

lemma safe_char_valid: "valid_rune r \<Longrightarrow> valid_rune (safe_char r)"
  by (simp add: safe_char_def valid_rune_def)

lemma safe_char_safe: "safe_char r \<noteq> 0x2F \<and> safe_char r \<noteq> 0x5C \<and> \<not> isControl (safe_char r)"
  by (auto simp: safe_char_def isControl_def)

definition safe_component :: "string \<Rightarrow> bool" where
  "safe_component c \<longleftrightarrow> c \<noteq> [] \<and> hd c \<noteq> CHR ''.'' \<and> CHR ''/'' \<notin> set c \<and> CHR 0x5C \<notin> set c \<and>
     (\<forall>r \<in> set (runes c). \<not> isControl r)"

lemma stringsMap_safe_char:
  "CHR ''/'' \<notin> set (stringsMap safe_char s) \<and> CHR 0x5C \<notin> set (stringsMap safe_char s) \<and>
     (\<forall>r \<in> set (runes (stringsMap safe_char s)). \<not> isControl r)"
proof -
  have "runes (stringsMap safe_char s) = map safe_char (runes s)"
    by (rule runes_stringsMap) (simp add: runes_valid safe_char_valid)
  moreover have "CHR ''/'' \<notin> set (stringsMap safe_char s)" "CHR 0x5C \<notin> set (stringsMap safe_char s)"
    using stringsMap_low [of _ safe_char s] safe_char_safe by fastforce+
  ultimately show ?thesis using safe_char_safe by auto
qed

text \<open>A folder uid or a title can never leave the bundle directory or name a hidden file: whatever
  its bytes, the path component it becomes is not empty, holds no separator and no control rune, and
  does not start with a dot.\<close>

theorem sanitized_component: "safe_component (sanitizeFileName name)"
proof -
  let ?s = "stringsMap safe_char name"
  note safe = stringsMap_safe_char [of name]
  consider "?s = []" | cs where "?s = CHR ''.'' # cs" | c cs where "?s = c # cs" "c \<noteq> CHR ''.''"
    by (cases ?s) auto
  then show ?thesis
  proof cases
    case 1
    then show ?thesis
      by (simp add: sanitizeFileName_def safe_component_def runes_Cons_ascii isControl_def)
  next
    case 2
    then have "runes ?s = 0x2E # runes cs" by (simp add: runes_Cons_ascii)
    with 2 safe show ?thesis
      by (simp add: sanitizeFileName_def safe_component_def starts_with_def runes_Cons_ascii isControl_def)
  next
    case 3
    with safe show ?thesis
      by (simp add: sanitizeFileName_def safe_component_def starts_with_def)
  qed
qed

text \<open>A name of ordinary characters is its own component.\<close>

definition ordinary :: "char \<Rightarrow> bool" where
  "ordinary c \<longleftrightarrow> 0x20 \<le> byte c \<and> byte c < 0x7F \<and> c \<noteq> CHR ''/'' \<and> c \<noteq> CHR 0x5C"

lemma stringsMap_ordinary: "list_all ordinary s \<Longrightarrow> stringsMap safe_char s = s"
proof (induction s)
  case (Cons c s)
  then have "byte c < 0x80" "byte c \<noteq> 0x2F" "byte c \<noteq> 0x5C" "\<not> isControl (byte c)"
    by (auto simp: ordinary_def isControl_def of_char_eq_iff [of c "CHR ''/''", where ?'a = nat, simplified]
        of_char_eq_iff [of c "CHR 0x5C", where ?'a = nat, simplified])
  moreover from this have "encodeRune (safe_char (byte c)) = [c]"
    by (simp add: safe_char_def encodeRune_def valid_rune_def)
  ultimately show ?case using Cons by (simp add: stringsMap_def runes_Cons_ascii)
qed (simp add: stringsMap_def)

lemma sanitize_ordinary:
  "list_all ordinary s \<Longrightarrow> s \<noteq> [] \<Longrightarrow> hd s \<noteq> CHR ''.'' \<Longrightarrow> sanitizeFileName s = s"
  by (cases s) (simp_all add: sanitizeFileName_def stringsMap_ordinary starts_with_def Let_def)

section \<open>Collisions\<close>

definition foldedPath :: "codecs \<Rightarrow> string \<Rightarrow> string \<Rightarrow> rule_group \<Rightarrow> string" where
  "foldedPath C fmt dir g = cd_fold C (groupFilePath dir fmt g)"

interpretation paths: claim_registry
  "claimGroup C fmt dir" "\<lambda>s. dom (fst s)" "\<lambda>g. Some (foldedPath C fmt dir g)" "\<lambda>g. True" for C fmt dir
  by unfold_locales (auto simp: claimGroup_def foldedPath_def Let_def split: option.splits)

lemma claimGroups_order:
  "foldR (claimGroup C fmt dir) s gs = Inr s' \<Longrightarrow> snd s' = snd s @ gs"
  by (induction gs arbitrary: s) (auto simp: claimGroup_def Let_def split: sum.splits option.splits)

lemma claimGroups_ok_iff:
  "isOk (foldR (claimGroup C fmt dir) (Map.empty, []) gs) \<longleftrightarrow> distinct (map (foldedPath C fmt dir) gs)"
  using paths.run_ok_iff [of C fmt dir "(Map.empty, [])" gs]
  by (simp add: List.map_filter_def comp_def)

lemma claimGroups_error:
  "foldR (claimGroup C fmt dir) s gs = Inl e \<Longrightarrow> \<exists>a b path. e = GroupsCollide a b path"
  by (induction gs arbitrary: s) (auto simp: claimGroup_def Let_def split: sum.splits option.splits)

fun is_collision :: "file_err option \<Rightarrow> bool" where
  "is_collision (Some (GroupsCollide x y path)) = True"
| "is_collision _ = False"

definition collides :: "('s \<Rightarrow> file_err option \<times> 's) \<Rightarrow> bool" where
  "collides f \<longleftrightarrow> (\<exists>st. is_collision (fst (f st)))"

lemma thenS_collides: "\<not> collides f \<Longrightarrow> \<not> collides g \<Longrightarrow> \<not> collides (thenS f g)"
proof -
  assume f: "\<not> collides f" and g: "\<not> collides g"
  have "\<not> is_collision (fst (thenS f g st))" for st
  proof (cases "f st")
    case (Pair stop st')
    then have "\<not> is_collision stop" using f by (metis collides_def fst_conv)
    moreover have "\<not> is_collision (fst (g st'))" using g by (simp add: collides_def)
    ultimately show ?thesis using Pair by (cases stop) (simp_all add: thenS_def)
  qed
  then show "\<not> collides (thenS f g)" by (simp add: collides_def)
qed

lemma runS_collides: "(\<And>x. \<not> collides (step x)) \<Longrightarrow> \<not> collides (runS step xs)"
proof (induction xs)
  case (Cons x xs)
  have "runS step (x # xs) = thenS (step x) (runS step xs)" by (rule ext) (simp add: thenS_def)
  then show ?case using Cons thenS_collides by metis
qed (simp add: collides_def)

lemma writes_collide:
  "\<not> collides (writeOneGroup C M fmt dir g)"
  "\<not> collides (pruneGroupFiles C dir written keep)"
  "\<not> collides (removeTop C dir name)"
  "\<not> collides (writeTopFile C fmt dir name v)"
  by (auto simp: collides_def writeOneGroup_def writeGroupFile_def pruneGroupFiles_def removeTop_def writeTopFile_def
      split: sum.splits option.splits target.splits rules_entry.splits prod.splits file_entry.splits bool.splits)

lemma writeTopLevelFile_collides: "\<not> collides (writeTopLevelFile C fmt dir base model)"
proof -
  have "\<not> collides (runS (\<lambda>x. removeTop C dir (base @ x)) bundleExtensions)"
    by (rule runS_collides) (rule writes_collide)
  moreover from this have "\<not> collides (thenS (runS (\<lambda>x. removeTop C dir (base @ x)) bundleExtensions)
      (writeTopFile C fmt dir (base @ ''.'' @ fmt) v))" for v
    by (rule thenS_collides) (rule writes_collide)
  ultimately show ?thesis
    by (auto simp: collides_def writeTopLevelFile_def Let_def split: option.splits sum.splits)
qed

text \<open>C40: groups that the file system would hold under one name are never written over each other: a
  write fails with a collision exactly when two of its groups fold to one path, and then it leaves
  the directory as it was.\<close>

theorem write_refuses_collision:
  assumes "wo_Format opts \<in> set formats"
  shows "if distinct (map (foldedPath C (wo_Format opts) dir) (present (b_Groups b)))
    then \<not> is_collision (fst (WriteBundle C M dir b nilPoints opts t))
    else is_collision (fst (WriteBundle C M dir b nilPoints opts t)) \<and>
      snd (WriteBundle C M dir b nilPoints opts t) = t"
proof (cases "foldR (claimGroup C (wo_Format opts) dir) (Map.empty, []) (present (b_Groups b))")
  case (Inl e)
  then have "\<not> distinct (map (foldedPath C (wo_Format opts) dir) (present (b_Groups b)))"
    using claimGroups_ok_iff [of C "wo_Format opts" dir "present (b_Groups b)"] by simp
  with Inl claimGroups_error [OF Inl] assms show ?thesis
    by (auto simp: WriteBundle_def writeGroupFiles_def Let_def)
next
  case (Inr s)
  then have d: "distinct (map (foldedPath C (wo_Format opts) dir) (present (b_Groups b)))"
    using claimGroups_ok_iff [of C "wo_Format opts" dir "present (b_Groups b)"] by simp
  have groups: "\<not> is_collision (fst (writeGroupFiles C M (wo_Format opts) dir (b_Groups b) t))"
    using runS_collides [of "writeOneGroup C M (wo_Format opts) dir"]
    by (simp add: writeGroupFiles_def Inr writes_collide) (simp add: collides_def)
  have rest: "\<not> collides (thenS (pruneGroupFiles C dir written keep)
      (thenS (writeTopLevelFile C fmt dir base m) (writeTopLevelFile C fmt dir base' m')))"
    for written keep fmt base m base' m'
    by (intro thenS_collides writes_collide writeTopLevelFile_collides)
  obtain stop written t1 where w: "writeGroupFiles C M (wo_Format opts) dir (b_Groups b) t = (stop, (written, t1))"
    by (metis prod_cases3)
  have "\<not> is_collision (fst (WriteBundle C M dir b nilPoints opts t))"
  proof (cases stop)
    case None
    then show ?thesis using rest assms
      by (simp add: WriteBundle_def w Let_def collides_def)
  next
    case (Some e)
    then show ?thesis using groups assms by (simp add: WriteBundle_def w Let_def)
  qed
  with d show ?thesis by simp
qed

definition plain_codecs :: codecs where
  "plain_codecs = \<lparr>cd_fold = map lower_char, cd_encode = \<lambda>fmt v. Some fmt, cd_group = \<lambda>k data. None,
     cd_points = \<lambda>k data. None, cd_route = \<lambda>k data. None, cd_route_ok = \<lambda>r. True\<rparr>"

definition case_bundle :: Bundle where
  "case_bundle = \<lparr>b_Groups = [Some (sample_group\<lparr>g_Title := ''alpha''\<rparr>), Some (sample_group\<lparr>g_Title := ''Alpha''\<rparr>)],
     b_ContactPoints = [], b_Policies = None\<rparr>"

theorem write_refuses_collision_witness:
  "is_collision (fst (WriteBundle plain_codecs sample_marshaller ''d'' case_bundle True
       \<lparr>wo_Format = ''json'', wo_KeepFolders = None\<rparr> NoTarget)) \<and>
   snd (WriteBundle plain_codecs sample_marshaller ''d'' case_bundle True
       \<lparr>wo_Format = ''json'', wo_KeepFolders = None\<rparr> NoTarget) = NoTarget"
proof -
  let ?opts = "\<lparr>wo_Format = ''json'', wo_KeepFolders = None\<rparr>"
  have "list_all ordinary ''alpha''" "list_all ordinary ''Alpha''" "map lower_char ''Alpha'' = map lower_char ''alpha''"
    by code_simp+
  then have "\<not> distinct (map (foldedPath plain_codecs (wo_Format ?opts) ''d'') (present (b_Groups case_bundle)))"
    by (simp add: case_bundle_def foldedPath_def plain_codecs_def groupFilePath_def groupFile_def groupFolder_def
        rulesPath_def sanitize_ordinary sample_group_def)
  moreover have "wo_Format ?opts \<in> set formats" by (simp add: formats_def)
  ultimately show ?thesis
    using write_refuses_collision [of ?opts plain_codecs "''d''" case_bundle sample_marshaller True NoTarget] by simp
qed

section \<open>What a reading promises\<close>

text \<open>A rule the API can be handed, a group and a contact point likewise.\<close>

definition bundle_uids :: "rule_group list \<Rightarrow> string list" where
  "bundle_uids gs = filter (\<lambda>u. u \<noteq> []) (map r_UID (concat (map (\<lambda>g. present (g_Rules g)) gs)))"

definition wf_group :: "rule_group \<Rightarrow> bool" where
  "wf_group g \<longleftrightarrow> g_FolderUID g \<noteq> [] \<and> g_Title g \<noteq> [] \<and> 0 < g_Interval g \<and> None \<notin> set (g_Rules g) \<and>
     (\<forall>r \<in> set (present (g_Rules g)). validateRule r = None)"

definition wf_bundle :: "Bundle \<Rightarrow> bool" where
  "wf_bundle b \<longleftrightarrow> None \<notin> set (b_Groups b) \<and> sorted (map groupRef (present (b_Groups b))) \<and>
     distinct (map groupID (present (b_Groups b))) \<and> (\<forall>g \<in> set (present (b_Groups b)). wf_group g) \<and>
     distinct (bundle_uids (present (b_Groups b))) \<and> None \<notin> set (b_ContactPoints b) \<and>
     (\<forall>c \<in> set (present (b_ContactPoints b)). \<exists>path. validateContactPoint path c = None) \<and>
     distinct (map contactPointID (present (b_ContactPoints b)))"

definition uid_key :: "rule \<Rightarrow> string option" where
  "uid_key r = (if r_UID r = [] then None else Some (r_UID r))"

lemma uid_keys: "List.map_filter uid_key rs = filter (\<lambda>u. u \<noteq> []) (map r_UID rs)"
  by (induction rs) (simp_all add: uid_key_def List.map_filter_simps)

interpretation group_uids: claim_registry
  "validateRuleAt path" dom "\<lambda>ir. Option.bind (snd ir) uid_key"
  "\<lambda>ir. \<exists>r. snd ir = Some r \<and> validateRule r = None" for path
  by unfold_locales (auto simp: validateRuleAt_def uid_key_def split: option.splits if_splits)

interpretation file_uids: claim_registry
  "declareRuleUID path" dom uid_key "\<lambda>r. True" for path
  by unfold_locales (auto simp: declareRuleUID_def uid_key_def split: option.splits if_splits)

interpretation file_points: claim_registry
  "readContactPoint path" "\<lambda>s. s" "map_option contactPointID"
  "\<lambda>p. \<exists>c. p = Some c \<and> validateContactPoint path c = None" for path
  by unfold_locales (auto simp: readContactPoint_def split: option.splits if_splits)

lemma in_indexed:
  assumes "x \<in> set xs"
  shows "\<exists>i. (i, x) \<in> set (zip [0..<length xs] xs)"
proof -
  obtain i where "i < length xs" "xs ! i = x" using assms by (auto simp: in_set_conv_nth)
  then have "(i, x) = zip [0..<length xs] xs ! i" "i < length (zip [0..<length xs] xs)" by simp_all
  then show ?thesis by (metis nth_mem)
qed

lemma mset_concat_map:
  "mset xs = mset ys \<Longrightarrow> mset (concat (map f xs)) = mset (concat (map f ys))"
proof -
  have "mset (concat (map f zs)) = sum_mset (image_mset (\<lambda>z. mset (f z)) (mset zs))" for zs
    by (induction zs) simp_all
  then show "mset xs = mset ys \<Longrightarrow> mset (concat (map f xs)) = mset (concat (map f ys))" by simp
qed

lemma validateGroup_wf: "validateGroup path g = None \<Longrightarrow> wf_group g"
proof -
  let ?ixs = "zip [0..<length (g_Rules g)] (g_Rules g)"
  assume ok: "validateGroup path g = None"
  then have "isOk (foldR (validateRuleAt path) Map.empty ?ixs)"
    by (auto simp: validateGroup_def isOk_iff split: if_splits sum.splits)
  then have "\<forall>ir \<in> set ?ixs. \<exists>r. snd ir = Some r \<and> validateRule r = None"
    by (simp add: group_uids.run_ok_iff)
  then have "\<forall>x \<in> set (g_Rules g). \<exists>r. x = Some r \<and> validateRule r = None"
    using in_indexed by fastforce
  with ok show ?thesis
    by (fastforce simp: validateGroup_def wf_group_def split: if_splits)
qed

definition read_ok :: "read_state \<Rightarrow> bool" where
  "read_ok s \<longleftrightarrow> (case s of (gs, declared, ruleFiles) \<Rightarrow>
     dom declared = groupID ` set gs \<and> distinct (map groupID gs) \<and> (\<forall>g \<in> set gs. wf_group g) \<and>
     dom ruleFiles = set (bundle_uids gs) \<and> distinct (bundle_uids gs))"

lemma bundle_uids_append: "bundle_uids (gs @ [g]) = bundle_uids gs @ List.map_filter uid_key (present (g_Rules g))"
  by (simp add: bundle_uids_def uid_keys)

lemma readGroupFile_ok:
  assumes "read_ok s" and "readGroupFile C s f = Inr s'"
  shows "read_ok s'"
proof -
  obtain gs declared ruleFiles where s: "s = (gs, declared, ruleFiles)" by (cases s)
  obtain g files where v: "validateGroup (fst f) g = None" and new: "declared (groupID g) = None"
    and uids: "foldR (declareRuleUID (fst f)) ruleFiles (present (g_Rules g)) = Inr files"
    and s': "s' = (gs @ [g], declared(groupID g \<mapsto> fst f), files)"
    using assms(2) by (auto simp: readGroupFile_def s bindR_Inr_iff declareRuleUIDs_def split: option.splits)
  note claims = file_uids.run_claims [OF uids]
  have "distinct (List.map_filter uid_key (present (g_Rules g)))"
    "set (List.map_filter uid_key (present (g_Rules g))) \<inter> dom ruleFiles = {}"
    using file_uids.run_ok_iff [of "fst f" ruleFiles "present (g_Rules g)"] uids by simp_all
  moreover have "groupID g \<notin> groupID ` set gs"
    using assms(1) new by (auto simp: read_ok_def s domIff)
  ultimately show ?thesis
    using assms(1) validateGroup_wf [OF v] claims
    by (auto simp: read_ok_def s s' bundle_uids_append)
qed

lemma readGroupFiles_wf:
  assumes "readGroupFiles C dir d = Inr gs"
  shows "sorted (map groupRef gs) \<and> distinct (map groupID gs) \<and> (\<forall>g \<in> set gs. wf_group g) \<and>
     distinct (bundle_uids gs)"
proof (cases "d_rules d")
  case (RulesDir fs)
  then obtain s where run: "foldR (readGroupFile C) ([], Map.empty, Map.empty) (groupFiles dir fs) = Inr s"
    and gs: "gs = sort_key groupRef (fst s)"
    using assms by (auto simp: readGroupFiles_def bindR_Inr_iff)
  have "read_ok s"
    by (rule foldR_invariant [OF run, where P = read_ok])
      (simp add: read_ok_def bundle_uids_def, rule readGroupFile_ok)
  then have "distinct (map groupID (fst s))" "\<forall>g \<in> set (fst s). wf_group g" "distinct (bundle_uids (fst s))"
    by (auto simp: read_ok_def split: prod.splits)
  moreover have same: "mset gs = mset (fst s)" by (simp add: gs)
  moreover have "mset (map groupID gs) = mset (map groupID (fst s))" using same by simp
  moreover have "mset (bundle_uids gs) = mset (bundle_uids (fst s))"
    unfolding bundle_uids_def using mset_concat_map [OF same, of "\<lambda>g. present (g_Rules g)"]
    by (simp only: mset_filter mset_map)
  ultimately show ?thesis
    by (metis gs mset_eq_imp_distinct_iff mset_eq_setD sorted_sort_key)
qed (use assms in \<open>auto simp: readGroupFiles_def bundle_uids_def\<close>)

lemma readContactPoints_wf:
  assumes "foldR (readContactPoint path) {} points = Inr seen"
  shows "None \<notin> set points \<and> (\<forall>c \<in> set (present points). validateContactPoint path c = None) \<and>
     distinct (map contactPointID (present points))"
proof -
  have "(\<forall>p \<in> set points. \<exists>c. p = Some c \<and> validateContactPoint path c = None) \<and>
      distinct (List.map_filter (map_option contactPointID) points)"
    using file_points.run_ok_iff [of path "{}" points] assms by simp
  moreover have "List.map_filter (map_option contactPointID) points = map contactPointID (present points)"
    by (induction points) (auto simp: List.map_filter_simps split: option.splits)
  ultimately show ?thesis by auto
qed

text \<open>C39: what a push reads is well formed: the groups of a bundle that was read are complete, sorted
  and pairwise different, their rules are complete and no uid names two rules anywhere in the bundle,
  and the contact points are complete and pairwise different; so no two entries of a plan made from
  it have one kind and id, which is what the report of a push rests on.\<close>

theorem read_bundle_well_formed:
  assumes "ReadBundle C dir t = Inr b"
  shows "wf_bundle b \<and> distinct (localKeys b)"
proof -
  obtain d groups where t: "t = Target d" and g: "readGroupFiles C dir d = Inr groups"
    and p: "readContactPointsFile C dir d = Inr (b_ContactPoints b)" and bg: "b_Groups b = map Some groups"
    using assms by (auto simp: ReadBundle_def bindR_Inr_iff split: target.splits)
  have points: "None \<notin> set (b_ContactPoints b) \<and>
      (\<forall>c \<in> set (present (b_ContactPoints b)). \<exists>path. validateContactPoint path c = None) \<and>
      distinct (map contactPointID (present (b_ContactPoints b)))"
    using p readContactPoints_wf
    by (fastforce simp: readContactPointsFile_def bindR_Inr_iff split: option.splits)
  note groups = readGroupFiles_wf [OF g]
  have "wf_bundle b" using points groups by (auto simp: wf_bundle_def bg)
  moreover have "distinct (localKeys b)"
    using points groups
    by (auto simp: localKeys_def bg distinct_map inj_on_def split: option.splits)
  ultimately show ?thesis ..
qed

text \<open>A group whose rule is complete, and a directory that holds it.\<close>

definition full_group :: rule_group where
  "full_group = sample_group\<lparr>g_Rules := [Some (sample_rule\<lparr>r_ExecErrState := Some ''Error'',
     r_NoDataState := Some ''OK'', r_For := Some 0\<rparr>)]\<rparr>"

definition group_codecs :: codecs where
  "group_codecs = plain_codecs\<lparr>cd_group := \<lambda>k data. if k then Some full_group else None\<rparr>"

definition group_dir :: bundle_dir where
  "group_dir = \<lparr>d_rules = RulesDir [(''infra'', FolderDir [(''notes.txt'', Plain ''n''), (''hosts.json'', Plain ''h'')])],
     d_top = []\<rparr>"

lemma group_dir_read:
  "ReadBundle group_codecs ''d'' (Target group_dir) =
     Inr \<lparr>b_Groups = [Some full_group], b_ContactPoints = [], b_Policies = None\<rparr>"
proof -
  have names: "isBundleFile ''hosts.json''" "\<not> isBundleFile ''notes.txt''"
    and ext: "toLower (ext (rulesPath ''d'' ''infra'' ''hosts.json'')) = ''.json''" by code_simp+
  have "groupFiles ''d'' [(''infra'', FolderDir [(''notes.txt'', Plain ''n''), (''hosts.json'', Plain ''h'')])] =
      [(rulesPath ''d'' ''infra'' ''hosts.json'', Plain ''h'')]"
    by (simp add: groupFiles_def folderFiles_def readDir_def names split: if_splits)
  moreover have "decodeBundleFile (cd_group group_codecs) (rulesPath ''d'' ''infra'' ''hosts.json'') (Plain ''h'') =
      Inr full_group"
    by (simp add: decodeBundleFile_def ext group_codecs_def)
  moreover have "validateGroup path full_group = None" for path
    by (simp add: validateGroup_def full_group_def sample_defs validateRuleAt_def validateRule_def blank_def)
  moreover have "declareRuleUIDs path full_group Map.empty = Inr [''cpu'' \<mapsto> path]" for path
    by (simp add: declareRuleUIDs_def declareRuleUID_def full_group_def sample_defs)
  ultimately have "readGroupFiles group_codecs ''d'' group_dir = Inr [full_group]"
    by (simp add: readGroupFiles_def group_dir_def readGroupFile_def)
  moreover have "bundleFilePath group_codecs ''d'' group_dir base = Inr None" for base
    by (simp add: bundleFilePath_def bundleExtensions_def findTop_def group_dir_def entry_def)
  ultimately show ?thesis
    by (simp add: ReadBundle_def readContactPointsFile_def readPolicyFile_def)
qed

theorem read_bundle_well_formed_witness:
  "\<exists>b. ReadBundle group_codecs ''d'' (Target group_dir) = Inr b \<and> wf_bundle b \<and> distinct (localKeys b)"
  using read_bundle_well_formed [OF group_dir_read] group_dir_read by blast

end
