(* ===== verification/Bundle_Round_Trip.thy ===== *)
theory Bundle_Round_Trip
  imports Bundle_File_Properties
begin

text \<open>
  Writing a bundle into a directory and reading it back. The laws of what lies outside the
  repository are \<open>folds\<close> (the folding of names works path element by path element and leaves plain
  lower-case names alone) and \<open>storable\<close> (decoding what was encoded yields the model without the
  stripped fields, for the objects of the bundle).
\<close>

section \<open>Laws\<close>

definition plain_char :: "char \<Rightarrow> bool" where
  "plain_char c \<longleftrightarrow> c \<in> set ''abcdefghijklmnopqrstuvwxyz-.''"

definition folds :: "codecs \<Rightarrow> bool" where
  "folds C \<longleftrightarrow>
     (\<forall>p q. cd_fold C (p @ ''/'' @ q) = cd_fold C p @ ''/'' @ cd_fold C q) \<and>
     (\<forall>q. CHR ''/'' \<notin> set q \<longrightarrow> CHR ''/'' \<notin> set (cd_fold C q)) \<and>
     (\<forall>s. list_all plain_char s \<longrightarrow> cd_fold C s = s) \<and>
     (\<forall>n. \<forall>e \<in> set bundleExtensions. toLower (ext n) = e \<longleftrightarrow> ext (cd_fold C n) = e)"

definition clean_group :: "rule_group \<Rightarrow> rule_group" where
  "clean_group g = g\<lparr>g_Rules := map (map_option file_rule_of) (g_Rules g)\<rparr>"

definition clean_point :: "contact_point \<Rightarrow> contact_point" where
  "clean_point c = c\<lparr>cp_Provenance := []\<rparr>"

definition clean_bundle :: "Bundle \<Rightarrow> Bundle" where
  "clean_bundle b = \<lparr>b_Groups = map (map_option clean_group) (b_Groups b),
     b_ContactPoints = map (map_option clean_point) (b_ContactPoints b),
     b_Policies = map_option routeBody (b_Policies b)\<rparr>"

definition stored :: "codecs \<Rightarrow> string \<Rightarrow> err + json \<Rightarrow> string \<Rightarrow> bool" where
  "stored C fmt encoded data \<longleftrightarrow> (\<exists>v. encoded = Inr v \<and> cd_encode C fmt v = Some data)"

definition storable :: "codecs \<Rightarrow> marshaller \<Rightarrow> string \<Rightarrow> Bundle \<Rightarrow> bool" where
  "storable C M fmt b \<longleftrightarrow>
     (\<forall>g \<in> set (present (b_Groups b)). \<forall>data. stored C fmt (encodableValue (m_group M) stripGroupFields g) data \<longrightarrow>
        cd_group C (fmt = ''json'') data = Some (clean_group g)) \<and>
     (\<forall>data. stored C fmt (encodableValue (marshal_points M) stripContactPointListFields (b_ContactPoints b)) data \<longrightarrow>
        cd_points C (fmt = ''json'') data = Some (map (map_option clean_point) (b_ContactPoints b))) \<and>
     (\<forall>tree data. b_Policies b = Some tree \<longrightarrow> stored C fmt (encodableValue (m_route M) stripRouteFields tree) data \<longrightarrow>
        cd_route C (fmt = ''json'') data = Some (routeBody tree) \<and> cd_route_ok C (routeBody tree))"

lemma split_at_slash:
  "CHR ''/'' \<notin> set a \<Longrightarrow> CHR ''/'' \<notin> set a' \<Longrightarrow> a @ CHR ''/'' # b = a' @ CHR ''/'' # b' \<longleftrightarrow> a = a' \<and> b = b'"
  by (induction a arbitrary: a') (auto simp: Cons_eq_append_conv append_eq_Cons_conv, case_tac a', auto)

lemma fold_rulesPath:
  assumes "folds C"
  shows "cd_fold C (rulesPath dir f n) = cd_fold C (dir @ ''/'' @ rulesDirName) @ ''/'' @ cd_fold C f @ ''/'' @ cd_fold C n"
proof -
  have "rulesPath dir f n = (dir @ ''/'' @ rulesDirName) @ ''/'' @ (f @ ''/'' @ n)" by (simp add: rulesPath_def)
  moreover have slash: "cd_fold C (p @ ''/'' @ q) = cd_fold C p @ ''/'' @ cd_fold C q" for p q
    using assms unfolding folds_def by blast
  ultimately show ?thesis by (simp only: slash)
qed

lemma rulesPath_inject:
  assumes C: "folds C" and "CHR ''/'' \<notin> set f" "CHR ''/'' \<notin> set f'"
  shows "cd_fold C (rulesPath dir f n) = cd_fold C (rulesPath dir f' n') \<longleftrightarrow>
     cd_fold C f = cd_fold C f' \<and> cd_fold C n = cd_fold C n'"
proof -
  have "CHR ''/'' \<notin> set (cd_fold C f)" "CHR ''/'' \<notin> set (cd_fold C f')"
    using assms unfolding folds_def by blast+
  then show ?thesis by (simp add: fold_rulesPath [OF C] split_at_slash)
qed

lemma fold_bundleFile:
  assumes "folds C" "cd_fold C m = cd_fold C n" "toLower (ext n) = e" "e \<in> set bundleExtensions"
  shows "toLower (ext m) = e"
  using assms unfolding folds_def by metis

section \<open>Directory entries\<close>

lemma entry_put:
  "entry C n (put_entry C m e es) = (if cd_fold C n = cd_fold C m then Some e else entry C n es)"
proof (cases "entry C m es")
  case None
  then have "\<forall>x \<in> set es. cd_fold C (fst x) \<noteq> cd_fold C m"
    by (auto simp: entry_def find_None_iff)
  then show ?thesis using None
    by (induction es) (auto simp: entry_def put_entry_def)
next
  case (Some e0)
  let ?put = "map (\<lambda>x. if cd_fold C (fst x) = cd_fold C m then (fst x, e) else x)"
  have other: "cd_fold C n \<noteq> cd_fold C m \<Longrightarrow> entry C n (?put xs) = entry C n xs" for xs
    by (induction xs) (auto simp: entry_def)
  have same: "entry C m xs \<noteq> None \<Longrightarrow> cd_fold C n = cd_fold C m \<Longrightarrow> entry C n (?put xs) = Some e" for xs
    by (induction xs) (auto simp: entry_def)
  show ?thesis using Some other same [of es] by (auto simp: put_entry_def)
qed

lemma entry_drop:
  "entry C n (drop_entry C m es) = (if cd_fold C n = cd_fold C m then None else entry C n es)"
  by (induction es) (auto simp: entry_def drop_entry_def)

definition wf_names :: "codecs \<Rightarrow> (string \<times> 'e) list \<Rightarrow> bool" where
  "wf_names C es \<longleftrightarrow> (\<forall>x \<in> set es. CHR ''/'' \<notin> set (fst x)) \<and> distinct (map (\<lambda>x. cd_fold C (fst x)) es)"

lemma fst_put: "entry C m es \<noteq> None \<Longrightarrow> map fst (put_entry C m e es) = map fst es"
  by (auto simp: put_entry_def)

lemma wf_names_put:
  assumes "wf_names C es" "CHR ''/'' \<notin> set m"
  shows "wf_names C (put_entry C m e es)"
proof (cases "entry C m es = None")
  case True
  then have "cd_fold C m \<notin> set (map (\<lambda>x. cd_fold C (fst x)) es)"
    by (fastforce simp: entry_def find_None_iff)
  with True assms show ?thesis by (auto simp: wf_names_def put_entry_def)
next
  case False
  have "map (\<lambda>x. cd_fold C (fst x)) (put_entry C m e es) = map (\<lambda>x. cd_fold C (fst x)) es"
    using arg_cong [OF fst_put [OF False, of e], of "map (cd_fold C)"] by (simp add: comp_def)
  moreover have "fst ` set (put_entry C m e es) = fst ` set es"
    using arg_cong [OF fst_put [OF False, of e], of set] by simp
  ultimately show ?thesis using assms unfolding wf_names_def by (metis image_iff)
qed

lemma entry_Some_in: "entry C n es = Some e \<Longrightarrow> \<exists>m. (m, e) \<in> set es \<and> cd_fold C m = cd_fold C n"
  by (auto simp: entry_def dest!: find_Some_in)

lemma entry_of_member:
  assumes "wf_names C es" "(m, e) \<in> set es" "cd_fold C m = cd_fold C n"
  shows "entry C n es = Some e"
  using assms
proof (induction es)
  case (Cons x xs)
  show ?case
  proof (cases "cd_fold C (fst x) = cd_fold C n")
    case True
    then have "x = (m, e)" using Cons.prems by (auto simp: wf_names_def image_iff)
    then show ?thesis using Cons.prems(3) by (simp add: entry_def)
  next
    case False
    then have "(m, e) \<in> set xs" using Cons.prems by auto
    then have "entry C n xs = Some e" using Cons by (auto simp: wf_names_def)
    with False show ?thesis by (simp add: entry_def)
  qed
qed simp

section \<open>The tree\<close>

definition wf_folder :: "codecs \<Rightarrow> folder_entry \<Rightarrow> bool" where
  "wf_folder C f = (case f of FolderDir es \<Rightarrow> wf_names C es | FolderLink es \<Rightarrow> False | FolderFile \<Rightarrow> True)"

definition wf_rules :: "codecs \<Rightarrow> rules_entry \<Rightarrow> bool" where
  "wf_rules C r \<longleftrightarrow>
     (case r of RulesDir fs \<Rightarrow> wf_names C fs \<and> (\<forall>f \<in> set fs. wf_folder C (snd f)) | _ \<Rightarrow> True)"

definition rules_of :: "target \<Rightarrow> rules_entry" where
  "rules_of t = (case t of Target d \<Rightarrow> d_rules d | _ \<Rightarrow> NoRules)"

definition top_of :: "target \<Rightarrow> (string \<times> file_entry) list" where
  "top_of t = (case t of Target d \<Rightarrow> d_top d | _ \<Rightarrow> [])"

definition is_dir :: "target \<Rightarrow> bool" where
  "is_dir t = (case t of Target d \<Rightarrow> True | _ \<Rightarrow> False)"

definition file_at :: "codecs \<Rightarrow> rules_entry \<Rightarrow> string \<Rightarrow> string \<Rightarrow> file_entry option" where
  "file_at C r f n =
     (case r of RulesDir fs \<Rightarrow> (case entry C f fs of Some (FolderDir es) \<Rightarrow> entry C n es | _ \<Rightarrow> None) | _ \<Rightarrow> None)"

lemma wf_folder_entry:
  assumes "wf_rules C (RulesDir fs)" "entry C f fs = Some e"
  shows "wf_folder C e"
  using assms by (auto simp: wf_rules_def dest!: entry_Some_in)

lemma wf_rules_put:
  assumes "wf_rules C (RulesDir fs)" "CHR ''/'' \<notin> set f" "wf_folder C e"
  shows "wf_rules C (RulesDir (put_entry C f e fs))"
proof -
  have "\<forall>x \<in> set (put_entry C f e fs). wf_folder C (snd x)"
    using assms by (auto simp: wf_rules_def put_entry_def split: if_splits)
  with assms show ?thesis by (auto simp: wf_rules_def wf_names_put)
qed

lemma mkdirFolder_ok:
  assumes t: "is_dir t" and wf: "wf_rules C (rules_of t)" and f: "CHR ''/'' \<notin> set f"
    and mk: "mkdirFolder C f t = Some t'"
  shows "is_dir t' \<and> wf_rules C (rules_of t') \<and> top_of t' = top_of t \<and>
     file_at C (rules_of t') g n = file_at C (rules_of t) g n \<and>
     (\<exists>fs es. rules_of t' = RulesDir fs \<and> entry C f fs = Some (FolderDir es))"
proof -
  obtain d where d: "t = Target d" using t by (cases t) (auto simp: is_dir_def)
  show ?thesis
  proof (cases "d_rules d")
    case NoRules
    with mk have t': "t' = Target (d\<lparr>d_rules := RulesDir [(f, FolderDir [])]\<rparr>)"
      by (simp add: mkdirFolder_def opened_def d)
    then show ?thesis using f NoRules
      by (simp add: d is_dir_def rules_of_def top_of_def wf_rules_def wf_names_def wf_folder_def file_at_def entry_def)
  next
    case RulesFile
    with mk show ?thesis by (simp add: mkdirFolder_def opened_def d)
  next
    case (RulesDir fs)
    have wf: "wf_rules C (RulesDir fs)" using wf by (simp add: d rules_of_def RulesDir)
    show ?thesis
    proof (cases "entry C f fs")
      case None
      with mk have t': "t' = Target (d\<lparr>d_rules := RulesDir (put_entry C f (FolderDir []) fs)\<rparr>)"
        by (simp add: mkdirFolder_def opened_def d RulesDir)
      have "cd_fold C g = cd_fold C f \<Longrightarrow> entry C g fs = None" using None by (simp add: entry_def)
      then show ?thesis using wf_rules_put [OF wf f, of "FolderDir []"]
        by (auto simp: t' d is_dir_def rules_of_def top_of_def RulesDir file_at_def entry_put wf_folder_def
            wf_names_def) (simp add: entry_def)
    next
      case (Some e)
      with mk wf_folder_entry [OF wf Some] have "t' = Target d" "\<exists>es. e = FolderDir es"
        by (cases e; simp add: mkdirFolder_def opened_def d RulesDir wf_folder_def)+
      then show ?thesis using Some wf
        by (auto simp: d is_dir_def rules_of_def top_of_def RulesDir)
    qed
  qed
qed

lemma writeInFolder_ok:
  assumes wf: "wf_rules C (rules_of t)" and n: "CHR ''/'' \<notin> set n"
    and f: "rules_of t = RulesDir fs" "entry C f fs = Some (FolderDir es)" "CHR ''/'' \<notin> set f"
    and w: "writeInFolder C f n data t = Some t'"
  shows "is_dir t' \<and> wf_rules C (rules_of t') \<and> top_of t' = top_of t \<and>
     file_at C (rules_of t') g m = (if cd_fold C g = cd_fold C f \<and> cd_fold C m = cd_fold C n
       then Some (Plain data) else file_at C (rules_of t) g m)"
proof -
  obtain d where d: "t = Target d" "d_rules d = RulesDir fs"
    using f(1) by (cases t) (auto simp: rules_of_def)
  obtain es' where es': "writeEntry C n data es = Some es'"
    and t': "t' = Target (d\<lparr>d_rules := RulesDir (put_entry C f (FolderDir es') fs)\<rparr>)"
    using w f(2) by (auto simp: writeInFolder_def d)
  have put: "es' = put_entry C n (Plain data) es"
    using es' by (auto simp: writeEntry_def split: option.splits file_entry.splits)
  have wf': "wf_rules C (RulesDir fs)" using wf by (simp add: d rules_of_def)
  have "wf_names C es" using wf_folder_entry [OF wf' f(2)] by (simp add: wf_folder_def)
  then have "wf_folder C (FolderDir es')" using n by (simp add: wf_folder_def put wf_names_put)
  from wf_rules_put [OF wf' f(3) this] have "wf_rules C (rules_of t')" by (simp add: t' rules_of_def)
  moreover have "entry C g fs = entry C f fs" if "cd_fold C g = cd_fold C f" using that by (simp add: entry_def)
  ultimately show ?thesis using f(2)
    by (auto simp: t' d is_dir_def top_of_def rules_of_def file_at_def entry_put put)
qed

lemma writeGroupFile_ok:
  assumes "is_dir t" "wf_rules C (rules_of t)" "CHR ''/'' \<notin> set f" "CHR ''/'' \<notin> set n"
    and w: "writeGroupFile C fmt dir f n v t = (None, t')"
  shows "is_dir t' \<and> wf_rules C (rules_of t') \<and> top_of t' = top_of t \<and>
     (\<exists>data. cd_encode C fmt v = Some data \<and>
       (\<forall>g m. file_at C (rules_of t') g m = (if cd_fold C g = cd_fold C f \<and> cd_fold C m = cd_fold C n
         then Some (Plain data) else file_at C (rules_of t) g m)))"
proof -
  obtain t1 data where mk: "mkdirFolder C f t = Some t1" and enc: "cd_encode C fmt v = Some data"
    and wr: "writeInFolder C f n data t1 = Some t'"
    using w by (auto simp: writeGroupFile_def split: option.splits)
  note made = mkdirFolder_ok [OF assms(1-3) mk]
  from made obtain fs es where fs: "rules_of t1 = RulesDir fs" "entry C f fs = Some (FolderDir es)" by blast
  have "wf_rules C (rules_of t1)" using made by blast
  note written = writeInFolder_ok [OF this assms(4) fs assms(3) wr]
  show ?thesis using made written enc by metis
qed

section \<open>Writing the groups\<close>

lemma no_slash: "CHR ''/'' \<notin> set (groupFolder g)" "fmt \<in> set formats \<Longrightarrow> CHR ''/'' \<notin> set (groupFile fmt g)"
  using sanitized_component by (auto simp: groupFolder_def groupFile_def safe_component_def formats_def)

lemma foldedPath_inject:
  assumes "folds C" "fmt \<in> set formats" "CHR ''/'' \<notin> set f"
  shows "cd_fold C (rulesPath dir f n) = foldedPath C fmt dir g \<longleftrightarrow>
     cd_fold C f = cd_fold C (groupFolder g) \<and> cd_fold C n = cd_fold C (groupFile fmt g)"
  unfolding foldedPath_def groupFilePath_def by (rule rulesPath_inject [OF assms(1,3) no_slash(1)])

definition group_data :: "codecs \<Rightarrow> marshaller \<Rightarrow> string \<Rightarrow> rule_group \<Rightarrow> string \<Rightarrow> bool" where
  "group_data C M fmt g data \<longleftrightarrow> stored C fmt (encodableValue (m_group M) stripGroupFields g) data"

lemma group_data_unique: "group_data C M fmt g data \<Longrightarrow> group_data C M fmt g data' \<Longrightarrow> data = data'"
  by (auto simp: group_data_def stored_def)

lemma writeOneGroup_ok:
  assumes "is_dir t" "wf_rules C (rules_of t)" "fmt \<in> set formats"
    and w: "writeOneGroup C M fmt dir g (W, t) = (None, (W', t'))"
  shows "W' = insert (foldedPath C fmt dir g) W \<and> is_dir t' \<and> wf_rules C (rules_of t') \<and> top_of t' = top_of t \<and>
     (\<exists>data. group_data C M fmt g data \<and>
       (\<forall>f n. file_at C (rules_of t') f n =
         (if cd_fold C f = cd_fold C (groupFolder g) \<and> cd_fold C n = cd_fold C (groupFile fmt g)
          then Some (Plain data) else file_at C (rules_of t) f n)))"
proof -
  obtain v where v: "encodableValue (m_group M) stripGroupFields g = Inr v"
    and wr: "writeGroupFile C fmt dir (groupFolder g) (groupFile fmt g) v t = (None, t')"
    and W': "W' = insert (foldedPath C fmt dir g) W"
    using w by (auto simp: writeOneGroup_def foldedPath_def split: sum.splits prod.splits option.splits)
  from writeGroupFile_ok [OF assms(1,2) no_slash(1) no_slash(2) [OF assms(3)] wr] v W'
  show ?thesis by (auto simp: group_data_def stored_def)
qed

lemma writeGroups_ok:
  assumes "folds C" "fmt \<in> set formats" "is_dir t" "wf_rules C (rules_of t)"
    and "distinct (map (foldedPath C fmt dir) gs)"
    and "runS (writeOneGroup C M fmt dir) gs (W, t) = (None, (W', t'))"
  shows "W' = W \<union> foldedPath C fmt dir ` set gs \<and> is_dir t' \<and> wf_rules C (rules_of t') \<and> top_of t' = top_of t \<and>
     (\<forall>g \<in> set gs. \<exists>data. group_data C M fmt g data \<and>
        file_at C (rules_of t') (groupFolder g) (groupFile fmt g) = Some (Plain data)) \<and>
     (\<forall>f n. CHR ''/'' \<notin> set f \<longrightarrow> cd_fold C (rulesPath dir f n) \<notin> foldedPath C fmt dir ` set gs \<longrightarrow>
        file_at C (rules_of t') f n = file_at C (rules_of t) f n)"
  using assms(3-6)
proof (induction gs arbitrary: W t)
  case (Cons g gs)
  obtain W1 t1 where one: "writeOneGroup C M fmt dir g (W, t) = (None, (W1, t1))"
    and rest: "runS (writeOneGroup C M fmt dir) gs (W1, t1) = (None, (W', t'))"
    using Cons.prems(4) by (auto split: prod.splits option.splits)
  from writeOneGroup_ok [OF Cons.prems(1,2) assms(2) one] obtain data where
    W1: "W1 = insert (foldedPath C fmt dir g) W" and t1: "is_dir t1" "wf_rules C (rules_of t1)" "top_of t1 = top_of t"
    and data: "group_data C M fmt g data"
    and at: "\<And>f n. file_at C (rules_of t1) f n =
         (if cd_fold C f = cd_fold C (groupFolder g) \<and> cd_fold C n = cd_fold C (groupFile fmt g)
          then Some (Plain data) else file_at C (rules_of t) f n)" by blast
  have d: "distinct (map (foldedPath C fmt dir) gs)" using Cons.prems(3) by simp
  note IH = Cons.IH [OF t1(1,2) d rest]
  have "foldedPath C fmt dir g \<notin> foldedPath C fmt dir ` set gs" using Cons.prems(3) by simp
  then have "file_at C (rules_of t') (groupFolder g) (groupFile fmt g) = Some (Plain data)"
    using IH at no_slash(1) by (simp add: foldedPath_def groupFilePath_def)
  moreover have "file_at C (rules_of t') f n = file_at C (rules_of t) f n"
    if "CHR ''/'' \<notin> set f" "cd_fold C (rulesPath dir f n) \<notin> foldedPath C fmt dir ` set (g # gs)" for f n
  proof -
    have "file_at C (rules_of t') f n = file_at C (rules_of t1) f n" using IH that by auto
    moreover have "\<not> (cd_fold C f = cd_fold C (groupFolder g) \<and> cd_fold C n = cd_fold C (groupFile fmt g))"
      using that foldedPath_inject [OF assms(1,2) that(1), of dir n g] by auto
    ultimately show ?thesis using at by auto
  qed
  ultimately show ?case using IH W1 t1(3) data by auto
qed simp

section \<open>Pruning and enumerating\<close>

lemma wf_names_filter: "wf_names C es \<Longrightarrow> wf_names C (filter P es)"
  by (auto simp: wf_names_def distinct_map_filter)

lemma wf_names_member_inject:
  "wf_names C es \<Longrightarrow> x \<in> set es \<Longrightarrow> y \<in> set es \<Longrightarrow> cd_fold C (fst x) = cd_fold C (fst y) \<Longrightarrow> x = y"
  by (auto simp: wf_names_def distinct_map dest: inj_onD)

lemma folderFiles_in:
  "(p, e) \<in> set (folderFiles dir f) \<longleftrightarrow>
     (\<exists>es n data. snd f = FolderDir es \<and> (n, Plain data) \<in> set es \<and> isBundleFile n \<and>
       p = rulesPath dir (fst f) n \<and> e = Plain data)"
  by (cases "snd f") (force simp: folderFiles_def readDir_def)+

lemma groupFiles_in:
  "(p, e) \<in> set (groupFiles dir fs) \<longleftrightarrow>
     (\<exists>f es n data. (f, FolderDir es) \<in> set fs \<and> (n, Plain data) \<in> set es \<and> isBundleFile n \<and>
       p = rulesPath dir f n \<and> e = Plain data)"
  by (force simp: groupFiles_def readDir_def folderFiles_in)

lemma set_readDir [simp]: "set (readDir es) = set es"
  by (simp add: readDir_def)

lemma distinct_map_inj: "inj k \<Longrightarrow> distinct (map k xs) \<longleftrightarrow> distinct xs"
  by (auto simp: distinct_map intro: inj_on_subset)

lemma sorted_names: "wf_names C es \<Longrightarrow> wf_names C (readDir es)"
proof -
  have "mset (map (\<lambda>x. cd_fold C (fst x)) (readDir es)) = mset (map (\<lambda>x. cd_fold C (fst x)) es)"
    by (simp only: mset_map readDir_def mset_sort)
  from mset_eq_imp_distinct_iff [OF this] show "wf_names C es \<Longrightarrow> wf_names C (readDir es)"
    unfolding wf_names_def set_readDir by blast
qed

text \<open>No two files of the listing fold to one path.\<close>

lemma folderFiles_distinct:
  assumes C: "folds C" and f: "CHR ''/'' \<notin> set (fst f)" and wf: "wf_folder C (snd f)"
  shows "distinct (map (\<lambda>x. cd_fold C (fst x)) (folderFiles dir f))"
proof (cases "snd f")
  case (FolderDir es)
  then have names: "wf_names C (readDir es)" using wf by (simp add: wf_folder_def sorted_names)
  let ?files = "filter (\<lambda>x. (\<exists>data. snd x = Plain data) \<and> isBundleFile (fst x)) (readDir es)"
  have "distinct (map (\<lambda>x. cd_fold C (fst x)) ?files)"
    using wf_names_filter [OF names] by (simp add: wf_names_def)
  moreover have "map (\<lambda>x. cd_fold C (fst x)) (folderFiles dir f) =
      map (\<lambda>n. cd_fold C (dir @ ''/'' @ rulesDirName) @ ''/'' @ cd_fold C (fst f) @ ''/'' @ n)
        (map (\<lambda>x. cd_fold C (fst x)) ?files)"
    by (simp add: folderFiles_def FolderDir fold_rulesPath [OF C] comp_def)
  moreover have "inj (\<lambda>n. cd_fold C (dir @ ''/'' @ rulesDirName) @ ''/'' @ cd_fold C (fst f) @ ''/'' @ n)"
    by (rule injI) simp
  ultimately show ?thesis by (simp only: distinct_map_inj)
qed (simp_all add: folderFiles_def)

lemma groupFiles_distinct:
  assumes C: "folds C" and wf: "wf_rules C (RulesDir fs)"
  shows "distinct (map (\<lambda>x. cd_fold C (fst x)) (groupFiles dir fs))"
proof -
  have names: "wf_names C (readDir fs)" using wf by (simp add: wf_rules_def sorted_names)
  have folders: "\<forall>f \<in> set (readDir fs). CHR ''/'' \<notin> set (fst f) \<and> wf_folder C (snd f)"
    using wf by (auto simp: wf_rules_def wf_names_def readDir_def)
  have "distinct (map (\<lambda>x. cd_fold C (fst x)) (concat (map (folderFiles dir) gs)))"
    if "wf_names C gs" "\<forall>f \<in> set gs. CHR ''/'' \<notin> set (fst f) \<and> wf_folder C (snd f)" for gs
    using that
  proof (induction gs)
    case (Cons g gs)
    have "False" if x: "x \<in> set (folderFiles dir g)" and f: "f \<in> set gs" and y: "y \<in> set (folderFiles dir f)"
        and same: "cd_fold C (fst x) = cd_fold C (fst y)" for x f y
    proof -
      obtain n m where "fst x = rulesPath dir (fst g) n" "fst y = rulesPath dir (fst f) m"
        using x y folderFiles_in by (metis prod.collapse)
      then have "cd_fold C (fst g) = cd_fold C (fst f)"
        using same rulesPath_inject [OF C] Cons.prems(2) f by simp
      then show False using Cons.prems(1) f by (auto simp: wf_names_def image_iff)
    qed
    then have "set (map (\<lambda>x. cd_fold C (fst x)) (folderFiles dir g)) \<inter>
        set (map (\<lambda>x. cd_fold C (fst x)) (concat (map (folderFiles dir) gs))) = {}" by fastforce
    then show ?case using Cons folderFiles_distinct [OF C, of g dir] by (simp add: wf_names_def)
  qed simp
  from this [OF names folders] show ?thesis by (simp add: groupFiles_def)
qed

end
