(* ===== verification/Bundle_Write_Read.thy ===== *)
theory Bundle_Write_Read
  imports Bundle_Round_Trip
begin

text \<open>
  What a directory holds after a bundle was written into it, and that reading it gives the bundle
  back.
\<close>

section \<open>Reading a listing\<close>

lemma validateGroup_ok:
  assumes "wf_group g" and "distinct (bundle_uids [g])"
  shows "validateGroup path g = None"
proof -
  let ?ixs = "zip [0..<length (g_Rules g)] (g_Rules g)"
  have keys: "List.map_filter (\<lambda>ir. Option.bind (snd ir) uid_key) (zip ks rs) =
      List.map_filter uid_key (present rs)" if "length ks = length rs" for ks :: "nat list" and rs
    using that
  proof (induction ks rs rule: list_induct2)
    case (Cons k ks x xs)
    then show ?case by (cases x) (auto simp: List.map_filter_simps split: option.splits)
  qed (simp add: List.map_filter_simps)
  have "\<forall>ir \<in> set ?ixs. \<exists>r. snd ir = Some r \<and> validateRule r = None"
  proof
    fix ir assume "ir \<in> set ?ixs"
    then have "snd ir \<in> set (g_Rules g)" by (metis prod.collapse set_zip_rightD)
    with assms(1) show "\<exists>r. snd ir = Some r \<and> validateRule r = None"
      by (cases "snd ir") (auto simp: wf_group_def)
  qed
  then have "isOk (foldR (validateRuleAt path) Map.empty ?ixs)"
    using assms(2) keys [of "[0..<length (g_Rules g)]" "g_Rules g"]
    by (simp add: group_uids.run_ok_iff bundle_uids_def uid_keys)
  then show ?thesis
    using assms(1) by (auto simp: validateGroup_def wf_group_def isOk_iff)
qed

lemma bundle_uids_Cons: "bundle_uids (g # gs) = bundle_uids [g] @ bundle_uids gs"
  by (simp add: bundle_uids_def)

lemma bundle_uids_app: "bundle_uids (gs @ hs) = bundle_uids gs @ bundle_uids hs"
  by (simp add: bundle_uids_def)

definition decodes :: "codecs \<Rightarrow> string \<times> file_entry \<Rightarrow> rule_group \<Rightarrow> bool" where
  "decodes C f g \<longleftrightarrow> decodeBundleFile (cd_group C) (fst f) (snd f) = Inr g"

lemma readGroupFile_accepts:
  assumes s: "read_ok s" and f: "decodes C f g" and g: "wf_group g"
    and "distinct (map groupID (fst s @ [g]))" and "distinct (bundle_uids (fst s @ [g]))"
  shows "\<exists>s'. readGroupFile C s f = Inr s' \<and> read_ok s' \<and> fst s' = fst s @ [g]"
proof -
  obtain gs declared files where st: "s = (gs, declared, files)" by (cases s)
  have uids: "distinct (bundle_uids [g])" "set (bundle_uids [g]) \<inter> set (bundle_uids gs) = {}"
    using assms(5) by (auto simp: st bundle_uids_app)
  then have "isOk (foldR (declareRuleUID (fst f)) files (present (g_Rules g)))"
    using s by (simp add: file_uids.run_ok_iff read_ok_def st bundle_uids_def uid_keys)
  then obtain files' where files': "declareRuleUIDs (fst f) g files = Inr files'"
    by (auto simp: declareRuleUIDs_def isOk_iff)
  have new: "declared (groupID g) = None" using s assms(4) by (auto simp: read_ok_def st)
  have "readGroupFile C s f = Inr (gs @ [g], declared(groupID g \<mapsto> fst f), files')"
    using f by (simp add: readGroupFile_def st decodes_def validateGroup_ok [OF g uids(1)] new files')
  with readGroupFile_ok [OF s] show ?thesis by (auto simp: st)
qed

lemma readGroupFiles_accepts:
  assumes "list_all2 (decodes C) fs gs" and "read_ok s" and "\<forall>g \<in> set gs. wf_group g"
    and "distinct (map groupID (fst s @ gs))" and "distinct (bundle_uids (fst s @ gs))"
  shows "\<exists>s'. foldR (readGroupFile C) s fs = Inr s' \<and> fst s' = fst s @ gs"
  using assms
proof (induction arbitrary: s rule: list_all2_induct)
  case (Cons f fs g gs)
  have "distinct (bundle_uids (fst s @ [g]))"
    using Cons.prems(4) bundle_uids_Cons [of g gs] by (auto simp: bundle_uids_app)
  with Cons.prems Cons.hyps(1) obtain s' where s': "readGroupFile C s f = Inr s'" "read_ok s'" "fst s' = fst s @ [g]"
    using readGroupFile_accepts [of s C f g] by auto
  with Cons.prems Cons.IH [of s'] show ?case by simp
qed simp

lemma sort_restores:
  assumes "mset xs = mset ys" and "sorted (map f ys)" and "distinct (map f ys)"
  shows "sort_key f xs = ys"
proof (rule sort_key_inj_key_eq)
  show "mset xs = mset ys" by (rule assms)
  show "inj_on f (set xs)" using assms(1,3) by (metis distinct_map mset_eq_setD)
  show "sorted (map f ys)" by (rule assms)
qed

lemma bundle_uids_mset: "mset gs = mset hs \<Longrightarrow> mset (bundle_uids gs) = mset (bundle_uids hs)"
  using mset_concat_map [of gs hs "\<lambda>g. present (g_Rules g)"]
  unfolding bundle_uids_def by (simp only: mset_filter mset_map)

lemma distinct_groupRefs: "distinct (map groupID gs) \<Longrightarrow> distinct (map groupRef gs)"
proof -
  assume "distinct (map groupID gs)"
  then have "distinct (map groupRefID (map groupRef gs))" by (simp add: groupID_def [abs_def] comp_def)
  then show ?thesis unfolding distinct_map [of groupRefID] ..
qed

section \<open>What pruning leaves\<close>

definition listing :: "string \<Rightarrow> rules_entry \<Rightarrow> (string \<times> file_entry) list" where
  "listing dir r = (case r of RulesDir fs \<Rightarrow> groupFiles dir fs | _ \<Rightarrow> [])"

lemma listing_distinct:
  "folds C \<Longrightarrow> wf_rules C r \<Longrightarrow> distinct (map (\<lambda>x. cd_fold C (fst x)) (listing dir r))"
  by (cases r) (simp_all add: listing_def groupFiles_distinct)

lemma listing_at:
  assumes wf: "wf_rules C r" and x: "(p, e) \<in> set (listing dir r)"
  obtains f n data where "p = rulesPath dir f n" "CHR ''/'' \<notin> set f" "e = Plain data" "isBundleFile n"
    "file_at C r f n = Some (Plain data)"
proof -
  obtain fs f es n data where r: "r = RulesDir fs" and f: "(f, FolderDir es) \<in> set fs"
    and n: "(n, Plain data) \<in> set es" "isBundleFile n" "p = rulesPath dir f n" "e = Plain data"
    using x by (cases r) (auto simp: listing_def groupFiles_in)
  have "wf_names C fs" "wf_names C es" "CHR ''/'' \<notin> set f"
    using wf f by (fastforce simp: r wf_rules_def wf_folder_def wf_names_def)+
  then have "file_at C r f n = Some (Plain data)"
    using entry_of_member [OF _ f refl] entry_of_member [OF _ n(1) refl] by (simp add: r file_at_def)
  then show ?thesis using that n \<open>CHR ''/'' \<notin> set f\<close> by blast
qed

lemma listing_of_file:
  assumes C: "folds C" and wf: "wf_rules C r" and at: "file_at C r f n = Some (Plain data)"
    and e: "toLower (ext n) = e" "e \<in> set bundleExtensions"
  shows "\<exists>f' n'. (rulesPath dir f' n', Plain data) \<in> set (listing dir r) \<and> cd_fold C f' = cd_fold C f \<and>
     cd_fold C n' = cd_fold C n"
proof -
  obtain fs es where r: "r = RulesDir fs" "entry C f fs = Some (FolderDir es)" "entry C n es = Some (Plain data)"
    using at by (auto simp: file_at_def split: rules_entry.splits option.splits folder_entry.splits)
  obtain f' n' where "(f', FolderDir es) \<in> set fs" "cd_fold C f' = cd_fold C f"
    "(n', Plain data) \<in> set es" "cd_fold C n' = cd_fold C n"
    using entry_Some_in [OF r(2)] entry_Some_in [OF r(3)] by blast
  moreover from this have "isBundleFile n'"
    using fold_bundleFile [OF C _ e, of n'] e(2) by (simp add: isBundleFile_def)
  ultimately have "(rulesPath dir f' n', Plain data) \<in> set (listing dir r)"
    unfolding listing_def r rules_entry.case groupFiles_in by blast
  then show ?thesis using \<open>cd_fold C f' = cd_fold C f\<close> \<open>cd_fold C n' = cd_fold C n\<close> by blast
qed

lemma ext_path: "ext (d @ ''/'' @ n) = ext n"
proof -
  define P where "P = (\<lambda>c. \<not> (c = CHR ''.'' \<or> c = CHR ''/''))"
  have P: "\<not> P (CHR ''/'')" by (simp add: P_def)
  have "takeWhile P (xs @ CHR ''/'' # ys) = takeWhile P xs" for xs ys
    using P by (induction xs) auto
  moreover have "dropWhile P (xs @ CHR ''/'' # ys) = dropWhile P xs @ CHR ''/'' # ys" for xs ys
    using P by (induction xs) auto
  moreover have "rev (d @ ''/'' @ n) = rev n @ CHR ''/'' # rev d" by simp
  moreover have "ext s = (case dropWhile P (rev s) of c # cs \<Rightarrow>
      if c = CHR ''.'' then c # rev (takeWhile P (rev s)) else [] | [] \<Rightarrow> [])" for s
    by (simp only: ext_def P_def Let_def)
  ultimately show ?thesis by (cases "dropWhile P (rev n)") (simp_all del: dropWhile_eq_Nil_conv)
qed

lemma ext_rulesPath: "ext (rulesPath dir f n) = ext n"
  using ext_path [of "dir @ ''/'' @ rulesDirName @ ''/'' @ f" n] by (simp add: rulesPath_def)

lemma pruned_folder:
  "(f, FolderDir es) \<in> set (map (pruneFolder C dir W None) fs) \<longleftrightarrow>
     (\<exists>es0. (f, FolderDir es0) \<in> set fs \<and> es = filter (\<lambda>x. cd_fold C (rulesPath dir f (fst x)) \<in> W \<or>
                  (\<forall>data. snd x \<noteq> Plain data) \<or> \<not> isBundleFile (fst x)) es0)"
proof (induction fs)
  case (Cons x fs)
  obtain n e where "x = (n, e)" by (cases x)
  with Cons show ?case by (cases e) (auto simp: pruneFolder_def)
qed simp

lemma pruned_files:
  "(p, e) \<in> set (groupFiles dir (map (pruneFolder C dir W None) fs)) \<longleftrightarrow>
     (p, e) \<in> set (groupFiles dir fs) \<and> cd_fold C p \<in> W"
proof -
  let ?kept = "\<lambda>f x. cd_fold C (rulesPath dir f (fst x)) \<in> W \<or> (\<forall>data. snd x \<noteq> Plain data) \<or> \<not> isBundleFile (fst x)"
  have "(p, e) \<in> set (groupFiles dir (map (pruneFolder C dir W None) fs)) \<longleftrightarrow>
     (\<exists>f es n data. (f, FolderDir es) \<in> set fs \<and> (n, Plain data) \<in> set (filter (?kept f) es) \<and> isBundleFile n \<and>
       p = rulesPath dir f n \<and> e = Plain data)"
    unfolding groupFiles_in pruned_folder by blast
  also have "\<dots> \<longleftrightarrow>
     (\<exists>f es n data. ((f, FolderDir es) \<in> set fs \<and> (n, Plain data) \<in> set es \<and> isBundleFile n \<and>
       p = rulesPath dir f n \<and> e = Plain data) \<and> cd_fold C p \<in> W)"
  proof -
    have "(n, Plain data) \<in> set (filter (?kept f) es) \<and> isBundleFile n \<and> p = rulesPath dir f n \<and> Q \<longleftrightarrow>
        ((n, Plain data) \<in> set es \<and> isBundleFile n \<and> p = rulesPath dir f n \<and> Q) \<and> cd_fold C p \<in> W"
      for f n data es Q
      by auto
    then show ?thesis by (simp only: conj_assoc)
  qed
  finally show ?thesis unfolding groupFiles_in by blast
qed

lemma prune_ok:
  assumes t: "is_dir t" and wf: "wf_rules C (rules_of t)" and p: "pruneGroupFiles C dir W None t = (None, t')"
  shows "is_dir t' \<and> wf_rules C (rules_of t') \<and> top_of t' = top_of t \<and> rules_of t' \<noteq> RulesFile \<and>
     set (listing dir (rules_of t')) = {x \<in> set (listing dir (rules_of t)). cd_fold C (fst x) \<in> W}"
proof -
  obtain d where d: "t = Target d" using t by (cases t) (auto simp: is_dir_def)
  show ?thesis
  proof (cases "d_rules d")
    case (RulesDir fs)
    let ?prune = "pruneFolder C dir W None"
    have t': "t' = Target (d\<lparr>d_rules := RulesDir (map ?prune fs)\<rparr>)"
      using p by (simp add: pruneGroupFiles_def d RulesDir)
    have name: "fst (?prune f) = fst f" for f by (simp add: pruneFolder_def split: folder_entry.splits)
    have "wf_folder C (snd (?prune f))" if "wf_folder C (snd f)" for f
      using that by (auto simp: pruneFolder_def wf_folder_def wf_names_filter split: folder_entry.splits)
    then have "wf_rules C (rules_of t')" using wf
      by (auto simp: t' d rules_of_def RulesDir wf_rules_def wf_names_def name comp_def)
    moreover have "set (groupFiles dir (map ?prune fs)) = {x \<in> set (groupFiles dir fs). cd_fold C (fst x) \<in> W}"
      by (rule set_eqI) (auto simp: pruned_files)
    ultimately show ?thesis
      by (simp add: t' d is_dir_def rules_of_def top_of_def RulesDir listing_def)
  qed (use assms in \<open>auto simp: pruneGroupFiles_def d is_dir_def rules_of_def top_of_def listing_def\<close>)
qed

section \<open>The groups come back\<close>

lemma clean_group_ref [simp]:
  "groupRef (clean_group g) = groupRef g" "groupID (clean_group g) = groupID g"
  by (simp_all add: clean_group_def groupRef_def groupID_def)

lemma validate_file_rule [simp]: "validateRule (file_rule_of r) = validateRule r" "r_UID (file_rule_of r) = r_UID r"
  by (simp_all add: validateRule_def file_rule_of_def)

lemma present_map_option [simp]: "present (map (map_option f) xs) = map f (present xs)"
proof (induction xs)
  case (Cons x xs)
  then show ?case by (cases x) simp_all
qed simp

lemma clean_group_rules: "present (g_Rules (clean_group g)) = map file_rule_of (present (g_Rules g))"
  by (simp add: clean_group_def)

lemma wf_clean_group: "wf_group g \<Longrightarrow> wf_group (clean_group g)"
  by (fastforce simp: wf_group_def clean_group_def)

lemma bundle_uids_clean [simp]: "bundle_uids (map clean_group gs) = bundle_uids gs"
proof -
  have "map r_UID (present (g_Rules (clean_group g))) = map r_UID (present (g_Rules g))" for g
    by (simp add: clean_group_rules)
  then show ?thesis by (simp add: bundle_uids_def map_concat comp_def del: set_present)
qed

lemma entry_fold: "cd_fold C a = cd_fold C a' \<Longrightarrow> entry C a = entry C a'"
  by (rule ext) (simp add: entry_def)

lemma file_at_fold:
  assumes "cd_fold C f = cd_fold C f'" "cd_fold C n = cd_fold C n'"
  shows "file_at C r f n = file_at C r f' n'"
  unfolding file_at_def entry_fold [OF assms(1)] entry_fold [OF assms(2)] ..

lemma ext_groupFile:
  assumes "fmt \<in> set formats"
  shows "toLower (ext (groupFile fmt g)) = CHR ''.'' # fmt" and "CHR ''.'' # fmt \<in> set bundleExtensions"
proof -
  have "ext (s @ ''.json'') = ''.json''" "ext (s @ ''.yaml'') = ''.yaml''" for s
    by (simp_all add: ext_def Let_def)
  moreover have "toLower ''.json'' = ''.json''" "toLower ''.yaml'' = ''.yaml''" by code_simp+
  ultimately show "toLower (ext (groupFile fmt g)) = CHR ''.'' # fmt" "CHR ''.'' # fmt \<in> set bundleExtensions"
    using assms by (auto simp: formats_def groupFile_def bundleExtensions_def)
qed

lemma decode_written:
  assumes "fmt \<in> set formats" "toLower (ext p) = CHR ''.'' # fmt"
  shows "decodeBundleFile decode p (Plain data) =
     (case decode (fmt = ''json'') data of None \<Rightarrow> Inl (CannotDecode p) | Some m \<Rightarrow> Inr m)"
  using assms by (auto simp: decodeBundleFile_def formats_def)

text \<open>Every file of the listing holds one of the groups, and every group has a file in it.\<close>

lemma written_owner:
  assumes C: "folds C" and fmt: "fmt \<in> set formats" and wf: "wf_rules C r"
    and at: "\<forall>g \<in> set gs. \<exists>data. group_data C M fmt g data \<and>
        file_at C r (groupFolder g) (groupFile fmt g) = Some (Plain data)"
    and dec: "\<forall>g \<in> set gs. \<forall>data. group_data C M fmt g data \<longrightarrow>
        cd_group C (fmt = ''json'') data = Some (clean_group g)"
    and x: "x \<in> set (listing dir r)" "cd_fold C (fst x) \<in> foldedPath C fmt dir ` set gs"
  shows "\<exists>g \<in> set gs. cd_fold C (fst x) = foldedPath C fmt dir g \<and> decodes C x (clean_group g)"
proof -
  obtain f n data where p: "fst x = rulesPath dir f n" and f: "CHR ''/'' \<notin> set f" and e: "snd x = Plain data"
    and n: "isBundleFile n" and stored: "file_at C r f n = Some (Plain data)"
    using listing_at [OF wf, of "fst x" "snd x" dir] x(1) unfolding prod.collapse by metis
  obtain g where g: "g \<in> set gs" and path: "cd_fold C (fst x) = foldedPath C fmt dir g" using x(2) by auto
  have fold: "cd_fold C f = cd_fold C (groupFolder g)" "cd_fold C n = cd_fold C (groupFile fmt g)"
    using path foldedPath_inject [OF C fmt f] by (simp_all add: p)
  obtain data' where "group_data C M fmt g data'" "data' = data"
    using at g stored file_at_fold [OF fold] by fastforce
  then have data: "cd_group C (fmt = ''json'') data = Some (clean_group g)" using dec g by blast
  have "toLower (ext (fst x)) = CHR ''.'' # fmt"
    using fold_bundleFile [OF C fold(2) ext_groupFile [OF fmt]] by (simp add: p ext_rulesPath)
  then have "decodes C x (clean_group g)"
    by (simp add: decodes_def e decode_written [OF fmt] data)
  with g path show ?thesis by blast
qed

lemma written_covered:
  assumes C: "folds C" and fmt: "fmt \<in> set formats" and wf: "wf_rules C r"
    and at: "file_at C r (groupFolder g) (groupFile fmt g) = Some (Plain data)"
  shows "\<exists>x \<in> set (listing dir r). cd_fold C (fst x) = foldedPath C fmt dir g"
proof -
  obtain f n where x: "(rulesPath dir f n, Plain data) \<in> set (listing dir r)"
    and fold: "cd_fold C f = cd_fold C (groupFolder g)" "cd_fold C n = cd_fold C (groupFile fmt g)"
    using listing_of_file [OF C wf at ext_groupFile [OF fmt]] by blast
  have "cd_fold C (rulesPath dir f n) = foldedPath C fmt dir g"
    using fold by (simp add: foldedPath_def groupFilePath_def fold_rulesPath [OF C])
  with x show ?thesis by force
qed

lemma listing_reads:
  assumes C: "folds C" and fmt: "fmt \<in> set formats" and wf: "wf_rules C r"
    and at: "\<forall>g \<in> set gs. \<exists>data. group_data C M fmt g data \<and>
        file_at C r (groupFolder g) (groupFile fmt g) = Some (Plain data)"
    and dec: "\<forall>g \<in> set gs. \<forall>data. group_data C M fmt g data \<longrightarrow>
        cd_group C (fmt = ''json'') data = Some (clean_group g)"
    and d: "distinct (map (foldedPath C fmt dir) gs)"
    and wf': "wf_rules C r'"
    and only: "set (listing dir r') = {x \<in> set (listing dir r). cd_fold C (fst x) \<in> foldedPath C fmt dir ` set gs}"
  shows "\<exists>gs'. list_all2 (decodes C) (listing dir r') (map clean_group gs') \<and> mset gs' = mset gs"
proof -
  let ?L = "listing dir r'" and ?path = "foldedPath C fmt dir"
  have "\<forall>x \<in> set ?L. \<exists>g. g \<in> set gs \<and> cd_fold C (fst x) = ?path g \<and> decodes C x (clean_group g)"
    unfolding only using written_owner [OF C fmt wf at dec] by blast
  then obtain own where own: "\<forall>x \<in> set ?L. own x \<in> set gs \<and> cd_fold C (fst x) = ?path (own x) \<and>
      decodes C x (clean_group (own x))" by metis
  have "map ?path (map own ?L) = map (\<lambda>x. cd_fold C (fst x)) ?L" using own by simp
  with listing_distinct [OF C wf'] have "distinct (map own ?L)" by (metis distinct_map)
  moreover have "set (map own ?L) = set gs"
  proof
    show "set (map own ?L) \<subseteq> set gs" using own by auto
    show "set gs \<subseteq> set (map own ?L)"
    proof
      fix g assume g: "g \<in> set gs"
      then obtain x where x: "x \<in> set ?L" "cd_fold C (fst x) = ?path g"
        using at written_covered [OF C fmt wf, of g] only by fastforce
      then have "own x = g" using own g d by (auto simp: distinct_map dest: inj_onD)
      with x(1) show "g \<in> set (map own ?L)" by auto
    qed
  qed
  moreover have "distinct gs" using d by (simp add: distinct_map)
  ultimately have "mset (map own ?L) = mset gs" by (simp only: set_eq_iff_mset_eq_distinct)
  moreover have "list_all2 (decodes C) ?L (map clean_group (map own ?L))"
    using own by (simp add: list_all2_conv_all_nth)
  ultimately show ?thesis by blast
qed

lemma clean_group_maps [simp]:
  "groupRef \<circ> clean_group = groupRef" "groupID \<circ> clean_group = groupID"
  by auto

lemma groups_read:
  assumes reads: "list_all2 (decodes C) (listing dir (d_rules d)) (map clean_group gs')" "mset gs' = mset gs"
    and "d_rules d \<noteq> RulesFile"
    and gs: "sorted (map groupRef gs)" "distinct (map groupID gs)" "\<forall>g \<in> set gs. wf_group g"
      "distinct (bundle_uids gs)"
  shows "readGroupFiles C dir d = Inr (map clean_group gs)"
proof -
  have ids: "mset (map groupID gs') = mset (map groupID gs)" using reads(2) by simp
  have "distinct (map groupID (map clean_group gs'))"
    using gs(2) mset_eq_imp_distinct_iff [OF ids] by simp
  moreover have "distinct (bundle_uids (map clean_group gs'))"
    using gs(4) mset_eq_imp_distinct_iff [OF bundle_uids_mset [OF reads(2)]] by simp
  moreover have "\<forall>g \<in> set (map clean_group gs'). wf_group g"
    using gs(3) wf_clean_group mset_eq_setD [OF reads(2)] by auto
  ultimately obtain s where s: "foldR (readGroupFile C) ([], Map.empty, Map.empty) (listing dir (d_rules d)) = Inr s"
      "fst s = map clean_group gs'"
    using readGroupFiles_accepts [OF reads(1), of "([], Map.empty, Map.empty)"]
    by (auto simp: read_ok_def bundle_uids_def)
  have "sort_key groupRef (map clean_group gs') = map clean_group gs"
  proof (rule sort_restores)
    show "mset (map clean_group gs') = mset (map clean_group gs)" using reads(2) by simp
    show "sorted (map groupRef (map clean_group gs))" using gs(1) by simp
    show "distinct (map groupRef (map clean_group gs))"
      using distinct_groupRefs [OF gs(2)] by simp
  qed
  with s assms(3) show ?thesis
    by (cases "d_rules d") (auto simp: readGroupFiles_def listing_def)
qed

section \<open>The files at the top\<close>

text \<open>\<open>found\<close> is the data of the one file a base name has, if any.\<close>

definition holds_top :: "codecs \<Rightarrow> string \<Rightarrow> string \<Rightarrow> string option \<Rightarrow> (string \<times> file_entry) list \<Rightarrow> bool" where
  "holds_top C fmt base found es \<longleftrightarrow>
     (\<forall>x \<in> set bundleExtensions. entry C (base @ x) es = (if x = CHR ''.'' # fmt then map_option Plain found else None))"

definition top_data :: "codecs \<Rightarrow> string \<Rightarrow> (err + json) option \<Rightarrow> string option \<Rightarrow> bool" where
  "top_data C fmt model found \<longleftrightarrow>
     (case model of None \<Rightarrow> found = None | Some encoded \<Rightarrow> \<exists>data. found = Some data \<and> stored C fmt encoded data)"

lemma removeTop_ok:
  assumes "is_dir t" and "removeTop C dir name t = (None, t')"
  shows "is_dir t' \<and> rules_of t' = rules_of t \<and>
     entry C m (top_of t') = (if cd_fold C m = cd_fold C name then None else entry C m (top_of t))"
proof -
  have gone: "entry C name es = None \<Longrightarrow> cd_fold C m = cd_fold C name \<Longrightarrow> entry C m es = None"
    for es :: "(string \<times> file_entry) list" by (simp add: entry_def)
  obtain d where "t = Target d" using assms(1) by (cases t) (auto simp: is_dir_def)
  with assms(2) gone [of "d_top d"] show ?thesis
    by (auto simp: removeTop_def is_dir_def rules_of_def top_of_def entry_drop
        split: option.splits file_entry.splits bool.splits)
qed

lemma removeTops_ok:
  assumes "is_dir t" and "runS (\<lambda>x. removeTop C dir (base @ x)) xs t = (None, t')"
  shows "is_dir t' \<and> rules_of t' = rules_of t \<and>
     entry C m (top_of t') = (if \<exists>x \<in> set xs. cd_fold C m = cd_fold C (base @ x) then None else entry C m (top_of t))"
  using assms
proof (induction xs arbitrary: t)
  case (Cons x xs)
  then obtain t1 where t1: "removeTop C dir (base @ x) t = (None, t1)"
    and rest: "runS (\<lambda>x. removeTop C dir (base @ x)) xs t1 = (None, t')"
    by (auto split: prod.splits option.splits)
  from removeTop_ok [OF Cons.prems(1) t1] Cons.IH [OF _ rest] show ?case by auto
qed simp

lemma writeTopFile_ok:
  assumes "is_dir t" and "writeTopFile C fmt dir name v t = (None, t')"
  shows "is_dir t' \<and> rules_of t' = rules_of t \<and> (\<exists>data. cd_encode C fmt v = Some data \<and>
     (\<forall>m. entry C m (top_of t') = (if cd_fold C m = cd_fold C name then Some (Plain data) else entry C m (top_of t))))"
proof -
  obtain d where "t = Target d" using assms(1) by (cases t) (auto simp: is_dir_def)
  with assms(2) show ?thesis
    by (auto simp: writeTopFile_def opened_def is_dir_def rules_of_def top_of_def writeEntry_def entry_put
        split: option.splits file_entry.splits)
qed

lemma fold_plain:
  assumes "folds C" "list_all plain_char base" "x \<in> set bundleExtensions"
  shows "cd_fold C (base @ x) = base @ x"
proof -
  have "list_all plain_char x" using assms(3) by (auto simp: bundleExtensions_def plain_char_def)
  with assms(1,2) show ?thesis unfolding folds_def by (metis list_all_append)
qed

lemma writeTopLevelFile_ok:
  assumes C: "folds C" and base: "list_all plain_char base" and fmt: "fmt \<in> set formats"
    and t: "is_dir t" and w: "writeTopLevelFile C fmt dir base model t = (None, t')"
  shows "is_dir t' \<and> rules_of t' = rules_of t \<and>
     (\<forall>m. (\<forall>x \<in> set bundleExtensions. cd_fold C m \<noteq> base @ x) \<longrightarrow> entry C m (top_of t') = entry C m (top_of t)) \<and>
     (\<exists>found. holds_top C fmt base found (top_of t') \<and> top_data C fmt model found)"
proof -
  note fold = fold_plain [OF C base]
  note ext = ext_groupFile(2) [OF fmt]
  let ?remove = "runS (\<lambda>x. removeTop C dir (base @ x)) bundleExtensions"
  have removed: "is_dir t1 \<and> rules_of t1 = rules_of t \<and>
      (\<forall>m. entry C m (top_of t1) = (if \<exists>x \<in> set bundleExtensions. cd_fold C m = base @ x then None else entry C m (top_of t)))"
    if "?remove t = (None, t1)" for t1
    using removeTops_ok [OF t that] fold by (auto cong: bex_cong)
  show ?thesis
  proof (cases model)
    case None
    then have "?remove t = (None, t')" using w by (simp add: writeTopLevelFile_def Let_def)
    from removed [OF this] None fold show ?thesis
      by (auto simp: holds_top_def top_data_def)
  next
    case (Some encoded)
    then obtain v t1 where v: "encoded = Inr v" and t1: "?remove t = (None, t1)"
      and f: "writeTopFile C fmt dir (base @ ''.'' @ fmt) v t1 = (None, t')"
      using w by (auto simp: writeTopLevelFile_def Let_def thenS_def split: sum.splits prod.splits option.splits)
    note r = removed [OF t1]
    from writeTopFile_ok [OF _ f] r obtain data where data: "cd_encode C fmt v = Some data"
      and kept: "is_dir t'" "rules_of t' = rules_of t1"
      and es: "\<And>m. entry C m (top_of t') = (if cd_fold C m = base @ CHR ''.'' # fmt then Some (Plain data) else entry C m (top_of t1))"
      using fold [OF ext] by auto
    have "holds_top C fmt base (Some data) (top_of t')"
      using r fold by (auto simp: holds_top_def es)
    moreover have "top_data C fmt model (Some data)" by (simp add: top_data_def Some v stored_def data)
    ultimately show ?thesis using kept r es ext by auto
  qed
qed

lemma bundleFilePath_found:
  assumes "holds_top C fmt base found (d_top d)" and "fmt \<in> set formats"
  shows "bundleFilePath C dir d base =
     Inr (map_option (\<lambda>data. (topPath dir (base @ CHR ''.'' # fmt), Plain data)) found)"
  using assms
  by (cases found) (auto simp: bundleFilePath_def bundleExtensions_def findTop_def holds_top_def formats_def)

lemma clean_point_id [simp]: "contactPointID \<circ> clean_point = contactPointID" "contactPointID (clean_point c) = contactPointID c"
  by (auto simp: clean_point_def contactPointID_def)

lemma point_paths: "validateContactPoint path c = None \<longleftrightarrow> validateContactPoint path' c = None"
  by (simp add: validateContactPoint_def)

lemma validate_clean_point [simp]: "validateContactPoint path (clean_point c) = validateContactPoint path c"
  by (simp add: validateContactPoint_def clean_point_def)

lemma points_accepted:
  assumes "None \<notin> set ps" "\<forall>c \<in> set (present ps). \<exists>path. validateContactPoint path c = None"
    and "distinct (map contactPointID (present ps))"
  shows "isOk (foldR (readContactPoint path) {} (map (map_option clean_point) ps))"
proof -
  have keys: "List.map_filter (map_option contactPointID) qs = map contactPointID (present qs)" for qs
    by (induction qs) (auto simp: List.map_filter_simps split: option.splits)
  have "\<exists>c. map_option clean_point p = Some c \<and> validateContactPoint path c = None" if p: "p \<in> set ps" for p
  proof -
    obtain c where "p = Some c" using assms(1) p by (cases p) auto
    moreover from this have "validateContactPoint path c = None"
      using assms(2) p point_paths by (metis mem_Collect_eq set_present)
    ultimately show ?thesis by simp
  qed
  then show ?thesis using assms(3) by (auto simp: file_points.run_ok_iff keys)
qed

lemma points_read:
  assumes fmt: "fmt \<in> set formats" and top: "holds_top C fmt contactPointsBaseName found (d_top d)"
    and model: "top_data C fmt (if nilPoints then None
        else Some (encodableValue (marshal_points M) stripContactPointListFields (b_ContactPoints b))) found"
    and nil: "nilPoints \<Longrightarrow> b_ContactPoints b = []" and S: "storable C M fmt b" and wf: "wf_bundle b"
  shows "readContactPointsFile C dir d = Inr (map (map_option clean_point) (b_ContactPoints b))"
proof (cases nilPoints)
  case True
  with model nil show ?thesis
    by (simp add: readContactPointsFile_def bundleFilePath_found [OF top fmt] top_data_def)
next
  case False
  with model obtain data where found: "found = Some data"
    and "stored C fmt (encodableValue (marshal_points M) stripContactPointListFields (b_ContactPoints b)) data"
    by (auto simp: top_data_def)
  with S have data: "cd_points C (fmt = ''json'') data = Some (map (map_option clean_point) (b_ContactPoints b))"
    by (simp add: storable_def)
  let ?path = "topPath dir (contactPointsBaseName @ CHR ''.'' # fmt)"
  have "toLower (ext ?path) = CHR ''.'' # fmt"
    using fmt by (auto simp: formats_def topPath_def contactPointsBaseName_def ext_def Let_def) code_simp+
  then have "decodeBundleFile (cd_points C) ?path (Plain data) = Inr (map (map_option clean_point) (b_ContactPoints b))"
    by (simp add: decode_written [OF fmt] data)
  moreover have "isOk (foldR (readContactPoint ?path) {} (map (map_option clean_point) (b_ContactPoints b)))"
    using wf points_accepted unfolding wf_bundle_def by blast
  ultimately show ?thesis
    by (auto simp: readContactPointsFile_def bundleFilePath_found [OF top fmt] found isOk_iff)
qed

lemma policies_read:
  assumes fmt: "fmt \<in> set formats" and top: "holds_top C fmt policiesBaseName found (d_top d)"
    and model: "top_data C fmt (map_option (encodableValue (m_route M) stripRouteFields) (b_Policies b)) found"
    and S: "storable C M fmt b"
  shows "readPolicyFile C dir d = Inr (map_option routeBody (b_Policies b))"
proof (cases "b_Policies b")
  case None
  with model show ?thesis by (simp add: readPolicyFile_def bundleFilePath_found [OF top fmt] top_data_def)
next
  case (Some tree)
  with model obtain data where found: "found = Some data"
    and "stored C fmt (encodableValue (m_route M) stripRouteFields tree) data"
    by (auto simp: top_data_def)
  with S Some have data: "cd_route C (fmt = ''json'') data = Some (routeBody tree)" "cd_route_ok C (routeBody tree)"
    by (simp_all add: storable_def)
  let ?path = "topPath dir (policiesBaseName @ CHR ''.'' # fmt)"
  have "toLower (ext ?path) = CHR ''.'' # fmt"
    using fmt by (auto simp: formats_def topPath_def policiesBaseName_def ext_def Let_def) code_simp+
  then show ?thesis
    by (simp add: readPolicyFile_def bundleFilePath_found [OF top fmt] found decode_written [OF fmt] data Some)
qed

section \<open>The round trip\<close>

lemma WriteBundle_steps:
  assumes "WriteBundle C M dir b nilPoints \<lparr>wo_Format = fmt, wo_KeepFolders = keep\<rparr> t = (None, t')"
  obtains W t1 t2 t3 where "fmt \<in> set formats"
    "distinct (map (foldedPath C fmt dir) (present (b_Groups b)))"
    "runS (writeOneGroup C M fmt dir) (present (b_Groups b)) ({}, t) = (None, (W, t1))"
    "pruneGroupFiles C dir W keep t1 = (None, t2)"
    "writeTopLevelFile C fmt dir contactPointsBaseName (if nilPoints then None
        else Some (encodableValue (marshal_points M) stripContactPointListFields (b_ContactPoints b))) t2 = (None, t3)"
    "writeTopLevelFile C fmt dir policiesBaseName
        (map_option (encodableValue (m_route M) stripRouteFields) (b_Policies b)) t3 = (None, t')"
proof -
  have fmt: "fmt \<in> set formats" using assms by (auto simp: WriteBundle_def Let_def split: if_splits)
  obtain W t1 where groups: "writeGroupFiles C M fmt dir (b_Groups b) t = (None, (W, t1))"
    and rest: "thenS (pruneGroupFiles C dir W keep)
            (thenS (writeTopLevelFile C fmt dir contactPointsBaseName
                (if nilPoints then None
                 else Some (encodableValue (marshal_points M) stripContactPointListFields (b_ContactPoints b))))
              (writeTopLevelFile C fmt dir policiesBaseName
                (map_option (encodableValue (m_route M) stripRouteFields) (b_Policies b)))) t1 = (None, t')"
    using assms fmt by (auto simp: WriteBundle_def Let_def split: prod.splits option.splits)
  obtain s where s: "foldR (claimGroup C fmt dir) (Map.empty, []) (present (b_Groups b)) = Inr s"
    and run: "runS (writeOneGroup C M fmt dir) (snd s) ({}, t) = (None, (W, t1))"
    using groups by (auto simp: writeGroupFiles_def split: sum.splits)
  have "snd s = present (b_Groups b)" "distinct (map (foldedPath C fmt dir) (present (b_Groups b)))"
    using claimGroups_order [OF s] claimGroups_ok_iff [of C fmt dir "present (b_Groups b)"] s by simp_all
  moreover obtain t2 where "pruneGroupFiles C dir W keep t1 = (None, t2)"
    using rest by (auto simp: thenS_def split: prod.splits option.splits)
  moreover from this obtain t3 where "writeTopLevelFile C fmt dir contactPointsBaseName (if nilPoints then None
        else Some (encodableValue (marshal_points M) stripContactPointListFields (b_ContactPoints b))) t2 = (None, t3)"
    "writeTopLevelFile C fmt dir policiesBaseName
        (map_option (encodableValue (m_route M) stripRouteFields) (b_Policies b)) t3 = (None, t')"
    using rest by (auto simp: thenS_def split: prod.splits option.splits)
  ultimately show ?thesis using that fmt run by simp
qed

text \<open>C37: a written bundle reads back: whatever the directory held before (as long as the folders under
  it are not symbolic links), a write that succeeded leaves exactly the files of the bundle, so that
  reading the directory gives the bundle again without the read-only fields, with its groups in
  order; stale files of earlier bundles, in any format and spelling, are gone.\<close>

theorem write_read:
  assumes C: "folds C" and wf: "wf_rules C (d_rules d)" and S: "storable C M fmt b" and b: "wf_bundle b"
    and nil: "nilPoints \<Longrightarrow> b_ContactPoints b = []"
    and w: "WriteBundle C M dir b nilPoints \<lparr>wo_Format = fmt, wo_KeepFolders = None\<rparr> (Target d) = (None, t')"
  shows "ReadBundle C dir t' = Inr (clean_bundle b)"
proof -
  let ?gs = "present (b_Groups b)"
  obtain W t1 t2 t3 where fmt: "fmt \<in> set formats" and dist: "distinct (map (foldedPath C fmt dir) ?gs)"
    and groups: "runS (writeOneGroup C M fmt dir) ?gs ({}, Target d) = (None, (W, t1))"
    and prune: "pruneGroupFiles C dir W None t1 = (None, t2)"
    and points: "writeTopLevelFile C fmt dir contactPointsBaseName (if nilPoints then None
        else Some (encodableValue (marshal_points M) stripContactPointListFields (b_ContactPoints b))) t2 = (None, t3)"
    and tree: "writeTopLevelFile C fmt dir policiesBaseName
        (map_option (encodableValue (m_route M) stripRouteFields) (b_Policies b)) t3 = (None, t')"
    by (rule WriteBundle_steps [OF w])
  have start: "is_dir (Target d)" "wf_rules C (rules_of (Target d))" using wf by (simp_all add: is_dir_def rules_of_def)
  note written = writeGroups_ok [OF C fmt start dist groups]
  then have t1: "is_dir t1" "wf_rules C (rules_of t1)" and W: "W = foldedPath C fmt dir ` set ?gs" by auto
  note pruned = prune_ok [OF t1 prune]
  have dec: "\<forall>g \<in> set ?gs. \<forall>data. group_data C M fmt g data \<longrightarrow>
      cd_group C (fmt = ''json'') data = Some (clean_group g)"
    using S by (simp add: storable_def group_data_def)
  have plain: "list_all plain_char contactPointsBaseName" "list_all plain_char policiesBaseName"
    by (simp_all add: contactPointsBaseName_def policiesBaseName_def plain_char_def)
  have at: "\<forall>g \<in> set ?gs. \<exists>data. group_data C M fmt g data \<and>
        file_at C (rules_of t1) (groupFolder g) (groupFile fmt g) = Some (Plain data)" using written by blast
  obtain gs' where gs': "list_all2 (decodes C) (listing dir (rules_of t2)) (map clean_group gs')" "mset gs' = mset ?gs"
    using listing_reads [OF C fmt t1(2) at dec dist, of "rules_of t2"] pruned W by metis
  have "is_dir t2" using pruned by blast
  note top1 = writeTopLevelFile_ok [OF C plain(1) fmt this points]
  then obtain found where found: "holds_top C fmt contactPointsBaseName found (top_of t3)"
    "top_data C fmt (if nilPoints then None
        else Some (encodableValue (marshal_points M) stripContactPointListFields (b_ContactPoints b))) found" by blast
  have "is_dir t3" using top1 by blast
  note top2 = writeTopLevelFile_ok [OF C plain(2) fmt this tree]
  then obtain found' where found': "holds_top C fmt policiesBaseName found' (top_of t')"
    "top_data C fmt (map_option (encodableValue (m_route M) stripRouteFields) (b_Policies b)) found'" by blast
  obtain d' where d': "t' = Target d'" using top2 by (cases t') (auto simp: is_dir_def)
  have rules: "d_rules d' = rules_of t2" using top1 top2 d' by (simp add: rules_of_def)
  have other: "\<forall>x \<in> set bundleExtensions. \<forall>y \<in> set bundleExtensions.
      cd_fold C (contactPointsBaseName @ x) \<noteq> policiesBaseName @ y"
    using fold_plain [OF C plain(1)] by (simp add: contactPointsBaseName_def policiesBaseName_def)
  have "holds_top C fmt contactPointsBaseName found (d_top d')"
    using found(1) top2 other by (simp add: holds_top_def d' top_of_def)
  then have "readContactPointsFile C dir d' = Inr (map (map_option clean_point) (b_ContactPoints b))"
    using points_read [OF fmt _ found(2)] nil S b by blast
  moreover have "readPolicyFile C dir d' = Inr (map_option routeBody (b_Policies b))"
    using policies_read [OF fmt _ found'(2) S] found'(1) by (simp add: d' top_of_def)
  moreover have "readGroupFiles C dir d' = Inr (map clean_group ?gs)"
    using gs' pruned b rules by (intro groups_read [of C dir d' gs']) (auto simp: wf_bundle_def)
  moreover have "map (map_option clean_group) (b_Groups b) = map Some (map clean_group ?gs)"
  proof -
    have "None \<notin> set gs \<Longrightarrow> map (map_option clean_group) gs = map Some (map clean_group (present gs))" for gs
    proof (induction gs)
      case (Cons x xs)
      then show ?case by (cases x) auto
    qed simp
    then show ?thesis using b by (simp add: wf_bundle_def)
  qed
  ultimately show ?thesis by (simp add: ReadBundle_def d' clean_bundle_def)
qed

section \<open>A concrete directory\<close>

text \<open>Case folding of ASCII satisfies the laws of \<open>folds\<close>.\<close>

lemma byte_lower_char:
  "byte (lower_char c) = (if 65 \<le> byte c \<and> byte c \<le> 90 then byte c + 32 else byte c)"
  by (simp add: lower_char_def Let_def)

lemma byte_eq: "c = d \<longleftrightarrow> byte c = byte d"
  by simp

lemma lower_char_stop: "lower_char c = CHR ''.'' \<longleftrightarrow> c = CHR ''.''" "lower_char c = CHR ''/'' \<longleftrightarrow> c = CHR ''/''"
  unfolding byte_eq byte_lower_char by auto

lemma ext_map_lower: "ext (map lower_char n) = map lower_char (ext n)"
proof -
  define P where "P = (\<lambda>c. \<not> (c = CHR ''.'' \<or> c = CHR ''/''))"
  have e: "ext s = (case dropWhile P (rev s) of c # cs \<Rightarrow>
      if c = CHR ''.'' then c # rev (takeWhile P (rev s)) else [] | [] \<Rightarrow> [])" for s
    by (simp only: ext_def P_def Let_def)
  have P: "P \<circ> lower_char = P" by (rule ext) (simp add: P_def lower_char_stop)
  have "takeWhile P (map lower_char s) = map lower_char (takeWhile P s)"
    "dropWhile P (map lower_char s) = map lower_char (dropWhile P s)" for s
    by (simp_all only: takeWhile_map dropWhile_map P)
  moreover have "lower_char (CHR ''.'') = CHR ''.''" by (simp add: lower_char_stop)
  ultimately show ?thesis
    by (cases "dropWhile P (rev n)") (simp_all add: e rev_map lower_char_stop del: dropWhile_eq_Nil_conv)
qed

lemma toLower_Cons:
  "toLower (c # cs) = lower_char c # toLower cs \<or> CHR ''i'' \<in> set (toLower (c # cs)) \<or> CHR ''k'' \<in> set (toLower (c # cs))"
proof (cases cs)
  case (Cons d ds)
  then show ?thesis by (cases ds) simp_all
qed simp

lemma toLower_plain:
  "CHR ''i'' \<notin> set (toLower s) \<Longrightarrow> CHR ''k'' \<notin> set (toLower s) \<Longrightarrow> toLower s = map lower_char s"
proof (induction s)
  case (Cons c cs)
  then have "toLower (c # cs) = lower_char c # toLower cs" using toLower_Cons by blast
  with Cons show ?case by simp
qed simp

lemma toLower_map_ascii: "\<forall>c \<in> set s. \<not> digit7 (lower_char c) \<Longrightarrow> toLower s = map lower_char s"
proof (induction s)
  case (Cons c s)
  have "digit7 c \<longleftrightarrow> 128 \<le> (of_char c :: nat)" for c
    by (cases c) (simp add: of_char_def)
  then have "\<not> digit7 c" using Cons.prems by (auto simp: lower_char_def Let_def split: if_splits)
  with Cons show ?case by (simp add: toLower_ascii)
qed simp

lemma folds_lower:
  assumes "cd_fold C = map lower_char"
  shows "folds C"
proof -
  have "toLower (ext n) = e \<longleftrightarrow> ext (map lower_char n) = e" if e: "e \<in> set bundleExtensions" for n e
  proof
    assume "toLower (ext n) = e"
    moreover have "CHR ''i'' \<notin> set e" "CHR ''k'' \<notin> set e" using e by (auto simp: bundleExtensions_def)
    ultimately show "ext (map lower_char n) = e" using toLower_plain [of "ext n"] by (simp add: ext_map_lower)
  next
    assume l: "ext (map lower_char n) = e"
    have "\<forall>c \<in> set e. \<not> digit7 c" using e by (auto simp: bundleExtensions_def)
    then have "\<forall>c \<in> set (ext n). \<not> digit7 (lower_char c)" using l by (auto simp: ext_map_lower)
    then show "toLower (ext n) = e" using toLower_map_ascii l by (simp add: ext_map_lower)
  qed
  moreover have "lower_char c = c" if "plain_char c" for c
    using that by (auto simp: plain_char_def lower_char_def)
  then have "list_all plain_char s \<Longrightarrow> map lower_char s = s" for s by (induction s) auto
  moreover have "lower_char (CHR ''/'') = CHR ''/''" by code_simp
  ultimately show ?thesis by (auto simp: folds_def assms lower_char_stop eq_commute [of "CHR ''/''"] image_iff)
qed

definition full_point :: contact_point where
  "full_point = sample_point\<lparr>cp_Settings := Some (JStr ''x'')\<rparr>"

definition full_bundle :: Bundle where
  "full_bundle = \<lparr>b_Groups = [Some full_group], b_ContactPoints = [Some full_point], b_Policies = None\<rparr>"

text \<open>A directory an earlier bundle left, and the codecs of the one bundle.\<close>

definition old_dir :: bundle_dir where
  "old_dir = \<lparr>d_rules = RulesDir [(''old'', FolderDir [(''gone.yaml'', Plain ''stale'')])],
     d_top = [(''policies.yml'', Plain ''stale'')]\<rparr>"

definition full_codecs :: codecs where
  "full_codecs = \<lparr>cd_fold = map lower_char, cd_encode = \<lambda>fmt v. Some fmt,
     cd_group = \<lambda>k data. Some (clean_group full_group),
     cd_points = \<lambda>k data. Some [Some (clean_point full_point)], cd_route = \<lambda>k data. None, cd_route_ok = \<lambda>r. True\<rparr>"

lemmas full_defs = full_bundle_def full_group_def full_point_def sample_defs

lemma full_laws:
  "folds full_codecs" "wf_rules full_codecs (d_rules old_dir)" "storable full_codecs M fmt full_bundle"
  "wf_bundle full_bundle"
proof -
  show "folds full_codecs" by (rule folds_lower) (simp add: full_codecs_def)
  show "wf_rules full_codecs (d_rules old_dir)"
    by (simp add: old_dir_def wf_rules_def wf_names_def wf_folder_def)
  show "storable full_codecs M fmt full_bundle"
    by (simp add: storable_def full_bundle_def full_codecs_def)
  show "wf_bundle full_bundle"
    by (simp add: wf_bundle_def full_defs wf_group_def validateRule_def blank_def bundle_uids_def validateContactPoint_def)
qed

lemma full_paths:
  "groupFolder full_group = ''infra''" "groupFile ''json'' full_group = ''hosts.json''"
proof -
  have "list_all ordinary ''infra''" "list_all ordinary ''hosts''" by code_simp+
  then show "groupFolder full_group = ''infra''" "groupFile ''json'' full_group = ''hosts.json''"
    by (simp_all add: groupFolder_def groupFile_def sanitize_ordinary full_group_def sample_group_def)
qed

lemma full_values:
  "\<exists>v. encodableValue (m_group sample_marshaller) stripGroupFields full_group = Inr v"
  "\<exists>v. encodableValue (marshal_points sample_marshaller) stripContactPointListFields [Some full_point] = Inr v"
  by (simp_all add: encodableValue_def sample_marshaller_def marshal_points_def)

lemma full_written:
  "fst (WriteBundle full_codecs sample_marshaller ''d'' full_bundle False
      \<lparr>wo_Format = ''json'', wo_KeepFolders = None\<rparr> (Target old_dir)) = None"
proof -
  obtain v where v: "encodableValue (m_group sample_marshaller) stripGroupFields full_group = Inr v"
    using full_values by blast
  obtain w where w: "encodableValue (marshal_points sample_marshaller) stripContactPointListFields [Some full_point] = Inr w"
    using full_values by blast
  have fold: "cd_fold full_codecs = map lower_char" and enc: "cd_encode full_codecs fmt v = Some fmt" for fmt v
    by (simp_all add: full_codecs_def)
  have claim: "foldR (claimGroup full_codecs ''json'' ''d'') (Map.empty, []) (present (b_Groups full_bundle)) =
      Inr ([foldedPath full_codecs ''json'' ''d'' full_group \<mapsto> full_group], [full_group])"
    by (simp add: full_bundle_def claimGroup_def foldedPath_def Let_def)
  have one: "\<exists>W t. writeOneGroup full_codecs sample_marshaller ''json'' ''d'' full_group ({}, Target old_dir) = (None, (W, Target t)) \<and>
      (\<exists>fs. d_rules t = RulesDir fs) \<and> d_top t = d_top old_dir"
    by (simp add: writeOneGroup_def v full_paths writeGroupFile_def mkdirFolder_def opened_def old_dir_def entry_def fold
        lower_char_def put_entry_def enc writeInFolder_def writeEntry_def)
  then obtain W t1 fs where one: "writeOneGroup full_codecs sample_marshaller ''json'' ''d'' full_group ({}, Target old_dir) = (None, (W, Target t1))"
    and t1: "d_rules t1 = RulesDir fs" "d_top t1 = d_top old_dir" by blast
  have points: "\<exists>t'. writeTopLevelFile full_codecs ''json'' ''d'' contactPointsBaseName (Some (Inr w)) (Target t) = (None, Target t') \<and>
      d_top t' = [(''policies.yml'', Plain ''stale''), (''contact-points.json'', Plain ''json'')]" if "d_top t = d_top old_dir" for t
    using that
    by (simp add: writeTopLevelFile_def thenS_def bundleExtensions_def removeTop_def old_dir_def entry_def fold
        contactPointsBaseName_def lower_char_def writeTopFile_def opened_def enc writeEntry_def put_entry_def)
  have tree: "\<exists>t'. writeTopLevelFile full_codecs ''json'' ''d'' policiesBaseName None (Target t) = (None, t')"
    if "d_top t = [(''policies.yml'', Plain ''stale''), (''contact-points.json'', Plain ''json'')]" for t
    using that
    by (simp add: writeTopLevelFile_def bundleExtensions_def removeTop_def entry_def fold policiesBaseName_def lower_char_def drop_entry_def)
  have groups: "writeGroupFiles full_codecs sample_marshaller ''json'' ''d'' (b_Groups full_bundle) (Target old_dir) =
      (None, (W, Target t1))"
    unfolding writeGroupFiles_def claim by (simp add: one)
  obtain t2 where prune: "pruneGroupFiles full_codecs ''d'' W None (Target t1) = (None, Target t2)" "d_top t2 = d_top old_dir"
    by (simp add: pruneGroupFiles_def t1)
  obtain t3 where p: "writeTopLevelFile full_codecs ''json'' ''d'' contactPointsBaseName (Some (Inr w)) (Target t2) = (None, Target t3)"
    "d_top t3 = [(''policies.yml'', Plain ''stale''), (''contact-points.json'', Plain ''json'')]"
    using points [OF prune(2)] by blast
  obtain t4 where t: "writeTopLevelFile full_codecs ''json'' ''d'' policiesBaseName None (Target t3) = (None, t4)"
    using tree [OF p(2)] by blast
  have parts: "b_ContactPoints full_bundle = [Some full_point]" "b_Policies full_bundle = None"
    by (simp_all add: full_bundle_def)
  show ?thesis by (simp add: WriteBundle_def formats_def groups thenS_def prune parts w p t)
qed

theorem write_read_witness:
  "\<exists>t'. WriteBundle full_codecs sample_marshaller ''d'' full_bundle False
      \<lparr>wo_Format = ''json'', wo_KeepFolders = None\<rparr> (Target old_dir) = (None, t') \<and>
     ReadBundle full_codecs ''d'' t' = Inr (clean_bundle full_bundle)"
proof -
  obtain t' where w: "WriteBundle full_codecs sample_marshaller ''d'' full_bundle False
      \<lparr>wo_Format = ''json'', wo_KeepFolders = None\<rparr> (Target old_dir) = (None, t')"
    using full_written by (metis prod.collapse)
  have "ReadBundle full_codecs ''d'' t' = Inr (clean_bundle full_bundle)"
    by (rule write_read [OF full_laws _ w]) simp
  with w show ?thesis by blast
qed

end
