(* ===== verification/Server_Url.thy ===== *)
theory Server_Url
  imports Go_Strings
begin

text \<open>
  Which server a session cookie may be sent to (\<^verbatim>\<open>internal/config/server_url.go\<close>,
  \<^verbatim>\<open>internal/config/cookie.go\<close>) and the addresses of the fixed endpoints.

  Two parsers of the Go distribution are the record \<open>netlib\<close>: \<open>parse_url\<close> is \<^verbatim>\<open>url.Parse\<close> and
  \<open>parse_addr\<close> is \<^verbatim>\<open>netip.ParseAddr\<close>, which gives the canonical text of an IP literal and whether
  it is a loopback address. Everything below holds for every such pair. What the code does with a
  parsed URL is written out: \<^verbatim>\<open>Hostname\<close> and \<^verbatim>\<open>Port\<close> on the raw host, the normal form of an origin
  and its comparison.
\<close>

section \<open>URLs\<close>

record url =
  u_Scheme :: string
  u_User :: bool          \<comment> \<open>\<^verbatim>\<open>u.User != nil\<close>\<close>
  u_Host :: string
  u_Path :: string
  u_RawQuery :: string
  u_Fragment :: string

record netlib =
  parse_url :: "string \<Rightarrow> url option"
  parse_addr :: "string \<Rightarrow> (string \<times> bool) option"

definition validOptionalPort :: "string \<Rightarrow> bool" where
  "validOptionalPort p \<longleftrightarrow> p = [] \<or> (hd p = CHR '':'' \<and> list_all is_digit_char (tl p))"

text \<open>The text before the last colon and the text from it on.\<close>

definition before_last_colon :: "string \<Rightarrow> string" where
  "before_last_colon s = rev (tl (dropWhile (\<lambda>c. c \<noteq> CHR '':'') (rev s)))"

definition after_last_colon :: "string \<Rightarrow> string" where
  "after_last_colon s = rev (takeWhile (\<lambda>c. c \<noteq> CHR '':'') (rev s))"

definition splitHostPort :: "string \<Rightarrow> string \<times> string" where
  "splitHostPort hostPort =
     (let (host, port) =
        (if CHR '':'' \<in> set hostPort \<and> validOptionalPort (CHR '':'' # after_last_colon hostPort)
         then (before_last_colon hostPort, after_last_colon hostPort) else (hostPort, []))
      in if starts_with ''['' host \<and> ends_with '']'' host then (butlast (tl host), port) else (host, port))"

definition Hostname :: "url \<Rightarrow> string" where
  "Hostname u = fst (splitHostPort (u_Host u))"

definition Port :: "url \<Rightarrow> string" where
  "Port u = snd (splitHostPort (u_Host u))"

text \<open>\<^verbatim>\<open>net.JoinHostPort\<close>.\<close>

definition joinHostPort :: "string \<Rightarrow> string \<Rightarrow> string" where
  "joinHostPort host port =
     (if CHR '':'' \<in> set host then ''['' @ host @ '']:'' @ port else host @ '':'' @ port)"

section \<open>Errors\<close>

datatype url_reason = NotAbsolute | HostNotAscii | BadPort | HasCredentials | NotHttps

datatype url_err =
    ServerURLError url_reason
  | UnsafeRedirectError string string
  | StoppedAfter nat

definition invalidOrigin :: string where "invalidOrigin = ''<invalid>''"
definition maxRedirects :: nat where "maxRedirects = 10"

section \<open>Origins\<close>

definition normalizeHost :: "netlib \<Rightarrow> string \<Rightarrow> string option" where
  "normalizeHost N raw =
     (if \<exists>c \<in> set raw. 0x80 \<le> (of_char c :: nat) then None
      else let host = trim_suffix ''.'' (toLower raw) in
        if host = [] then None
        else case parse_addr N host of Some (text, loopback) \<Rightarrow> Some text | None \<Rightarrow> Some host)"

definition isLoopbackHost :: "netlib \<Rightarrow> string \<Rightarrow> bool" where
  "isLoopbackHost N host \<longleftrightarrow>
     host = ''localhost'' \<or> (case parse_addr N host of Some (text, loopback) \<Rightarrow> loopback | None \<Rightarrow> False)"

definition originPort :: "string \<Rightarrow> string \<Rightarrow> url_err + string" where
  "originPort scheme given =
     (if given = [] then Inr (if scheme = ''http'' then ''80'' else ''443'')
      else if \<not> list_all is_digit_char given \<or> digits_val given < 1 \<or> 65535 < digits_val given
      then Inl (ServerURLError BadPort)
      else Inr (show_nat (digits_val given)))"

definition originOf :: "netlib \<Rightarrow> url \<Rightarrow> url_err + string" where
  "originOf N u =
     (let scheme = toLower (u_Scheme u) in
      if scheme \<noteq> ''http'' \<and> scheme \<noteq> ''https'' then Inl (ServerURLError NotAbsolute)
      else if Hostname u = [] then Inl (ServerURLError NotAbsolute)
      else case normalizeHost N (Hostname u) of
        None \<Rightarrow> Inl (ServerURLError (if trim_suffix ''.'' (Hostname u) = [] then NotAbsolute else HostNotAscii))
      | Some host \<Rightarrow>
          bindR (originPort scheme (Port u)) (\<lambda>port.
          Inr (scheme @ ''://'' @ joinHostPort host port)))"

definition parseServer :: "netlib \<Rightarrow> string \<Rightarrow> url_err + url" where
  "parseServer N server =
     (case parse_url N server of None \<Rightarrow> Inl (ServerURLError NotAbsolute) | Some u \<Rightarrow> Inr u)"

definition ServerOrigin :: "netlib \<Rightarrow> string \<Rightarrow> url_err + string" where
  "ServerOrigin N server = bindR (parseServer N server) (originOf N)"

definition ValidateServerURL :: "netlib \<Rightarrow> string \<Rightarrow> url_err option" where
  "ValidateServerURL N server =
     (case parseServer N server of Inl e \<Rightarrow> Some e
      | Inr u \<Rightarrow>
          (case originOf N u of Inl e \<Rightarrow> Some e
           | Inr origin \<Rightarrow>
               if u_User u then Some (ServerURLError HasCredentials)
               else if equalFold (u_Scheme u) ''https'' then None
               else case normalizeHost N (Hostname u) of
                 Some host \<Rightarrow> if isLoopbackHost N host then None else Some (ServerURLError NotHttps)
               | None \<Rightarrow> Some (ServerURLError NotHttps)))"

text \<open>A request without a URL is \<^const>\<open>None\<close>.\<close>

definition checkSessionTarget :: "netlib \<Rightarrow> url option \<Rightarrow> string \<Rightarrow> url_err option" where
  "checkSessionTarget N target server =
     (case ValidateServerURL N server of Some e \<Rightarrow> Some e
      | None \<Rightarrow>
          (case ServerOrigin N server of Inl e \<Rightarrow> Some e
           | Inr from \<Rightarrow>
               (case target of None \<Rightarrow> Some (UnsafeRedirectError from invalidOrigin)
                | Some u \<Rightarrow>
                    (case originOf N u of Inl e \<Rightarrow> Some (UnsafeRedirectError from invalidOrigin)
                     | Inr to \<Rightarrow> if to \<noteq> from then Some (UnsafeRedirectError from to) else None))))"

section \<open>Requests\<close>

definition SessionCookieName :: string where "SessionCookieName = ''grafana_session''"

definition CookieHeaderValue :: "string \<Rightarrow> string" where
  "CookieHeaderValue cookie = SessionCookieName @ ''='' @ cookie"

record http_request =
  hr_URL :: "url option"
  hr_Header :: "string \<rightharpoonup> string"

definition SetSessionCookie :: "netlib \<Rightarrow> http_request \<Rightarrow> string \<Rightarrow> string \<Rightarrow> url_err option \<times> http_request" where
  "SetSessionCookie N req server cookie =
     (case checkSessionTarget N (hr_URL req) server of
        Some e \<Rightarrow> (Some e, req)
      | None \<Rightarrow> (None, req\<lparr>hr_Header := (hr_Header req)(''Cookie'' \<mapsto> CookieHeaderValue cookie)\<rparr>))"

text \<open>The redirect policy of a client: \<open>via\<close> is the number of requests made already.\<close>

definition SameOriginRedirects :: "netlib \<Rightarrow> string \<Rightarrow> url \<Rightarrow> nat \<Rightarrow> url_err option" where
  "SameOriginRedirects N server target via =
     (if maxRedirects \<le> via then Some (StoppedAfter maxRedirects)
      else case ServerOrigin N server of Inl e \<Rightarrow> Some e
      | Inr from \<Rightarrow>
          (case originOf N target of Inl e \<Rightarrow> Some (UnsafeRedirectError from invalidOrigin)
           | Inr to \<Rightarrow> if to \<noteq> from then Some (UnsafeRedirectError from to) else None))"

text \<open>\<^verbatim>\<open>http.Client.Do\<close> with that policy: the addresses requested, given the locations the server
  redirects to one after the other, and the refusal that ended it, if any.\<close>

fun follow :: "netlib \<Rightarrow> string \<Rightarrow> url list \<Rightarrow> url list \<Rightarrow> url list \<times> url_err option" where
  "follow N server requested [] = (requested, None)"
| "follow N server requested (target # later) =
     (case SameOriginRedirects N server target (length requested) of
        Some e \<Rightarrow> (requested, Some e)
      | None \<Rightarrow> follow N server (requested @ [target]) later)"

section \<open>Endpoints\<close>

definition buildURL :: "netlib \<Rightarrow> string \<Rightarrow> string \<Rightarrow> url option" where
  "buildURL N path server =
     map_option (\<lambda>u. u\<lparr>u_Path := trim_suffix ''/'' (u_Path u) @ path, u_RawQuery := [], u_Fragment := []\<rparr>)
       (parse_url N server)"

definition buildRotateURL :: "netlib \<Rightarrow> string \<Rightarrow> url option" where
  "buildRotateURL N = buildURL N ''/api/user/auth-tokens/rotate''"

definition buildBootdataURL :: "netlib \<Rightarrow> string \<Rightarrow> url option" where
  "buildBootdataURL N = buildURL N ''/bootdata''"

definition buildUserURL :: "netlib \<Rightarrow> string \<Rightarrow> url option" where
  "buildUserURL N = buildURL N ''/api/user''"

definition buildOrgURL :: "netlib \<Rightarrow> string \<Rightarrow> url option" where
  "buildOrgURL N = buildURL N ''/api/org''"

section \<open>What the checks promise\<close>

lemma originOf_path:
  "originOf N (u\<lparr>u_Path := p, u_RawQuery := q, u_Fragment := f\<rparr>) = originOf N u"
proof -
  let ?u = "u\<lparr>u_Path := p, u_RawQuery := q, u_Fragment := f\<rparr>"
  have "Hostname ?u = Hostname u" "Port ?u = Port u" "u_Scheme ?u = u_Scheme u"
    by (simp_all add: Hostname_def Port_def)
  then show ?thesis by (simp only: originOf_def)
qed

lemma originOf_buildURL:
  "buildURL N path server = Some u \<Longrightarrow> \<exists>u0. parse_url N server = Some u0 \<and> originOf N u = originOf N u0"
  by (auto simp: buildURL_def originOf_path)

lemma checkSessionTarget_None:
  "checkSessionTarget N target server = None \<longleftrightarrow>
     ValidateServerURL N server = None \<and>
     (\<exists>u origin. target = Some u \<and> originOf N u = Inr origin \<and> ServerOrigin N server = Inr origin)"
  by (auto simp: checkSessionTarget_def split: option.splits sum.splits)

lemma follow_origin:
  assumes "follow N server requested later = (all, stop)" and "ServerOrigin N server = Inr origin"
    and "\<forall>u \<in> set requested. originOf N u = Inr origin" and "length requested \<le> maxRedirects"
  shows "(\<forall>u \<in> set all. originOf N u = Inr origin) \<and> length all \<le> maxRedirects"
  using assms
proof (induction later arbitrary: requested)
  case (Cons target later)
  show ?case
  proof (cases "SameOriginRedirects N server target (length requested)")
    case None
    then have "originOf N target = Inr origin" "length requested < maxRedirects"
      using Cons.prems(2) by (auto simp: SameOriginRedirects_def split: if_splits sum.splits)
    with None Cons.prems show ?thesis by (intro Cons.IH [of "requested @ [target]"]) auto
  qed (use Cons.prems in auto)
qed auto

end
