(* ===== verification/Credentials.thy ===== *)
theory Credentials
  imports Server_Url Utf8
begin

text \<open>
  The stored session of a context and the server it is bound to
  (\<^verbatim>\<open>internal/keychain/credential.go\<close>, \<^verbatim>\<open>keychain.go\<close>, \<^verbatim>\<open>internal/config/credentials.go\<close>).

  The keychain is a map from accounts to secrets with two switches for its failures: an error every
  read of an account reports, and whether a write succeeds; a write that fails leaves the item as it
  was, as the contract of \<^verbatim>\<open>Store.Set\<close> demands. The JSON text of a credential is the parameter
  \<open>json_codec\<close>: \<open>jc_marshal\<close> is \<^verbatim>\<open>json.Marshal\<close> of version, cookie and origin and \<open>jc_decode\<close> the strict
  decoding of one such object with nothing after it. The texts of notices and warnings are not
  modelled.
\<close>

section \<open>Credentials\<close>

record json_codec =
  jc_marshal :: "int \<times> string \<times> string \<Rightarrow> string option"
  jc_decode :: "string \<Rightarrow> (int \<times> string \<times> string) option"

record Credential =
  cr_Cookie :: string
  cr_Origin :: string

definition CredentialVersion :: int where "CredentialVersion = 1"

definition Legacy :: "Credential \<Rightarrow> bool" where
  "Legacy c \<longleftrightarrow> cr_Origin c = []"

text \<open>\<^verbatim>\<open>utf8.ValidString\<close>: decoding and encoding again changes nothing.\<close>

definition validString :: "string \<Rightarrow> bool" where
  "validString s \<longleftrightarrow> concat (map encodeRune (runes s)) = s"

datatype cred_err =
    StoreFailed string
  | ItemNotFound
  | MalformedCredential
  | UnsupportedCredential
  | NoCookieToEncode
  | NoOriginToEncode
  | NotUtf8
  | EncodingFailed
  | BadServer url_err
  | SessionBindingError string string string  \<comment> \<open>context, bound origin, origin of the server\<close>
  | ContextNotFound string
  | NoCurrentContext

definition EncodeCredential :: "json_codec \<Rightarrow> Credential \<Rightarrow> cred_err + string" where
  "EncodeCredential J c =
     (if cr_Cookie c = [] then Inl NoCookieToEncode
      else if cr_Origin c = [] then Inl NoOriginToEncode
      else if \<not> validString (cr_Cookie c) \<or> \<not> validString (cr_Origin c) then Inl NotUtf8
      else case jc_marshal J (CredentialVersion, cr_Cookie c, cr_Origin c) of
        None \<Rightarrow> Inl EncodingFailed | Some raw \<Rightarrow> Inr raw)"

definition DecodeCredential :: "json_codec \<Rightarrow> string \<Rightarrow> cred_err + Credential" where
  "DecodeCredential J raw =
     (if \<not> starts_with ''{'' raw then Inr \<lparr>cr_Cookie = raw, cr_Origin = []\<rparr>
      else case jc_decode J raw of None \<Rightarrow> Inl MalformedCredential
      | Some (version, cookie, origin) \<Rightarrow>
          if version < CredentialVersion then Inl MalformedCredential
          else if version > CredentialVersion then Inl UnsupportedCredential
          else if cookie = [] \<or> origin = [] then Inl MalformedCredential
          else Inr \<lparr>cr_Cookie = cookie, cr_Origin = origin\<rparr>)"

definition EncodeSessionCredential :: "netlib \<Rightarrow> json_codec \<Rightarrow> string \<Rightarrow> string \<Rightarrow> cred_err + string" where
  "EncodeSessionCredential N J cookie server =
     (case ServerOrigin N server of Inl e \<Rightarrow> Inl (BadServer e)
      | Inr origin \<Rightarrow> EncodeCredential J \<lparr>cr_Cookie = cookie, cr_Origin = origin\<rparr>)"

section \<open>The keychain\<close>

record keychain =
  kc_items :: "string \<rightharpoonup> string"
  kc_get_error :: "string \<Rightarrow> string option"
  kc_set_ok :: bool

definition Service :: string where "Service = ''grafanapi''"

definition Account :: "string \<Rightarrow> string" where
  "Account contextName = Service @ '':'' @ contextName"

definition storeGet :: "keychain \<Rightarrow> string \<Rightarrow> cred_err + string" where
  "storeGet kc account =
     (case kc_get_error kc account of Some e \<Rightarrow> Inl (StoreFailed e)
      | None \<Rightarrow> (case kc_items kc account of None \<Rightarrow> Inl ItemNotFound | Some s \<Rightarrow> Inr s))"

definition storeSet :: "keychain \<Rightarrow> string \<Rightarrow> string \<Rightarrow> keychain" where
  "storeSet kc account secret =
     (if kc_set_ok kc then kc\<lparr>kc_items := (kc_items kc)(account \<mapsto> secret)\<rparr> else kc)"

section \<open>Contexts\<close>

text \<open>The immutable part of a \<^verbatim>\<open>SessionSource\<close>; its cookie is the one it starts with.\<close>

record session_source =
  so_cookie :: string
  so_server :: string
  so_origin :: string
  so_account :: string

record GrafanaConfig =
  gr_Server :: string
  gr_OrgID :: int
  gr_StackID :: int
  gr_LiveWindow :: string
  gr_SessionCookie :: string
  gr_Session :: "session_source option"

record Context =
  cx_Name :: string
  cx_Grafana :: "GrafanaConfig option"

record Config =
  cf_Contexts :: "string \<rightharpoonup> Context"
  cf_CurrentContext :: string

definition NewSessionSource :: "netlib \<Rightarrow> string \<Rightarrow> string \<Rightarrow> string \<Rightarrow> session_source" where
  "NewSessionSource N cookie server account =
     \<lparr>so_cookie = cookie, so_server = server,
      so_origin = (case ServerOrigin N server of Inl e \<Rightarrow> [] | Inr origin \<Rightarrow> origin), so_account = account\<rparr>"

datatype BindingState = BindingNone | BindingBound | BindingMigrated

record SessionBinding =
  sb_State :: BindingState
  sb_Origin :: string

definition bindLegacySession ::
  "netlib \<Rightarrow> json_codec \<Rightarrow> keychain \<Rightarrow> string \<Rightarrow> string \<Rightarrow> string \<Rightarrow> keychain" where
  "bindLegacySession N J kc account cookie server =
     (case EncodeSessionCredential N J cookie server of Inl e \<Rightarrow> kc | Inr secret \<Rightarrow> storeSet kc account secret)"

text \<open>The result, the keychain and the context afterwards.\<close>

definition ResolveContextSessionCookie ::
  "netlib \<Rightarrow> json_codec \<Rightarrow> keychain \<Rightarrow> Context \<Rightarrow> bool \<Rightarrow> (cred_err + SessionBinding) \<times> keychain \<times> Context"
where
  "ResolveContextSessionCookie N J kc ctx allowLegacyBind =
     (case cx_Grafana ctx of None \<Rightarrow> (Inr \<lparr>sb_State = BindingNone, sb_Origin = []\<rparr>, kc, ctx)
      | Some g \<Rightarrow>
        let account = Account (cx_Name ctx) in
        case storeGet kc account of
          Inl e \<Rightarrow> (if e = ItemNotFound then Inr \<lparr>sb_State = BindingNone, sb_Origin = []\<rparr> else Inl e, kc, ctx)
        | Inr raw \<Rightarrow>
          (case DecodeCredential J raw of Inl e \<Rightarrow> (Inl e, kc, ctx)
           | Inr cred \<Rightarrow>
             if gr_Server g = [] then (Inr \<lparr>sb_State = BindingNone, sb_Origin = []\<rparr>, kc, ctx)
             else case ServerOrigin N (gr_Server g) of Inl e \<Rightarrow> (Inl (BadServer e), kc, ctx)
             | Inr serverOrigin \<Rightarrow>
               let loaded = ctx\<lparr>cx_Grafana := Some (g\<lparr>gr_SessionCookie := cr_Cookie cred,
                     gr_Session := Some (NewSessionSource N (cr_Cookie cred) (gr_Server g) account)\<rparr>)\<rparr> in
               if \<not> Legacy cred then
                 if cr_Origin cred \<noteq> serverOrigin
                 then (Inl (SessionBindingError (cx_Name ctx) (cr_Origin cred) serverOrigin), kc, ctx)
                 else (Inr \<lparr>sb_State = BindingBound, sb_Origin = serverOrigin\<rparr>, kc, loaded)
               else if \<not> allowLegacyBind then (Inl (SessionBindingError (cx_Name ctx) [] serverOrigin), kc, ctx)
               else (Inr \<lparr>sb_State = BindingMigrated, sb_Origin = serverOrigin\<rparr>,
                     bindLegacySession N J kc account (cr_Cookie cred) (gr_Server g), loaded)))"

definition HasContext :: "Config \<Rightarrow> string \<Rightarrow> bool" where
  "HasContext cfg name \<longleftrightarrow> cf_Contexts cfg name \<noteq> None"

definition ResolveSessionCookie ::
  "netlib \<Rightarrow> json_codec \<Rightarrow> keychain \<Rightarrow> bool \<Rightarrow> Config \<Rightarrow> cred_err option \<times> keychain \<times> Config" where
  "ResolveSessionCookie N J kc allowLegacyBind cfg =
     (if cf_CurrentContext cfg = [] \<or> \<not> HasContext cfg (cf_CurrentContext cfg) then (None, kc, cfg)
      else case cf_Contexts cfg (cf_CurrentContext cfg) of None \<Rightarrow> (None, kc, cfg)
      | Some ctx \<Rightarrow>
          (case ResolveContextSessionCookie N J kc ctx allowLegacyBind of (result, kc', ctx') \<Rightarrow>
            (case result of Inl e \<Rightarrow> Some e | Inr b \<Rightarrow> None, kc',
             cfg\<lparr>cf_Contexts := (cf_Contexts cfg)(cf_CurrentContext cfg \<mapsto> ctx')\<rparr>)))"

section \<open>When a legacy item may be bound\<close>

text \<open>\<^verbatim>\<open>filepath.Clean\<close> on its path elements; the stack of kept elements is reversed.\<close>

fun split_slash :: "string \<Rightarrow> string list" where
  "split_slash [] = [[]]"
| "split_slash (c # cs) =
     (if c = CHR ''/'' then [] # split_slash cs
      else case split_slash cs of e # es \<Rightarrow> (c # e) # es | [] \<Rightarrow> [[c]])"

fun clean_elements :: "bool \<Rightarrow> string list \<Rightarrow> string list \<Rightarrow> string list" where
  "clean_elements rooted kept [] = rev kept"
| "clean_elements rooted kept (e # es) =
     (if e = [] \<or> e = ''.'' then clean_elements rooted kept es
      else if e = ''..''
      then (if kept \<noteq> [] \<and> hd kept \<noteq> ''..'' then clean_elements rooted (tl kept) es
            else if rooted then clean_elements rooted kept es
            else clean_elements rooted (e # kept) es)
      else clean_elements rooted (e # kept) es)"

fun join_slash :: "string list \<Rightarrow> string" where
  "join_slash [] = []"
| "join_slash [e] = e"
| "join_slash (e # es) = e @ ''/'' @ join_slash es"

definition cleanPath :: "string \<Rightarrow> string" where
  "cleanPath path =
     (let rooted = starts_with ''/'' path;
          body = join_slash (clean_elements rooted [] (split_slash path))
      in if rooted then ''/'' @ body else if body = [] then ''.'' else body)"

definition ConfigFileEnvVar :: string where "ConfigFileEnvVar = ''GRAFANAPI_CONFIG''"

definition legacyBindAllowed :: "string \<Rightarrow> bool \<Rightarrow> (string \<rightharpoonup> string) \<Rightarrow> string option \<Rightarrow> bool" where
  "legacyBindAllowed explicitConfigFile envOverridesApplied env passwdHome =
     (let nonEmpty = (\<lambda>name. env name \<noteq> None \<and> env name \<noteq> Some []) in
      if explicitConfigFile \<noteq> [] then False
      else if nonEmpty ConfigFileEnvVar \<or> nonEmpty ''XDG_CONFIG_HOME'' \<or> nonEmpty ''XDG_CONFIG_DIRS'' then False
      else if envOverridesApplied \<and> env ''GRAFANA_SERVER'' \<noteq> None then False
      else case (env ''HOME'', passwdHome) of
        (Some home, Some pwHome) \<Rightarrow> home \<noteq> [] \<and> pwHome \<noteq> [] \<and> cleanPath home = cleanPath pwHome
      | _ \<Rightarrow> False)"

end
