(* ===== verification/Session_Source.thy ===== *)
theory Session_Source
  imports Credentials "HOL-Library.Word"
begin

text \<open>
  The shared session cookie and its rotation (\<^verbatim>\<open>internal/config/session_source.go\<close>).

  Any number of goroutines use one source: each sends a request through the rotating transport or
  forces a refresh. A world holds the fields the mutex guards (\<open>sw_cookie\<close>, \<open>sw_gen\<close>,
  \<open>sw_inflight\<close>), the rotation calls made so far, and for each goroutine where it is (\<open>pc\<close>). One step
  of the machine is one critical section, one reply of the network or one effect outside the mutex,
  of any goroutine, so every interleaving of the program is a sequence of steps. What the network
  answers is part of the step: a status or no answer for a request, a status with cookies, no
  answer, a refused redirect or a panic for a rotation, and success or failure of a keychain write.

  The generation is a 64-bit counter. \<open>rc_base\<close> and \<open>sw_history\<close> are ghosts the program does not
  have: the cookies in the order they became current, and how many rotations had happened when a
  call started; \<open>sw_sent\<close> logs the requests that carried a cookie.
\<close>

section \<open>State\<close>

datatype rotate_err =
    RotateBadServer
  | RotateRefused url_err
  | RotateTls
  | RotateTransport
  | RotateUnauthorized
  | RotateStatus nat
  | RotateNoCookie
  | RotatePanicked

record rotateCall =
  rc_done :: bool
  rc_result :: "(rotate_err + string) option"
  rc_base :: nat

datatype body = NoBody | Stream | Replayable bool  \<comment> \<open>whether \<^verbatim>\<open>GetBody\<close> succeeds\<close>

datatype job = Send "url option" body | ForceRefresh

datatype outcome =
    Refused url_err
  | Failed nat
  | Answered nat nat  \<comment> \<open>which of the two requests, and its status\<close>
  | Refreshed "rotate_err + string"

datatype pc =
    Start
  | Sent string "64 word"
  | Asking "64 word"
  | Waiting nat "64 word"
  | Rotating nat "64 word" string
  | Closing nat "64 word" "rotate_err + string"
  | Persisting "64 word" string
  | Rotated "64 word" "rotate_err + string"
  | Retried string
  | Finished outcome

datatype reply = NoReply | Reply nat

datatype rotate_reply = RotateLost | RedirectRefused url_err | RotateReply nat "(string \<times> string) list" | RotatePanic

datatype event = Tau | Net reply | Rot rotate_reply | Keep bool

record session_setup =
  st_net :: netlib
  st_json :: json_codec
  st_source :: session_source
  st_tls_ok :: bool
  st_jobs :: "job list"

record session_world =
  sw_cookie :: string
  sw_gen :: "64 word"
  sw_inflight :: "nat option"
  sw_calls :: "rotateCall list"
  sw_pc :: "nat \<Rightarrow> pc"
  sw_items :: "string \<rightharpoonup> string"
  sw_sent :: "(url \<times> string) list"
  sw_history :: "string list"

definition goto :: "nat \<Rightarrow> pc \<Rightarrow> session_world \<Rightarrow> session_world" where
  "goto t p w = w\<lparr>sw_pc := (sw_pc w)(t := p)\<rparr>"

definition initial :: "session_setup \<Rightarrow> (string \<rightharpoonup> string) \<Rightarrow> session_world" where
  "initial S items =
     \<lparr>sw_cookie = so_cookie (st_source S), sw_gen = 0, sw_inflight = None, sw_calls = [],
      sw_pc = (\<lambda>t. Start), sw_items = items, sw_sent = [], sw_history = [so_cookie (st_source S)]\<rparr>"

section \<open>The rotation request\<close>

definition extractSessionCookie :: "(string \<times> string) list \<Rightarrow> rotate_err + string" where
  "extractSessionCookie cookies =
     (case find (\<lambda>c. fst c = SessionCookieName \<and> snd c \<noteq> []) cookies of
        Some c \<Rightarrow> Inr (snd c) | None \<Rightarrow> Inl RotateNoCookie)"

text \<open>Whether the rotation request leaves at all, with the address and cookie it carries.\<close>

definition rotateRequest :: "session_setup \<Rightarrow> string \<Rightarrow> rotate_err + url" where
  "rotateRequest S cookie =
     (case buildRotateURL (st_net S) (so_server (st_source S)) of None \<Rightarrow> Inl RotateBadServer
      | Some u \<Rightarrow>
          (case SetSessionCookie (st_net S) \<lparr>hr_URL = Some u, hr_Header = Map.empty\<rparr> (so_server (st_source S)) cookie of
             (Some e, req) \<Rightarrow> Inl (RotateRefused e)
           | (None, req) \<Rightarrow> if st_tls_ok S then Inr u else Inl RotateTls))"

definition doRotate :: "session_setup \<Rightarrow> string \<Rightarrow> rotate_reply \<Rightarrow> rotate_err + string" where
  "doRotate S cookie r =
     bindR (rotateRequest S cookie) (\<lambda>u.
     case r of
       RotateLost \<Rightarrow> Inl RotateTransport
     | RedirectRefused e \<Rightarrow> Inl (RotateRefused e)
     | RotatePanic \<Rightarrow> Inl RotatePanicked
     | RotateReply status cookies \<Rightarrow>
         if status = 200 then extractSessionCookie cookies
         else if status = 401 \<or> status = 403 then Inl RotateUnauthorized
         else Inl (RotateStatus status))"

section \<open>The source\<close>

definition Current :: "session_world \<Rightarrow> string \<times> 64 word" where
  "Current w = (sw_cookie w, sw_gen w)"

text \<open>The critical section at the start of \<^verbatim>\<open>Rotate\<close>.\<close>

definition enterRotate :: "nat \<Rightarrow> 64 word \<Rightarrow> session_world \<Rightarrow> session_world" where
  "enterRotate t usedGen w =
     (if sw_gen w > usedGen then goto t (Rotated usedGen (Inr (sw_cookie w))) w
      else case sw_inflight w of
        Some c \<Rightarrow> goto t (Waiting c usedGen) w
      | None \<Rightarrow>
          goto t (Rotating (length (sw_calls w)) usedGen (sw_cookie w))
            (w\<lparr>sw_calls := sw_calls w @ [\<lparr>rc_done = False, rc_result = None, rc_base = length (sw_history w) - 1\<rparr>],
               sw_inflight := Some (length (sw_calls w))\<rparr>))"

text \<open>The critical section at the end of \<^verbatim>\<open>runRotate\<close>, and the closing of the channel after it.\<close>

definition publish :: "nat \<Rightarrow> nat \<Rightarrow> 64 word \<Rightarrow> rotate_err + string \<Rightarrow> session_world \<Rightarrow> session_world" where
  "publish t c usedGen result w =
     (let w' = w\<lparr>sw_calls := (sw_calls w)[c := (sw_calls w ! c)\<lparr>rc_result := Some result\<rparr>], sw_inflight := None\<rparr>;
          w'' = (case result of Inl e \<Rightarrow> w'
            | Inr newCookie \<Rightarrow> w'\<lparr>sw_cookie := newCookie, sw_gen := sw_gen w + 1, sw_history := sw_history w @ [newCookie]\<rparr>)
      in goto t (Closing c usedGen result) w'')"

definition runRotate ::
  "session_setup \<Rightarrow> nat \<Rightarrow> nat \<Rightarrow> 64 word \<Rightarrow> string \<Rightarrow> rotate_reply \<Rightarrow> session_world \<Rightarrow> session_world" where
  "runRotate S t c usedGen cookie r w =
     publish t c usedGen (doRotate S cookie r)
       (case rotateRequest S cookie of Inl e \<Rightarrow> w | Inr u \<Rightarrow> w\<lparr>sw_sent := sw_sent w @ [(u, cookie)]\<rparr>)"

definition closeCall :: "nat \<Rightarrow> nat \<Rightarrow> 64 word \<Rightarrow> rotate_err + string \<Rightarrow> session_world \<Rightarrow> session_world" where
  "closeCall t c usedGen result w =
     goto t (case result of Inl e \<Rightarrow> Rotated usedGen result | Inr cookie \<Rightarrow> Persisting usedGen cookie)
       (w\<lparr>sw_calls := (sw_calls w)[c := (sw_calls w ! c)\<lparr>rc_done := True\<rparr>]\<rparr>)"

definition persist :: "session_setup \<Rightarrow> nat \<Rightarrow> 64 word \<Rightarrow> string \<Rightarrow> bool \<Rightarrow> session_world \<Rightarrow> session_world" where
  "persist S t usedGen cookie works w =
     goto t (Rotated usedGen (Inr cookie))
       (case EncodeCredential (st_json S) \<lparr>cr_Cookie = cookie, cr_Origin = so_origin (st_source S)\<rparr> of
          Inl e \<Rightarrow> w
        | Inr secret \<Rightarrow> if works then w\<lparr>sw_items := (sw_items w)(so_account (st_source S) \<mapsto> secret)\<rparr> else w)"

section \<open>The transport\<close>

definition begin_job :: "session_setup \<Rightarrow> nat \<Rightarrow> job \<Rightarrow> session_world \<Rightarrow> session_world" where
  "begin_job S t j w =
     (case j of
        ForceRefresh \<Rightarrow> goto t (Asking (snd (Current w))) w
      | Send target b \<Rightarrow>
          (case checkSessionTarget (st_net S) target (so_server (st_source S)) of
             Some e \<Rightarrow> goto t (Finished (Refused e)) w
           | None \<Rightarrow>
               (case Current w of (cookie, gen) \<Rightarrow>
                 goto t (Sent cookie gen) (w\<lparr>sw_sent := sw_sent w @ [(the target, cookie)]\<rparr>))))"

definition firstReply :: "nat \<Rightarrow> 64 word \<Rightarrow> reply \<Rightarrow> session_world \<Rightarrow> session_world" where
  "firstReply t gen r w =
     (case r of NoReply \<Rightarrow> goto t (Finished (Failed 1)) w
      | Reply status \<Rightarrow> if status \<noteq> 401 then goto t (Finished (Answered 1 status)) w else goto t (Asking gen) w)"

definition afterRotate :: "nat \<Rightarrow> job \<Rightarrow> rotate_err + string \<Rightarrow> session_world \<Rightarrow> session_world" where
  "afterRotate t j result w =
     (case j of
        ForceRefresh \<Rightarrow> goto t (Finished (Refreshed result)) w
      | Send target b \<Rightarrow>
          (case result of
             Inl e \<Rightarrow> goto t (Finished (Answered 1 401)) w
           | Inr newCookie \<Rightarrow>
               if b = Stream \<or> b = Replayable False then goto t (Finished (Answered 1 401)) w
               else goto t (Retried newCookie) (w\<lparr>sw_sent := sw_sent w @ [(the target, newCookie)]\<rparr>)))"

definition retryReply :: "nat \<Rightarrow> reply \<Rightarrow> session_world \<Rightarrow> session_world" where
  "retryReply t r w =
     goto t (Finished (case r of NoReply \<Rightarrow> Failed 2 | Reply status \<Rightarrow> Answered 2 status)) w"

section \<open>Steps\<close>

text \<open>The step goroutine \<open>t\<close> takes on an event, if it can.\<close>

definition advance :: "session_setup \<Rightarrow> nat \<Rightarrow> event \<Rightarrow> session_world \<Rightarrow> session_world option" where
  "advance S t ev w =
     (if length (st_jobs S) \<le> t then None
      else case (sw_pc w t, ev) of
        (Start, Tau) \<Rightarrow> Some (begin_job S t (st_jobs S ! t) w)
      | (Sent cookie gen, Net r) \<Rightarrow> Some (firstReply t gen r w)
      | (Asking gen, Tau) \<Rightarrow> Some (enterRotate t gen w)
      | (Waiting c gen, Tau) \<Rightarrow>
          (if rc_done (sw_calls w ! c)
           then map_option (\<lambda>result. goto t (Rotated gen result) w) (rc_result (sw_calls w ! c)) else None)
      | (Rotating c gen cookie, Rot r) \<Rightarrow> Some (runRotate S t c gen cookie r w)
      | (Closing c gen result, Tau) \<Rightarrow> Some (closeCall t c gen result w)
      | (Persisting gen cookie, Keep works) \<Rightarrow> Some (persist S t gen cookie works w)
      | (Rotated gen result, Tau) \<Rightarrow> Some (afterRotate t (st_jobs S ! t) result w)
      | (Retried cookie, Net r) \<Rightarrow> Some (retryReply t r w)
      | _ \<Rightarrow> None)"

inductive reaches :: "session_setup \<Rightarrow> session_world \<Rightarrow> nat \<Rightarrow> session_world \<Rightarrow> bool" for S w0 where
  reaches_start: "reaches S w0 0 w0"
| reaches_step: "reaches S w0 n w \<Longrightarrow> advance S t ev w = Some w' \<Longrightarrow> reaches S w0 (Suc n) w'"

fun steps :: "session_setup \<Rightarrow> (nat \<times> event) list \<Rightarrow> session_world \<Rightarrow> session_world option" where
  "steps S [] w = Some w"
| "steps S ((t, ev) # es) w = (case advance S t ev w of None \<Rightarrow> None | Some w' \<Rightarrow> steps S es w')"

inductive_cases reachesE: "reaches S w0 n w"

end
