(* ===== verification/Session_Properties.thy ===== *)
theory Session_Properties
  imports Session_Source
begin

text \<open>
  What the rotation promises in every interleaving: one rotation at a time, one successful rotation
  per generation, fresh cookies for whoever waited, and an end for every goroutine.
\<close>

section \<open>Cases of a step\<close>

lemma goto_simps [simp]:
  "sw_cookie (goto t p w) = sw_cookie w" "sw_gen (goto t p w) = sw_gen w"
  "sw_inflight (goto t p w) = sw_inflight w" "sw_calls (goto t p w) = sw_calls w"
  "sw_pc (goto t p w) = (sw_pc w)(t := p)" "sw_items (goto t p w) = sw_items w"
  "sw_sent (goto t p w) = sw_sent w" "sw_history (goto t p w) = sw_history w"
  by (simp_all add: goto_def)

lemma closeCall_simps [simp]:
  "sw_history (closeCall t c gen result w) = sw_history w" "sw_inflight (closeCall t c gen result w) = sw_inflight w"
  "sw_cookie (closeCall t c gen result w) = sw_cookie w" "sw_gen (closeCall t c gen result w) = sw_gen w"
  by (simp_all add: closeCall_def)

lemma advanceE:
  assumes "advance S t ev w = Some w'"
  obtains
    (Start) "sw_pc w t = Start" "w' = begin_job S t (st_jobs S ! t) w" "t < length (st_jobs S)"
  | (Sent) cookie gen r where "sw_pc w t = Sent cookie gen" "ev = Net r" "w' = firstReply t gen r w" "t < length (st_jobs S)"
  | (Asking) gen where "sw_pc w t = Asking gen" "w' = enterRotate t gen w" "t < length (st_jobs S)"
  | (Waiting) c gen result where "sw_pc w t = Waiting c gen" "rc_done (sw_calls w ! c)"
      "rc_result (sw_calls w ! c) = Some result" "w' = goto t (Rotated gen result) w" "t < length (st_jobs S)"
  | (Rotating) c gen cookie r where "sw_pc w t = Rotating c gen cookie" "ev = Rot r"
      "w' = runRotate S t c gen cookie r w" "t < length (st_jobs S)"
  | (Closing) c gen result where "sw_pc w t = Closing c gen result" "w' = closeCall t c gen result w" "t < length (st_jobs S)"
  | (Persisting) gen cookie works where "sw_pc w t = Persisting gen cookie" "w' = persist S t gen cookie works w"
      "t < length (st_jobs S)"
  | (Rotated) gen result where "sw_pc w t = Rotated gen result" "w' = afterRotate t (st_jobs S ! t) result w"
      "t < length (st_jobs S)"
  | (Retried) cookie r where "sw_pc w t = Retried cookie" "w' = retryReply t r w" "t < length (st_jobs S)"
  using assms
  by (cases "sw_pc w t"; cases ev)
    (auto simp: advance_def split: if_splits)

section \<open>The invariant\<close>

definition fresh :: "string list \<Rightarrow> 64 word \<Rightarrow> string \<Rightarrow> bool" where
  "fresh H gen cookie \<longleftrightarrow> (\<exists>k k'. gen = of_nat k \<and> k < k' \<and> k' < length H \<and> H ! k' = cookie)"

definition seen :: "string list \<Rightarrow> 64 word \<Rightarrow> bool" where
  "seen H gen \<longleftrightarrow> (\<exists>k. gen = of_nat k \<and> k < length H)"

definition joined :: "session_world \<Rightarrow> nat \<Rightarrow> 64 word \<Rightarrow> bool" where
  "joined w c gen \<longleftrightarrow> c < length (sw_calls w) \<and> (\<exists>k. gen = of_nat k \<and> k \<le> rc_base (sw_calls w ! c))"

definition pc_ok :: "session_world \<Rightarrow> pc \<Rightarrow> bool" where
  "pc_ok w p \<longleftrightarrow>
     (case p of
        Sent cookie gen \<Rightarrow> \<exists>k. gen = of_nat k \<and> k < length (sw_history w) \<and> sw_history w ! k = cookie
      | Asking gen \<Rightarrow> seen (sw_history w) gen
      | Waiting c gen \<Rightarrow> joined w c gen
      | Rotating c gen cookie \<Rightarrow> joined w c gen \<and> sw_inflight w = Some c \<and> cookie = sw_cookie w \<and>
          rc_base (sw_calls w ! c) = length (sw_history w) - 1
      | Closing c gen result \<Rightarrow> joined w c gen \<and> rc_result (sw_calls w ! c) = Some result
      | Persisting gen cookie \<Rightarrow> fresh (sw_history w) gen cookie
      | Rotated gen result \<Rightarrow> (\<forall>cookie. result = Inr cookie \<longrightarrow> fresh (sw_history w) gen cookie)
      | Retried cookie \<Rightarrow> cookie \<in> set (sw_history w)
      | _ \<Rightarrow> True)"

text \<open>The goroutine that will close a call.\<close>

fun owns :: "nat \<Rightarrow> pc \<Rightarrow> bool" where
  "owns c (Rotating d gen cookie) \<longleftrightarrow> c = d"
| "owns c (Closing d gen result) \<longleftrightarrow> c = d"
| "owns c _ \<longleftrightarrow> False"

definition call_fine :: "nat \<Rightarrow> string list \<Rightarrow> nat option \<Rightarrow> (nat \<Rightarrow> bool) \<Rightarrow> nat \<Rightarrow> rotateCall \<Rightarrow> bool" where
  "call_fine n H inflight owner c r \<longleftrightarrow>
     rc_base r < length H \<and>
     (\<forall>cookie. rc_result r = Some (Inr cookie) \<longrightarrow> Suc (rc_base r) < length H \<and> H ! Suc (rc_base r) = cookie) \<and>
     (rc_result r = None \<longleftrightarrow> inflight = Some c) \<and>
     (if rc_done r then rc_result r \<noteq> None \<and> (\<forall>t. \<not> owner t) else \<exists>t < n. owner t)"

definition call_ok :: "nat \<Rightarrow> session_world \<Rightarrow> nat \<Rightarrow> bool" where
  "call_ok n w c \<longleftrightarrow>
     call_fine n (sw_history w) (sw_inflight w) (\<lambda>t. owns c (sw_pc w t)) c (sw_calls w ! c)"

definition succeeded :: "rotateCall \<Rightarrow> bool" where
  "succeeded r \<longleftrightarrow> (\<exists>cookie. rc_result r = Some (Inr cookie))"

definition once :: "rotateCall list \<Rightarrow> bool" where
  "once calls \<longleftrightarrow> (\<forall>c d. c < length calls \<longrightarrow> d < length calls \<longrightarrow> succeeded (calls ! c) \<longrightarrow> succeeded (calls ! d) \<longrightarrow>
     rc_base (calls ! c) = rc_base (calls ! d) \<longrightarrow> c = d)"

definition session_inv :: "nat \<Rightarrow> session_world \<Rightarrow> bool" where
  "session_inv n w \<longleftrightarrow>
     sw_history w \<noteq> [] \<and> sw_cookie w = last (sw_history w) \<and> sw_gen w = of_nat (length (sw_history w) - 1) \<and>
     (\<forall>t. pc_ok w (sw_pc w t)) \<and> (\<forall>c < length (sw_calls w). call_ok n w c) \<and>
     (\<forall>c. sw_inflight w = Some c \<longrightarrow> c < length (sw_calls w)) \<and>
     (\<forall>t u c. owns c (sw_pc w t) \<longrightarrow> owns c (sw_pc w u) \<longrightarrow> t = u) \<and>
     once (sw_calls w)"

lemma session_invI:
  assumes "sw_history w \<noteq> []" "sw_cookie w = last (sw_history w)" "sw_gen w = of_nat (length (sw_history w) - 1)"
    and "\<And>t. pc_ok w (sw_pc w t)" and "\<And>c. c < length (sw_calls w) \<Longrightarrow> call_ok n w c"
    and "\<And>c. sw_inflight w = Some c \<Longrightarrow> c < length (sw_calls w)"
    and "\<And>t u c. owns c (sw_pc w t) \<Longrightarrow> owns c (sw_pc w u) \<Longrightarrow> t = u" and "once (sw_calls w)"
  shows "session_inv n w"
  using assms unfolding session_inv_def by blast

lemma session_invD:
  assumes "session_inv n w"
  shows "sw_history w \<noteq> []" "sw_cookie w = last (sw_history w)" "sw_gen w = of_nat (length (sw_history w) - 1)"
    and "pc_ok w (sw_pc w t)" and "c < length (sw_calls w) \<Longrightarrow> call_ok n w c"
    and "sw_inflight w = Some c \<Longrightarrow> c < length (sw_calls w)"
    and "owns c (sw_pc w t) \<Longrightarrow> owns c (sw_pc w u) \<Longrightarrow> t = u" and "once (sw_calls w)"
  using assms unfolding session_inv_def by blast+

lemma freshI: "gen = of_nat k \<Longrightarrow> k < k' \<Longrightarrow> k' < length H \<Longrightarrow> H ! k' = cookie \<Longrightarrow> fresh H gen cookie"
  unfolding fresh_def by blast

lemma fresh_extend:
  assumes "fresh H gen cookie" "length H \<le> length H'" "\<And>k. k < length H \<Longrightarrow> H' ! k = H ! k"
  shows "fresh H' gen cookie"
proof -
  obtain k k' where k: "gen = of_nat k" "k < k'" "k' < length H" "H ! k' = cookie" using assms(1) by (auto simp: fresh_def)
  then show ?thesis using assms(2,3) by (intro freshI [of gen k k']) auto
qed

lemma session_inv_initial: "session_inv n (initial S items)"
  by (simp add: session_inv_def initial_def pc_ok_def once_def)

lemma no_owner: "\<not> owns c p" if "\<forall>d gen cookie. p \<noteq> Rotating d gen cookie" "\<forall>d gen result. p \<noteq> Closing d gen result"
  using that by (cases p) auto

text \<open>A step that touches neither the source nor the calls.\<close>

lemma session_inv_goto:
  assumes inv: "session_inv n w" and old: "\<forall>c. \<not> owns c (sw_pc w t)" and new: "\<forall>c. \<not> owns c p" and ok: "pc_ok w p"
  shows "session_inv n (goto t p (w\<lparr>sw_items := items, sw_sent := sent\<rparr>))"
proof -
  let ?w = "goto t p (w\<lparr>sw_items := items, sw_sent := sent\<rparr>)"
  have same: "pc_ok ?w q = pc_ok w q" for q by (cases q) (simp_all add: pc_ok_def joined_def)
  have own: "owns c (((sw_pc w)(t := p)) u) \<longleftrightarrow> owns c (sw_pc w u)" for c u using old new by auto
  have fields: "sw_calls ?w = sw_calls w" "sw_history ?w = sw_history w" "sw_inflight ?w = sw_inflight w"
    "sw_cookie ?w = sw_cookie w" "sw_gen ?w = sw_gen w" "sw_pc ?w = (sw_pc w)(t := p)" by simp_all
  have "call_ok n ?w c = call_ok n w c" for c
    by (simp only: call_ok_def fields own)
  moreover have "\<forall>u. pc_ok ?w (sw_pc ?w u)" unfolding same using inv ok by (simp add: session_inv_def)
  ultimately show ?thesis using inv unfolding session_inv_def
    by (simp only: fields own simp_thms) blast
qed

lemma session_inv_open:
  assumes inv: "session_inv n w" and old: "\<forall>c. \<not> owns c (sw_pc w t)" and t: "t < n"
    and idle: "sw_inflight w = None" and gen: "seen (sw_history w) gen"
  shows "session_inv n (goto t (Rotating (length (sw_calls w)) gen (sw_cookie w))
     (w\<lparr>sw_calls := sw_calls w @ [\<lparr>rc_done = False, rc_result = None, rc_base = length (sw_history w) - 1\<rparr>],
        sw_inflight := Some (length (sw_calls w))\<rparr>))" (is "session_inv n ?w")
proof -
  let ?new = "\<lparr>rc_done = False, rc_result = None, rc_base = length (sw_history w) - 1\<rparr>"
  have fields: "sw_calls ?w = sw_calls w @ [?new]" "sw_history ?w = sw_history w"
    "sw_inflight ?w = Some (length (sw_calls w))" "sw_cookie ?w = sw_cookie w" "sw_gen ?w = sw_gen w"
    "sw_pc ?w = (sw_pc w)(t := Rotating (length (sw_calls w)) gen (sw_cookie w))" by simp_all
  have H: "sw_history w \<noteq> []" and pcs: "\<forall>u. pc_ok w (sw_pc w u)"
    and calls: "\<forall>c < length (sw_calls w). call_ok n w c"
    and uniq: "\<forall>t u c. owns c (sw_pc w t) \<longrightarrow> owns c (sw_pc w u) \<longrightarrow> t = u" and once: "once (sw_calls w)"
    using inv by (auto simp: session_inv_def)
  have below: "owns c (sw_pc w u) \<Longrightarrow> c < length (sw_calls w)" for c u
    using pcs by (cases "sw_pc w u") (auto simp: pc_ok_def joined_def dest: spec [of _ u])
  have old_pc: "pc_ok ?w q" if "pc_ok w q" for q
  proof -
    have "joined w c g \<Longrightarrow> joined ?w c g \<and> sw_calls ?w ! c = sw_calls w ! c" for c g
      by (auto simp: joined_def fields nth_append)
    with that idle show ?thesis by (cases q) (auto simp: pc_ok_def)
  qed
  have "pc_ok ?w (Rotating (length (sw_calls w)) gen (sw_cookie w))"
  proof -
    obtain k where "gen = of_nat k" "k < length (sw_history w)" using gen by (auto simp: seen_def)
    then have "joined ?w (length (sw_calls w)) gen" by (auto simp: joined_def intro!: exI [of _ k])
    then show ?thesis by (simp add: pc_ok_def)
  qed
  then have pc': "pc_ok ?w (sw_pc ?w u)" for u using pcs old_pc by (simp add: fields)
  have call': "call_ok n ?w c" if "c < length (sw_calls ?w)" for c
  proof (cases "c < length (sw_calls w)")
    case True
    have "(\<lambda>u. owns c (sw_pc ?w u)) = (\<lambda>u. owns c (sw_pc w u))" using True old by (auto simp: fields)
    then show ?thesis using calls True idle
      by (simp add: call_ok_def call_fine_def fields nth_append del: fun_upd_apply)
  next
    case False
    then have "c = length (sw_calls w)" using that by (simp add: fields)
    then show ?thesis using H t by (auto simp: call_ok_def call_fine_def nth_append intro!: exI [of _ t])
  qed
  have uniq': "u = v" if "owns c (sw_pc ?w u)" "owns c (sw_pc ?w v)" for u v c
    using that uniq below by (fastforce simp: fields split: if_splits)
  have once': "once (sw_calls ?w)"
    using once by (auto simp: once_def fields nth_append succeeded_def less_Suc_eq)
  show ?thesis
  proof (rule session_invI)
    show "u = v" if "owns d (sw_pc ?w u)" "owns d (sw_pc ?w v)" for d u v using that by (rule uniq')
    show "pc_ok ?w (sw_pc ?w u)" for u by (rule pc')
    show "call_ok n ?w d" if "d < length (sw_calls ?w)" for d using that by (rule call')
    show "once (sw_calls ?w)" by (rule once')
  qed (use session_invD(1-3) [OF inv] in \<open>simp_all\<close>)
qed

lemma joined_fresh:
  assumes "joined w c gen" "call_ok n w c" "rc_result (sw_calls w ! c) = Some (Inr cookie)"
  shows "fresh (sw_history w) gen cookie"
proof -
  obtain k where k: "gen = of_nat k" "k \<le> rc_base (sw_calls w ! c)" using assms(1) by (auto simp: joined_def)
  have "Suc (rc_base (sw_calls w ! c)) < length (sw_history w)" "sw_history w ! Suc (rc_base (sw_calls w ! c)) = cookie"
    using assms(2,3) by (auto simp: call_ok_def call_fine_def)
  with k show ?thesis by (intro freshI [of gen k "Suc (rc_base (sw_calls w ! c))"]) auto
qed

lemma session_inv_close:
  assumes inv: "session_inv n w" and old: "sw_pc w t = Closing c gen result"
  shows "session_inv n (closeCall t c gen result w)" (is "session_inv n ?w")
proof -
  let ?p = "case result of Inl e \<Rightarrow> Rotated gen result | Inr cookie \<Rightarrow> Persisting gen cookie"
  define calls' where "calls' = (sw_calls w)[c := (sw_calls w ! c)\<lparr>rc_done := True\<rparr>]"
  have fields: "sw_calls ?w = calls'" "sw_history ?w = sw_history w" "sw_inflight ?w = sw_inflight w"
    "sw_cookie ?w = sw_cookie w" "sw_gen ?w = sw_gen w" "sw_pc ?w = (sw_pc w)(t := ?p)" "length calls' = length (sw_calls w)"
    by (simp_all add: closeCall_def calls'_def)
  have pcs: "\<forall>u. pc_ok w (sw_pc w u)" and calls: "\<forall>c < length (sw_calls w). call_ok n w c"
    and uniq: "\<forall>t u c. owns c (sw_pc w t) \<longrightarrow> owns c (sw_pc w u) \<longrightarrow> t = u" and once: "once (sw_calls w)"
    using inv by (auto simp: session_inv_def)
  have here: "joined w c gen" "rc_result (sw_calls w ! c) = Some result"
    using pcs old by (auto simp: pc_ok_def dest: spec [of _ t])
  from here have c: "c < length (sw_calls w)" by (simp add: joined_def)
  have same: "rc_base (calls' ! d) = rc_base (sw_calls w ! d)" "rc_result (calls' ! d) = rc_result (sw_calls w ! d)"
    "rc_done (calls' ! d) \<longleftrightarrow> d = c \<or> rc_done (sw_calls w ! d)" for d
    using c by (cases "d = c"; simp add: nth_list_update calls'_def)+
  have new: "\<not> owns d ?p" for d by (cases result) auto
  have old_pc: "pc_ok w q \<Longrightarrow> pc_ok ?w q" for q
    by (cases q) (auto simp: pc_ok_def joined_def fields same)
  have "fresh (sw_history w) gen cookie" if "result = Inr cookie" for cookie
    using joined_fresh [OF here(1)] calls c here(2) that by blast
  then have "pc_ok ?w ?p" by (cases result) (simp_all add: pc_ok_def fields)
  with pcs old_pc have pc': "pc_ok ?w (sw_pc ?w u)" for u by (simp add: fields)
  have call': "call_ok n ?w d" if d: "d < length (sw_calls ?w)" for d
  proof -
    have own: "owns d (sw_pc ?w u) \<longleftrightarrow> owns d (sw_pc w u) \<and> u \<noteq> t" for u using new by (simp add: fields)
    show ?thesis
    proof (cases "d = c")
      case True
      then have "\<not> owns d (sw_pc ?w u)" for u using own uniq old by (metis owns.simps(2))
      moreover have "call_ok n w c" using calls c by blast
      ultimately show ?thesis using here(2) True
        by (auto simp: call_ok_def call_fine_def fields(1-3) same)
    next
      case False
      then have "\<not> owns d (sw_pc w t)" by (simp add: old)
      then have owner: "(\<lambda>u. owns d (sw_pc ?w u)) = (\<lambda>u. owns d (sw_pc w u))" unfolding own by (intro ext) auto
      have "calls' ! d = sw_calls w ! d" using False by (simp add: calls'_def)
      moreover have "call_ok n w d" using calls d by (simp add: fields)
      ultimately show ?thesis by (simp only: call_ok_def owner) (simp only: fields(1-3))
    qed
  qed
  have uniq': "u = v" if "owns d (sw_pc ?w u)" "owns d (sw_pc ?w v)" for u v d
    using that uniq new by (auto simp: fields split: if_splits)
  have once': "once (sw_calls ?w)" using once by (simp add: once_def succeeded_def fields same)
  show ?thesis
  proof (rule session_invI)
    show "u = v" if "owns d (sw_pc ?w u)" "owns d (sw_pc ?w v)" for d u v using that by (rule uniq')
    show "pc_ok ?w (sw_pc ?w u)" for u by (rule pc')
    show "call_ok n ?w d" if "d < length (sw_calls ?w)" for d using that by (rule call')
    show "once (sw_calls ?w)" by (rule once')
  qed (use session_invD(1-3,6) [OF inv] fields(1,7) in \<open>simp_all\<close>)
qed

lemma session_inv_publish:
  assumes inv: "session_inv n w" and old: "sw_pc w t = Rotating c gen cookie" and t: "t < n"
  shows "session_inv n (publish t c gen result (w\<lparr>sw_sent := sent\<rparr>))" (is "session_inv n ?w")
proof -
  define calls' where "calls' = (sw_calls w)[c := (sw_calls w ! c)\<lparr>rc_result := Some result\<rparr>]"
  let ?H = "case result of Inl e \<Rightarrow> sw_history w | Inr new \<Rightarrow> sw_history w @ [new]"
  have fields: "sw_calls ?w = calls'" "sw_history ?w = ?H" "sw_inflight ?w = None"
    "sw_pc ?w = (sw_pc w)(t := Closing c gen result)" "length calls' = length (sw_calls w)"
    by (simp_all add: publish_def Let_def calls'_def split: sum.split)
  have H: "sw_history w \<noteq> []" and pcs: "\<forall>u. pc_ok w (sw_pc w u)"
    and calls: "\<forall>c < length (sw_calls w). call_ok n w c"
    and uniq: "\<forall>t u c. owns c (sw_pc w t) \<longrightarrow> owns c (sw_pc w u) \<longrightarrow> t = u" and once: "once (sw_calls w)"
    using inv by (auto simp: session_inv_def)
  have here: "joined w c gen" "sw_inflight w = Some c" "rc_base (sw_calls w ! c) = length (sw_history w) - 1"
    using pcs old by (auto simp: pc_ok_def dest: spec [of _ t])
  from here have c: "c < length (sw_calls w)" by (simp add: joined_def)
  have base: "rc_base (calls' ! d) = rc_base (sw_calls w ! d)" "rc_done (calls' ! d) = rc_done (sw_calls w ! d)" for d
    using c by (cases "d = c"; simp add: nth_list_update calls'_def)+
  have result: "rc_result (calls' ! d) = (if d = c then Some result else rc_result (sw_calls w ! d))" for d
    using c by (simp add: nth_list_update calls'_def)
  have longer: "length (sw_history w) \<le> length ?H" "k < length (sw_history w) \<Longrightarrow> ?H ! k = sw_history w ! k"
    "set (sw_history w) \<subseteq> set ?H" for k
    by (auto simp: nth_append split: sum.split)
  have cookie_gen: "sw_cookie ?w = last ?H \<and> sw_gen ?w = of_nat (length ?H - 1)"
  proof (cases result)
    case (Inr new)
    have "length (sw_history w) = Suc (length (sw_history w) - 1)" using H by simp
    then have "(of_nat (length (sw_history w)) :: 64 word) = of_nat (length (sw_history w) - 1) + 1"
      by (metis add.commute of_nat_Suc)
    with inv Inr show ?thesis by (simp add: publish_def Let_def session_inv_def)
  qed (use inv in \<open>simp add: publish_def Let_def session_inv_def\<close>)
  have old_pc: "pc_ok ?w q" if q: "pc_ok w q" and other: "\<not> owns c q" for q
  proof -
    have "joined w d g \<Longrightarrow> joined ?w d g" for d g by (auto simp: joined_def fields base)
    moreover have "fresh (sw_history w) g ck \<Longrightarrow> fresh ?H g ck" for g ck
      by (erule fresh_extend) (use longer in auto)
    moreover have "seen (sw_history w) g \<Longrightarrow> seen ?H g" for g
      using longer(1) by (auto simp: seen_def intro: less_le_trans)
    ultimately show ?thesis using q other here(2) longer
      by (cases q) (auto simp: pc_ok_def fields result intro: less_le_trans)
  qed
  have new_pc: "pc_ok ?w (Closing c gen result)"
    using here(1) c by (auto simp: pc_ok_def joined_def fields base result)
  have others: "\<not> owns c (sw_pc w u)" if "u \<noteq> t" for u using uniq old that by fastforce
  have pc': "pc_ok ?w (sw_pc ?w u)" for u using pcs old_pc new_pc others by (simp add: fields)
  have same: "owns d (sw_pc ?w u) \<longleftrightarrow> owns d (sw_pc w u)" for d u using old by (simp add: fields)
  have call': "call_ok n ?w d" if "d < length (sw_calls ?w)" for d
  proof (cases "d = c")
    case True
    have "\<exists>u < n. owns c (sw_pc w u)" using old t by fastforce
    moreover have "\<not> rc_done (sw_calls w ! c)"
      using calls c here(2) by (auto simp: call_ok_def call_fine_def)
    ultimately show ?thesis using H True here(3)
      by (auto simp: call_ok_def call_fine_def same fields(1-3) base result nth_append split: sum.split)
  next
    case False
    have "call_ok n w d" using calls that by (simp add: fields)
    with False here(2) longer show ?thesis
      by (auto simp: call_ok_def call_fine_def same fields(1-3) base result intro: less_le_trans)
  qed
  have once': "once (sw_calls ?w)"
  proof -
    have "rc_base (sw_calls w ! d) \<noteq> rc_base (sw_calls w ! c)" if "d < length (sw_calls w)" "succeeded (sw_calls w ! d)" for d
      using calls that here(3) by (auto simp: call_ok_def call_fine_def succeeded_def)
    then show ?thesis using once
      by (auto simp: once_def succeeded_def fields(1,5) base result) metis+
  qed
  have uniq': "u = v" if "owns d (sw_pc ?w u)" "owns d (sw_pc ?w v)" for d u v
    using that uniq unfolding same by blast
  have H': "?H \<noteq> []" using H by (simp split: sum.split)
  show ?thesis
  proof (rule session_invI)
    show "u = v" if "owns d (sw_pc ?w u)" "owns d (sw_pc ?w v)" for d u v using that by (rule uniq')
    show "pc_ok ?w (sw_pc ?w u)" for u by (rule pc')
    show "call_ok n ?w d" if "d < length (sw_calls ?w)" for d using that by (rule call')
    show "once (sw_calls ?w)" by (rule once')
  qed (use cookie_gen H' in \<open>simp_all only: fields, simp_all\<close>)
qed

section \<open>Every step keeps it\<close>

lemma no_owner_old: "session_inv n w \<Longrightarrow> sw_pc w t = p \<Longrightarrow> pc_ok w p"
  by (auto simp: session_inv_def)

lemma session_moves:
  assumes "session_inv n w" "\<forall>c. \<not> owns c (sw_pc w t)" "\<forall>c. \<not> owns c p" "pc_ok w p"
  shows "session_inv n (goto t p w)" "session_inv n (goto t p (w\<lparr>sw_sent := sent\<rparr>))"
    "session_inv n (goto t p (w\<lparr>sw_items := items\<rparr>))"
  using session_inv_goto [OF assms, where items = "sw_items w" and sent = "sw_sent w"]
    session_inv_goto [OF assms, where items = "sw_items w" and sent = sent]
    session_inv_goto [OF assms, where items = items and sent = "sw_sent w"] by simp_all

lemma inflight_base:
  assumes inv: "session_inv n w" and c: "sw_inflight w = Some c"
  shows "c < length (sw_calls w)" "rc_base (sw_calls w ! c) = length (sw_history w) - 1"
    "\<exists>t gen. sw_pc w t = Rotating c gen (sw_cookie w) \<and> t < n"
proof -
  show len: "c < length (sw_calls w)" by (rule session_invD(6) [OF inv c])
  have "call_ok n w c" by (rule session_invD(5) [OF inv len])
  then obtain t where none: "rc_result (sw_calls w ! c) = None" and t: "t < n" "owns c (sw_pc w t)"
    using c by (auto simp: call_ok_def call_fine_def split: if_splits)
  have ok: "pc_ok w (sw_pc w t)" by (rule session_invD(4) [OF inv])
  obtain gen cookie where r: "sw_pc w t = Rotating c gen cookie"
    using t(2) ok none by (cases "sw_pc w t") (auto simp: pc_ok_def)
  with ok show "rc_base (sw_calls w ! c) = length (sw_history w) - 1"
    "\<exists>t gen. sw_pc w t = Rotating c gen (sw_cookie w) \<and> t < n"
    using t(1) by (auto simp: pc_ok_def)
qed

lemma session_inv_step:
  assumes inv: "session_inv (length (st_jobs S)) w" and step: "advance S t ev w = Some w'"
  shows "session_inv (length (st_jobs S)) w'"
  using step
proof (cases rule: advanceE)
  case Start
  have "\<exists>k. sw_gen w = of_nat k \<and> k < length (sw_history w) \<and> sw_history w ! k = sw_cookie w"
    using session_invD(1-3) [OF inv] by (auto simp: last_conv_nth intro!: exI [of _ "length (sw_history w) - 1"])
  then have ok: "pc_ok w (Asking (sw_gen w))" "pc_ok w (Sent (sw_cookie w) (sw_gen w))" "pc_ok w (Finished out)" for out
    by (auto simp: pc_ok_def seen_def)
  show ?thesis
    unfolding Start(2)
    by (auto simp: begin_job_def Current_def Start(1) ok split: job.split option.split
        intro!: session_moves [OF inv])
next
  case (Sent cookie gen r)
  have "pc_ok w (Asking gen)" using no_owner_old [OF inv Sent(1)] by (auto simp: pc_ok_def seen_def)
  moreover have "pc_ok w (Finished out)" for out by (simp add: pc_ok_def)
  ultimately show ?thesis
    by (auto simp: Sent(1,3) firstReply_def split: reply.split intro!: session_moves [OF inv])
next
  case (Asking gen)
  have seen: "seen (sw_history w) gen" using no_owner_old [OF inv Asking(1)] by (simp add: pc_ok_def)
  show ?thesis
  proof (cases "sw_gen w > gen")
    case True
    obtain k where k: "gen = of_nat k" "k < length (sw_history w)" using seen by (auto simp: seen_def)
    have "k \<noteq> length (sw_history w) - 1" using True k(1) session_invD(3) [OF inv] by auto
    then have "fresh (sw_history w) gen (sw_cookie w)"
      using k session_invD(1,2) [OF inv] by (intro freshI [OF k(1), of "length (sw_history w) - 1"]) (auto simp: last_conv_nth)
    then have "pc_ok w (Rotated gen (Inr (sw_cookie w)))" by (simp add: pc_ok_def)
    then show ?thesis using True by (auto simp: Asking enterRotate_def intro!: session_moves [OF inv])
  next
    case False
    show ?thesis
    proof (cases "sw_inflight w")
      case None
      then show ?thesis using False seen Asking session_inv_open [OF inv _ Asking(3) None seen]
        by (simp add: enterRotate_def)
    next
      case (Some c)
      note here = inflight_base [OF inv Some]
      obtain k where k: "gen = of_nat k" "k < length (sw_history w)" using seen by (auto simp: seen_def)
      then have "joined w c gen" using here by (auto simp: joined_def intro!: exI [of _ k])
      then have "pc_ok w (Waiting c gen)" by (simp add: pc_ok_def)
      then show ?thesis using False Some by (auto simp: Asking enterRotate_def intro!: session_moves [OF inv])
    qed
  qed
next
  case (Waiting c gen result)
  have here: "joined w c gen" using no_owner_old [OF inv Waiting(1)] by (simp add: pc_ok_def)
  then have "call_ok (length (st_jobs S)) w c" by (intro session_invD(5) [OF inv]) (simp add: joined_def)
  then have "fresh (sw_history w) gen cookie" if "result = Inr cookie" for cookie
    using joined_fresh [OF here] Waiting(3) that by blast
  then have "pc_ok w (Rotated gen result)" by (simp add: pc_ok_def)
  then show ?thesis by (auto simp: Waiting(1,4) intro!: session_moves [OF inv])
next
  case (Rotating c gen cookie r)
  show ?thesis
    using session_inv_publish [OF inv Rotating(1,4), of _ "sw_sent w"] session_inv_publish [OF inv Rotating(1,4)]
    by (auto simp: Rotating(3) runRotate_def split: sum.split)
next
  case (Closing c gen result)
  then show ?thesis using session_inv_close [OF inv Closing(1)] by simp
next
  case (Persisting gen cookie works)
  have "pc_ok w (Rotated gen (Inr cookie))" using no_owner_old [OF inv Persisting(1)] by (simp add: pc_ok_def)
  then show ?thesis
    by (auto simp: Persisting(1,2) persist_def split: sum.split
        intro!: session_moves [OF inv])
next
  case (Rotated gen result)
  have "pc_ok w (Finished out)" for out by (simp add: pc_ok_def)
  moreover have "pc_ok w (Retried cookie)" if "result = Inr cookie" for cookie
    using no_owner_old [OF inv Rotated(1)] that by (auto simp: pc_ok_def fresh_def)
  ultimately show ?thesis
    by (auto simp: Rotated(1,2) afterRotate_def split: job.split sum.split
        intro!: session_moves [OF inv])
next
  case (Retried cookie r)
  have "pc_ok w (Finished out)" for out by (simp add: pc_ok_def)
  then show ?thesis by (auto simp: Retried(1,2) retryReply_def intro!: session_moves [OF inv])
qed

lemma reaches_inv: "reaches S (initial S items) m w \<Longrightarrow> session_inv (length (st_jobs S)) w"
  by (induction rule: reaches.induct) (simp_all add: session_inv_initial session_inv_step)

text \<open>Every successful call left one cookie in the history.\<close>

lemma length_filter_update:
  "i < length xs \<Longrightarrow> length (filter P (xs[i := x])) + (if P (xs ! i) then 1 else 0) = length (filter P xs) + (if P x then 1 else 0)"
proof (induction xs arbitrary: i)
  case (Cons y ys)
  show ?case
  proof (cases i)
    case (Suc j)
    with Cons.prems have "j < length ys" by simp
    from Cons.IH [OF this] Suc show ?thesis by simp
  qed simp
qed simp

definition counted :: "session_world \<Rightarrow> bool" where
  "counted w \<longleftrightarrow> length (sw_history w) = Suc (length (filter succeeded (sw_calls w)))"

lemma counted_step:
  assumes inv: "session_inv (length (st_jobs S)) w" and w: "counted w" and step: "advance S t ev w = Some w'"
  shows "counted w'"
  using step
proof (cases rule: advanceE)
  case (Rotating c gen cookie r)
  have ok: "pc_ok w (Rotating c gen cookie)" using no_owner_old [OF inv Rotating(1)] .
  then have c: "c < length (sw_calls w)" and idle: "sw_inflight w = Some c" by (simp_all add: pc_ok_def joined_def)
  have "call_ok (length (st_jobs S)) w c" using session_invD(5) [OF inv c] .
  then have "\<not> succeeded (sw_calls w ! c)" using idle by (auto simp: call_ok_def call_fine_def succeeded_def)
  then have count: "length (filter succeeded ((sw_calls w)[c := (sw_calls w ! c)\<lparr>rc_result := Some result\<rparr>])) =
      length (filter succeeded (sw_calls w)) + (if isOk result then 1 else 0)" for result
    using length_filter_update [OF c, of succeeded "(sw_calls w ! c)\<lparr>rc_result := Some result\<rparr>"]
    by (cases result) (auto simp: succeeded_def)
  show ?thesis
    using w count by (simp add: Rotating(3) counted_def runRotate_def publish_def Let_def split: sum.split)
next
  case (Closing c gen result)
  have ok: "pc_ok w (Closing c gen result)" using no_owner_old [OF inv Closing(1)] .
  then have c: "c < length (sw_calls w)" by (simp add: pc_ok_def joined_def)
  have "succeeded ((sw_calls w ! c)\<lparr>rc_done := True\<rparr>) = succeeded (sw_calls w ! c)" by (simp add: succeeded_def)
  then show ?thesis using w length_filter_update [OF c, of succeeded "(sw_calls w ! c)\<lparr>rc_done := True\<rparr>"]
    by (simp add: Closing(2) counted_def closeCall_def split: if_splits)
qed (use w in \<open>auto simp: counted_def begin_job_def firstReply_def enterRotate_def persist_def afterRotate_def
    retryReply_def succeeded_def Current_def split: job.split option.split reply.split sum.split\<close>)

lemma reaches_counted: "reaches S (initial S items) m w \<Longrightarrow> counted w"
proof (induction rule: reaches.induct)
  case reaches_start
  show ?case by (simp add: counted_def initial_def)
next
  case (reaches_step n w t ev w')
  show ?case using counted_step [OF reaches_inv [OF reaches_step.hyps(1)] reaches_step.IH reaches_step.hyps(2)] .
qed

text \<open>C16: rotations are single flight: in every interleaving at most one goroutine is talking to the
  rotation endpoint, no two successful rotations started from the same generation, and there were
  exactly as many as cookies replaced; so any number of requests refused with one cookie cause one
  successful rotation.\<close>

theorem single_flight:
  assumes "reaches S (initial S items) m w"
  shows "(\<forall>t u c d g h a b. sw_pc w t = Rotating c g a \<longrightarrow> sw_pc w u = Rotating d h b \<longrightarrow> t = u) \<and>
    (\<forall>c d. c < length (sw_calls w) \<longrightarrow> d < length (sw_calls w) \<longrightarrow> succeeded (sw_calls w ! c) \<longrightarrow>
      succeeded (sw_calls w ! d) \<longrightarrow> rc_base (sw_calls w ! c) = rc_base (sw_calls w ! d) \<longrightarrow> c = d) \<and>
    length (sw_history w) = Suc (length (filter succeeded (sw_calls w))) \<and> sw_cookie w = last (sw_history w)"
proof -
  note inv = reaches_inv [OF assms]
  have "t = u" if "sw_pc w t = Rotating c g a" "sw_pc w u = Rotating d h b" for t u c d g h a b
  proof -
    have "pc_ok w (sw_pc w t)" "pc_ok w (sw_pc w u)" by (rule session_invD(4) [OF inv])+
    then have "c = d" using that by (auto simp: pc_ok_def)
    then show ?thesis using that by (intro session_invD(7) [OF inv, of c]) auto
  qed
  then show ?thesis using session_invD(2,8) [OF inv] reaches_counted [OF assms] unfolding once_def counted_def by blast
qed

text \<open>C17: a rotation gives a newer cookie: what \<^verbatim>\<open>Rotate\<close> returns without an error became current
  after the generation its caller had used, whether it rotated itself, joined a rotation or found
  one completed; and the first request of a goroutine carries the cookie of its generation.\<close>

theorem rotation_fresh:
  assumes "reaches S (initial S items) m w"
  shows "(\<forall>t gen cookie. sw_pc w t = Rotated gen (Inr cookie) \<longrightarrow>
      (\<exists>k k'. gen = of_nat k \<and> k < k' \<and> k' < length (sw_history w) \<and> sw_history w ! k' = cookie)) \<and>
    (\<forall>t gen cookie. sw_pc w t = Sent cookie gen \<longrightarrow>
      (\<exists>k. gen = of_nat k \<and> k < length (sw_history w) \<and> sw_history w ! k = cookie))"
proof -
  have ok: "pc_ok w (sw_pc w t)" for t by (rule session_invD(4) [OF reaches_inv [OF assms]])
  have "fresh (sw_history w) gen cookie" if "sw_pc w t = Rotated gen (Inr cookie)" for t gen cookie
    using ok [of t] that by (simp add: pc_ok_def)
  moreover have "\<exists>k. gen = of_nat k \<and> k < length (sw_history w) \<and> sw_history w ! k = cookie"
    if "sw_pc w t = Sent cookie gen" for t gen cookie
    using ok [of t] that by (simp add: pc_ok_def)
  ultimately show ?thesis unfolding fresh_def by blast
qed

section \<open>Every goroutine ends\<close>

fun rank :: "pc \<Rightarrow> nat" where
  "rank Start = 8"
| "rank (Sent cookie gen) = 7"
| "rank (Asking gen) = 6"
| "rank (Rotating c gen cookie) = 5"
| "rank (Closing c gen result) = 4"
| "rank (Persisting gen cookie) = 3"
| "rank (Waiting c gen) = 3"
| "rank (Rotated gen result) = 2"
| "rank (Retried cookie) = 1"
| "rank (Finished out) = 0"

definition total :: "session_setup \<Rightarrow> session_world \<Rightarrow> nat" where
  "total S w = (\<Sum>t < length (st_jobs S). rank (sw_pc w t))"

lemma advance_moves:
  assumes "advance S t ev w = Some w'"
  shows "t < length (st_jobs S) \<and> (\<exists>p. sw_pc w' = (sw_pc w)(t := p) \<and> rank p < rank (sw_pc w t))"
  using assms
proof (cases rule: advanceE)
  case Start
  then show ?thesis by (auto simp: begin_job_def Current_def split: job.split option.split)
next
  case (Sent cookie gen r)
  then show ?thesis by (auto simp: firstReply_def split: reply.split)
next
  case (Asking gen)
  then show ?thesis by (auto simp: enterRotate_def split: option.split)
next
  case (Rotating c gen cookie r)
  then show ?thesis by (auto simp: runRotate_def publish_def Let_def split: sum.split)
next
  case (Closing c gen result)
  then show ?thesis by (auto simp: closeCall_def split: sum.split)
next
  case (Persisting gen cookie works)
  then show ?thesis by (auto simp: persist_def split: sum.split)
next
  case (Rotated gen result)
  then show ?thesis by (auto simp: afterRotate_def split: job.split sum.split)
qed (auto simp: retryReply_def)

lemma total_decreases:
  assumes "advance S t ev w = Some w'"
  shows "total S w' < total S w"
proof -
  obtain p where t: "t < length (st_jobs S)" and p: "sw_pc w' = (sw_pc w)(t := p)" "rank p < rank (sw_pc w t)"
    using advance_moves [OF assms] by blast
  show ?thesis unfolding total_def
    by (rule sum_strict_mono_ex1) (use t p in auto)
qed

lemma reaches_bound: "reaches S (initial S items) m w \<Longrightarrow> m + total S w \<le> 8 * length (st_jobs S)"
proof (induction rule: reaches.induct)
  case reaches_start
  show ?case by (simp add: total_def initial_def)
next
  case (reaches_step n w t ev w')
  then show ?case using total_decreases [of S t ev w w'] by simp
qed

lemma unfinished_step:
  assumes inv: "session_inv (length (st_jobs S)) w" and t: "t < length (st_jobs S)" "\<forall>out. sw_pc w t \<noteq> Finished out"
  shows "\<exists>u ev w'. advance S u ev w = Some w'"
proof -
  have runs: "\<exists>ev w'. advance S u ev w = Some w'"
    if "u < length (st_jobs S)" "\<forall>out. sw_pc w u \<noteq> Finished out" "\<forall>c gen. sw_pc w u \<noteq> Waiting c gen" for u
  proof (cases "sw_pc w u")
    case (Sent cookie gen)
    then have "advance S u (Net NoReply) w \<noteq> None" using that by (simp add: advance_def)
    then show ?thesis by blast
  next
    case (Rotating c gen cookie)
    then have "advance S u (Rot RotateLost) w \<noteq> None" using that by (simp add: advance_def)
    then show ?thesis by blast
  next
    case (Persisting gen cookie)
    then have "advance S u (Keep True) w \<noteq> None" using that by (simp add: advance_def)
    then show ?thesis by blast
  next
    case (Retried cookie)
    then have "advance S u (Net NoReply) w \<noteq> None" using that by (simp add: advance_def)
    then show ?thesis by blast
  next
    case Start
    then have "advance S u Tau w \<noteq> None" using that by (simp add: advance_def)
    then show ?thesis by blast
  next
    case (Asking gen)
    then have "advance S u Tau w \<noteq> None" using that by (simp add: advance_def)
    then show ?thesis by blast
  next
    case (Closing c gen result)
    then have "advance S u Tau w \<noteq> None" using that by (simp add: advance_def)
    then show ?thesis by blast
  next
    case (Rotated gen result)
    then have "advance S u Tau w \<noteq> None" using that by (simp add: advance_def)
    then show ?thesis by blast
  qed (use that in auto)
  show ?thesis
  proof (cases "\<exists>c gen. sw_pc w t = Waiting c gen")
    case True
    then obtain c gen where wait: "sw_pc w t = Waiting c gen" by blast
    then have "c < length (sw_calls w)" using no_owner_old [OF inv wait] by (simp add: pc_ok_def joined_def)
    then have ok: "call_ok (length (st_jobs S)) w c" by (rule session_invD(5) [OF inv])
    show ?thesis
    proof (cases "rc_done (sw_calls w ! c)")
      case True
      then have "advance S t Tau w \<noteq> None" using ok wait t by (auto simp: advance_def call_ok_def call_fine_def)
      then show ?thesis by blast
    next
      case False
      then obtain u where u: "u < length (st_jobs S)" "owns c (sw_pc w u)"
        using ok by (auto simp: call_ok_def call_fine_def)
      from u(2) have "\<forall>out. sw_pc w u \<noteq> Finished out" "\<forall>c gen. sw_pc w u \<noteq> Waiting c gen" by auto
      then show ?thesis using runs [OF u(1)] by blast
    qed
  qed (use runs t in blast)
qed

text \<open>C18: no goroutine waits for ever: every run of the machine ends after at most eight steps a
  goroutine, and as long as a goroutine has not finished some goroutine can take a step, so that a
  run that cannot go on has answered every request and every refresh; a waiter is never left behind
  by the rotation it joined, even when that failed or panicked.\<close>

theorem sessions_end:
  assumes "reaches S (initial S items) m w"
  shows "m \<le> 8 * length (st_jobs S) \<and>
    ((\<forall>u ev. advance S u ev w = None) \<longrightarrow> (\<forall>t < length (st_jobs S). \<exists>out. sw_pc w t = Finished out))"
  using reaches_bound [OF assms] unfinished_step [OF reaches_inv [OF assms]] by (fastforce simp del: not_None_eq)

section \<open>Where the cookie goes\<close>

text \<open>A server the cookie may go to: no credentials in the URL, and https or a loopback host.\<close>

definition secure_server :: "netlib \<Rightarrow> string \<Rightarrow> bool" where
  "secure_server N server \<longleftrightarrow> (\<exists>u. parse_url N server = Some u \<and> \<not> u_User u \<and>
     (equalFold (u_Scheme u) ''https'' \<or> (\<exists>host. normalizeHost N (Hostname u) = Some host \<and> isLoopbackHost N host)))"

lemma ValidateServerURL_secure: "ValidateServerURL N server = None \<Longrightarrow> secure_server N server"
  by (auto simp: ValidateServerURL_def secure_server_def parseServer_def split: option.splits sum.splits if_splits)

definition allowed_target :: "netlib \<Rightarrow> string \<Rightarrow> url \<Rightarrow> bool" where
  "allowed_target N server u \<longleftrightarrow> secure_server N server \<and>
     (\<exists>origin. ServerOrigin N server = Inr origin \<and> originOf N u = Inr origin)"

lemma checkSessionTarget_allowed:
  "checkSessionTarget N target server = None \<Longrightarrow> \<exists>u. target = Some u \<and> allowed_target N server u"
  by (auto simp: checkSessionTarget_None allowed_target_def ValidateServerURL_secure)

lemma rotateRequest_allowed:
  "rotateRequest S cookie = Inr u \<Longrightarrow> allowed_target (st_net S) (so_server (st_source S)) u"
  by (auto simp: rotateRequest_def SetSessionCookie_def split: option.splits prod.splits if_splits
      dest!: checkSessionTarget_allowed)

text \<open>A goroutine that has sent its request had its target checked.\<close>

definition checked :: "session_setup \<Rightarrow> session_world \<Rightarrow> bool" where
  "checked S w \<longleftrightarrow> (\<forall>t target b. t < length (st_jobs S) \<longrightarrow> st_jobs S ! t = Send target b \<longrightarrow> sw_pc w t \<noteq> Start \<longrightarrow>
     (\<forall>out. sw_pc w t \<noteq> Finished out) \<longrightarrow> checkSessionTarget (st_net S) target (so_server (st_source S)) = None)"

lemma checked_step:
  assumes "checked S w" and step: "advance S t ev w = Some w'"
  shows "checked S w'"
proof -
  obtain p where p: "sw_pc w' = (sw_pc w)(t := p)" using advance_moves [OF step] by blast
  have "checkSessionTarget (st_net S) target (so_server (st_source S)) = None"
    if "t < length (st_jobs S)" "st_jobs S ! t = Send target b" "\<forall>out. p \<noteq> Finished out" "sw_pc w t = Start" for target b
  proof -
    have "w' = begin_job S t (st_jobs S ! t) w"
      using step that(4) by (cases rule: advanceE) auto
    then have "begin_job S t (Send target b) w = w'" using that(2) by simp
    moreover have "sw_pc w' t = p" by (simp add: p)
    ultimately show ?thesis using that(3) by (auto simp: begin_job_def split: option.splits)
  qed
  moreover have "\<forall>out. sw_pc w t \<noteq> Finished out"
    using step by (cases rule: advanceE) auto
  ultimately have "checkSessionTarget (st_net S) target (so_server (st_source S)) = None"
    if "t < length (st_jobs S)" "st_jobs S ! t = Send target b" "\<forall>out. p \<noteq> Finished out" for target b
    using that assms(1) unfolding checked_def by (cases "sw_pc w t = Start") blast+
  with assms(1) show ?thesis unfolding checked_def p by (simp only: fun_upd_apply) metis
qed

definition sent_ok :: "session_setup \<Rightarrow> session_world \<Rightarrow> bool" where
  "sent_ok S w \<longleftrightarrow> (\<forall>(u, cookie) \<in> set (sw_sent w). allowed_target (st_net S) (so_server (st_source S)) u)"

lemma sent_ok_step:
  assumes inv: "session_inv (length (st_jobs S)) w" and c: "checked S w" and ok: "sent_ok S w"
    and step: "advance S t ev w = Some w'"
  shows "sent_ok S w'"
  using step
proof (cases rule: advanceE)
  case Start
  then show ?thesis using ok
    by (auto simp: begin_job_def sent_ok_def Current_def split: job.splits option.splits dest!: checkSessionTarget_allowed)
next
  case (Rotating c gen cookie r)
  then show ?thesis using ok rotateRequest_allowed [of S cookie]
    by (auto simp: runRotate_def publish_def Let_def sent_ok_def split: sum.splits)
next
  case (Rotated gen result)
  have "checkSessionTarget (st_net S) target (so_server (st_source S)) = None" if "st_jobs S ! t = Send target b" for target b
    using c that Rotated(1,3) by (auto simp: checked_def)
  then show ?thesis using ok Rotated
    by (auto simp: afterRotate_def sent_ok_def split: job.splits sum.splits dest!: checkSessionTarget_allowed)
qed (use ok in \<open>auto simp: sent_ok_def firstReply_def enterRotate_def closeCall_def persist_def retryReply_def
    split: reply.splits option.splits sum.splits\<close>)

text \<open>The stored item of the account only changes to a cookie that was current, bound to the origin.\<close>

definition items_ok :: "session_setup \<Rightarrow> (string \<rightharpoonup> string) \<Rightarrow> session_world \<Rightarrow> bool" where
  "items_ok S items w \<longleftrightarrow>
     (\<forall>account. sw_items w account = items account \<or> (account = so_account (st_source S) \<and>
        (\<exists>cookie \<in> set (sw_history w). \<exists>secret. sw_items w account = Some secret \<and>
          EncodeCredential (st_json S) \<lparr>cr_Cookie = cookie, cr_Origin = so_origin (st_source S)\<rparr> = Inr secret)))"

lemma history_grows: "advance S t ev w = Some w' \<Longrightarrow> set (sw_history w) \<subseteq> set (sw_history w')"
  by (erule advanceE)
    (auto simp: begin_job_def firstReply_def enterRotate_def runRotate_def publish_def persist_def afterRotate_def
      retryReply_def Let_def Current_def split: job.splits reply.splits option.splits sum.splits)

lemma items_ok_step:
  assumes inv: "session_inv (length (st_jobs S)) w" and ok: "items_ok S items w" and step: "advance S t ev w = Some w'"
  shows "items_ok S items w'"
proof (cases "sw_items w' = sw_items w")
  case True
  then show ?thesis using ok history_grows [OF step] unfolding items_ok_def by (metis subsetD)
next
  case False
  show ?thesis
    using step
  proof (cases rule: advanceE)
    case (Persisting gen cookie works)
    have "fresh (sw_history w) gen cookie" using no_owner_old [OF inv Persisting(1)] by (simp add: pc_ok_def)
    then have "cookie \<in> set (sw_history w)" by (auto simp: fresh_def)
    then show ?thesis using ok by (auto simp: Persisting(2) persist_def items_ok_def split: sum.splits)
  qed (use False in \<open>auto simp: begin_job_def firstReply_def enterRotate_def runRotate_def publish_def closeCall_def
      afterRotate_def retryReply_def Let_def Current_def split: job.splits reply.splits option.splits sum.splits if_splits\<close>)
qed

lemma reaches_sent:
  assumes "reaches S (initial S items) m w"
  shows "sent_ok S w \<and> items_ok S items w"
proof -
  have "checked S w \<and> sent_ok S w \<and> items_ok S items w" using assms
  proof (induction rule: reaches.induct)
    case reaches_start
    show ?case by (simp add: checked_def sent_ok_def items_ok_def initial_def)
  next
    case (reaches_step n w t ev w')
    note inv = reaches_inv [OF reaches_step.hyps(1)]
    show ?case using reaches_step.IH reaches_step.hyps(2) checked_step sent_ok_step [OF inv] items_ok_step [OF inv]
      by blast
  qed
  then show ?thesis by blast
qed

end
