(* ===== verification/Session_Safety.thy ===== *)
theory Session_Safety
  imports Session_Properties
begin

text \<open>
  A cookie from login to request: the credential stored at login, its resolution for a context of a
  later command and every request the transports of that command make with it. At the end a run of
  two goroutines that are refused at the same time.
\<close>

section \<open>Stored credentials\<close>

text \<open>What is known of the JSON text of a credential: it is an object, and text that was valid UTF-8
  decodes to what was encoded.\<close>

definition json_ok :: "json_codec \<Rightarrow> bool" where
  "json_ok J \<longleftrightarrow> (\<forall>v cookie origin raw. jc_marshal J (v, cookie, origin) = Some raw \<longrightarrow>
     starts_with ''{'' raw \<and>
     (validString cookie \<and> validString origin \<longrightarrow> jc_decode J raw = Some (v, cookie, origin)))"

lemma DecodeCredential_encoded:
  assumes J: "json_ok J" and e: "EncodeCredential J c = Inr raw"
  shows "DecodeCredential J raw = Inr c" and "\<not> Legacy c"
proof -
  have c: "cr_Cookie c \<noteq> []" "cr_Origin c \<noteq> []" "validString (cr_Cookie c)" "validString (cr_Origin c)"
    "jc_marshal J (CredentialVersion, cr_Cookie c, cr_Origin c) = Some raw"
    using e by (auto simp: EncodeCredential_def split: if_splits option.splits)
  then have "starts_with ''{'' raw" "jc_decode J raw = Some (CredentialVersion, cr_Cookie c, cr_Origin c)"
    using J by (auto simp: json_ok_def)
  then show "DecodeCredential J raw = Inr c" "\<not> Legacy c" using c by (simp_all add: DecodeCredential_def Legacy_def)
qed

lemma resolved_bound:
  assumes "storeGet kc (Account (cx_Name ctx)) = Inr raw" "DecodeCredential J raw = Inr cred" "\<not> Legacy cred"
    and r: "ResolveContextSessionCookie N J kc ctx allow = (Inr found, kc', ctx')" and "sb_State found \<noteq> BindingNone"
  shows "\<exists>g. cx_Grafana ctx = Some g \<and> sb_State found = BindingBound \<and> ServerOrigin N (gr_Server g) = Inr (cr_Origin cred) \<and>
    kc' = kc \<and> ctx' = ctx\<lparr>cx_Grafana := Some (g\<lparr>gr_SessionCookie := cr_Cookie cred,
      gr_Session := Some (NewSessionSource N (cr_Cookie cred) (gr_Server g) (Account (cx_Name ctx)))\<rparr>)\<rparr>"
  using assms
  by (auto simp: ResolveContextSessionCookie_def Let_def split: option.splits sum.splits if_splits)

text \<open>C19: a cookie never reaches another server than the one it was bound to at login: if a context of a
  later command loads the session stored at login, then the cookie is the one of the login, and every
  request that ever carries it or one rotated from it, and every redirect followed from such a
  request, goes to the origin of the server of the login, over https or on the loopback interface;
  and what is written back to the keychain is bound to the same origin.\<close>

theorem cookie_stays_home:
  assumes J: "json_ok J"
    and login: "EncodeSessionCredential N J cookie server = Inr raw"
    and stored: "storeGet kc (Account (cx_Name ctx)) = Inr raw"
    and resolved: "ResolveContextSessionCookie N J kc ctx allow = (Inr found, kc', ctx')" "sb_State found \<noteq> BindingNone"
    and src: "cx_Grafana ctx' = Some g" "gr_Session g = Some (st_source S)" "st_net S = N" "st_json S = J"
    and run: "reaches S (initial S (kc_items kc')) m w"
  shows "\<exists>origin. ServerOrigin N server = Inr origin \<and> so_cookie (st_source S) = cookie \<and>
    (\<forall>(u, c) \<in> set (sw_sent w). originOf N u = Inr origin \<and> secure_server N (so_server (st_source S)) \<and>
      (\<forall>later. (\<forall>v \<in> set (fst (follow N (so_server (st_source S)) [u] later)). originOf N v = Inr origin) \<and>
        length (fst (follow N (so_server (st_source S)) [u] later)) \<le> maxRedirects)) \<and>
    (\<forall>raw' cred. sw_items w (so_account (st_source S)) = Some raw' \<longrightarrow> DecodeCredential J raw' = Inr cred \<longrightarrow>
      cr_Origin cred = origin)"
proof -
  obtain origin where origin: "ServerOrigin N server = Inr origin"
    and e: "EncodeCredential J \<lparr>cr_Cookie = cookie, cr_Origin = origin\<rparr> = Inr raw"
    using login by (auto simp: EncodeSessionCredential_def split: sum.splits)
  note decoded = DecodeCredential_encoded [OF J e]
  obtain g0 where g0: "ServerOrigin N (gr_Server g0) = Inr origin" "kc' = kc"
    "ctx' = ctx\<lparr>cx_Grafana := Some (g0\<lparr>gr_SessionCookie := cookie,
      gr_Session := Some (NewSessionSource N cookie (gr_Server g0) (Account (cx_Name ctx)))\<rparr>)\<rparr>"
    using resolved_bound [OF stored decoded resolved] by auto
  have source: "st_source S = NewSessionSource N cookie (gr_Server g0) (Account (cx_Name ctx))"
    using src(1,2) g0(3) by auto
  then have s: "so_cookie (st_source S) = cookie" "so_server (st_source S) = gr_Server g0"
    "so_origin (st_source S) = origin" "so_account (st_source S) = Account (cx_Name ctx)"
    using g0(1) by (simp_all add: NewSessionSource_def)
  note sent = reaches_sent [OF run]
  have "originOf N u = Inr origin \<and> secure_server N (so_server (st_source S)) \<and>
      (\<forall>later. (\<forall>v \<in> set (fst (follow N (so_server (st_source S)) [u] later)). originOf N v = Inr origin) \<and>
        length (fst (follow N (so_server (st_source S)) [u] later)) \<le> maxRedirects)"
    if "(u, c) \<in> set (sw_sent w)" for u c
  proof -
    have "allowed_target N (so_server (st_source S)) u" using sent that src(3) by (auto simp: sent_ok_def)
    then have u: "originOf N u = Inr origin" "secure_server N (so_server (st_source S))"
      using g0(1) by (simp_all add: allowed_target_def s)
    have "(\<forall>v \<in> set (fst (follow N (so_server (st_source S)) [u] later)). originOf N v = Inr origin) \<and>
        length (fst (follow N (so_server (st_source S)) [u] later)) \<le> maxRedirects" for later
    proof -
      obtain all stop where f: "follow N (so_server (st_source S)) [u] later = (all, stop)" by (rule prod.exhaust)
      show ?thesis using follow_origin [OF f] u(1) g0(1) s(2) by (simp add: f [unfolded s(2)] maxRedirects_def)
    qed
    with u show ?thesis by blast
  qed
  moreover have "cr_Origin cred = origin"
    if item: "sw_items w (so_account (st_source S)) = Some raw'" and d: "DecodeCredential J raw' = Inr cred" for raw' cred
  proof -
    consider "raw' = raw"
      | cookie' where "EncodeCredential J \<lparr>cr_Cookie = cookie', cr_Origin = origin\<rparr> = Inr raw'"
      using sent item stored g0(2) s src(4)
      by (auto simp: items_ok_def storeGet_def split: option.splits) (metis option.inject)+
    then show ?thesis using d decoded(1) DecodeCredential_encoded(1) [OF J] by cases fastforce+
  qed
  ultimately show ?thesis using origin s(1) by blast
qed

section \<open>Two goroutines\<close>

definition home_url :: url where
  "home_url = \<lparr>u_Scheme = ''https'', u_User = False, u_Host = ''g.example'', u_Path = [], u_RawQuery = [], u_Fragment = []\<rparr>"

definition home_net :: netlib where
  "home_net = \<lparr>parse_url = (\<lambda>s. if s = ''https://g.example'' then Some home_url else None), parse_addr = (\<lambda>h. None)\<rparr>"

text \<open>A codec for one payload.\<close>

definition one_codec :: json_codec where
  "one_codec = \<lparr>jc_marshal = (\<lambda>p. if p = (1, ''c0'', ''https://g.example:443'') then Some ''{'' else None),
     jc_decode = (\<lambda>s. if s = ''{'' then Some (1, ''c0'', ''https://g.example:443'') else None)\<rparr>"

definition home_source :: session_source where
  "home_source = \<lparr>so_cookie = ''c0'', so_server = ''https://g.example'', so_origin = ''https://g.example:443'',
     so_account = ''grafanapi:dev''\<rparr>"

definition two_jobs :: session_setup where
  "two_jobs = \<lparr>st_net = home_net, st_json = one_codec, st_source = home_source, st_tls_ok = True,
     st_jobs = [Send (Some home_url) NoBody, Send (Some home_url) NoBody]\<rparr>"

text \<open>Both requests are refused; one goroutine rotates, the other joins.\<close>

definition two_schedule :: "(nat \<times> event) list" where
  "two_schedule = [(0, Tau), (1, Tau), (0, Net (Reply 401)), (1, Net (Reply 401)), (0, Tau), (1, Tau),
     (0, Rot (RotateReply 200 [(''other'', ''x''), (SessionCookieName, ''c1'')])), (0, Tau), (1, Tau)]"

lemma steps_reaches: "steps S es w = Some w' \<Longrightarrow> reaches S w0 n w \<Longrightarrow> \<exists>m. reaches S w0 m w'"
proof (induction es arbitrary: w n)
  case (Cons e es)
  obtain t ev where e: "e = (t, ev)" by (cases e)
  then obtain w1 where "advance S t ev w = Some w1" "steps S es w1 = Some w'"
    using Cons.prems(1) by (auto split: option.splits)
  with Cons.IH [of w1 "Suc n"] Cons.prems(2) show ?case by (blast intro: reaches_step)
qed auto

lemma home_origin:
  "originOf home_net home_url = Inr ''https://g.example:443''" "ServerOrigin home_net ''https://g.example'' = Inr ''https://g.example:443''"
  "ValidateServerURL home_net ''https://g.example'' = None"
proof -
  show o: "originOf home_net home_url = Inr ''https://g.example:443''" by code_simp
  have p: "parseServer home_net ''https://g.example'' = Inr home_url" by (simp add: parseServer_def home_net_def)
  show "ServerOrigin home_net ''https://g.example'' = Inr ''https://g.example:443''" by (simp add: ServerOrigin_def p o)
  have "equalFold (u_Scheme home_url) ''https''" "\<not> u_User home_url" by (simp_all add: home_url_def equalFold_def)
  then show "ValidateServerURL home_net ''https://g.example'' = None" by (simp add: ValidateServerURL_def p o)
qed

lemma home_target:
  "checkSessionTarget home_net (Some home_url) ''https://g.example'' = None"
  by (simp add: checkSessionTarget_None home_origin)

lemma home_rotate: "\<exists>u. \<forall>cookie. rotateRequest two_jobs cookie = Inr u"
proof -
  obtain u where u: "buildRotateURL home_net ''https://g.example'' = Some u"
    by (simp add: buildRotateURL_def buildURL_def home_net_def)
  then have "originOf home_net u = Inr ''https://g.example:443''"
    using originOf_buildURL [of home_net _ "''https://g.example''" u] home_origin(1)
    by (auto simp: buildRotateURL_def home_net_def)
  then have "checkSessionTarget home_net (Some u) ''https://g.example'' = None"
    by (simp add: checkSessionTarget_None home_origin)
  then show ?thesis by (simp add: rotateRequest_def two_jobs_def home_source_def u SetSessionCookie_def)
qed

lemma two_run:
  "\<exists>w. steps two_jobs two_schedule (initial two_jobs items) = Some w \<and> sw_history w = [''c0'', ''c1''] \<and>
     sw_pc w 0 = Persisting 0 ''c1'' \<and> sw_pc w 1 = Rotated 0 (Inr ''c1'') \<and> length (sw_calls w) = 1 \<and>
     set (sw_sent w) \<supseteq> {(home_url, ''c0'')}"
proof -
  obtain u where rot: "\<forall>cookie. rotateRequest two_jobs cookie = Inr u" using home_rotate by blast
  then have u: "rotateRequest two_jobs cookie = Inr u" for cookie by blast
  have reply: "doRotate two_jobs cookie (RotateReply 200 [(''other'', ''x''), (SessionCookieName, ''c1'')]) = Inr ''c1''" for cookie
    by (simp add: doRotate_def u extractSessionCookie_def SessionCookieName_def)
  have fields: "st_jobs two_jobs = [Send (Some home_url) NoBody, Send (Some home_url) NoBody]"
    "st_net two_jobs = home_net" "so_server (st_source two_jobs) = ''https://g.example''" "so_cookie (st_source two_jobs) = ''c0''"
    by (simp_all add: two_jobs_def home_source_def)
  show ?thesis
    by (simp add: two_schedule_def advance_def fields begin_job_def home_target Current_def firstReply_def enterRotate_def
        runRotate_def u reply publish_def closeCall_def initial_def goto_def Let_def)
qed

lemma two_reached:
  "\<exists>m w. reaches two_jobs (initial two_jobs items) m w \<and> sw_history w = [''c0'', ''c1''] \<and>
     sw_pc w 0 = Persisting 0 ''c1'' \<and> sw_pc w 1 = Rotated 0 (Inr ''c1'') \<and> length (sw_calls w) = 1 \<and>
     (home_url, ''c0'') \<in> set (sw_sent w)"
  using two_run [of items] steps_reaches [OF _ reaches_start] by (metis insert_subset)

theorem single_flight_witness:
  "\<exists>m w. reaches two_jobs (initial two_jobs Map.empty) m w \<and> sw_pc w 1 = Rotated 0 (Inr ''c1'') \<and>
     length (sw_history w) = Suc (length (filter succeeded (sw_calls w))) \<and> sw_cookie w = ''c1''"
proof -
  obtain m w where w: "reaches two_jobs (initial two_jobs Map.empty) m w" "sw_history w = [''c0'', ''c1'']"
    "sw_pc w 1 = Rotated 0 (Inr ''c1'')" using two_reached by blast
  from single_flight [OF w(1)] w show ?thesis by (metis last.simps list.distinct(1))
qed

theorem rotation_fresh_witness:
  "\<exists>m w. reaches two_jobs (initial two_jobs Map.empty) m w \<and>
     (\<exists>k k'. (0::64 word) = of_nat k \<and> k < k' \<and> k' < length (sw_history w) \<and> sw_history w ! k' = ''c1'')"
proof -
  obtain m w where w: "reaches two_jobs (initial two_jobs Map.empty) m w" "sw_pc w 1 = Rotated 0 (Inr ''c1'')"
    using two_reached by blast
  from rotation_fresh [OF w(1)] w show ?thesis by blast
qed

theorem sessions_end_witness:
  "\<exists>m w. reaches two_jobs (initial two_jobs Map.empty) m w \<and> sw_pc w 0 = Persisting 0 ''c1'' \<and> m \<le> 16"
proof -
  obtain m w where w: "reaches two_jobs (initial two_jobs Map.empty) m w" "sw_pc w 0 = Persisting 0 ''c1''"
    using two_reached by blast
  moreover have "m \<le> 16" using sessions_end [OF w(1)] by (simp add: two_jobs_def)
  ultimately show ?thesis by blast
qed

definition dev_context :: Context where
  "dev_context = \<lparr>cx_Name = ''dev'', cx_Grafana = Some \<lparr>gr_Server = ''https://g.example'', gr_OrgID = 1, gr_StackID = 0,
     gr_LiveWindow = [], gr_SessionCookie = [], gr_Session = None\<rparr>\<rparr>"

definition dev_keychain :: keychain where
  "dev_keychain = \<lparr>kc_items = [''grafanapi:dev'' \<mapsto> ''{''], kc_get_error = \<lambda>a. None, kc_set_ok = True\<rparr>"

lemma dev_resolved:
  "\<exists>found ctx' g. ResolveContextSessionCookie home_net one_codec dev_keychain dev_context False = (Inr found, dev_keychain, ctx') \<and>
     sb_State found \<noteq> BindingNone \<and> cx_Grafana ctx' = Some g \<and> gr_Session g = Some (st_source two_jobs)"
proof -
  have "DecodeCredential one_codec ''{'' = Inr \<lparr>cr_Cookie = ''c0'', cr_Origin = ''https://g.example:443''\<rparr>"
    by (simp add: DecodeCredential_def one_codec_def CredentialVersion_def starts_with_def)
  moreover have "storeGet dev_keychain (Account ''dev'') = Inr ''{''"
    by (simp add: storeGet_def dev_keychain_def Account_def Service_def)
  ultimately show ?thesis
    by (simp add: ResolveContextSessionCookie_def dev_context_def home_origin Legacy_def two_jobs_def home_source_def
        NewSessionSource_def Account_def Service_def)
qed

theorem cookie_stays_home_witness:
  "\<exists>m w. reaches two_jobs (initial two_jobs (kc_items dev_keychain)) m w \<and> (home_url, ''c0'') \<in> set (sw_sent w) \<and>
     originOf home_net home_url = Inr ''https://g.example:443'' \<and> secure_server home_net ''https://g.example''"
proof -
  obtain m w where w: "reaches two_jobs (initial two_jobs (kc_items dev_keychain)) m w" "(home_url, ''c0'') \<in> set (sw_sent w)"
    using two_reached by blast
  obtain found ctx' g where r: "ResolveContextSessionCookie home_net one_codec dev_keychain dev_context False = (Inr found, dev_keychain, ctx')"
    "sb_State found \<noteq> BindingNone" "cx_Grafana ctx' = Some g" "gr_Session g = Some (st_source two_jobs)"
    using dev_resolved by blast
  have J: "json_ok one_codec" by (simp add: json_ok_def one_codec_def starts_with_def)
  have "validString ''c0''" "validString ''https://g.example:443''"
    by (simp_all add: validString_def runes_Cons_ascii encodeRune_def valid_rune_def) code_simp+
  then have e: "EncodeSessionCredential home_net one_codec ''c0'' ''https://g.example'' = Inr ''{''"
    by (simp add: EncodeSessionCredential_def home_origin EncodeCredential_def one_codec_def CredentialVersion_def)
  have s: "storeGet dev_keychain (Account (cx_Name dev_context)) = Inr ''{''"
    by (simp add: storeGet_def dev_keychain_def Account_def Service_def dev_context_def)
  have S: "st_net two_jobs = home_net" "st_json two_jobs = one_codec" "so_server (st_source two_jobs) = ''https://g.example''"
    by (simp_all add: two_jobs_def home_source_def)
  obtain origin where "ServerOrigin home_net ''https://g.example'' = Inr origin"
    "\<forall>(u, c) \<in> set (sw_sent w). originOf home_net u = Inr origin \<and> secure_server home_net (so_server (st_source two_jobs))"
    using cookie_stays_home [OF J e s r S(1,2) w(1)] by fast
  then have "secure_server home_net (so_server (st_source two_jobs))" using w(2) by blast
  then show ?thesis using w S(3) home_origin(1) by metis
qed

section \<open>Two rotations in a row\<close>

text \<open>The keychain write of a rotation happens after its result was published and under no lock. So
  a second rotation can be refused, rotated and persisted in between, and the older cookie is then
  what the keychain keeps.\<close>

definition late_persist :: "(nat \<times> event) list" where
  "late_persist = [(0, Tau), (0, Net (Reply 401)), (0, Tau), (0, Rot (RotateReply 200 [(SessionCookieName, ''c1'')])), (0, Tau),
     (1, Tau), (1, Net (Reply 401)), (1, Tau), (1, Rot (RotateReply 200 [(SessionCookieName, ''c2'')])), (1, Tau),
     (1, Keep True), (0, Keep True)]"

definition plain_codec :: json_codec where
  "plain_codec = \<lparr>jc_marshal = \<lambda>p. case p of (version, cookie, origin) \<Rightarrow> Some (''{'' @ cookie), jc_decode = \<lambda>s. None\<rparr>"

lemma stale_cookie_kept:
  "\<exists>m w. reaches (two_jobs\<lparr>st_json := plain_codec\<rparr>) (initial (two_jobs\<lparr>st_json := plain_codec\<rparr>) Map.empty) m w \<and>
     sw_cookie w = ''c2'' \<and> sw_items w ''grafanapi:dev'' = Some ''{c1'' \<and>
     EncodeCredential plain_codec \<lparr>cr_Cookie = ''c1'', cr_Origin = so_origin (st_source two_jobs)\<rparr> = Inr ''{c1''"
proof -
  let ?S = "two_jobs\<lparr>st_json := plain_codec\<rparr>"
  obtain u where u: "\<forall>cookie. rotateRequest two_jobs cookie = Inr u" using home_rotate by blast
  then have u: "rotateRequest ?S cookie = Inr u" for cookie by (simp cong: option.case_cong add: rotateRequest_def)
  have reply: "doRotate ?S cookie (RotateReply 200 [(SessionCookieName, v)]) = Inr v" if "v \<noteq> []" for cookie v
    using that by (simp add: doRotate_def u extractSessionCookie_def)
  have "validString ''c1''" "validString ''c2''" "validString ''https://g.example:443''"
    by (simp_all add: validString_def runes_Cons_ascii encodeRune_def valid_rune_def) code_simp+
  then have enc: "EncodeCredential plain_codec \<lparr>cr_Cookie = ''c1'', cr_Origin = ''https://g.example:443''\<rparr> = Inr ''{c1''"
    "EncodeCredential plain_codec \<lparr>cr_Cookie = ''c2'', cr_Origin = ''https://g.example:443''\<rparr> = Inr ''{c2''"
    by (simp_all add: EncodeCredential_def plain_codec_def)
  have fields: "st_jobs two_jobs = [Send (Some home_url) NoBody, Send (Some home_url) NoBody]" "st_net two_jobs = home_net"
    "so_server (st_source two_jobs) = ''https://g.example''" "so_cookie (st_source two_jobs) = ''c0''"
    "so_origin (st_source two_jobs) = ''https://g.example:443''" "so_account (st_source two_jobs) = ''grafanapi:dev''"
    by (simp_all add: two_jobs_def home_source_def)
  have "\<exists>w. steps ?S late_persist (initial ?S Map.empty) = Some w \<and> sw_cookie w = ''c2'' \<and> sw_items w ''grafanapi:dev'' = Some ''{c1''"
    by (simp add: late_persist_def advance_def fields begin_job_def home_target Current_def firstReply_def enterRotate_def
        runRotate_def u reply publish_def closeCall_def initial_def goto_def Let_def persist_def enc)
  then show ?thesis using steps_reaches [OF _ reaches_start] enc(1) fields(5) by metis
qed

end
