(* ===== verification/Resource_Model.thy ===== *)
theory Resource_Model
  imports Json_Values "HOL-Library.AList"
begin

text \<open>
  Kubernetes-style resources and collections of them (\<^verbatim>\<open>internal/resources/resources.go\<close>,
  \<^verbatim>\<open>descriptor.go\<close>), the processors that rewrite them (\<^verbatim>\<open>internal/resources/process\<close>) and the summary
  of a batch operation (\<^verbatim>\<open>internal/resources/remote/summary.go\<close>).

  The accessors of Grafana's own packages, which read the folder and the manager of a resource from
  its annotations, and the names those packages define are the parameter \<open>grafana_lib\<close>. A Go map is
  an association list with pairwise different keys; an iteration over it goes through a permutation
  of the keys, so what iterates takes the order it visits them in as an argument. The callbacks of
  \<^verbatim>\<open>Resources.OnChange\<close> are not modelled.
\<close>

section \<open>Resources\<close>

record GroupVersionKind =
  gvk_Group :: string
  gvk_Version :: string
  gvk_Kind :: string

datatype Format = FormatJSON | FormatYAML

record Resource =
  rs_Empty :: bool
  rs_GVK :: GroupVersionKind
  rs_Namespace :: string
  rs_Name :: string
  rs_ResourceVersion :: string
  rs_Annotations :: "string \<rightharpoonup> string"
  rs_Labels :: "string \<rightharpoonup> string"
  rs_Spec :: "string + json"
  rs_SourcePath :: string
  rs_SourceFormat :: Format

record grafana_lib =
  gl_FolderGroup :: string
  gl_FolderKind :: string
  gl_ManagerKindKubectl :: string
  gl_folder :: "(string \<rightharpoonup> string) \<Rightarrow> string"
  gl_manager :: "(string \<rightharpoonup> string) \<Rightarrow> string option"
  gl_set_manager :: "string \<Rightarrow> string \<Rightarrow> (string \<rightharpoonup> string) \<Rightarrow> (string \<rightharpoonup> string)"
  gl_set_source :: "string \<Rightarrow> (string \<rightharpoonup> string) \<Rightarrow> (string \<rightharpoonup> string)"
  gl_server_annotations :: "string list"
  gl_manager_annotations :: "string list"
  gl_server_labels :: "string list"

definition ResourceManagerKind :: "grafana_lib \<Rightarrow> string" where
  "ResourceManagerKind L = gl_ManagerKindKubectl L"

definition gvkString :: "GroupVersionKind \<Rightarrow> string" where
  "gvkString g = gvk_Group g @ ''/'' @ gvk_Version g @ '', Kind='' @ gvk_Kind g"

definition ResourceRef :: "Resource \<Rightarrow> string" where
  "ResourceRef r = gvkString (rs_GVK r) @ ''/'' @ rs_Namespace r @ ''-'' @ rs_Name r"

definition APIVersion :: "Resource \<Rightarrow> string" where
  "APIVersion r = gvk_Group (rs_GVK r) @ ''/'' @ gvk_Version (rs_GVK r)"

definition GetManagerKind :: "grafana_lib \<Rightarrow> Resource \<Rightarrow> string" where
  "GetManagerKind L r = (case gl_manager L (rs_Annotations r) of None \<Rightarrow> ResourceManagerKind L | Some k \<Rightarrow> k)"

definition IsManaged :: "grafana_lib \<Rightarrow> Resource \<Rightarrow> bool" where
  "IsManaged L r \<longleftrightarrow> GetManagerKind L r = ResourceManagerKind L"

definition IsFolder :: "grafana_lib \<Rightarrow> Resource \<Rightarrow> bool" where
  "IsFolder L r \<longleftrightarrow> gvk_Group (rs_GVK r) = gl_FolderGroup L \<and> gvk_Kind (rs_GVK r) = gl_FolderKind L"

definition GetFolder :: "grafana_lib \<Rightarrow> Resource \<Rightarrow> string" where
  "GetFolder L r = gl_folder L (rs_Annotations r)"

definition SourceString :: "Resource \<Rightarrow> string" where
  "SourceString r = ''file://'' @ rs_SourcePath r"

section \<open>Collections\<close>

type_synonym Resources = "(string \<times> Resource) list"

definition AddResource :: "Resource \<Rightarrow> Resources \<Rightarrow> Resources" where
  "AddResource r c = AList.update (ResourceRef r) r c"

definition AddResources :: "Resource list \<Rightarrow> Resources \<Rightarrow> Resources" where
  "AddResources rs c = fold AddResource rs c"

definition NewResources :: "Resource list \<Rightarrow> Resources" where
  "NewResources rs = AddResources rs []"

definition AsList :: "Resources \<Rightarrow> Resource list" where
  "AsList c = map snd c"

definition Len :: "Resources \<Rightarrow> nat" where
  "Len c = length c"

text \<open>\<open>visited\<close> is the collection in the order the iteration takes.\<close>

definition FindResource :: "Resource list \<Rightarrow> string \<Rightarrow> string \<Rightarrow> Resource option" where
  "FindResource visited kind name = find (\<lambda>r. gvk_Kind (rs_GVK r) = kind \<and> rs_Name r = name) visited"

definition MergeResources :: "Resource list \<Rightarrow> Resources \<Rightarrow> Resources" where
  "MergeResources visited c = AddResources visited c"

definition addToKind :: "Resource \<Rightarrow> (string \<times> Resources) list \<Rightarrow> (string \<times> Resources) list" where
  "addToKind r groups =
     (let kind = gvk_Kind (rs_GVK r);
          present = (case map_of groups kind of None \<Rightarrow> [] | Some c \<Rightarrow> c)
      in AList.update kind (AddResource r present) groups)"

definition GroupByKind :: "Resource list \<Rightarrow> (string \<times> Resources) list" where
  "GroupByKind visited = fold addToKind visited []"

definition SortUnstructured :: "Resource list \<Rightarrow> Resource list" where
  "SortUnstructured = sort_key (\<lambda>r. (gvk_Group (rs_GVK r), gvk_Version (rs_GVK r), gvk_Kind (rs_GVK r), rs_Name r))"

section \<open>Descriptors\<close>

record Descriptor =
  ds_Group :: string
  ds_Version :: string
  ds_Kind :: string
  ds_Singular :: string
  ds_Plural :: string

definition DescriptorsSorted :: "Descriptor list \<Rightarrow> Descriptor list" where
  "DescriptorsSorted = sort_key (\<lambda>d. (ds_Group d, ds_Version d, ds_Kind d))"

definition descriptorString :: "Descriptor \<Rightarrow> string" where
  "descriptorString d = ds_Plural d @ ''.'' @ ds_Version d @ ''.'' @ ds_Group d"

definition descriptorGVK :: "Descriptor \<Rightarrow> GroupVersionKind" where
  "descriptorGVK d = \<lparr>gvk_Group = ds_Group d, gvk_Version = ds_Version d, gvk_Kind = ds_Kind d\<rparr>"

definition DescriptorMatches :: "Descriptor \<Rightarrow> GroupVersionKind \<Rightarrow> bool" where
  "DescriptorMatches d g \<longleftrightarrow> ds_Group d = gvk_Group g \<and> ds_Version d = gvk_Version g \<and> ds_Kind d = gvk_Kind g"

section \<open>Processors\<close>

type_synonym Processor = "Resource \<Rightarrow> string + Resource"

definition NamespaceOverrider :: "string \<Rightarrow> Processor" where
  "NamespaceOverrider target r = Inr (if rs_Empty r then r else r\<lparr>rs_Namespace := target\<rparr>)"

definition ManagerFieldsAppender :: "grafana_lib \<Rightarrow> Processor" where
  "ManagerFieldsAppender L r =
     Inr (if rs_Empty r \<or> \<not> IsManaged L r then r
          else r\<lparr>rs_Annotations := gl_set_source L (SourceString r)
                   (gl_set_manager L (ResourceManagerKind L) ''grafanapi'' (rs_Annotations r))\<rparr>)"

definition ServerFieldsStripper :: "grafana_lib \<Rightarrow> Processor" where
  "ServerFieldsStripper L r =
     (if rs_Empty r then Inr r
      else case rs_Spec r of Inl e \<Rightarrow> Inl e
      | Inr spec \<Rightarrow>
          let kept = rs_Annotations r |` (- set (gl_server_annotations L));
              annotations = (if gl_manager L (rs_Annotations r) = Some (ResourceManagerKind L)
                             then kept |` (- set (gl_manager_annotations L)) else kept)
          in Inr (r\<lparr>rs_ResourceVersion := [], rs_Annotations := annotations,
                    rs_Labels := rs_Labels r |` (- set (gl_server_labels L)), rs_Spec := Inr spec\<rparr>))"

text \<open>\<^verbatim>\<open>Puller.process\<close> and the loop of \<^verbatim>\<open>pushSingleResource\<close>: the first error ends it.\<close>

definition process :: "Processor list \<Rightarrow> Processor" where
  "process ps r = foldR (\<lambda>r p. p r) r ps"

section \<open>Summaries\<close>

datatype resource_err =
    NotSupported GroupVersionKind string
  | ProcessorFailed string
  | ClientFailed string
  | CircularFolder string
  | InvalidObject string

record OperationSummary =
  os_successCount :: nat
  os_failedCount :: nat
  os_failures :: "(Resource option \<times> resource_err) list"

definition emptySummary :: OperationSummary where
  "emptySummary = \<lparr>os_successCount = 0, os_failedCount = 0, os_failures = []\<rparr>"

definition RecordSuccess :: "OperationSummary \<Rightarrow> OperationSummary" where
  "RecordSuccess s = s\<lparr>os_successCount := os_successCount s + 1\<rparr>"

definition RecordFailure :: "Resource option \<Rightarrow> resource_err \<Rightarrow> OperationSummary \<Rightarrow> OperationSummary" where
  "RecordFailure r e s = s\<lparr>os_failedCount := os_failedCount s + 1, os_failures := os_failures s @ [(r, e)]\<rparr>"

definition supportedDescriptors :: "Descriptor list \<Rightarrow> (GroupVersionKind \<times> Descriptor) list" where
  "supportedDescriptors supported = fold (\<lambda>d m. AList.update (descriptorGVK d) d m) supported []"

end
