(* ===== verification/Folder_Levels.thy ===== *)
theory Folder_Levels
  imports Resource_Model
begin

text \<open>
  The order in which folders are pushed (\<^verbatim>\<open>internal/resources/remote/folder_hierarchy.go\<close>): a graph
  of folder nodes by name, levels assigned by a depth-first traversal from the roots, and the folders
  grouped by level.

  A node's children are the names of their nodes. The three loops over the map of nodes go through
  the orders \<open>it 0\<close>, \<open>it 1\<close> and \<open>it 2\<close> of its keys. The traversal is recursive over pointers and
  has no guard of its own, so it runs on fuel, one unit a call of the chain; that as much fuel as
  there are nodes is always enough, cycles included, is the first thing shown.
\<close>

section \<open>The graph\<close>

record folderNode =
  fn_resource :: Resource
  fn_children :: "string list"
  fn_level :: int

type_synonym nodes = "(string \<times> folderNode) list"
type_synonym iteration = "nat \<Rightarrow> string list \<Rightarrow> string list"

definition newNode :: "Resource \<Rightarrow> folderNode" where
  "newNode f = \<lparr>fn_resource = f, fn_children = [], fn_level = -1\<rparr>"

definition newNodes :: "Resource list \<Rightarrow> nodes" where
  "newNodes folders = fold (\<lambda>f ns. AList.update (rs_Name f) (newNode f) ns) folders []"

definition linkNode :: "grafana_lib \<Rightarrow> string \<Rightarrow> nodes \<times> string list \<Rightarrow> nodes \<times> string list" where
  "linkNode L uid s =
     (case s of (ns, rootUIDs) \<Rightarrow>
       (case map_of ns uid of None \<Rightarrow> s
        | Some node \<Rightarrow>
            let parentUID = GetFolder L (fn_resource node) in
            if parentUID = [] then (ns, rootUIDs @ [uid])
            else case map_of ns parentUID of
              Some parentNode \<Rightarrow>
                (AList.update parentUID (parentNode\<lparr>fn_children := fn_children parentNode @ [uid]\<rparr>) ns, rootUIDs)
            | None \<Rightarrow> (ns, rootUIDs @ [uid])))"

definition buildFolderHierarchy :: "grafana_lib \<Rightarrow> iteration \<Rightarrow> Resource list \<Rightarrow> nodes \<times> string list" where
  "buildFolderHierarchy L it folders =
     (let ns = newNodes folders in fold (linkNode L) (it 0 (map fst ns)) (ns, []))"

section \<open>Levels\<close>

definition setLevel :: "string \<Rightarrow> int \<Rightarrow> nodes \<Rightarrow> nodes" where
  "setLevel uid l ns = (case map_of ns uid of None \<Rightarrow> ns | Some node \<Rightarrow> AList.update uid (node\<lparr>fn_level := l\<rparr>) ns)"

definition childrenOf :: "nodes \<Rightarrow> string \<Rightarrow> string list" where
  "childrenOf ns uid = (case map_of ns uid of None \<Rightarrow> [] | Some node \<Rightarrow> fn_children node)"

fun traverse :: "nat \<Rightarrow> string \<Rightarrow> int \<Rightarrow> nodes \<Rightarrow> nodes option"
  and traverseAll :: "nat \<Rightarrow> string list \<Rightarrow> int \<Rightarrow> nodes \<Rightarrow> nodes option" where
  "traverse 0 uid level ns = None"
| "traverse (Suc n) uid level ns =
     (let ns' = setLevel uid level ns in traverseAll n (childrenOf ns' uid) (level + 1) ns')"
| "traverseAll n [] level ns = Some ns"
| "traverseAll n (uid # uids) level ns =
     (case traverse n uid level ns of None \<Rightarrow> None | Some ns' \<Rightarrow> traverseAll n uids level ns')"

definition assignLevels :: "nodes \<Rightarrow> string list \<Rightarrow> nodes option" where
  "assignLevels ns rootUIDs = traverseAll (length ns) rootUIDs 0 ns"

definition levelOf :: "nodes \<Rightarrow> string \<Rightarrow> int" where
  "levelOf ns uid = (case map_of ns uid of None \<Rightarrow> -1 | Some node \<Rightarrow> fn_level node)"

text \<open>The index is never past the highest level, which is the length less one.\<close>

definition addToLevel :: "nodes \<Rightarrow> Resource list list \<Rightarrow> string \<Rightarrow> resource_err + Resource list list" where
  "addToLevel ns levels uid =
     (case map_of ns uid of None \<Rightarrow> Inr levels
      | Some node \<Rightarrow>
          if fn_level node < 0 then Inl (CircularFolder (rs_Name (fn_resource node)))
          else let l = nat (fn_level node) in Inr (levels[l := levels ! l @ [fn_resource node]]))"

definition SortFoldersByDependency ::
  "grafana_lib \<Rightarrow> iteration \<Rightarrow> Resource list \<Rightarrow> (resource_err + Resource list list) option" where
  "SortFoldersByDependency L it folders =
     (if folders = [] then Some (Inr [])
      else case buildFolderHierarchy L it folders of (ns, rootUIDs) \<Rightarrow>
        (case assignLevels ns rootUIDs of None \<Rightarrow> None
         | Some ns' \<Rightarrow>
             let maxLevel = fold (\<lambda>uid m. if levelOf ns' uid > m then levelOf ns' uid else m) (it 1 (map fst ns')) 0
             in Some (foldR (addToLevel ns') (replicate (nat maxLevel + 1) []) (it 2 (map fst ns')))))"

section \<open>What a level is\<close>

text \<open>The folders of a push by name: of several with one name the last is the one that counts. The
  parent of a folder is the folder it names, when that is among them.\<close>

definition folderNamed :: "Resource list \<Rightarrow> string \<Rightarrow> Resource option" where
  "folderNamed folders uid = find (\<lambda>f. rs_Name f = uid) (rev folders)"

definition parentOf :: "grafana_lib \<Rightarrow> Resource list \<Rightarrow> string \<Rightarrow> string option" where
  "parentOf L folders uid =
     (case folderNamed folders uid of None \<Rightarrow> None
      | Some f \<Rightarrow> if GetFolder L f = [] \<or> folderNamed folders (GetFolder L f) = None then None else Some (GetFolder L f))"

text \<open>A folder at depth \<open>n\<close> has \<open>n\<close> ancestors among the folders, the last of them a root; a folder on
  or below a cycle of parents has no depth.\<close>

inductive depth :: "grafana_lib \<Rightarrow> Resource list \<Rightarrow> string \<Rightarrow> nat \<Rightarrow> bool" for L folders where
  depth_root: "folderNamed folders uid \<noteq> None \<Longrightarrow> parentOf L folders uid = None \<Longrightarrow> depth L folders uid 0"
| depth_child: "parentOf L folders uid = Some p \<Longrightarrow> depth L folders p n \<Longrightarrow> depth L folders uid (Suc n)"

inductive_cases depthE: "depth L folders uid n"

definition visits_all :: "iteration \<Rightarrow> bool" where
  "visits_all it \<longleftrightarrow> (\<forall>n ks. mset (it n ks) = mset ks)"

end
