(* ===== verification/Folder_Levels_Properties.thy ===== *)
theory Folder_Levels_Properties
  imports Folder_Levels
begin

text \<open>
  The levels of folders are their depths: the traversal ends within its fuel on every graph, visits
  exactly what hangs below a root, and what it did not visit lies on or below a cycle.
\<close>

section \<open>Depths\<close>

lemma folderNamed_name: "folderNamed folders uid = Some f \<Longrightarrow> rs_Name f = uid"
  by (auto simp: folderNamed_def find_Some_iff)

lemma folderNamed_mem: "folderNamed folders uid = Some f \<Longrightarrow> f \<in> set folders"
  by (auto simp: folderNamed_def find_Some_iff) (metis nth_mem set_rev length_rev)

lemma folderNamed_snoc:
  "folderNamed (folders @ [f]) uid = (if rs_Name f = uid then Some f else folderNamed folders uid)"
  by (simp add: folderNamed_def)

lemma parentOf_Some:
  "parentOf L folders uid = Some p \<longleftrightarrow>
     (\<exists>f. folderNamed folders uid = Some f \<and> GetFolder L f = p \<and> p \<noteq> [] \<and> folderNamed folders p \<noteq> None)"
  by (auto simp: parentOf_def split: option.splits)

lemma depth_folder: "depth L folders uid n \<Longrightarrow> folderNamed folders uid \<noteq> None"
  by (induction rule: depth.induct) (auto simp: parentOf_Some)

lemma depth_unique: "depth L folders uid n \<Longrightarrow> depth L folders uid m \<Longrightarrow> n = m"
proof (induction arbitrary: m rule: depth.induct)
  case (depth_root uid)
  then show ?case by (auto elim: depthE)
next
  case (depth_child uid p n)
  from depth_child.prems depth_child.hyps(1) show ?case
    by (cases rule: depthE) (auto dest: depth_child.IH)
qed

lemma depth_below: "depth L folders uid n \<Longrightarrow> k \<le> n \<Longrightarrow> \<exists>anc. depth L folders anc k"
proof (induction rule: depth.induct)
  case (depth_root uid)
  then show ?case using depth.depth_root by blast
next
  case (depth_child uid p n)
  then show ?case using depth.depth_child [OF depth_child.hyps(1,2)] by (cases "k = Suc n") auto
qed

text \<open>The folders at depths up to \<open>n\<close> are \<open>n + 1\<close> at least, so no depth reaches the number of names.\<close>

lemma depth_bound:
  assumes d: "depth L folders uid n" and S: "finite S" "\<And>u. folderNamed folders u \<noteq> None \<Longrightarrow> u \<in> S"
  shows "n < card S"
proof -
  have "\<exists>anc. depth L folders anc k" if "k \<le> n" for k using depth_below [OF d that] .
  then obtain anc where anc: "\<And>k. k \<le> n \<Longrightarrow> depth L folders (anc k) k" by metis
  have "inj_on anc {..n}" by (rule inj_onI) (metis anc atMost_iff depth_unique)
  moreover have "anc ` {..n} \<subseteq> S" using anc depth_folder S(2) by blast
  ultimately have "card {..n} \<le> card S" using S(1) by (metis card_image card_mono)
  then show ?thesis by simp
qed

section \<open>The graph that is built\<close>

lemma map_of_newNodes: "map_of (newNodes folders) uid = map_option newNode (folderNamed folders uid)"
  by (induction folders rule: rev_induct) (simp_all add: newNodes_def folderNamed_snoc update_conv' folderNamed_def)

lemma distinct_newNodes: "distinct (map fst (newNodes folders))"
  by (induction folders rule: rev_induct) (simp_all add: newNodes_def distinct_update)

lemma keys_newNodes: "set (map fst (newNodes folders)) = {uid. folderNamed folders uid \<noteq> None}"
proof -
  have "uid \<in> fst ` set (newNodes folders) \<longleftrightarrow> folderNamed folders uid \<noteq> None" for uid
    using map_of_eq_None_iff [of "newNodes folders" uid] map_of_newNodes [of folders uid] by (cases "folderNamed folders uid") auto
  then show ?thesis by auto
qed

definition kidsIn :: "grafana_lib \<Rightarrow> Resource list \<Rightarrow> string list \<Rightarrow> string \<Rightarrow> string list" where
  "kidsIn L folders visited uid = filter (\<lambda>k. parentOf L folders k = Some uid) visited"

text \<open>A graph with the folders as nodes, the children found among \<open>visited\<close>, and some levels.\<close>

definition shaped :: "grafana_lib \<Rightarrow> Resource list \<Rightarrow> string list \<Rightarrow> nodes \<Rightarrow> bool" where
  "shaped L folders visited ns \<longleftrightarrow> map fst ns = map fst (newNodes folders) \<and>
     (\<forall>uid. map_of ns uid = map_option (\<lambda>f. \<lparr>fn_resource = f, fn_children = kidsIn L folders visited uid,
        fn_level = levelOf ns uid\<rparr>) (folderNamed folders uid))"

lemma shapedD:
  assumes "shaped L folders visited ns"
  shows "map fst ns = map fst (newNodes folders)"
    and "map_of ns uid = map_option (\<lambda>f. \<lparr>fn_resource = f, fn_children = kidsIn L folders visited uid,
        fn_level = levelOf ns uid\<rparr>) (folderNamed folders uid)"
  using assms by (simp_all add: shaped_def)

lemma levelOf_update: "levelOf (AList.update uid node ns) u = (if u = uid then fn_level node else levelOf ns u)"
  by (simp add: levelOf_def update_conv')

lemma shaped_key: "shaped L folders visited ns \<Longrightarrow> folderNamed folders uid \<noteq> None \<Longrightarrow> uid \<in> set (map fst ns)"
  using keys_newNodes [of folders] by (auto simp: shaped_def)

lemma shaped_new: "shaped L folders [] (newNodes folders)"
  unfolding shaped_def
proof (intro conjI allI)
  fix uid
  show "map_of (newNodes folders) uid = map_option (\<lambda>f. \<lparr>fn_resource = f, fn_children = kidsIn L folders [] uid,
        fn_level = levelOf (newNodes folders) uid\<rparr>) (folderNamed folders uid)"
    by (cases "folderNamed folders uid") (simp_all add: map_of_newNodes newNode_def kidsIn_def levelOf_def)
qed simp

lemma linkNode_shaped:
  assumes ns: "shaped L folders visited ns" and roots: "roots = filter (\<lambda>k. parentOf L folders k = None) visited"
    and uid: "folderNamed folders uid \<noteq> None" and levels: "\<forall>u. levelOf ns u = -1"
  shows "\<exists>ns'. linkNode L uid (ns, roots) = (ns', filter (\<lambda>k. parentOf L folders k = None) (visited @ [uid])) \<and>
    shaped L folders (visited @ [uid]) ns' \<and> (\<forall>u. levelOf ns' u = -1)"
proof -
  obtain f where f: "folderNamed folders uid = Some f" using uid by blast
  note at = shapedD(2) [OF ns]
  show ?thesis
  proof (cases "parentOf L folders uid")
    case None
    then have "linkNode L uid (ns, roots) = (ns, roots @ [uid])"
      by (auto simp: linkNode_def at f parentOf_def Let_def split: option.splits if_splits)
    moreover have "shaped L folders (visited @ [uid]) ns" using ns None by (simp add: shaped_def kidsIn_def)
    ultimately show ?thesis using None roots levels by auto
  next
    case (Some p)
    then obtain g where p: "GetFolder L f = p" "p \<noteq> []" "folderNamed folders p = Some g"
      using f by (auto simp: parentOf_Some)
    let ?node = "\<lparr>fn_resource = g, fn_children = kidsIn L folders visited p @ [uid], fn_level = levelOf ns p\<rparr>"
    let ?ns = "AList.update p ?node ns"
    have step: "linkNode L uid (ns, roots) = (?ns, roots)" by (simp add: linkNode_def at f p Let_def)
    have keys: "map fst ?ns = map fst ns" using shaped_key [OF ns, of p] p(3) by (simp add: update_keys)
    have "map_of ?ns u = map_option (\<lambda>f. \<lparr>fn_resource = f, fn_children = kidsIn L folders (visited @ [uid]) u,
        fn_level = levelOf ?ns u\<rparr>) (folderNamed folders u)" for u
      by (cases "u = p") (simp_all add: update_conv' p at levelOf_update kidsIn_def Some)
    then have "shaped L folders (visited @ [uid]) ?ns" using keys shapedD(1) [OF ns] by (simp add: shaped_def)
    then show ?thesis using step Some roots levels by (auto simp: levelOf_update)
  qed
qed

lemma linkNodes_shaped:
  assumes "\<forall>u \<in> set ks. folderNamed folders u \<noteq> None"
  shows "\<exists>ns'. fold (linkNode L) ks (newNodes folders, []) = (ns', filter (\<lambda>k. parentOf L folders k = None) ks) \<and>
    shaped L folders ks ns' \<and> (\<forall>u. levelOf ns' u = -1)"
  using assms
proof (induction ks rule: rev_induct)
  case Nil
  have "levelOf (newNodes folders) u = -1" for u by (simp add: levelOf_def map_of_newNodes newNode_def split: option.splits)
  then show ?case using shaped_new by auto
next
  case (snoc uid ks)
  then obtain ns' where "fold (linkNode L) ks (newNodes folders, []) = (ns', filter (\<lambda>k. parentOf L folders k = None) ks)"
    "shaped L folders ks ns'" "\<forall>u. levelOf ns' u = -1" by auto
  with linkNode_shaped [OF this(2) refl _ this(3), of uid] snoc.prems show ?case by simp
qed

section \<open>The traversal\<close>

definition levels_right :: "grafana_lib \<Rightarrow> Resource list \<Rightarrow> nodes \<Rightarrow> bool" where
  "levels_right L folders ns \<longleftrightarrow> (\<forall>u. levelOf ns u = -1 \<or> (\<exists>d. depth L folders u d \<and> levelOf ns u = int d))"

definition hangs :: "grafana_lib \<Rightarrow> Resource list \<Rightarrow> (string \<times> string) set" where
  "hangs L folders = {(p, c). parentOf L folders c = Some p}"

text \<open>What a traversal from level \<open>d\<close> at the nodes \<open>uids\<close> has done.\<close>

definition traversed :: "grafana_lib \<Rightarrow> Resource list \<Rightarrow> string list \<Rightarrow> string list \<Rightarrow> nodes \<Rightarrow> nodes \<Rightarrow> bool" where
  "traversed L folders visited uids ns ns' \<longleftrightarrow> shaped L folders visited ns' \<and> levels_right L folders ns' \<and>
     (\<forall>u. levelOf ns u \<noteq> -1 \<longrightarrow> levelOf ns' u \<noteq> -1) \<and>
     (\<forall>u \<in> set uids. \<forall>v. (u, v) \<in> (hangs L folders)\<^sup>* \<longrightarrow> levelOf ns' v \<noteq> -1)"

lemma setLevel_shaped:
  assumes "shaped L folders visited ns" and "depth L folders uid d" and "levels_right L folders ns"
  shows "shaped L folders visited (setLevel uid (int d) ns)" "levels_right L folders (setLevel uid (int d) ns)"
    "levelOf (setLevel uid (int d) ns) u = (if u = uid then int d else levelOf ns u)"
    "childrenOf (setLevel uid (int d) ns) uid = kidsIn L folders visited uid"
proof -
  obtain f where f: "folderNamed folders uid = Some f" using depth_folder [OF assms(2)] by blast
  note at = shapedD(2) [OF assms(1)]
  let ?ns = "AList.update uid \<lparr>fn_resource = f, fn_children = kidsIn L folders visited uid, fn_level = int d\<rparr> ns"
  have ns: "setLevel uid (int d) ns = ?ns" by (simp add: setLevel_def at f)
  show level: "levelOf (setLevel uid (int d) ns) u = (if u = uid then int d else levelOf ns u)" for u
    by (simp add: ns levelOf_update)
  show "childrenOf (setLevel uid (int d) ns) uid = kidsIn L folders visited uid"
    by (simp add: ns childrenOf_def update_conv')
  have "map fst ?ns = map fst ns" using shaped_key [OF assms(1)] f by (simp add: update_keys)
  moreover have "map_of ?ns u = map_option (\<lambda>f. \<lparr>fn_resource = f, fn_children = kidsIn L folders visited u,
        fn_level = levelOf ?ns u\<rparr>) (folderNamed folders u)" for u
    by (cases "u = uid") (simp_all add: update_conv' at f levelOf_update)
  ultimately show "shaped L folders visited (setLevel uid (int d) ns)"
    using shapedD(1) [OF assms(1)] by (simp add: shaped_def ns)
  show "levels_right L folders (setLevel uid (int d) ns)"
    using assms(2,3) by (auto simp: levels_right_def level)
qed

lemma kids_depth:
  "k \<in> set (kidsIn L folders visited uid) \<Longrightarrow> depth L folders uid d \<Longrightarrow> depth L folders k (Suc d)"
  by (auto simp: kidsIn_def intro: depth_child)

lemma traverse_total:
  fixes L folders visited
  assumes all: "\<And>u. folderNamed folders u \<noteq> None \<Longrightarrow> u \<in> set visited"
    and N: "\<And>u n. depth L folders u n \<Longrightarrow> n < N"
  shows "shaped L folders visited ns \<Longrightarrow> levels_right L folders ns \<Longrightarrow> depth L folders uid d \<Longrightarrow> l = int d \<Longrightarrow>
      N \<le> d + n \<Longrightarrow> \<exists>ns'. traverse n uid l ns = Some ns' \<and> traversed L folders visited [uid] ns ns'"
    and "shaped L folders visited ns \<Longrightarrow> levels_right L folders ns \<Longrightarrow> \<forall>u \<in> set uids. depth L folders u d \<Longrightarrow> l = int d \<Longrightarrow>
      N \<le> d + n \<Longrightarrow> \<exists>ns'. traverseAll n uids l ns = Some ns' \<and> traversed L folders visited uids ns ns'"
proof (induction n uid l ns and n uids l ns arbitrary: d and d rule: traverse_traverseAll.induct)
  case (1 uid level ns)
  then show ?case using N [of uid d] by simp
next
  case (2 n uid level ns)
  let ?ns = "setLevel uid level ns" and ?kids = "kidsIn L folders visited uid"
  note set = setLevel_shaped [OF 2(2) 2(4) 2(3)]
  have kids: "childrenOf ?ns uid = ?kids" using set(4) 2(5) by simp
  have "\<exists>ns'. traverseAll n ?kids (level + 1) ?ns = Some ns' \<and> traversed L folders visited ?kids ?ns ns'"
    using 2(1) [OF refl, of "Suc d"] set(1,2) kids_depth [OF _ 2(4)] 2(5,6) kids by auto
  then obtain ns' where ns': "traverseAll n ?kids (level + 1) ?ns = Some ns'" "traversed L folders visited ?kids ?ns ns'" by blast
  have "levelOf ns' v \<noteq> -1" if "(uid, v) \<in> (hangs L folders)\<^sup>*" for v
    using that
  proof (cases rule: converse_rtranclE)
    case base
    then show ?thesis using ns'(2) set(3) 2(5) by (auto simp: traversed_def)
  next
    case (step k)
    then have "folderNamed folders k \<noteq> None" "parentOf L folders k = Some uid" by (auto simp: hangs_def parentOf_Some)
    then have "k \<in> set ?kids" using all by (simp add: kidsIn_def)
    then show ?thesis using ns'(2) step(2) by (auto simp: traversed_def)
  qed
  then have "traversed L folders visited [uid] ns ns'"
    using ns'(2) set(3) 2(5) by (auto simp: traversed_def)
  then show ?case using ns'(1) kids by (auto simp: Let_def)
next
  case (3 n level ns)
  then show ?case by (auto simp: traversed_def)
next
  case (4 n uid uids level ns)
  obtain ns1 where one: "traverse n uid level ns = Some ns1" "traversed L folders visited [uid] ns ns1"
    using 4(1) [OF 4(3,4) _ 4(6,7)] 4(5) by auto
  have "shaped L folders visited ns1" "levels_right L folders ns1" using one(2) by (simp_all add: traversed_def)
  then obtain ns2 where two: "traverseAll n uids level ns1 = Some ns2" "traversed L folders visited uids ns1 ns2"
    using 4(2) [OF one(1) _ _ _ 4(6,7)] 4(5) by auto
  then have "traversed L folders visited (uid # uids) ns ns2" using one(2) by (auto simp: traversed_def)
  then show ?case using one(1) two(1) by auto
qed

lemma depth_hangs:
  "depth L folders v n \<Longrightarrow> \<exists>r. folderNamed folders r \<noteq> None \<and> parentOf L folders r = None \<and> (r, v) \<in> (hangs L folders)\<^sup>*"
proof (induction rule: depth.induct)
  case (depth_child uid p n)
  then show ?case by (auto simp: hangs_def intro: rtrancl_into_rtrancl)
qed auto

lemma assignLevels_depths:
  assumes it: "visits_all it" and build: "buildFolderHierarchy L it folders = (ns, roots)"
  shows "\<exists>ns'. assignLevels ns roots = Some ns' \<and> map fst ns' = map fst (newNodes folders) \<and>
    (\<forall>u. case folderNamed folders u of None \<Rightarrow> map_of ns' u = None
       | Some f \<Rightarrow> \<exists>node. map_of ns' u = Some node \<and> fn_resource node = f) \<and>
    (\<forall>u. (\<exists>d. depth L folders u d \<and> levelOf ns' u = int d) \<or> (\<nexists>d. depth L folders u d) \<and> levelOf ns' u = -1)"
proof -
  define keys where "keys = map fst (newNodes folders)"
  define ks where "ks = it 0 keys"
  have keys: "set keys = {u. folderNamed folders u \<noteq> None}" "distinct keys"
    unfolding keys_def by (rule keys_newNodes, rule distinct_newNodes)
  have ks: "set ks = set keys" unfolding ks_def using it by (metis mset_eq_setD visits_all_def)
  have folders: "\<forall>u \<in> set ks. folderNamed folders u \<noteq> None" using ks keys by simp
  obtain ns0 where "fold (linkNode L) ks (newNodes folders, []) = (ns0, filter (\<lambda>k. parentOf L folders k = None) ks)"
    "shaped L folders ks ns0" "\<forall>u. levelOf ns0 u = -1"
    using linkNodes_shaped [OF folders] by blast
  moreover have "buildFolderHierarchy L it folders = fold (linkNode L) ks (newNodes folders, [])"
    by (simp add: buildFolderHierarchy_def Let_def ks_def keys_def)
  ultimately have b: "roots = filter (\<lambda>k. parentOf L folders k = None) ks" "shaped L folders ks ns" "\<forall>u. levelOf ns u = -1"
    using build by auto
  have len: "length ns = card (set keys)"
    using shapedD(1) [OF b(2)] distinct_card [OF keys(2)] by (metis keys_def length_map)
  have N: "n < length ns" if "depth L folders u n" for u n
    unfolding len by (rule depth_bound [OF that]) (simp_all add: keys(1) [symmetric], simp add: keys(1))
  have "\<exists>ns'. traverseAll (length ns) roots 0 ns = Some ns' \<and> traversed L folders ks roots ns ns'"
  proof (rule traverse_total(2) [where d = 0])
    show "levels_right L folders ns" using b(3) by (simp add: levels_right_def)
    show "\<forall>u \<in> set roots. depth L folders u 0" using b(1) folders by (auto intro: depth_root)
  qed (use b N ks keys in auto)
  then obtain ns' where run: "traverseAll (length ns) roots 0 ns = Some ns'" and t: "traversed L folders ks roots ns ns'" by blast
  have s: "shaped L folders ks ns'" and right: "levels_right L folders ns'" using t by (simp_all add: traversed_def)
  have "levelOf ns' u \<noteq> -1" if at: "depth L folders u d" for u d
  proof -
    obtain r where "folderNamed folders r \<noteq> None" "parentOf L folders r = None" "(r, u) \<in> (hangs L folders)\<^sup>*"
      using depth_hangs [OF at] by blast
    moreover from this have "r \<in> set roots" using b(1) ks keys(1) by auto
    ultimately show ?thesis using t by (auto simp: traversed_def)
  qed
  then have "(\<exists>d. depth L folders u d \<and> levelOf ns' u = int d) \<or> (\<nexists>d. depth L folders u d) \<and> levelOf ns' u = -1" for u
    using right by (auto simp: levels_right_def)
  moreover have "case folderNamed folders u of None \<Rightarrow> map_of ns' u = None
       | Some f \<Rightarrow> \<exists>node. map_of ns' u = Some node \<and> fn_resource node = f" for u
    by (cases "folderNamed folders u") (simp_all add: shapedD(2) [OF s])
  ultimately show ?thesis using run shapedD(1) [OF s] by (auto simp: assignLevels_def)
qed

section \<open>Grouping\<close>

lemma fold_max_level:
  fixes g :: "'a \<Rightarrow> int"
  shows "m \<le> fold (\<lambda>u m. if g u > m then g u else m) us m"
    and "u \<in> set us \<Longrightarrow> g u \<le> fold (\<lambda>u m. if g u > m then g u else m) us m"
    and "fold (\<lambda>u m. if g u > m then g u else m) us m = m \<or>
      (\<exists>u \<in> set us. g u = fold (\<lambda>u m. if g u > m then g u else m) us m)"
proof (induction us arbitrary: m)
  case (Cons v us)
  let ?F = "\<lambda>m. fold (\<lambda>u m. if g u > m then g u else m) us m" and ?m = "\<lambda>m. if g v > m then g v else m"
  have F: "fold (\<lambda>u m. if g u > m then g u else m) (v # us) m = ?F (?m m)" for m by simp
  have low: "m \<le> ?m m" "g v \<le> ?m m" "?m m = m \<or> ?m m = g v" for m by simp_all
  { case 1 show ?case unfolding F using low(1) [of m] Cons(1) [of "?m m"] by (rule order_trans) }
  { case 2 show ?case
    proof (cases "u = v")
      case True
      show ?thesis unfolding F True using low(2) [of m] Cons(1) [of "?m m"] by (rule order_trans)
    next
      case False
      then show ?thesis unfolding F using 2 Cons(2) [of "?m m"] by auto
    qed }
  { case 3
    define k where "k = ?m m"
    have "k = m \<or> k = g v" "?F k = k \<or> (\<exists>u \<in> set us. g u = ?F k)"
      using low(3) [of m] Cons(3) [of k] by (auto simp: k_def)
    then show ?case unfolding F k_def [symmetric] by auto }
qed auto

lemma addToLevel_ok:
  assumes "\<forall>u \<in> set us. \<exists>node. map_of ns u = Some node \<and> 0 \<le> fn_level node \<and> fn_level node < int (length acc)"
  shows "\<exists>levels. foldR (addToLevel ns) acc us = Inr levels \<and> length levels = length acc \<and>
    (\<forall>i < length acc. levels ! i = acc ! i @ map (\<lambda>u. fn_resource (the (map_of ns u)))
      (filter (\<lambda>u. levelOf ns u = int i) us))"
  using assms
proof (induction us arbitrary: acc)
  case (Cons u us)
  then obtain node where node: "map_of ns u = Some node" "0 \<le> fn_level node" "fn_level node < int (length acc)" by auto
  let ?l = "nat (fn_level node)"
  let ?acc = "acc[?l := acc ! ?l @ [fn_resource node]]"
  have step: "addToLevel ns acc u = Inr ?acc" using node by (simp add: addToLevel_def Let_def)
  obtain levels where IH: "foldR (addToLevel ns) ?acc us = Inr levels" "length levels = length acc"
    "\<forall>i < length acc. levels ! i = ?acc ! i @ map (\<lambda>u. fn_resource (the (map_of ns u))) (filter (\<lambda>u. levelOf ns u = int i) us)"
    using Cons.IH [of ?acc] Cons.prems by auto
  have "levels ! i = acc ! i @ map (\<lambda>u. fn_resource (the (map_of ns u))) (filter (\<lambda>u. levelOf ns u = int i) (u # us))"
    if "i < length acc" for i
    using IH(3) that node by (auto simp: levelOf_def nth_list_update)
  then show ?case using step IH(1,2) by auto
qed simp

lemma addToLevel_circular:
  assumes "foldR (addToLevel ns) acc us = Inl e"
  shows "\<exists>u node. u \<in> set us \<and> map_of ns u = Some node \<and> fn_level node < 0 \<and> e = CircularFolder (rs_Name (fn_resource node))"
  using assms
proof (induction us arbitrary: acc)
  case (Cons u us)
  show ?case
  proof (cases "addToLevel ns acc u")
    case (Inl e')
    then show ?thesis using Cons.prems by (auto simp: addToLevel_def Let_def split: option.splits if_splits)
  next
    case (Inr acc')
    then show ?thesis using Cons.prems Cons.IH [of acc'] by auto
  qed
qed simp

lemma foldR_addToLevel_nonneg:
  assumes "foldR (addToLevel ns) acc us = Inr levels" and "u \<in> set us" and "map_of ns u = Some node"
  shows "0 \<le> fn_level node"
  using assms
proof (induction us arbitrary: acc)
  case (Cons v us)
  show ?case
  proof (cases "addToLevel ns acc v")
    case (Inr acc')
    then show ?thesis using Cons by (cases "u = v") (auto simp: addToLevel_def split: if_splits)
  qed (use Cons in simp)
qed simp

section \<open>The levels\<close>

definition levels_ok :: "grafana_lib \<Rightarrow> Resource list \<Rightarrow> Resource list list \<Rightarrow> bool" where
  "levels_ok L folders levels \<longleftrightarrow>
     (\<forall>f i. i < length levels \<longrightarrow> (f \<in> set (levels ! i) \<longleftrightarrow>
        folderNamed folders (rs_Name f) = Some f \<and> depth L folders (rs_Name f) i)) \<and>
     (\<forall>uid. folderNamed folders uid \<noteq> None \<longrightarrow> (\<exists>n < length levels. depth L folders uid n)) \<and>
     distinct (map rs_Name (concat levels)) \<and> [] \<notin> set levels"

lemma levels_okD:
  assumes "levels_ok L folders levels"
  shows "i < length levels \<Longrightarrow> f \<in> set (levels ! i) \<longleftrightarrow>
      folderNamed folders (rs_Name f) = Some f \<and> depth L folders (rs_Name f) i"
    and "folderNamed folders uid \<noteq> None \<Longrightarrow> \<exists>n < length levels. depth L folders uid n"
    and "distinct (map rs_Name (concat levels))" and "[] \<notin> set levels"
  using assms by (auto simp: levels_ok_def)

lemma distinct_concat_levels:
  assumes "\<And>i. i < length levels \<Longrightarrow> levels ! i = map g (filter (\<lambda>u. lev u = int i) us)"
    and "distinct us" and "\<And>u. u \<in> set us \<Longrightarrow> name (g u) = u"
  shows "distinct (map name (concat levels))"
proof -
  have level: "map name (levels ! i) = filter (\<lambda>u. lev u = int i) us" if "i < length levels" for i
    using assms(1) [OF that] assms(3) by (auto intro!: map_idI)
  then have eq: "map (map name) levels = map (\<lambda>i. filter (\<lambda>u. lev u = int i) us) [0..<length levels]"
    by (intro nth_equalityI) simp_all
  have "distinct (concat (map (\<lambda>i. filter (\<lambda>u. lev u = int i) us) [0..<n]))" for n
  proof (induction n)
    case (Suc n)
    then show ?case using assms(2) by auto
  qed simp
  then show ?thesis unfolding map_concat eq .
qed

lemma sort_levels:
  assumes it: "visits_all it"
  shows "case SortFoldersByDependency L it folders of
      None \<Rightarrow> False
    | Some (Inl e) \<Rightarrow> \<exists>uid. e = CircularFolder uid \<and> folderNamed folders uid \<noteq> None \<and> (\<nexists>n. depth L folders uid n)
    | Some (Inr levels) \<Rightarrow> levels_ok L folders levels"
proof (cases "folders = []")
  case True
  then show ?thesis by (simp add: SortFoldersByDependency_def levels_ok_def folderNamed_def)
next
  case False
  obtain ns roots where build: "buildFolderHierarchy L it folders = (ns, roots)" by (cases "buildFolderHierarchy L it folders")
  obtain ns' where run: "assignLevels ns roots = Some ns'" and keys: "map fst ns' = map fst (newNodes folders)"
    and nodes: "\<And>u. case folderNamed folders u of None \<Rightarrow> map_of ns' u = None
       | Some f \<Rightarrow> \<exists>node. map_of ns' u = Some node \<and> fn_resource node = f"
    and levels: "\<And>u. (\<exists>d. depth L folders u d \<and> levelOf ns' u = int d) \<or> (\<nexists>d. depth L folders u d) \<and> levelOf ns' u = -1"
    using assignLevels_depths [OF it build] by blast
  define ks where "ks = map fst ns'"
  define g where "g = (\<lambda>u. fn_resource (the (map_of ns' u)))"
  define top where "top = fold (\<lambda>uid m. if levelOf ns' uid > m then levelOf ns' uid else m) (it 1 ks) 0"
  have names: "set ks = {u. folderNamed folders u \<noteq> None}" unfolding ks_def keys by (rule keys_newNodes)
  have it': "set (it n ks) = set ks" "distinct (it n ks) = distinct ks" for n
    using it by (metis mset_eq_setD visits_all_def, metis mset_eq_imp_distinct_iff visits_all_def)
  have dist: "distinct ks" unfolding ks_def keys by (rule distinct_newNodes)
  have g: "folderNamed folders u = Some (g u)" "\<exists>node. map_of ns' u = Some node" if "u \<in> set ks" for u
    using nodes [of u] names that by (auto simp: g_def split: option.splits)
  have node: "fn_level node = levelOf ns' u" "fn_resource node = g u" if "map_of ns' u = Some node" for u node
    using that by (simp_all add: levelOf_def g_def)
  have sorted: "SortFoldersByDependency L it folders = Some (foldR (addToLevel ns') (replicate (nat top + 1) []) (it 2 ks))"
    using False by (simp add: SortFoldersByDependency_def build run top_def ks_def Let_def)
  have top: "0 \<le> top" "\<And>u. u \<in> set ks \<Longrightarrow> levelOf ns' u \<le> top" "top = 0 \<or> (\<exists>u \<in> set ks. levelOf ns' u = top)"
    using fold_max_level(1) [where g = "levelOf ns'" and us = "it 1 ks" and m = 0]
      fold_max_level(2) [where g = "levelOf ns'" and us = "it 1 ks" and m = 0]
      fold_max_level(3) [where g = "levelOf ns'" and us = "it 1 ks" and m = 0]
    unfolding top_def it'(1) by auto
  show ?thesis
  proof (cases "foldR (addToLevel ns') (replicate (nat top + 1) []) (it 2 ks)")
    case (Inl e)
    obtain u n where u: "u \<in> set ks" "map_of ns' u = Some n" "fn_level n < 0" "e = CircularFolder (rs_Name (fn_resource n))"
      using addToLevel_circular [OF Inl] unfolding it'(1) by blast
    then have "\<nexists>d. depth L folders u d" using levels [of u] node(1) [OF u(2)] by auto
    moreover have "rs_Name (fn_resource n) = u" using g(1) [OF u(1)] node(2) [OF u(2)] folderNamed_name by auto
    ultimately show ?thesis using sorted Inl u(1,4) names by auto
  next
    case (Inr ls)
    have "\<forall>u \<in> set (it 2 ks). \<exists>node. map_of ns' u = Some node \<and> 0 \<le> fn_level node \<and> fn_level node < int (length (replicate (nat top + 1) ([] :: Resource list)))"
    proof
      fix u assume "u \<in> set (it 2 ks)"
      then have u: "u \<in> set ks" by (simp add: it')
      then obtain n where n: "map_of ns' u = Some n" using g(2) by blast
      have "\<not> fn_level n < 0"
        using foldR_addToLevel_nonneg [OF Inr \<open>u \<in> set (it 2 ks)\<close> n] by simp
      then show "\<exists>node. map_of ns' u = Some node \<and> 0 \<le> fn_level node \<and> fn_level node < int (length (replicate (nat top + 1) ([] :: Resource list)))"
        using n node(1) [OF n] top(1) top(2) [OF u] by auto
    qed
    from addToLevel_ok [OF this] Inr have len: "length ls = nat top + 1"
      and at: "\<And>i. i < length ls \<Longrightarrow> ls ! i = map g (filter (\<lambda>u. levelOf ns' u = int i) (it 2 ks))"
      by (auto simp: g_def nth_Cons')
    have pos: "0 \<le> levelOf ns' u" if u: "u \<in> set ks" for u
    proof -
      obtain n where n: "map_of ns' u = Some n" using g(2) [OF u] by blast
      show ?thesis using foldR_addToLevel_nonneg [OF Inr _ n] node(1) [OF n] u by (simp add: it')
    qed
    have d: "depth L folders u (nat (levelOf ns' u))" if "u \<in> set ks" for u
      using levels [of u] pos [OF that] by auto
    have mem: "f \<in> set (ls ! i) \<longleftrightarrow> folderNamed folders (rs_Name f) = Some f \<and> depth L folders (rs_Name f) i"
      if i: "i < length ls" for f i
    proof
      assume "f \<in> set (ls ! i)"
      then obtain u where u: "u \<in> set ks" "f = g u" "levelOf ns' u = int i" using at [OF i] by (auto simp: it')
      moreover have "rs_Name f = u" using g(1) [OF u(1)] u(2) folderNamed_name by auto
      ultimately show "folderNamed folders (rs_Name f) = Some f \<and> depth L folders (rs_Name f) i"
        using g(1) d [OF u(1)] by auto
    next
      assume f: "folderNamed folders (rs_Name f) = Some f \<and> depth L folders (rs_Name f) i"
      then have u: "rs_Name f \<in> set ks" using names by auto
      have "levelOf ns' (rs_Name f) = int i" using depth_unique [OF d [OF u], of i] f pos [OF u] by auto
      then show "f \<in> set (ls ! i)" using at [OF i] u g(1) [OF u] f by (auto simp: it' image_iff intro!: bexI [of _ "rs_Name f"])
    qed
    have covered: "\<exists>n < length ls. depth L folders uid n" if "folderNamed folders uid \<noteq> None" for uid
    proof -
      have u: "uid \<in> set ks" using that names by simp
      then show ?thesis using d [OF u] top(2) [OF u] len by (intro exI [of _ "nat (levelOf ns' uid)"]) auto
    qed
    have "ls ! i \<noteq> []" if i: "i < length ls" for i
    proof -
      obtain u where "u \<in> set ks" "levelOf ns' u = top"
      proof (cases "top = 0")
        case True
        have "ks \<noteq> []" using False keys ks_def names folderNamed_def [of folders "rs_Name (last folders)"]
          by (cases folders rule: rev_cases) auto
        then obtain u where "u \<in> set ks" by (cases ks) auto
        then show ?thesis using that [of u] top(2) [of u] pos [of u] True by simp
      next
        case False
        then show ?thesis using that top(3) by blast
      qed
      then have "depth L folders u (nat top)" using d by metis
      from depth_below [OF this, of i] i len obtain anc where anc: "depth L folders anc i" by auto
      then obtain f where "folderNamed folders anc = Some f" using depth_folder by blast
      then show ?thesis using mem [OF i, of f] anc folderNamed_name [of folders anc f] by auto
    qed
    then have "[] \<notin> set ls" by (auto simp: in_set_conv_nth)
    moreover have "distinct (map rs_Name (concat ls))"
    proof (rule distinct_concat_levels [OF at])
      show "rs_Name (g u) = u" if "u \<in> set (it 2 ks)" for u using g(1) [of u] that folderNamed_name by (auto simp: it')
    qed (simp_all add: it' dist)
    ultimately have "levels_ok L folders ls" using mem covered by (simp add: levels_ok_def)
    then show ?thesis using sorted Inr by simp
  qed
qed

text \<open>C20: folders are ordered parents first, and the sort always ends: the traversal never exhausts
  one call a folder, even on a cycle of parents. If some folder lies on or below a cycle the sort
  fails and names such a folder; otherwise the level of every folder is the number of its ancestors
  among the folders, every folder is in exactly one level, and no level is empty.\<close>

theorem folder_levels:
  assumes "visits_all it"
  shows "case SortFoldersByDependency L it folders of
      None \<Rightarrow> False
    | Some (Inl e) \<Rightarrow> \<exists>uid. e = CircularFolder uid \<and> folderNamed folders uid \<noteq> None \<and> (\<nexists>n. depth L folders uid n)
    | Some (Inr levels) \<Rightarrow>
        (\<forall>f i. i < length levels \<longrightarrow> (f \<in> set (levels ! i) \<longleftrightarrow>
          folderNamed folders (rs_Name f) = Some f \<and> depth L folders (rs_Name f) i)) \<and>
        (\<forall>uid. folderNamed folders uid \<noteq> None \<longrightarrow> (\<exists>n < length levels. depth L folders uid n)) \<and>
        distinct (map rs_Name (concat levels)) \<and> [] \<notin> set levels"
  using sort_levels [OF assms, where L = L and folders = folders] by (simp add: levels_ok_def split: option.splits sum.splits)

section \<open>A child that comes before its parent\<close>

definition note_lib :: grafana_lib where
  "note_lib = \<lparr>gl_FolderGroup = ''folder.grafana.app'', gl_FolderKind = ''Folder'', gl_ManagerKindKubectl = ''kubectl'',
     gl_folder = \<lambda>a. (case a ''folder'' of None \<Rightarrow> [] | Some f \<Rightarrow> f), gl_manager = \<lambda>a. a ''manager'',
     gl_set_manager = \<lambda>k i a. a(''manager'' \<mapsto> k), gl_set_source = \<lambda>p a. a(''source'' \<mapsto> p),
     gl_server_annotations = [''updatedBy''], gl_manager_annotations = [''manager'', ''source''],
     gl_server_labels = [''id'']\<rparr>"

definition note_folder :: "string \<Rightarrow> string \<Rightarrow> Resource" where
  "note_folder name parent =
     \<lparr>rs_Empty = False, rs_GVK = \<lparr>gvk_Group = ''folder.grafana.app'', gvk_Version = ''v1'', gvk_Kind = ''Folder''\<rparr>,
      rs_Namespace = ''default'', rs_Name = name, rs_ResourceVersion = [],
      rs_Annotations = [''folder'' \<mapsto> parent], rs_Labels = Map.empty, rs_Spec = Inr JNull,
      rs_SourcePath = ''f'', rs_SourceFormat = FormatYAML\<rparr>"

definition two_folders :: "Resource list" where
  "two_folders = [note_folder ''child'' ''top'', note_folder ''top'' []]"

lemma two_folders_levels:
  "SortFoldersByDependency note_lib (\<lambda>n ks. ks) two_folders = Some (Inr [[note_folder ''top'' []], [note_folder ''child'' ''top'']])"
  by (simp add: SortFoldersByDependency_def buildFolderHierarchy_def newNodes_def newNode_def linkNode_def two_folders_def
      note_folder_def GetFolder_def note_lib_def assignLevels_def setLevel_def childrenOf_def Let_def levelOf_def addToLevel_def
      numeral_2_eq_2)

theorem folder_levels_witness:
  "visits_all (\<lambda>n ks. ks) \<and> depth note_lib two_folders ''child'' 1 \<and> depth note_lib two_folders ''top'' 0"
proof -
  have v: "visits_all (\<lambda>n ks. ks)" by (simp add: visits_all_def)
  from folder_levels [OF v, where L = note_lib and folders = two_folders]
  have "\<forall>f i. i < length [[note_folder ''top'' []], [note_folder ''child'' ''top'']] \<longrightarrow>
      f \<in> set ([[note_folder ''top'' []], [note_folder ''child'' ''top'']] ! i) \<longrightarrow> depth note_lib two_folders (rs_Name f) i"
    by (simp add: two_folders_levels)
  from this [rule_format, of 0 "note_folder ''top'' []"] this [rule_format, of 1 "note_folder ''child'' ''top''"]
  show ?thesis using v by (simp add: note_folder_def)
qed

end
