(* ===== verification/Resource_Push.thy ===== *)
theory Resource_Push
  imports Folder_Levels_Properties
begin

text \<open>
  Pushing and deleting resources (\<^verbatim>\<open>internal/resources/remote/pusher.go\<close>, \<^verbatim>\<open>deleter.go\<close>).

  A push is a machine: folders level by level, then everything else, and within a stage one
  goroutine a resource, of which at most \<^verbatim>\<open>MaxConcurrency\<close> run at a time. A step starts a goroutine,
  gives one the answer to the request it waits for, or ends a stage all of whose goroutines have
  ended. The client is not part of the repository: its answers are part of the step, and any answer
  may come at any time, the failures after the cancellation of a stage included. The order in which a
  map is iterated is the order in which goroutines happen to start, for the folders it is \<open>ps_order\<close>.

  \<open>pw_log\<close> is a ghost: every request with the resource it was made for. Log lines are not modelled.
\<close>

section \<open>Requests\<close>

record PushRequest =
  pq_Resources :: Resources
  pq_Processors :: "Processor list"
  pq_MaxConcurrency :: int
  pq_StopOnError :: bool
  pq_DryRun :: bool
  pq_IncludeManaged :: bool

record push_setup =
  ps_lib :: grafana_lib
  ps_supported :: "Descriptor list"
  ps_request :: PushRequest
  ps_iteration :: iteration
  ps_order :: "Resource list \<Rightarrow> Resource list"

datatype existing = Existing string | Absent | GetFailed string
datatype written = Accepted | Rejected string

datatype push_op =
    GetOp Descriptor string
  | CreateOp Descriptor Resource bool   \<comment> \<open>the object and whether it is a dry run\<close>
  | UpdateOp Descriptor Resource bool

datatype push_task =
    Queued
  | Asking Descriptor Resource
  | Writing
  | Ended "resource_err option"

datatype stage =
    FolderStage "Resource list list"   \<comment> \<open>the levels after the current one\<close>
  | OtherStage
  | PushDone "resource_err option"

record push_world =
  pw_stage :: stage
  pw_tasks :: "(Resource \<times> push_task) list"
  pw_groupError :: "resource_err option"
  pw_summary :: OperationSummary
  pw_log :: "(Resource \<times> push_op) list"

datatype push_event = Begin nat | Got nat existing | Wrote nat written | Join

section \<open>One resource\<close>

definition limit :: "push_setup \<Rightarrow> nat" where
  "limit S = (if pq_MaxConcurrency (ps_request S) < 1 then 1 else nat (pq_MaxConcurrency (ps_request S)))"

definition setTask :: "nat \<Rightarrow> push_task \<Rightarrow> push_world \<Rightarrow> push_world" where
  "setTask i t w = w\<lparr>pw_tasks := (pw_tasks w)[i := (fst (pw_tasks w ! i), t)]\<rparr>"

text \<open>A failure is recorded; with \<^verbatim>\<open>StopOnError\<close> the goroutine returns it, and the first one returned
  is what the stage ends with.\<close>

definition failTask :: "push_setup \<Rightarrow> nat \<Rightarrow> resource_err \<Rightarrow> push_world \<Rightarrow> push_world" where
  "failTask S i e w =
     (let stop = pq_StopOnError (ps_request S);
          w' = w\<lparr>pw_summary := RecordFailure (Some (fst (pw_tasks w ! i))) e (pw_summary w)\<rparr>;
          w'' = (if stop \<and> pw_groupError w = None then w'\<lparr>pw_groupError := Some e\<rparr> else w')
      in setTask i (Ended (if stop then Some e else None)) w'')"

definition request :: "nat \<Rightarrow> push_op \<Rightarrow> push_task \<Rightarrow> push_world \<Rightarrow> push_world" where
  "request i op t w = setTask i t (w\<lparr>pw_log := pw_log w @ [(fst (pw_tasks w ! i), op)]\<rparr>)"

text \<open>\<^verbatim>\<open>pushSingleResource\<close> up to the first request of \<^verbatim>\<open>upsertResource\<close>.\<close>

definition pushSingleResource :: "push_setup \<Rightarrow> nat \<Rightarrow> push_world \<Rightarrow> push_world" where
  "pushSingleResource S i w =
     (let r = fst (pw_tasks w ! i) in
      case map_of (supportedDescriptors (ps_supported S)) (rs_GVK r) of
        None \<Rightarrow> failTask S i (NotSupported (rs_GVK r) (rs_Name r)) w
      | Some desc \<Rightarrow>
          (case process (pq_Processors (ps_request S)) r of
             Inl e \<Rightarrow> failTask S i (ProcessorFailed e) w
           | Inr r' \<Rightarrow>
               if \<not> IsManaged (ps_lib S) r' \<and> \<not> pq_IncludeManaged (ps_request S) then setTask i (Ended None) w
               else request i (GetOp desc (rs_Name r)) (Asking desc r') w))"

text \<open>\<^verbatim>\<open>upsertResource\<close> after the answer to the first request, and after the answer to the write.\<close>

definition upsertResource :: "push_setup \<Rightarrow> nat \<Rightarrow> Descriptor \<Rightarrow> Resource \<Rightarrow> existing \<Rightarrow> push_world \<Rightarrow> push_world" where
  "upsertResource S i desc src ans w =
     (let dryRun = pq_DryRun (ps_request S) in
      case ans of
        Existing version \<Rightarrow> request i (UpdateOp desc (src\<lparr>rs_ResourceVersion := version\<rparr>) dryRun) Writing w
      | Absent \<Rightarrow> request i (CreateOp desc src dryRun) Writing w
      | GetFailed e \<Rightarrow> failTask S i (ClientFailed e) w)"

definition finishUpsert :: "push_setup \<Rightarrow> nat \<Rightarrow> written \<Rightarrow> push_world \<Rightarrow> push_world" where
  "finishUpsert S i ans w =
     (case ans of
        Accepted \<Rightarrow> setTask i (Ended None) (w\<lparr>pw_summary := RecordSuccess (pw_summary w)\<rparr>)
      | Rejected e \<Rightarrow> failTask S i (ClientFailed e) w)"

section \<open>Stages\<close>

definition startTasks :: "Resources \<Rightarrow> stage \<Rightarrow> push_world \<Rightarrow> push_world" where
  "startTasks c st w = w\<lparr>pw_stage := st, pw_tasks := map (\<lambda>r. (r, Queued)) (AsList c), pw_groupError := None\<rparr>"

text \<open>The loop of \<^verbatim>\<open>pushFolders\<close>, and what \<^verbatim>\<open>Push\<close> does after it.\<close>

definition nextStage :: "push_setup \<Rightarrow> Resource list list \<Rightarrow> push_world \<Rightarrow> push_world" where
  "nextStage S levels w =
     (case levels of
        levelFolders # later \<Rightarrow> startTasks (NewResources levelFolders) (FolderStage later) w
      | [] \<Rightarrow>
          if os_successCount (pw_summary w) + os_failedCount (pw_summary w) \<ge> Len (pq_Resources (ps_request S))
          then w\<lparr>pw_stage := PushDone None, pw_tasks := []\<rparr>
          else startTasks (pq_Resources (ps_request S)) OtherStage w)"

definition collectFolders :: "push_setup \<Rightarrow> Resource list" where
  "collectFolders S = filter (IsFolder (ps_lib S)) (ps_order S (AsList (pq_Resources (ps_request S))))"

definition emptyWorld :: push_world where
  "emptyWorld = \<lparr>pw_stage = PushDone None, pw_tasks = [], pw_groupError = None, pw_summary = emptySummary, pw_log = []\<rparr>"

definition pushFolders :: "push_setup \<Rightarrow> push_world option" where
  "pushFolders S =
     (case SortFoldersByDependency (ps_lib S) (ps_iteration S) (collectFolders S) of
        None \<Rightarrow> None
      | Some (Inl e) \<Rightarrow> Some (emptyWorld\<lparr>pw_stage := PushDone (Some e)\<rparr>)
      | Some (Inr folderLevels) \<Rightarrow> Some (nextStage S folderLevels emptyWorld))"

fun running :: "push_task \<Rightarrow> bool" where
  "running (Asking desc r) = True"
| "running Writing = True"
| "running _ = False"

fun ended :: "push_task \<Rightarrow> bool" where
  "ended (Ended e) = True"
| "ended _ = False"

definition inFlight :: "push_world \<Rightarrow> nat" where
  "inFlight w = length (filter (\<lambda>p. running (snd p)) (pw_tasks w))"

definition taskAt :: "push_world \<Rightarrow> nat \<Rightarrow> push_task option" where
  "taskAt w i = (if i < length (pw_tasks w) then Some (snd (pw_tasks w ! i)) else None)"

definition isDone :: "push_world \<Rightarrow> bool" where
  "isDone w \<longleftrightarrow> (case pw_stage w of PushDone e \<Rightarrow> True | _ \<Rightarrow> False)"

text \<open>\<^verbatim>\<open>Push\<close> step by step: a goroutine of the second phase returns at once for a folder.\<close>

definition pushStep :: "push_setup \<Rightarrow> push_event \<Rightarrow> push_world \<Rightarrow> push_world option" where
  "pushStep S ev w =
     (if isDone w then None
      else case ev of
        Begin i \<Rightarrow>
          if taskAt w i = Some Queued \<and> inFlight w < limit S
          then Some (if pw_stage w = OtherStage \<and> IsFolder (ps_lib S) (fst (pw_tasks w ! i))
                     then setTask i (Ended None) w else pushSingleResource S i w)
          else None
      | Got i ans \<Rightarrow>
          (case taskAt w i of Some (Asking desc src) \<Rightarrow> Some (upsertResource S i desc src ans w) | _ \<Rightarrow> None)
      | Wrote i ans \<Rightarrow> if taskAt w i = Some Writing then Some (finishUpsert S i ans w) else None
      | Join \<Rightarrow>
          if list_all (\<lambda>p. ended (snd p)) (pw_tasks w)
          then Some (case pw_groupError w of
              Some e \<Rightarrow> w\<lparr>pw_stage := PushDone (Some e), pw_tasks := []\<rparr>
            | None \<Rightarrow>
                (case pw_stage w of
                   FolderStage later \<Rightarrow> nextStage S later w
                 | _ \<Rightarrow> w\<lparr>pw_stage := PushDone None, pw_tasks := []\<rparr>))
          else None)"

inductive pushes :: "push_setup \<Rightarrow> nat \<Rightarrow> push_world \<Rightarrow> bool" for S where
  pushes_start: "pushFolders S = Some w \<Longrightarrow> pushes S 0 w"
| pushes_step: "pushes S n w \<Longrightarrow> pushStep S ev w = Some w' \<Longrightarrow> pushes S (Suc n) w'"

inductive_cases pushesE: "pushes S n w"

fun runPush :: "push_setup \<Rightarrow> push_event list \<Rightarrow> push_world \<Rightarrow> push_world option" where
  "runPush S [] w = Some w"
| "runPush S (ev # evs) w = (case pushStep S ev w of None \<Rightarrow> None | Some w' \<Rightarrow> runPush S evs w')"

section \<open>Deleting\<close>

text \<open>The goroutine of one resource, given the answer of the client; \<open>None\<close> is the answer without an
  error. The result is what the goroutine returns. A delete has one stage and no order.\<close>

record DeleteRequest =
  dq_Resources :: Resources
  dq_StopOnError :: bool
  dq_DryRun :: bool

definition deleteResource ::
  "Descriptor list \<Rightarrow> DeleteRequest \<Rightarrow> (Descriptor \<Rightarrow> string \<Rightarrow> bool \<Rightarrow> string option) \<Rightarrow> Resource \<Rightarrow> OperationSummary
    \<Rightarrow> resource_err option \<times> OperationSummary"
where
  "deleteResource supported req client r s =
     (case map_of (supportedDescriptors supported) (rs_GVK r) of
        None \<Rightarrow> (if dq_StopOnError req then Some (NotSupported (rs_GVK r) (rs_Name r)) else None, s)
      | Some desc \<Rightarrow>
          (case client desc (rs_Name r) (dq_DryRun req) of
             Some e \<Rightarrow> (if dq_StopOnError req then Some (ClientFailed e) else None, RecordFailure (Some r) (ClientFailed e) s)
           | None \<Rightarrow> (None, RecordSuccess s)))"

definition Delete ::
  "Descriptor list \<Rightarrow> DeleteRequest \<Rightarrow> (Descriptor \<Rightarrow> string \<Rightarrow> bool \<Rightarrow> string option) \<Rightarrow> Resource list
    \<Rightarrow> resource_err option \<times> OperationSummary"
where
  "Delete supported req client order =
     fold (\<lambda>r out. case deleteResource supported req client r (snd out) of
        (e, s) \<Rightarrow> (if fst out = None then e else fst out, s)) order (None, emptySummary)"

end
