(* ===== verification/Resource_Push_Properties.thy ===== *)
theory Resource_Push_Properties
  imports Resource_Push
begin

text \<open>
  What holds of every push: folders before what is in them, every resource accounted for, no more
  goroutines than asked for, and an end.
\<close>

section \<open>The cases of a step\<close>

lemma setTask_simps [simp]:
  "pw_stage (setTask i t w) = pw_stage w" "pw_groupError (setTask i t w) = pw_groupError w"
  "pw_summary (setTask i t w) = pw_summary w" "pw_log (setTask i t w) = pw_log w"
  "length (pw_tasks (setTask i t w)) = length (pw_tasks w)"
  "pw_tasks (setTask i t w) = (pw_tasks w)[i := (fst (pw_tasks w ! i), t)]"
  by (simp_all add: setTask_def)

lemma setTask_fst [simp]: "map fst ((pw_tasks w)[i := (fst (pw_tasks w ! i), t)]) = map fst (pw_tasks w)"
  by (cases "i < length (pw_tasks w)") (simp_all add: map_update list_update_same_conv list_update_beyond)

lemma failTask_simps [simp]:
  "pw_stage (failTask S i e w) = pw_stage w" "pw_log (failTask S i e w) = pw_log w"
  "pw_tasks (failTask S i e w) = (pw_tasks w)[i := (fst (pw_tasks w ! i), Ended (if pq_StopOnError (ps_request S) then Some e else None))]"
  "pw_summary (failTask S i e w) = RecordFailure (Some (fst (pw_tasks w ! i))) e (pw_summary w)"
  "pw_groupError (failTask S i e w) =
     (if pq_StopOnError (ps_request S) \<and> pw_groupError w = None then Some e else pw_groupError w)"
  by (simp_all add: failTask_def setTask_def Let_def)

lemma request_simps [simp]:
  "pw_stage (request i op t w) = pw_stage w" "pw_groupError (request i op t w) = pw_groupError w"
  "pw_summary (request i op t w) = pw_summary w" "pw_log (request i op t w) = pw_log w @ [(fst (pw_tasks w ! i), op)]"
  "pw_tasks (request i op t w) = (pw_tasks w)[i := (fst (pw_tasks w ! i), t)]"
  by (simp_all add: request_def setTask_def)

text \<open>Whatever a goroutine does: it moves on, and makes a request, succeeds, fails or is skipped.\<close>

datatype did = Skipped | Requested push_op | Succeeded | Failed resource_err

definition effect :: "push_setup \<Rightarrow> nat \<Rightarrow> push_task \<Rightarrow> did \<Rightarrow> push_world \<Rightarrow> push_world" where
  "effect S i t d w =
     (case d of
        Skipped \<Rightarrow> setTask i t w
      | Requested op \<Rightarrow> request i op t w
      | Succeeded \<Rightarrow> setTask i t (w\<lparr>pw_summary := RecordSuccess (pw_summary w)\<rparr>)
      | Failed e \<Rightarrow> failTask S i e w)"

text \<open>The state of a goroutine after each of those.\<close>

definition moved :: "push_setup \<Rightarrow> push_task \<Rightarrow> push_task \<Rightarrow> did \<Rightarrow> bool" where
  "moved S old new d \<longleftrightarrow>
     (case d of
        Skipped \<Rightarrow> old = Queued \<and> new = Ended None
      | Requested op \<Rightarrow> running new \<and> (old = Queued \<longrightarrow> new \<noteq> Writing) \<and> (old \<noteq> Queued \<longrightarrow> (\<exists>desc r. old = Asking desc r) \<and> new = Writing)
      | Succeeded \<Rightarrow> old = Writing \<and> new = Ended None
      | Failed e \<Rightarrow> old \<noteq> Ended None \<and> new = Ended (if pq_StopOnError (ps_request S) then Some e else None))
     \<and> \<not> ended old"

definition skips :: "push_setup \<Rightarrow> Resource \<Rightarrow> bool" where
  "skips S r \<longleftrightarrow> map_of (supportedDescriptors (ps_supported S)) (rs_GVK r) \<noteq> None \<and>
     (\<exists>r'. process (pq_Processors (ps_request S)) r = Inr r' \<and> \<not> IsManaged (ps_lib S) r') \<and> \<not> pq_IncludeManaged (ps_request S)"

lemma pushStepE:
  assumes "pushStep S ev w = Some w'"
  obtains (task) i old new d where "i < length (pw_tasks w)" "snd (pw_tasks w ! i) = old" "moved S old new d"
      "w' = effect S i new d w" "\<not> isDone w" "old = Queued \<longrightarrow> inFlight w < limit S"
      "d = Skipped \<longleftrightarrow> old = Queued \<and> (pw_stage w = OtherStage \<and> IsFolder (ps_lib S) (fst (pw_tasks w ! i)) \<or> skips S (fst (pw_tasks w ! i)))"
      "old = Queued \<longrightarrow> (\<forall>op. d = Requested op \<longrightarrow> \<not> (pw_stage w = OtherStage \<and> IsFolder (ps_lib S) (fst (pw_tasks w ! i))))"
      "old = Queued \<and> (\<exists>e. d = Failed e) \<longrightarrow> \<not> (pw_stage w = OtherStage \<and> IsFolder (ps_lib S) (fst (pw_tasks w ! i)))"
    | (join) "\<not> isDone w" "list_all (\<lambda>p. ended (snd p)) (pw_tasks w)"
      "w' = (case pw_groupError w of
              Some e \<Rightarrow> w\<lparr>pw_stage := PushDone (Some e), pw_tasks := []\<rparr>
            | None \<Rightarrow> (case pw_stage w of
                   FolderStage later \<Rightarrow> nextStage S later w
                 | _ \<Rightarrow> w\<lparr>pw_stage := PushDone None, pw_tasks := []\<rparr>))"
proof (cases ev)
  case (Begin i)
  then have g: "\<not> isDone w" "i < length (pw_tasks w)" "snd (pw_tasks w ! i) = Queued" "inFlight w < limit S"
    using assms by (auto simp: pushStep_def taskAt_def split: if_splits)
  let ?r = "fst (pw_tasks w ! i)"
  let ?folder = "pw_stage w = OtherStage \<and> IsFolder (ps_lib S) ?r"
  have w': "w' = (if ?folder then setTask i (Ended None) w else pushSingleResource S i w)"
    using assms Begin g by (auto simp: pushStep_def taskAt_def split: if_splits)
  show thesis
  proof (cases "?folder \<or> skips S ?r")
    case True
    then have "w' = effect S i (Ended None) Skipped w"
      by (auto simp: w' pushSingleResource_def skips_def effect_def Let_def)
    then show thesis using g True by (intro task [of i Queued "Ended None" Skipped]) (auto simp: moved_def)
  next
    case False
    show thesis
    proof (cases "map_of (supportedDescriptors (ps_supported S)) (rs_GVK ?r)")
      case None
      let ?d = "Failed (NotSupported (rs_GVK ?r) (rs_Name ?r))" and
        ?t = "Ended (if pq_StopOnError (ps_request S) then Some (NotSupported (rs_GVK ?r) (rs_Name ?r)) else None)"
      have "w' = effect S i ?t ?d w" using None False by (auto simp: w' pushSingleResource_def effect_def Let_def)
      then show thesis using g False by (intro task [of i Queued ?t ?d]) (auto simp: moved_def)
    next
      case (Some desc)
      show thesis
      proof (cases "process (pq_Processors (ps_request S)) ?r")
        case (Inl e)
        let ?t = "Ended (if pq_StopOnError (ps_request S) then Some (ProcessorFailed e) else None)"
        have "w' = effect S i ?t (Failed (ProcessorFailed e)) w"
          using Some Inl False by (auto simp: w' pushSingleResource_def effect_def Let_def)
        then show thesis using g False by (intro task [of i Queued ?t "Failed (ProcessorFailed e)"]) (auto simp: moved_def)
      next
        case (Inr r')
        have "w' = effect S i (Asking desc r') (Requested (GetOp desc (rs_Name ?r))) w"
          using Some Inr False by (auto simp: w' pushSingleResource_def effect_def skips_def Let_def)
        then show thesis using g False by (intro task [of i Queued "Asking desc r'" "Requested (GetOp desc (rs_Name ?r))"]) (auto simp: moved_def)
      qed
    qed
  qed
next
  case (Got i ans)
  then obtain desc src where g: "\<not> isDone w" "i < length (pw_tasks w)" "snd (pw_tasks w ! i) = Asking desc src"
      "w' = upsertResource S i desc src ans w"
    using assms by (auto simp: pushStep_def taskAt_def split: if_splits push_task.splits)
  show thesis
  proof (cases ans)
    case (Existing v)
    let ?op = "UpdateOp desc (src\<lparr>rs_ResourceVersion := v\<rparr>) (pq_DryRun (ps_request S))"
    show thesis using g Existing
      by (intro task [of i "Asking desc src" Writing "Requested ?op"]) (auto simp: moved_def effect_def upsertResource_def Let_def)
  next
    case Absent
    let ?op = "CreateOp desc src (pq_DryRun (ps_request S))"
    show thesis using g Absent
      by (intro task [of i "Asking desc src" Writing "Requested ?op"]) (auto simp: moved_def effect_def upsertResource_def Let_def)
  next
    case (GetFailed e)
    let ?t = "Ended (if pq_StopOnError (ps_request S) then Some (ClientFailed e) else None)"
    show thesis using g GetFailed
      by (intro task [of i "Asking desc src" ?t "Failed (ClientFailed e)"]) (auto simp: moved_def effect_def upsertResource_def Let_def)
  qed
next
  case (Wrote i ans)
  then have g: "\<not> isDone w" "i < length (pw_tasks w)" "snd (pw_tasks w ! i) = Writing" "w' = finishUpsert S i ans w"
    using assms by (auto simp: pushStep_def taskAt_def split: if_splits)
  show thesis
  proof (cases ans)
    case Accepted
    show thesis using g Accepted
      by (intro task [of i Writing "Ended None" Succeeded]) (auto simp: moved_def effect_def finishUpsert_def)
  next
    case (Rejected e)
    let ?t = "Ended (if pq_StopOnError (ps_request S) then Some (ClientFailed e) else None)"
    show thesis using g Rejected
      by (intro task [of i Writing ?t "Failed (ClientFailed e)"]) (auto simp: moved_def effect_def finishUpsert_def)
  qed
next
  case Join
  then show thesis using assms join by (auto simp: pushStep_def split: if_splits)
qed

lemma effect_simps:
  assumes "moved S old new d"
  shows "pw_stage (effect S i new d w) = pw_stage w"
    "pw_tasks (effect S i new d w) = (pw_tasks w)[i := (fst (pw_tasks w ! i), new)]"
    "map fst (pw_tasks (effect S i new d w)) = map fst (pw_tasks w)"
    "pw_log (effect S i new d w) = pw_log w @ (case d of Requested op \<Rightarrow> [(fst (pw_tasks w ! i), op)] | _ \<Rightarrow> [])"
    "pw_summary (effect S i new d w) = (case d of Succeeded \<Rightarrow> RecordSuccess (pw_summary w)
       | Failed e \<Rightarrow> RecordFailure (Some (fst (pw_tasks w ! i))) e (pw_summary w) | _ \<Rightarrow> pw_summary w)"
    "pw_groupError (effect S i new d w) = (case d of
         Failed e \<Rightarrow> if pq_StopOnError (ps_request S) \<and> pw_groupError w = None then Some e else pw_groupError w
       | _ \<Rightarrow> pw_groupError w)"
  using assms by (auto simp: effect_def moved_def split: did.splits)

lemma isDone_effect: "moved S old new d \<Longrightarrow> isDone (effect S i new d w) = isDone w"
  by (simp add: isDone_def effect_simps)

lemma startTasks_simps [simp]:
  "pw_stage (startTasks c st w) = st" "pw_tasks (startTasks c st w) = map (\<lambda>r. (r, Queued)) (AsList c)"
  "pw_groupError (startTasks c st w) = None" "pw_summary (startTasks c st w) = pw_summary w" "pw_log (startTasks c st w) = pw_log w"
  by (simp_all add: startTasks_def)

lemma nextStage_keeps: "pw_summary (nextStage S levels w) = pw_summary w" "pw_log (nextStage S levels w) = pw_log w"
  by (auto simp: nextStage_def split: list.splits)

section \<open>Where a push stands\<close>

text \<open>\<open>standing levels k w\<close>: the stage with number \<open>k\<close> is being worked on, or was the last one.\<close>

definition standing :: "push_setup \<Rightarrow> Resource list list \<Rightarrow> nat \<Rightarrow> push_world \<Rightarrow> bool" where
  "standing S levels k w \<longleftrightarrow>
     (case pw_stage w of
        FolderStage later \<Rightarrow> k < length levels \<and> later = drop (Suc k) levels \<and>
          map fst (pw_tasks w) = AsList (NewResources (levels ! k))
      | OtherStage \<Rightarrow> k = length levels \<and> map fst (pw_tasks w) = AsList (pq_Resources (ps_request S))
      | PushDone e \<Rightarrow> pw_tasks w = [])"

definition levelsOf :: "push_setup \<Rightarrow> Resource list list \<Rightarrow> bool" where
  "levelsOf S levels \<longleftrightarrow> SortFoldersByDependency (ps_lib S) (ps_iteration S) (collectFolders S) = Some (Inr levels)"

lemma standing_effect:
  "moved S old new d \<Longrightarrow> standing S levels k (effect S i new d w) = standing S levels k w" if "\<not> isDone w"
  using that by (auto simp: standing_def effect_simps isDone_def split: stage.splits)

text \<open>The three ways a stage begins.\<close>

lemma nextStageE:
  assumes "w' = nextStage S (drop k levels) w" and "k \<le> length levels"
  obtains (folders) "k < length levels" "w' = startTasks (NewResources (levels ! k)) (FolderStage (drop (Suc k) levels)) w"
    | (all) "k = length levels" "w' = w\<lparr>pw_stage := PushDone None, pw_tasks := []\<rparr>"
        "Len (pq_Resources (ps_request S)) \<le> os_successCount (pw_summary w) + os_failedCount (pw_summary w)"
    | (others) "k = length levels" "w' = startTasks (pq_Resources (ps_request S)) OtherStage w"
        "\<not> Len (pq_Resources (ps_request S)) \<le> os_successCount (pw_summary w) + os_failedCount (pw_summary w)"
proof (cases "k < length levels")
  case True
  then have "drop k levels = levels ! k # drop (Suc k) levels" by (simp add: Cons_nth_drop_Suc)
  then show thesis using assms(1) True folders by (simp add: nextStage_def)
next
  case False
  then have "k = length levels" "drop k levels = []" using assms(2) by simp_all
  then show thesis using assms(1) all others by (auto simp: nextStage_def)
qed

lemma standing_nextStage:
  "k \<le> length levels \<Longrightarrow> standing S levels k (nextStage S (drop k levels) w)"
  by (rule nextStageE [of "nextStage S (drop k levels) w" S k levels w]) (simp_all add: standing_def comp_def)

text \<open>What every invariant below is shown by: it holds when a push begins, and the moves of a
  goroutine and the ends of a stage keep it.\<close>

lemma pushes_invariant:
  assumes run: "pushes S n w"
    and circular: "\<And>e. SortFoldersByDependency (ps_lib S) (ps_iteration S) (collectFolders S) = Some (Inl e) \<Longrightarrow>
      P (emptyWorld\<lparr>pw_stage := PushDone (Some e)\<rparr>)"
    and start: "\<And>levels. levelsOf S levels \<Longrightarrow> I levels 0 (nextStage S (drop 0 levels) emptyWorld)"
    and move: "\<And>levels k w i old new d. levelsOf S levels \<Longrightarrow> standing S levels k w \<Longrightarrow> I levels k w \<Longrightarrow> \<not> isDone w \<Longrightarrow>
      i < length (pw_tasks w) \<Longrightarrow> snd (pw_tasks w ! i) = old \<Longrightarrow> moved S old new d \<Longrightarrow> (old = Queued \<longrightarrow> inFlight w < limit S) \<Longrightarrow>
      d = Skipped \<longleftrightarrow> old = Queued \<and> (pw_stage w = OtherStage \<and> IsFolder (ps_lib S) (fst (pw_tasks w ! i)) \<or> skips S (fst (pw_tasks w ! i))) \<Longrightarrow>
      (old = Queued \<Longrightarrow> d \<noteq> Skipped \<Longrightarrow> \<not> (pw_stage w = OtherStage \<and> IsFolder (ps_lib S) (fst (pw_tasks w ! i)))) \<Longrightarrow>
      I levels k (effect S i new d w)"
    and stop: "\<And>levels k w e. levelsOf S levels \<Longrightarrow> standing S levels k w \<Longrightarrow> I levels k w \<Longrightarrow> \<not> isDone w \<Longrightarrow>
      list_all (\<lambda>p. ended (snd p)) (pw_tasks w) \<Longrightarrow> pw_groupError w = Some e \<Longrightarrow> I levels k (w\<lparr>pw_stage := PushDone (Some e), pw_tasks := []\<rparr>)"
    and next_stage: "\<And>levels k w. levelsOf S levels \<Longrightarrow> standing S levels k w \<Longrightarrow> I levels k w \<Longrightarrow>
      list_all (\<lambda>p. ended (snd p)) (pw_tasks w) \<Longrightarrow> pw_groupError w = None \<Longrightarrow> k < length levels \<Longrightarrow>
      pw_stage w = FolderStage (drop (Suc k) levels) \<Longrightarrow> I levels (Suc k) (nextStage S (drop (Suc k) levels) w)"
    and finish: "\<And>levels k w. levelsOf S levels \<Longrightarrow> standing S levels k w \<Longrightarrow> I levels k w \<Longrightarrow> pw_stage w = OtherStage \<Longrightarrow>
      list_all (\<lambda>p. ended (snd p)) (pw_tasks w) \<Longrightarrow> pw_groupError w = None \<Longrightarrow> I levels k (w\<lparr>pw_stage := PushDone None, pw_tasks := []\<rparr>)"
  shows "P w \<and> isDone w \<or> (\<exists>levels k. levelsOf S levels \<and> standing S levels k w \<and> I levels k w)"
  using run
proof (induction rule: pushes.induct)
  case (pushes_start w)
  then show ?case
  proof (cases "SortFoldersByDependency (ps_lib S) (ps_iteration S) (collectFolders S)")
    case (Some r)
    show ?thesis
    proof (cases r)
      case (Inl e)
      then show ?thesis using pushes_start Some circular by (auto simp: pushFolders_def isDone_def)
    next
      case (Inr levels)
      then have "levelsOf S levels" "w = nextStage S (drop 0 levels) emptyWorld"
        using pushes_start Some by (auto simp: pushFolders_def levelsOf_def)
      then show ?thesis using start standing_nextStage [of 0 levels S emptyWorld] by auto
    qed
  qed (simp add: pushFolders_def)
next
  case (pushes_step n w ev w')
  have going: "\<not> isDone w" using pushes_step.hyps(2) by (auto simp: pushStep_def split: if_splits)
  then obtain levels k where lv: "levelsOf S levels" and st: "standing S levels k w" and inv: "I levels k w"
    using pushes_step.IH by blast
  from pushes_step.hyps(2) show ?case
  proof (cases rule: pushStepE)
    case (task i old new d)
    have d: "old = Queued \<Longrightarrow> d \<noteq> Skipped \<Longrightarrow> \<not> (pw_stage w = OtherStage \<and> IsFolder (ps_lib S) (fst (pw_tasks w ! i)))"
      using task(3,7) by auto
    have "I levels k w'" unfolding task(4) using move [OF lv st inv task(5) task(1,2,3) task(6) task(7) d] .
    moreover have "standing S levels k w'" unfolding task(4) using standing_effect [OF going task(3)] st by simp
    ultimately show ?thesis using lv by blast
  next
    case join
    show ?thesis
    proof (cases "pw_groupError w")
      case (Some e)
      then have w': "w' = w\<lparr>pw_stage := PushDone (Some e), pw_tasks := []\<rparr>" using join by simp
      have "standing S levels k w'" by (simp add: w' standing_def)
      then show ?thesis using stop [OF lv st inv going join(2) Some] lv w' by blast
    next
      case None
      show ?thesis
      proof (cases "pw_stage w")
        case (FolderStage later)
        then have k: "k < length levels" "later = drop (Suc k) levels" using st by (simp_all add: standing_def)
        then have w': "w' = nextStage S (drop (Suc k) levels) w" using join None FolderStage by simp
        have "I levels (Suc k) w'" unfolding w' using next_stage [OF lv st inv join(2) None k(1)] FolderStage k(2) by simp
        then show ?thesis using standing_nextStage [of "Suc k" levels S w] k(1) lv w' by auto
      next
        case OtherStage
        then have w': "w' = w\<lparr>pw_stage := PushDone None, pw_tasks := []\<rparr>" using join None by simp
        have "standing S levels k w'" by (simp add: w' standing_def)
        then show ?thesis using finish [OF lv st inv OtherStage join(2) None] lv w' by blast
      next
        case (PushDone e)
        then show ?thesis using going by (simp add: isDone_def)
      qed
    qed
  qed
qed

section \<open>Folders first\<close>

text \<open>The number of the stage a resource belongs to.\<close>

definition stageOf :: "Resource list list \<Rightarrow> Resource \<Rightarrow> nat" where
  "stageOf levels r = length (takeWhile (\<lambda>l. r \<notin> set l) levels)"

lemma stageOf_le: "stageOf levels r \<le> length levels"
  by (simp add: stageOf_def length_takeWhile_le)

lemma stageOf_level:
  assumes "levels_ok L folders levels" and "i < length levels" and "r \<in> set (levels ! i)"
  shows "stageOf levels r = i"
proof -
  have "r \<notin> set (levels ! j)" if "j < length levels" "j \<noteq> i" for j
    using levels_okD(1) [OF assms(1)] assms(2,3) that depth_unique by blast
  then have "takeWhile (\<lambda>l. r \<notin> set l) levels = take i levels"
    using assms(2,3) by (intro takeWhile_eq_take_P_nth) auto
  then show ?thesis using assms(2) by (simp add: stageOf_def)
qed

lemma stageOf_other:
  assumes "\<And>i. i < length levels \<Longrightarrow> r \<notin> set (levels ! i)"
  shows "stageOf levels r = length levels"
proof -
  have "\<forall>l \<in> set levels. r \<notin> set l" using assms by (metis in_set_conv_nth)
  then have "takeWhile (\<lambda>l. r \<notin> set l) levels = levels" by (simp add: takeWhile_eq_all_conv)
  then show ?thesis unfolding stageOf_def by (rule arg_cong)
qed

lemma snd_update: "snd ` set (AList.update k v c) \<subseteq> insert v (snd ` set c)"
  by (induction c) auto

lemma set_NewResources: "set (AsList (NewResources rs)) \<subseteq> set rs"
proof -
  have "set (AsList (AddResources rs c)) \<subseteq> set rs \<union> set (AsList c)" for c
  proof (induction rs arbitrary: c)
    case (Cons r rs)
    have "set (AsList (AddResource r c)) \<subseteq> insert r (set (AsList c))"
      by (simp add: AddResource_def AsList_def snd_update)
    then show ?case using Cons.IH [of "AddResource r c"] by (auto simp: AddResources_def)
  qed (simp add: AddResources_def)
  from this [of "[]"] show ?thesis by (simp add: NewResources_def AsList_def)
qed

lemma level_folders:
  assumes "levels_ok L folders levels" and "i < length levels" and "f \<in> set (levels ! i)"
  shows "f \<in> set folders"
  using levels_okD(1) [OF assms(1,2), of f] assms(3) folderNamed_mem by blast

definition folders_first :: "push_setup \<Rightarrow> Resource list list \<Rightarrow> nat \<Rightarrow> push_world \<Rightarrow> bool" where
  "folders_first S levels k w \<longleftrightarrow>
     sorted (map (\<lambda>q. stageOf levels (fst q)) (pw_log w)) \<and>
     (\<forall>q \<in> set (pw_log w). stageOf levels (fst q) \<le> k \<and> (stageOf levels (fst q) = length levels \<longrightarrow> \<not> IsFolder (ps_lib S) (fst q))) \<and>
     (pq_StopOnError (ps_request S) \<longrightarrow>
       (\<forall>f \<in> set (os_failures (pw_summary w)). \<exists>r. fst f = Some r \<and> stageOf levels r = k \<and>
          (k = length levels \<longrightarrow> \<not> IsFolder (ps_lib S) r)) \<and>
       (\<not> isDone w \<longrightarrow> os_failures (pw_summary w) \<noteq> [] \<longrightarrow> pw_groupError w \<noteq> None))"

lemma current_stage:
  assumes lv: "levels_ok (ps_lib S) (collectFolders S) levels" and st: "standing S levels k w" and "\<not> isDone w"
    and i: "i < length (pw_tasks w)" and "\<not> (pw_stage w = OtherStage \<and> IsFolder (ps_lib S) (fst (pw_tasks w ! i)))"
  shows "stageOf levels (fst (pw_tasks w ! i)) = k \<and> (k = length levels \<longrightarrow> \<not> IsFolder (ps_lib S) (fst (pw_tasks w ! i)))"
proof -
  let ?r = "fst (pw_tasks w ! i)"
  have mem: "?r \<in> set (map fst (pw_tasks w))" using i by simp
  show ?thesis
  proof (cases "pw_stage w")
    case (FolderStage later)
    then have "k < length levels" "?r \<in> set (levels ! k)"
      using st mem set_NewResources [of "levels ! k"] by (auto simp: standing_def simp del: set_map)
    then show ?thesis using stageOf_level [OF lv] by simp
  next
    case OtherStage
    then have "\<not> IsFolder (ps_lib S) ?r" "k = length levels" using assms(5) st by (auto simp: standing_def)
    moreover have "?r \<notin> set (levels ! j)" if "j < length levels" for j
      using level_folders [OF lv that] calculation(1) by (auto simp: collectFolders_def)
    ultimately show ?thesis using stageOf_other by blast
  next
    case (PushDone e)
    then show ?thesis using \<open>\<not> isDone w\<close> by (simp add: isDone_def)
  qed
qed

lemma levelsOf_ok:
  assumes "visits_all (ps_iteration S)" and "levelsOf S levels"
  shows "levels_ok (ps_lib S) (collectFolders S) levels"
  using sort_levels [OF assms(1), where L = "ps_lib S" and folders = "collectFolders S"] assms(2) by (simp add: levelsOf_def)

text \<open>A goroutine past its start is not a folder of the last stage.\<close>

definition no_folder_runs :: "push_setup \<Rightarrow> push_world \<Rightarrow> bool" where
  "no_folder_runs S w \<longleftrightarrow> (pw_stage w = OtherStage \<longrightarrow>
     (\<forall>p \<in> set (pw_tasks w). IsFolder (ps_lib S) (fst p) \<longrightarrow> snd p = Queued \<or> snd p = Ended None))"

lemma no_folder_runs_effect:
  assumes "no_folder_runs S w" and "i < length (pw_tasks w)" and "snd (pw_tasks w ! i) = old" and "moved S old new d"
    and "old = Queued \<Longrightarrow> d \<noteq> Skipped \<Longrightarrow> \<not> (pw_stage w = OtherStage \<and> IsFolder (ps_lib S) (fst (pw_tasks w ! i)))"
  shows "no_folder_runs S (effect S i new d w)"
    and "d \<noteq> Skipped \<Longrightarrow> \<not> (pw_stage w = OtherStage \<and> IsFolder (ps_lib S) (fst (pw_tasks w ! i)))"
proof -
  have old: "old = Queued" if "pw_stage w = OtherStage" "IsFolder (ps_lib S) (fst (pw_tasks w ! i))"
    using assms(1-4) that by (auto simp: no_folder_runs_def moved_def)
  then show no: "d \<noteq> Skipped \<Longrightarrow> \<not> (pw_stage w = OtherStage \<and> IsFolder (ps_lib S) (fst (pw_tasks w ! i)))"
    using assms(5) by blast
  have "d = Skipped \<Longrightarrow> new = Ended None" using assms(4) by (simp add: moved_def)
  then have new: "IsFolder (ps_lib S) (fst (pw_tasks w ! i)) \<Longrightarrow> pw_stage w = OtherStage \<Longrightarrow> new = Ended None" using no by blast
  show "no_folder_runs S (effect S i new d w)"
    unfolding no_folder_runs_def effect_simps [OF assms(4)]
  proof (intro impI ballI)
    fix p assume "pw_stage w = OtherStage" "p \<in> set ((pw_tasks w)[i := (fst (pw_tasks w ! i), new)])" "IsFolder (ps_lib S) (fst p)"
    moreover from this(2) have "p = (fst (pw_tasks w ! i), new) \<or> p \<in> set (pw_tasks w)"
      using set_update_subset_insert [of "pw_tasks w" i "(fst (pw_tasks w ! i), new)"] by blast
    ultimately show "snd p = Queued \<or> snd p = Ended None" using assms(1) new by (auto simp: no_folder_runs_def)
  qed
qed

lemma no_folder_runs_fresh: "no_folder_runs S (nextStage S levels w)"
  by (auto simp: no_folder_runs_def nextStage_def split: list.splits)

lemma folders_first_step:
  assumes lv: "levels_ok (ps_lib S) (collectFolders S) levels" and st: "standing S levels k w" and going: "\<not> isDone w"
    and inv: "folders_first S levels k w" and i: "i < length (pw_tasks w)" and m: "moved S old new d"
    and no: "d \<noteq> Skipped \<Longrightarrow> \<not> (pw_stage w = OtherStage \<and> IsFolder (ps_lib S) (fst (pw_tasks w ! i)))"
  shows "folders_first S levels k (effect S i new d w)"
proof -
  let ?r = "fst (pw_tasks w ! i)"
  have r: "stageOf levels ?r = k" "k = length levels \<longrightarrow> \<not> IsFolder (ps_lib S) ?r" if "d \<noteq> Skipped"
    using current_stage [OF lv st going i no [OF that]] by simp_all
  have log: "sorted (map (\<lambda>q. stageOf levels (fst q)) (pw_log w))" "\<forall>q \<in> set (pw_log w). stageOf levels (fst q) \<le> k"
    using inv by (simp_all add: folders_first_def)
  show ?thesis
  proof (cases d)
    case Skipped
    then show ?thesis using inv going by (simp add: folders_first_def effect_simps [OF m [unfolded Skipped]] isDone_effect [OF m [unfolded Skipped]])
  next
    case (Requested op)
    then show ?thesis using inv going r log
      by (simp add: folders_first_def effect_simps [OF m [unfolded Requested]] isDone_effect [OF m [unfolded Requested]] sorted_append)
  next
    case Succeeded
    then show ?thesis using inv going
      by (simp add: folders_first_def effect_simps [OF m [unfolded Succeeded]] isDone_effect [OF m [unfolded Succeeded]] RecordSuccess_def)
  next
    case (Failed e)
    then show ?thesis using inv going r
      by (auto simp: folders_first_def effect_simps [OF m [unfolded Failed]] isDone_effect [OF m [unfolded Failed]] RecordFailure_def)
  qed
qed

lemma folders_first_next:
  assumes inv: "folders_first S levels k w" and none: "pw_groupError w = None" and going: "\<not> isDone w"
  shows "folders_first S levels (Suc k) (nextStage S rest w)"
proof -
  have "pq_StopOnError (ps_request S) \<Longrightarrow> os_failures (pw_summary w) = []"
    using inv none going by (auto simp: folders_first_def)
  then show ?thesis using inv by (auto simp: folders_first_def nextStage_keeps le_SucI)
qed

lemma pushes_folders_first:
  assumes it: "visits_all (ps_iteration S)" and run: "pushes S n w"
  shows "pw_log w = [] \<and> os_failures (pw_summary w) = [] \<or>
    (\<exists>levels k. levels_ok (ps_lib S) (collectFolders S) levels \<and> folders_first S levels k w)"
proof -
  have "(pw_log w = [] \<and> os_failures (pw_summary w) = []) \<and> isDone w \<or>
    (\<exists>levels k. levelsOf S levels \<and> standing S levels k w \<and> (folders_first S levels k w \<and> no_folder_runs S w))"
  proof (rule pushes_invariant [OF run])
    show "pw_log (emptyWorld\<lparr>pw_stage := PushDone (Some e)\<rparr>) = [] \<and>
        os_failures (pw_summary (emptyWorld\<lparr>pw_stage := PushDone (Some e)\<rparr>)) = []" for e
      by (simp add: emptyWorld_def emptySummary_def)
    show "folders_first S levels 0 (nextStage S (drop 0 levels) emptyWorld) \<and>
        no_folder_runs S (nextStage S (drop 0 levels) emptyWorld)" for levels
      by (simp add: no_folder_runs_fresh folders_first_def nextStage_keeps emptyWorld_def emptySummary_def)
  next
    fix levels k w i old new d
    assume lv: "levelsOf S levels" and st: "standing S levels k w" and inv: "folders_first S levels k w \<and> no_folder_runs S w"
      and going: "\<not> isDone w" and i: "i < length (pw_tasks w)" and old: "snd (pw_tasks w ! i) = old" and m: "moved S old new d"
      and d: "old = Queued \<Longrightarrow> d \<noteq> Skipped \<Longrightarrow> \<not> (pw_stage w = OtherStage \<and> IsFolder (ps_lib S) (fst (pw_tasks w ! i)))"
    note runs = no_folder_runs_effect [OF conjunct2 [OF inv] i old m d]
    show "folders_first S levels k (effect S i new d w) \<and> no_folder_runs S (effect S i new d w)"
      using folders_first_step [OF levelsOf_ok [OF it lv] st going conjunct1 [OF inv] i m] runs by blast
  next
    fix levels k w
    assume "folders_first S levels k w \<and> no_folder_runs S w" "pw_groupError w = None" "pw_stage w = FolderStage (drop (Suc k) levels)"
    then show "folders_first S levels (Suc k) (nextStage S (drop (Suc k) levels) w) \<and>
        no_folder_runs S (nextStage S (drop (Suc k) levels) w)"
      by (simp add: folders_first_next no_folder_runs_fresh isDone_def)
  qed (auto simp: folders_first_def no_folder_runs_def isDone_def)
  then show ?thesis using levelsOf_ok [OF it] by blast
qed

text \<open>\<open>r\<close> depends on \<open>p\<close>: \<open>p\<close> is the folder above the folder \<open>r\<close>, or \<open>p\<close> is a folder and \<open>r\<close> is not.\<close>

definition depends_on :: "grafana_lib \<Rightarrow> Resource \<Rightarrow> Resource \<Rightarrow> bool" where
  "depends_on L r p \<longleftrightarrow> IsFolder L p \<and>
     (IsFolder L r \<longrightarrow> GetFolder L r = rs_Name p \<and> rs_Name p \<noteq> [])"

lemma depends_on_later:
  assumes lv: "levels_ok L folders levels" and d: "depends_on L r p" and L: "\<forall>f \<in> set folders. IsFolder L f"
    and p: "stageOf levels p < length levels" and r: "stageOf levels r = length levels \<longrightarrow> \<not> IsFolder L r"
  shows "stageOf levels p < stageOf levels r"
proof (cases "stageOf levels r < length levels")
  case True
  have at: "x \<in> set (levels ! stageOf levels x)" if "stageOf levels x < length levels" for x
    using nth_length_takeWhile [of "\<lambda>l. x \<notin> set l" levels] that by (simp add: stageOf_def)
  have rf: "folderNamed folders (rs_Name r) = Some r" "depth L folders (rs_Name r) (stageOf levels r)"
    using at [OF True] levels_okD(1) [OF lv True] by blast+
  have pf: "folderNamed folders (rs_Name p) = Some p" "depth L folders (rs_Name p) (stageOf levels p)"
    using at [OF p] levels_okD(1) [OF lv p] by blast+
  have "IsFolder L r" using rf(1) folderNamed_mem L by blast
  then have "GetFolder L r = rs_Name p" "rs_Name p \<noteq> []" using d by (simp_all add: depends_on_def)
  then have "parentOf L folders (rs_Name r) = Some (rs_Name p)" using rf(1) pf(1) by (auto simp: parentOf_Some)
  then have "depth L folders (rs_Name r) (Suc (stageOf levels p))" using pf(2) by (rule depth_child)
  then show ?thesis using depth_unique rf(2) by fastforce
next
  case False
  then show ?thesis using p stageOf_le [of levels r] by simp
qed

text \<open>C21: resources are pushed in the order of their dependencies: in every interleaving no request
  is made for a resource before one for the folder it depends on, so that parents come before their
  children and folders before everything else; and when errors stop the push nothing that depends on
  a folder that failed is requested at all.\<close>

theorem folders_pushed_first:
  assumes "visits_all (ps_iteration S)" and "pushes S n w"
  shows "(\<forall>i j. i < j \<longrightarrow> j < length (pw_log w) \<longrightarrow> \<not> depends_on (ps_lib S) (fst (pw_log w ! i)) (fst (pw_log w ! j))) \<and>
    (pq_StopOnError (ps_request S) \<longrightarrow> (\<forall>f \<in> set (os_failures (pw_summary w)). \<forall>q \<in> set (pw_log w).
       \<exists>r. fst f = Some r \<and> \<not> depends_on (ps_lib S) (fst q) r))"
  using pushes_folders_first [OF assms]
proof (elim disjE exE conjE)
  fix levels k
  assume lv: "levels_ok (ps_lib S) (collectFolders S) levels" and inv: "folders_first S levels k w"
  have L: "\<forall>f \<in> set (collectFolders S). IsFolder (ps_lib S) f" by (simp add: collectFolders_def)
  have logged: "stageOf levels (fst q) \<le> k" "stageOf levels (fst q) = length levels \<longrightarrow> \<not> IsFolder (ps_lib S) (fst q)"
    if "q \<in> set (pw_log w)" for q using inv that by (auto simp: folders_first_def)
  have folder: "stageOf levels p < length levels" if "IsFolder (ps_lib S) p" "stageOf levels p = length levels \<longrightarrow> \<not> IsFolder (ps_lib S) p" for p
    using that stageOf_le [of levels p] by linarith
  have later: "stageOf levels p < stageOf levels (fst q)"
    if "depends_on (ps_lib S) (fst q) p" "q \<in> set (pw_log w)" "stageOf levels p = length levels \<longrightarrow> \<not> IsFolder (ps_lib S) p" for q p
    using depends_on_later [OF lv that(1) L folder logged(2) [OF that(2)]] that by (simp add: depends_on_def)
  show ?thesis
  proof (intro conjI allI impI ballI)
    fix i j assume "i < j" "j < length (pw_log w)"
    then have "stageOf levels (fst (pw_log w ! i)) \<le> stageOf levels (fst (pw_log w ! j))"
      using inv sorted_nth_mono [of "map (\<lambda>q. stageOf levels (fst q)) (pw_log w)" i j] by (simp add: folders_first_def)
    then show "\<not> depends_on (ps_lib S) (fst (pw_log w ! i)) (fst (pw_log w ! j))"
      using later [of "pw_log w ! i" "fst (pw_log w ! j)"] logged(2) [of "pw_log w ! j"] \<open>i < j\<close> \<open>j < length (pw_log w)\<close> by fastforce
  next
    fix f q assume "pq_StopOnError (ps_request S)" "f \<in> set (os_failures (pw_summary w))" and q: "q \<in> set (pw_log w)"
    then obtain r where r: "fst f = Some r" "stageOf levels r = k" "k = length levels \<longrightarrow> \<not> IsFolder (ps_lib S) r"
      using inv by (auto simp: folders_first_def)
    then show "\<exists>r. fst f = Some r \<and> \<not> depends_on (ps_lib S) (fst q) r"
      using later [OF _ q, of r] logged(1) [OF q] by fastforce
  qed
qed simp

end
