(* ===== verification/Resource_Push_Accounts.thy ===== *)
theory Resource_Push_Accounts
  imports Resource_Push_Properties
begin

text \<open>
  What a push reports: every resource it did not skip as managed by another tool once, as a success or
  a failure; and that a push ends, with no more goroutines at a time than asked for.
\<close>

section \<open>Collections by reference\<close>

lemma update_append: "k \<notin> fst ` set c \<Longrightarrow> AList.update k v c = c @ [(k, v)]"
  by (induction c) auto

lemma AddResources_distinct:
  "distinct (map fst c @ map ResourceRef rs) \<Longrightarrow> AddResources rs c = c @ map (\<lambda>r. (ResourceRef r, r)) rs"
proof (induction rs arbitrary: c)
  case (Cons r rs)
  then have "AddResource r c = c @ [(ResourceRef r, r)]" by (auto simp: AddResource_def intro!: update_append)
  then show ?case using Cons.IH [of "c @ [(ResourceRef r, r)]"] Cons.prems by (auto simp: AddResources_def)
qed (simp add: AddResources_def)

lemma AsList_NewResources: "distinct (map ResourceRef rs) \<Longrightarrow> AsList (NewResources rs) = rs"
  by (simp add: NewResources_def AddResources_distinct AsList_def comp_def)

lemma length_NewResources: "length (AsList (NewResources rs)) \<le> length rs"
proof -
  have "length (AList.update k v c) \<le> Suc (length c)" for k v and c :: Resources by (induction c) auto
  then have "length (AddResources rs c) \<le> length rs + length c" for c
  proof (induction rs arbitrary: c rule: list.induct)
    case (Cons r rs)
    have "length (AddResource r c) \<le> Suc (length c)" using Cons.prems by (simp add: AddResource_def)
    then show ?case using Cons.IH [OF Cons.prems, of "AddResource r c"] by (simp add: AddResources_def)
  qed (simp add: AddResources_def)
  from this [of "[]"] show ?thesis by (simp add: NewResources_def AsList_def)
qed

definition wf_resources :: "Resources \<Rightarrow> bool" where
  "wf_resources c \<longleftrightarrow> distinct (map fst c) \<and> (\<forall>(k, r) \<in> set c. k = ResourceRef r)"

lemma wf_update: "wf_resources c \<Longrightarrow> wf_resources (AList.update (ResourceRef r) r c)"
proof -
  assume c: "wf_resources c"
  have "set (AList.update k v c) \<subseteq> insert (k, v) (set c)" for k v and c :: Resources by (induction c) auto
  then show ?thesis using c by (fastforce simp: wf_resources_def distinct_update)
qed

lemma wf_NewResources: "wf_resources (NewResources rs)"
proof -
  have "wf_resources c \<Longrightarrow> wf_resources (AddResources rs c)" for c
    by (induction rs arbitrary: c) (simp_all add: AddResources_def AddResource_def wf_update)
  from this [of "[]"] show ?thesis by (simp add: NewResources_def) (simp add: wf_resources_def)
qed

lemma wf_refs: "wf_resources c \<Longrightarrow> map ResourceRef (AsList c) = map fst c"
  by (auto simp: wf_resources_def AsList_def)

section \<open>The account\<close>

definition endedOf :: "push_setup \<Rightarrow> push_world \<Rightarrow> Resource multiset" where
  "endedOf S w = image_mset fst (filter_mset
     (\<lambda>p. ended (snd p) \<and> \<not> (pw_stage w = OtherStage \<and> IsFolder (ps_lib S) (fst p))) (mset (pw_tasks w)))"

definition account :: "push_setup \<Rightarrow> Resource multiset \<Rightarrow> OperationSummary \<Rightarrow> bool" where
  "account S E s \<longleftrightarrow> os_successCount s + os_failedCount s = size (filter_mset (\<lambda>r. \<not> skips S r) E) \<and>
     os_failedCount s = length (os_failures s) \<and>
     (\<exists>rs. map fst (os_failures s) = map Some rs \<and> mset rs \<subseteq># filter_mset (\<lambda>r. \<not> skips S r) E)"

lemma account_skip: "skips S r \<Longrightarrow> account S (add_mset r E) s = account S E s"
  by (simp add: account_def)

lemma sub_add_mset: "A \<subseteq># B \<Longrightarrow> A \<subseteq># add_mset x B"
  by (metis add_mset_add_single mset_subset_eq_add_left subset_mset.order_trans)

lemma account_success: "account S E s \<Longrightarrow> \<not> skips S r \<Longrightarrow> account S (add_mset r E) (RecordSuccess s)"
  by (auto simp: account_def RecordSuccess_def intro: sub_add_mset)

lemma account_failure:
  assumes "account S E s" and "\<not> skips S r"
  shows "account S (add_mset r E) (RecordFailure (Some r) e s)"
proof -
  obtain rs where "map fst (os_failures s) = map Some rs" "mset rs \<subseteq># filter_mset (\<lambda>r. \<not> skips S r) E"
    using assms(1) by (auto simp: account_def)
  then show ?thesis using assms by (auto simp: account_def RecordFailure_def intro!: exI [of _ "rs @ [r]"])
qed

definition still_counted :: "push_setup \<Rightarrow> Resource list list \<Rightarrow> nat \<Rightarrow> push_world \<Rightarrow> bool" where
  "still_counted S levels k w \<longleftrightarrow>
     account S (mset (concat (take k levels)) + endedOf S w) (pw_summary w) \<and>
     (\<forall>p \<in> set (pw_tasks w). running (snd p) \<longrightarrow> \<not> skips S (fst p)) \<and>
     (pq_StopOnError (ps_request S) \<longrightarrow> pw_groupError w = None \<longrightarrow> os_failures (pw_summary w) = [])"

lemma endedOf_effect:
  assumes "moved S old new d" and "i < length (pw_tasks w)" and "snd (pw_tasks w ! i) = old"
  shows "endedOf S (effect S i new d w) =
    (if ended new \<and> \<not> (pw_stage w = OtherStage \<and> IsFolder (ps_lib S) (fst (pw_tasks w ! i)))
     then add_mset (fst (pw_tasks w ! i)) (endedOf S w) else endedOf S w)"
proof -
  have "\<not> ended old" using assms(1) by (simp add: moved_def)
  then show ?thesis using assms(2,3)
    by (simp add: endedOf_def effect_simps [OF assms(1)] mset_update filter_diff_mset)
qed

lemma still_counted_step:
  assumes inv: "still_counted S levels k w" "no_folder_runs S w" and i: "i < length (pw_tasks w)"
    and old: "snd (pw_tasks w ! i) = old" and m: "moved S old new d"
    and skip: "d = Skipped \<longleftrightarrow> old = Queued \<and> (pw_stage w = OtherStage \<and> IsFolder (ps_lib S) (fst (pw_tasks w ! i)) \<or> skips S (fst (pw_tasks w ! i)))"
    and no: "old = Queued \<Longrightarrow> d \<noteq> Skipped \<Longrightarrow> \<not> (pw_stage w = OtherStage \<and> IsFolder (ps_lib S) (fst (pw_tasks w ! i)))"
  shows "still_counted S levels k (effect S i new d w)"
proof -
  let ?r = "fst (pw_tasks w ! i)" and ?w' = "effect S i new d w"
  let ?M = "mset (concat (take k levels))"
  have folder: "\<not> (pw_stage w = OtherStage \<and> IsFolder (ps_lib S) ?r)" if "d \<noteq> Skipped"
    using no_folder_runs_effect(2) [OF inv(2) i old m no that] .
  have r: "\<not> skips S ?r" if "d \<noteq> Skipped"
  proof (cases "old = Queued")
    case False
    then have "running old" using m by (cases old) (auto simp: moved_def)
    then show ?thesis using inv(1) i old by (auto simp: still_counted_def all_set_conv_all_nth)
  qed (use skip that in blast)
  have E: "endedOf S ?w' = (if ended new \<and> \<not> (pw_stage w = OtherStage \<and> IsFolder (ps_lib S) ?r)
     then add_mset ?r (endedOf S w) else endedOf S w)" by (rule endedOf_effect [OF m i old])
  have a: "account S (?M + endedOf S w) (pw_summary w)" using inv(1) by (simp add: still_counted_def)
  have "account S (?M + endedOf S ?w') (pw_summary ?w')"
  proof (cases d)
    case Skipped
    then have "pw_stage w = OtherStage \<and> IsFolder (ps_lib S) ?r \<or> skips S ?r" using skip by blast
    then show ?thesis using a account_skip [of S ?r "?M + endedOf S w"]
      by (auto simp: Skipped E [unfolded Skipped] effect_simps [OF m [unfolded Skipped]])
  next
    case (Requested op)
    then have "\<not> ended new" using m by (cases new) (auto simp: moved_def)
    then show ?thesis using a by (simp add: Requested E [unfolded Requested] effect_simps [OF m [unfolded Requested]])
  next
    case Succeeded
    then have "ended new" using m by (simp add: moved_def)
    then show ?thesis using account_success [OF a r] folder by (auto simp: Succeeded E [unfolded Succeeded] effect_simps [OF m [unfolded Succeeded]])
  next
    case (Failed e)
    then have "ended new" using m by (simp add: moved_def)
    then show ?thesis using account_failure [OF a r] folder by (auto simp: Failed E [unfolded Failed] effect_simps [OF m [unfolded Failed]])
  qed
  moreover have "\<forall>p \<in> set (pw_tasks ?w'). running (snd p) \<longrightarrow> \<not> skips S (fst p)"
  proof (intro ballI impI)
    fix p assume p: "p \<in> set (pw_tasks ?w')" "running (snd p)"
    then have "p = (?r, new) \<or> p \<in> set (pw_tasks w)"
      using set_update_subset_insert [of "pw_tasks w" i "(?r, new)"] by (auto simp: effect_simps [OF m])
    moreover have "d \<noteq> Skipped" if "running new" using that m by (auto simp: moved_def)
    ultimately show "\<not> skips S (fst p)" using p(2) r inv(1) by (auto simp: still_counted_def)
  qed
  moreover have "pq_StopOnError (ps_request S) \<longrightarrow> pw_groupError ?w' = None \<longrightarrow> os_failures (pw_summary ?w') = []"
    unfolding effect_simps [OF m] using inv(1) by (cases d) (auto simp: still_counted_def RecordSuccess_def)
  ultimately show ?thesis by (simp add: still_counted_def)
qed

lemma ended_all:
  "list_all (\<lambda>p. ended (snd p)) ts \<Longrightarrow>
    image_mset fst (filter_mset (\<lambda>p. ended (snd p) \<and> \<not> (b \<and> P (fst p))) (mset ts)) =
    (if b then filter_mset (\<lambda>r. \<not> P r) (mset (map fst ts)) else mset (map fst ts))"
  by (induction ts) auto

text \<open>When every goroutine of a stage has ended the whole stage is in the account.\<close>

lemma endedOf_stage:
  assumes "list_all (\<lambda>p. ended (snd p)) (pw_tasks w)"
  shows "endedOf S w = (if pw_stage w = OtherStage
     then filter_mset (\<lambda>r. \<not> IsFolder (ps_lib S) r) (mset (map fst (pw_tasks w))) else mset (map fst (pw_tasks w)))"
  unfolding endedOf_def using ended_all [OF assms] by simp

lemma endedOf_start [simp]: "endedOf S (startTasks c st w) = {#}"
  by (induction c) (simp_all add: endedOf_def AsList_def)

definition proper_push :: "push_setup \<Rightarrow> bool" where
  "proper_push S \<longleftrightarrow> visits_all (ps_iteration S) \<and> (\<forall>rs. mset (ps_order S rs) = mset rs) \<and>
     wf_resources (pq_Resources (ps_request S)) \<and>
     distinct (map rs_Name (filter (IsFolder (ps_lib S)) (AsList (pq_Resources (ps_request S)))))"

lemma collected:
  assumes "proper_push S"
  shows "mset (collectFolders S) = filter_mset (IsFolder (ps_lib S)) (mset (AsList (pq_Resources (ps_request S))))"
    and "distinct (map rs_Name (collectFolders S))"
proof -
  show m: "mset (collectFolders S) = filter_mset (IsFolder (ps_lib S)) (mset (AsList (pq_Resources (ps_request S))))"
    using assms by (simp add: collectFolders_def proper_push_def)
  then have "mset (map rs_Name (collectFolders S)) = mset (map rs_Name (filter (IsFolder (ps_lib S)) (AsList (pq_Resources (ps_request S)))))"
    by simp
  then show "distinct (map rs_Name (collectFolders S))" using assms mset_eq_imp_distinct_iff by (fastforce simp: proper_push_def)
qed

lemma folderNamed_distinct:
  "distinct (map rs_Name folders) \<Longrightarrow> folderNamed folders (rs_Name f) = Some f \<longleftrightarrow> f \<in> set folders"
proof (induction folders rule: rev_induct)
  case (snoc g folders)
  then show ?case by (cases "rs_Name g = rs_Name f") (auto simp: folderNamed_snoc)
qed (simp add: folderNamed_def)

lemma concat_set_level: "f \<in> set (concat levels) \<longleftrightarrow> (\<exists>i < length levels. f \<in> set (levels ! i))"
  by (simp only: set_concat UN_iff) (metis in_set_conv_nth)

text \<open>The levels hold the folders, each once.\<close>

lemma levels_folders:
  assumes "levels_ok L folders levels" and "distinct (map rs_Name folders)"
  shows "mset (concat levels) = mset folders"
proof (rule set_eq_iff_mset_eq_distinct [THEN iffD1])
  show "distinct (concat levels)" using levels_okD(3) [OF assms(1)] by (simp add: distinct_map)
  show "distinct folders" using assms(2) by (simp add: distinct_map)
  show "set (concat levels) = set folders"
  proof (intro set_eqI iffI)
    fix f assume "f \<in> set (concat levels)"
    then obtain i where "i < length levels" "f \<in> set (levels ! i)" unfolding concat_set_level by blast
    then show "f \<in> set folders" using level_folders [OF assms(1)] by blast
  next
    fix f assume "f \<in> set folders"
    then have f: "folderNamed folders (rs_Name f) = Some f" using folderNamed_distinct [OF assms(2)] by blast
    then obtain n where "n < length levels" "depth L folders (rs_Name f) n" using levels_okD(2) [OF assms(1), of "rs_Name f"] by auto
    then show "f \<in> set (concat levels)" unfolding concat_set_level using levels_okD(1) [OF assms(1)] f by blast
  qed
qed

section \<open>The whole push\<close>

text \<open>What is left of the account when the push is over.\<close>

definition counted_up :: "push_setup \<Rightarrow> push_world \<Rightarrow> bool" where
  "counted_up S w \<longleftrightarrow> account S (mset (AsList (pq_Resources (ps_request S)))) (pw_summary w) \<and>
     (pq_StopOnError (ps_request S) \<longrightarrow> os_failures (pw_summary w) = [])"

definition reported :: "push_setup \<Rightarrow> Resource list list \<Rightarrow> nat \<Rightarrow> push_world \<Rightarrow> bool" where
  "reported S levels k w \<longleftrightarrow> k \<le> length levels \<and>
     (case pw_stage w of
        PushDone (Some e) \<Rightarrow> True
      | PushDone None \<Rightarrow> counted_up S w
      | _ \<Rightarrow> still_counted S levels k w \<and> no_folder_runs S w)"

lemma level_distinct_refs:
  assumes p: "proper_push S" and lv: "levelsOf S levels" and k: "k < length levels"
  shows "AsList (NewResources (levels ! k)) = levels ! k"
proof (rule AsList_NewResources)
  have it: "visits_all (ps_iteration S)" using p by (simp add: proper_push_def)
  note ok = levelsOf_ok [OF it lv]
  let ?all = "AsList (pq_Resources (ps_request S))"
  have "distinct (map ResourceRef ?all)" using p wf_refs by (auto simp: proper_push_def wf_resources_def)
  then have inj: "inj_on ResourceRef (set ?all)" by (simp add: distinct_map)
  have "set (levels ! k) \<subseteq> set ?all"
    using level_folders [OF ok k] collected(1) [OF p] by (metis filter_mset_eq_conv mset_subset_eqD set_mset_mset subsetI)
  moreover have "distinct (levels ! k)"
    using levels_okD(3) [OF ok] k by (auto simp: distinct_map distinct_concat_iff)
  ultimately show "distinct (map ResourceRef (levels ! k))" using inj by (simp add: distinct_map inj_on_subset)
qed

text \<open>After the folders everything left over is not a folder.\<close>

lemma rest_of_push:
  assumes p: "proper_push S" and lv: "levelsOf S levels"
  shows "mset (concat levels) + filter_mset (\<lambda>r. \<not> IsFolder (ps_lib S) r) (mset (AsList (pq_Resources (ps_request S)))) =
    mset (AsList (pq_Resources (ps_request S)))"
proof -
  have "visits_all (ps_iteration S)" using p by (simp add: proper_push_def)
  then have "mset (concat levels) = filter_mset (IsFolder (ps_lib S)) (mset (AsList (pq_Resources (ps_request S))))"
    using levels_folders [OF levelsOf_ok [OF _ lv] collected(2) [OF p]] collected(1) [OF p] by simp
  then show ?thesis using multiset_partition by metis
qed

lemma reported_next:
  assumes p: "proper_push S" and lv: "levelsOf S levels" and k: "k \<le> length levels"
    and a: "account S (mset (concat (take k levels))) (pw_summary w)"
    and stop: "pq_StopOnError (ps_request S) \<Longrightarrow> os_failures (pw_summary w) = []"
  shows "reported S levels k (nextStage S (drop k levels) w)"
proof (rule nextStageE [OF refl k])
  assume *: "k < length levels"
    "nextStage S (drop k levels) w = startTasks (NewResources (levels ! k)) (FolderStage (drop (Suc k) levels)) w"
  show ?thesis using k a stop * by (auto simp: reported_def still_counted_def no_folder_runs_def)
next
  let ?all = "AsList (pq_Resources (ps_request S))"
  assume *: "k = length levels" "nextStage S (drop k levels) w = w\<lparr>pw_stage := PushDone None, pw_tasks := []\<rparr>"
    "Len (pq_Resources (ps_request S)) \<le> os_successCount (pw_summary w) + os_failedCount (pw_summary w)"
  let ?rest = "filter_mset (\<lambda>r. \<not> IsFolder (ps_lib S) r) (mset ?all)"
  have whole: "mset (concat levels) + ?rest = mset ?all" by (rule rest_of_push [OF p lv])
  have "size (mset ?all) \<le> size (filter_mset (\<lambda>r. \<not> skips S r) (mset (concat levels)))"
    using a * by (auto simp: account_def Len_def AsList_def)
  also have "\<dots> \<le> size (mset (concat levels))" by (rule size_filter_mset_lesseq)
  finally have "size ?rest = 0" using size_union [of "mset (concat levels)" ?rest] unfolding whole by linarith
  then have "?rest = {#}" by (simp only: size_eq_0_iff_empty)
  then have "mset (concat levels) = mset ?all" using whole by (metis add.right_neutral)
  then have "account S (mset ?all) (pw_summary w)" using a * by simp
  then show ?thesis using k stop * by (auto simp: reported_def counted_up_def)
next
  assume *: "k = length levels" "nextStage S (drop k levels) w = startTasks (pq_Resources (ps_request S)) OtherStage w"
  show ?thesis using k a stop * by (auto simp: reported_def still_counted_def no_folder_runs_def)
qed

lemma pushes_reported:
  assumes p: "proper_push S" and run: "pushes S n w"
  shows "(\<exists>e. pw_stage w = PushDone (Some e)) \<or> (\<exists>levels k. reported S levels k w)"
proof -
  have "(\<exists>e. pw_stage w = PushDone (Some e)) \<and> isDone w \<or>
    (\<exists>levels k. levelsOf S levels \<and> standing S levels k w \<and> reported S levels k w)"
  proof (rule pushes_invariant [OF run])
    fix levels assume "levelsOf S levels"
    moreover have "account S {#} emptySummary" by (simp add: account_def emptySummary_def)
    ultimately show "reported S levels 0 (nextStage S (drop 0 levels) emptyWorld)"
      using reported_next [OF p, of levels 0 emptyWorld] by (simp add: emptyWorld_def emptySummary_def)
  next
    fix levels k w i old new d
    assume inv: "reported S levels k w" and going: "\<not> isDone w" and i: "i < length (pw_tasks w)" "snd (pw_tasks w ! i) = old"
      and m: "moved S old new d"
      and d: "d = Skipped \<longleftrightarrow> old = Queued \<and> (pw_stage w = OtherStage \<and> IsFolder (ps_lib S) (fst (pw_tasks w ! i)) \<or> skips S (fst (pw_tasks w ! i)))"
        "old = Queued \<Longrightarrow> d \<noteq> Skipped \<Longrightarrow> \<not> (pw_stage w = OtherStage \<and> IsFolder (ps_lib S) (fst (pw_tasks w ! i)))"
    have c: "still_counted S levels k w" "no_folder_runs S w"
      using inv going by (auto simp: reported_def isDone_def split: stage.splits option.splits)
    show "reported S levels k (effect S i new d w)"
      using still_counted_step [OF c i m d] no_folder_runs_effect(1) [OF c(2) i m d(2)] inv going
      by (auto simp: reported_def effect_simps [OF m] isDone_def split: stage.splits)
  next
    fix levels k w
    assume lv: "levelsOf S levels" and st: "standing S levels k w" and inv: "reported S levels k w"
      and all: "list_all (\<lambda>p. ended (snd p)) (pw_tasks w)" and none: "pw_groupError w = None" and k: "k < length levels"
      and stage: "pw_stage w = FolderStage (drop (Suc k) levels)"
    have c: "still_counted S levels k w" using inv stage by (simp add: reported_def)
    have "endedOf S w = mset (levels ! k)"
      using endedOf_stage [OF all, of S] st stage level_distinct_refs [OF p lv k]
      by (simp add: standing_def mset_map [symmetric] del: mset_map)
    then have "account S (mset (concat (take (Suc k) levels))) (pw_summary w)"
      using c k by (simp add: still_counted_def take_Suc_conv_app_nth)
    then show "reported S levels (Suc k) (nextStage S (drop (Suc k) levels) w)"
      using c none k by (intro reported_next [OF p lv]) (auto simp: still_counted_def)
  next
    fix levels k w
    assume lv: "levelsOf S levels" and st: "standing S levels k w" and inv: "reported S levels k w"
      and stage: "pw_stage w = OtherStage" and all: "list_all (\<lambda>p. ended (snd p)) (pw_tasks w)" and none: "pw_groupError w = None"
    let ?all = "mset (AsList (pq_Resources (ps_request S)))"
    have c: "still_counted S levels k w" using inv stage by (simp add: reported_def)
    have k: "k = length levels" using st stage by (simp add: standing_def)
    have "endedOf S w = filter_mset (\<lambda>r. \<not> IsFolder (ps_lib S) r) ?all"
      using endedOf_stage [OF all, of S] st stage by (simp add: standing_def mset_map [symmetric] del: mset_map)
    then have "account S ?all (pw_summary w)"
      using c k rest_of_push [OF p lv] by (simp add: still_counted_def)
    then show "reported S levels k (w\<lparr>pw_stage := PushDone None, pw_tasks := []\<rparr>)"
      using c none k by (simp add: reported_def counted_up_def still_counted_def)
  qed (auto simp: isDone_def reported_def)
  then show ?thesis by blast
qed

lemma distinct_submset:
  assumes "distinct ys" and "mset xs \<subseteq># mset ys"
  shows "distinct xs"
proof -
  obtain zs where "mset zs = mset ys - mset xs" using ex_mset by blast
  then have "mset ys = mset (xs @ zs)" using assms(2) by simp
  then have "distinct (xs @ zs)" using assms(1) mset_eq_imp_distinct_iff by blast
  then show ?thesis by simp
qed

text \<open>C22: when no two folders of the push have the same name, a push that was not stopped reports every
  resource: those it did not skip because another tool manages them are one by one a success or a
  failure, the failures name different resources of the push, none of them skipped, and with
  \<^verbatim>\<open>StopOnError\<close> there are none. Without the condition it does not: the levels of the folders are
  tables by name, so of two folders of one name (say of two API versions) only one reaches a level,
  and the other is neither pushed nor reported. \<open>proper_push\<close> says that, and what holds of any Go run:
  iterating the collection visits all of it, in an order that is a permutation, and the collection is
  one that its constructors build.\<close>

theorem resources_accounted:
  assumes "proper_push S" and "pushes S n w" and "pw_stage w = PushDone None"
  shows "os_successCount (pw_summary w) + os_failedCount (pw_summary w) =
      length (filter (\<lambda>r. \<not> skips S r) (AsList (pq_Resources (ps_request S)))) \<and>
    os_failedCount (pw_summary w) = length (os_failures (pw_summary w)) \<and>
    (\<exists>rs. map fst (os_failures (pw_summary w)) = map Some rs \<and> distinct rs \<and>
       set rs \<subseteq> {r \<in> set (AsList (pq_Resources (ps_request S))). \<not> skips S r}) \<and>
    (pq_StopOnError (ps_request S) \<longrightarrow> os_failedCount (pw_summary w) = 0)"
proof -
  let ?all = "AsList (pq_Resources (ps_request S))"
  have c: "account S (mset ?all) (pw_summary w)" "pq_StopOnError (ps_request S) \<longrightarrow> os_failures (pw_summary w) = []"
    using pushes_reported [OF assms(1,2)] assms(3) by (auto simp: reported_def counted_up_def)
  then obtain rs where rs: "map fst (os_failures (pw_summary w)) = map Some rs" "mset rs \<subseteq># mset (filter (\<lambda>r. \<not> skips S r) ?all)"
    by (auto simp: account_def)
  have "distinct (map ResourceRef ?all)" using assms(1) wf_refs by (auto simp: proper_push_def wf_resources_def)
  then have "distinct (filter (\<lambda>r. \<not> skips S r) ?all)" by (simp add: distinct_map)
  then have "distinct rs" using distinct_submset rs(2) by blast
  moreover have "set rs \<subseteq> {r \<in> set ?all. \<not> skips S r}" using set_mset_mono [OF rs(2)] by auto
  ultimately show ?thesis using c rs(1) by (auto simp: account_def simp flip: mset_filter)
qed

section \<open>A push ends\<close>

fun weight :: "push_task \<Rightarrow> nat" where
  "weight Queued = 3"
| "weight (Asking desc r) = 2"
| "weight Writing = 1"
| "weight (Ended e) = 0"

definition load :: "push_world \<Rightarrow> nat" where
  "load w = sum_list (map (\<lambda>p. weight (snd p)) (pw_tasks w))"

text \<open>The steps the later stages can take at most: three a goroutine, and one to end the stage.\<close>

definition stages_left :: "push_setup \<Rightarrow> Resource list list \<Rightarrow> nat" where
  "stages_left S later = sum_list (map (\<lambda>l. 3 * length l + 1) later) + 3 * Len (pq_Resources (ps_request S)) + 1"

definition steps_left :: "push_setup \<Rightarrow> push_world \<Rightarrow> nat" where
  "steps_left S w = load w + (case pw_stage w of
      FolderStage later \<Rightarrow> 1 + stages_left S later | OtherStage \<Rightarrow> 1 | PushDone e \<Rightarrow> 0)"

lemma load_effect:
  assumes "moved S old new d" and "i < length (pw_tasks w)" and "snd (pw_tasks w ! i) = old"
  shows "load (effect S i new d w) < load w"
proof -
  have "weight new < weight old" using assms(1)
    by (cases d; cases old; cases new) (auto simp: moved_def)
  moreover have "sum_list (map (\<lambda>p. weight (snd p)) ((pw_tasks w)[i := (fst (pw_tasks w ! i), new)])) + weight old =
      sum_list (map (\<lambda>p. weight (snd p)) (pw_tasks w)) + weight new"
    using assms(2,3)
  proof (induction "pw_tasks w" arbitrary: w i)
    case (Cons p ps)
    then show ?case
    proof (cases i)
      case (Suc j)
      have "ps = pw_tasks (w\<lparr>pw_tasks := ps\<rparr>)" by simp
      from Cons.hyps(1) [OF this, of j] Cons.prems Suc Cons.hyps(2) [symmetric] show ?thesis by simp
    qed (auto simp: Cons.hyps(2) [symmetric])
  qed simp
  ultimately show ?thesis by (simp add: load_def effect_simps [OF assms(1)])
qed

lemma load_start: "load (startTasks c st w) = 3 * length (AsList c)"
  by (simp add: load_def comp_def sum_list_triv)

lemma load_ended: "list_all (\<lambda>p. ended (snd p)) (pw_tasks w) \<Longrightarrow> load w = 0"
proof -
  have "list_all (\<lambda>p. ended (snd p)) ps \<Longrightarrow> sum_list (map (\<lambda>p. weight (snd p)) ps) = 0" for ps :: "(Resource \<times> push_task) list"
    by (induction ps) (auto elim!: ended.elims)
  then show "list_all (\<lambda>p. ended (snd p)) (pw_tasks w) \<Longrightarrow> load w = 0" by (simp add: load_def)
qed

lemma steps_left_nextStage: "steps_left S (nextStage S later w) \<le> stages_left S later"
proof (cases later)
  case Nil
  then show ?thesis by (auto simp: nextStage_def steps_left_def stages_left_def load_start, simp_all add: load_def Len_def AsList_def)
next
  case (Cons l ls)
  then show ?thesis using length_NewResources [of l]
    by (simp add: nextStage_def steps_left_def stages_left_def load_start)
qed

lemma steps_left_step:
  assumes "pushStep S ev w = Some w'"
  shows "steps_left S w' < steps_left S w"
  using assms
proof (cases rule: pushStepE)
  case (task i old new d)
  then show ?thesis using load_effect [OF task(3,1,2)] by (simp add: steps_left_def effect_simps [OF task(3)])
next
  case join
  have left: "steps_left S (w\<lparr>pw_stage := PushDone e, pw_tasks := []\<rparr>) = 0" for e by (simp add: steps_left_def load_def)
  show ?thesis
  proof (cases "\<exists>later. pw_stage w = FolderStage later \<and> pw_groupError w = None")
    case True
    then obtain later where "pw_stage w = FolderStage later" "w' = nextStage S later w" using join(3) by auto
    then show ?thesis using steps_left_nextStage [of S later w] by (simp add: steps_left_def)
  next
    case False
    then obtain e where "w' = w\<lparr>pw_stage := PushDone e, pw_tasks := []\<rparr>"
      using join(1,3) by (cases "pw_groupError w"; cases "pw_stage w") auto
    then show ?thesis using left join(1) by (auto simp: steps_left_def isDone_def split: stage.splits)
  qed
qed

lemma levels_size:
  assumes "levels_ok L folders levels"
  shows "length (concat levels) \<le> length folders" and "length levels \<le> length folders"
proof -
  have "set (map rs_Name (concat levels)) \<subseteq> set (map rs_Name folders)"
  proof
    fix u assume "u \<in> set (map rs_Name (concat levels))"
    then obtain f i where "u = rs_Name f" "i < length levels" "f \<in> set (levels ! i)"
      using concat_set_level by (metis (no_types, lifting) image_iff set_map)
    then show "u \<in> set (map rs_Name folders)" using level_folders [OF assms] by auto
  qed
  then have "card (set (map rs_Name (concat levels))) \<le> card (set (map rs_Name folders))" by (rule card_mono [OF finite_set])
  also have "card (set (map rs_Name folders)) \<le> length folders" by (metis card_length length_map)
  finally show c: "length (concat levels) \<le> length folders"
    using distinct_card [OF levels_okD(3) [OF assms]] by simp
  have "length ls \<le> length (concat ls)" if "[] \<notin> set ls" for ls :: "Resource list list"
    using that
  proof (induction ls)
    case (Cons l ls)
    then show ?case by (cases l) auto
  qed simp
  then show "length levels \<le> length folders" using levels_okD(4) [OF assms] c by (meson order_trans)
qed

lemma steps_left_start:
  assumes "visits_all (ps_iteration S)" and "\<forall>rs. mset (ps_order S rs) = mset rs" and "pushFolders S = Some w"
  shows "steps_left S w \<le> 7 * Len (pq_Resources (ps_request S)) + 1"
proof (cases "\<exists>levels. levelsOf S levels")
  case True
  then obtain levels where lv: "levelsOf S levels" by blast
  have w: "w = nextStage S levels emptyWorld" using assms(3) lv by (simp add: pushFolders_def levelsOf_def)
  note size = levels_size [OF levelsOf_ok [OF assms(1) lv]]
  have "length (ps_order S (AsList (pq_Resources (ps_request S)))) = Len (pq_Resources (ps_request S))"
    using assms(2) by (metis Len_def AsList_def length_map size_mset)
  then have "length (collectFolders S) \<le> Len (pq_Resources (ps_request S))"
    unfolding collectFolders_def by (metis length_filter_le)
  moreover have "sum_list (map (\<lambda>l. 3 * length l + 1) ls) = 3 * length (concat ls) + length ls" for ls :: "Resource list list"
    by (induction ls) auto
  ultimately have "stages_left S levels \<le> 7 * Len (pq_Resources (ps_request S)) + 1"
    using size by (simp add: stages_left_def)
  then show ?thesis unfolding w using steps_left_nextStage [of S levels emptyWorld] by linarith
next
  case False
  then show ?thesis using assms(3)
    by (auto simp: pushFolders_def levelsOf_def emptyWorld_def steps_left_def load_def split: option.splits sum.splits)
qed

lemma pushes_bound:
  assumes "visits_all (ps_iteration S)" and "\<forall>rs. mset (ps_order S rs) = mset rs" and "pushes S n w"
  shows "n + steps_left S w \<le> 7 * Len (pq_Resources (ps_request S)) + 1"
  using assms(3)
proof (induction rule: pushes.induct)
  case (pushes_start w)
  then show ?case using steps_left_start [OF assms(1,2)] by simp
next
  case (pushes_step n w ev w')
  then show ?case using steps_left_step [OF pushes_step.hyps(2)] by simp
qed

lemma limit_pos: "0 < limit S"
  by (simp add: limit_def)

lemma push_goes_on:
  assumes "\<not> isDone w"
  shows "\<exists>ev w'. pushStep S ev w = Some w'"
proof (cases "list_all (\<lambda>p. ended (snd p)) (pw_tasks w)")
  case True
  then show ?thesis using assms by (intro exI [of _ Join]) (simp add: pushStep_def)
next
  case False
  then obtain i where i: "i < length (pw_tasks w)" "\<not> ended (snd (pw_tasks w ! i))" by (auto simp: list_all_length)
  show ?thesis
  proof (cases "inFlight w = 0")
    case True
    then have "\<not> running (snd (pw_tasks w ! i))" using i(1) by (auto simp: inFlight_def filter_empty_conv)
    then have "snd (pw_tasks w ! i) = Queued" using i(2) by (cases "snd (pw_tasks w ! i)") auto
    then show ?thesis using assms i(1) True limit_pos [of S] by (intro exI [of _ "Begin i"]) (simp add: pushStep_def taskAt_def)
  next
    case False
    then obtain j where j: "j < length (pw_tasks w)" "running (snd (pw_tasks w ! j))"
      by (auto simp: inFlight_def filter_empty_conv in_set_conv_nth)
    then show ?thesis using assms
    proof (cases "snd (pw_tasks w ! j)")
      case (Asking desc r)
      then show ?thesis using assms j by (intro exI [of _ "Got j Absent"]) (simp add: pushStep_def taskAt_def)
    next
      case Writing
      then show ?thesis using assms j by (intro exI [of _ "Wrote j Accepted"]) (simp add: pushStep_def taskAt_def)
    qed simp_all
  qed
qed

lemma inFlight_effect:
  assumes "moved S old new d" and "i < length (pw_tasks w)" and "snd (pw_tasks w ! i) = old"
  shows "inFlight (effect S i new d w) \<le> inFlight w + (if old = Queued then 1 else 0)"
proof -
  have i: "inFlight w = size (filter_mset (\<lambda>p. running (snd p)) (mset (pw_tasks w)))" for w
    by (simp add: inFlight_def flip: mset_filter)
  have "old \<noteq> Queued \<Longrightarrow> running old" using assms(1) by (cases old) (auto simp: moved_def)
  moreover obtain N where "mset (pw_tasks w) = add_mset (pw_tasks w ! i) N"
    using assms(2) by (meson mset_add nth_mem_mset)
  ultimately show ?thesis using assms(2,3) unfolding i effect_simps [OF assms(1)]
    by (auto simp: mset_update)
qed

lemma pushes_limit:
  assumes "pushes S n w"
  shows "inFlight w \<le> limit S"
  using assms
proof (induction rule: pushes.induct)
  case (pushes_start w)
  then show ?case
    by (auto simp: pushFolders_def nextStage_def inFlight_def emptyWorld_def comp_def split: option.splits sum.splits list.splits)
next
  case (pushes_step n w ev w')
  from pushes_step.hyps(2) show ?case
  proof (cases rule: pushStepE)
    case (task i old new d)
    then show ?thesis using inFlight_effect [OF task(3,1,2)] pushes_step.IH by (auto split: if_splits)
  next
    case join
    have "inFlight (nextStage S later w) = 0" for later
      by (auto simp: nextStage_def inFlight_def comp_def split: list.splits)
    then show ?thesis using join(3) by (auto simp: inFlight_def split: option.splits stage.splits)
  qed
qed

text \<open>C23: a push ends, whatever the client answers: it takes at most seven steps a resource and one
  more, and until it is done some step is possible; and at no time are more goroutines in flight than
  \<^verbatim>\<open>MaxConcurrency\<close>, or one when that is less.\<close>

theorem push_ends:
  assumes "visits_all (ps_iteration S)" and "\<forall>rs. mset (ps_order S rs) = mset rs" and "pushes S n w"
  shows "n \<le> 7 * Len (pq_Resources (ps_request S)) + 1 \<and> (isDone w \<or> (\<exists>ev w'. pushStep S ev w = Some w')) \<and>
    int (inFlight w) \<le> max 1 (pq_MaxConcurrency (ps_request S))"
  using pushes_bound [OF assms] push_goes_on [of w S] pushes_limit [OF assms(3)] by (auto simp: limit_def split: if_splits)

section \<open>A push of two folders and a dashboard\<close>

definition note_dashboard :: Resource where
  "note_dashboard = (note_folder ''dash'' ''child'')\<lparr>rs_GVK := \<lparr>gvk_Group = ''dashboard.grafana.app'', gvk_Version = ''v1'', gvk_Kind = ''Dashboard''\<rparr>\<rparr>"

definition note_descriptors :: "Descriptor list" where
  "note_descriptors =
     [\<lparr>ds_Group = ''folder.grafana.app'', ds_Version = ''v1'', ds_Kind = ''Folder'', ds_Singular = ''folder'', ds_Plural = ''folders''\<rparr>,
      \<lparr>ds_Group = ''dashboard.grafana.app'', ds_Version = ''v1'', ds_Kind = ''Dashboard'', ds_Singular = ''dashboard'', ds_Plural = ''dashboards''\<rparr>]"

definition note_push :: push_setup where
  "note_push = \<lparr>ps_lib = note_lib, ps_supported = note_descriptors,
     ps_request = \<lparr>pq_Resources = NewResources (note_dashboard # two_folders), pq_Processors = [NamespaceOverrider ''stack''],
       pq_MaxConcurrency = 0, pq_StopOnError = False, pq_DryRun = False, pq_IncludeManaged = False\<rparr>,
     ps_iteration = (\<lambda>n ks. ks), ps_order = (\<lambda>rs. rs)\<rparr>"

definition note_schedule :: "push_event list" where
  "note_schedule = [Begin 0, Got 0 Absent, Wrote 0 Accepted, Join, Begin 0, Got 0 (Existing ''7''), Wrote 0 (Rejected ''no''), Join,
     Begin 0, Got 0 Absent, Wrote 0 Accepted, Begin 1, Begin 2, Join]"

lemma note_fields:
  "ps_lib note_push = note_lib" "ps_supported note_push = note_descriptors" "pq_Processors (ps_request note_push) = [NamespaceOverrider ''stack'']"
  "pq_StopOnError (ps_request note_push) = False" "pq_DryRun (ps_request note_push) = False"
  "pq_IncludeManaged (ps_request note_push) = False" "limit note_push = 1"
  "pq_Resources (ps_request note_push) = NewResources (note_dashboard # two_folders)"
  "ps_iteration note_push = (\<lambda>n ks. ks)" "ps_order note_push = (\<lambda>rs. rs)" "pq_MaxConcurrency (ps_request note_push) = 0"
  by (simp_all add: note_push_def limit_def)

lemma note_resources: "AsList (NewResources (note_dashboard # two_folders)) = note_dashboard # two_folders"
  by (rule AsList_NewResources) (simp add: note_dashboard_def two_folders_def note_folder_def ResourceRef_def gvkString_def)

lemma note_kinds:
  "IsFolder note_lib (note_folder n p)" "\<not> IsFolder note_lib note_dashboard"
  "AsList (NewResources [note_folder n p]) = [note_folder n p]"
  by (simp_all add: IsFolder_def note_dashboard_def note_folder_def note_lib_def AsList_NewResources)

lemma note_folders: "collectFolders note_push = two_folders"
  by (simp add: collectFolders_def note_fields note_resources) (simp add: two_folders_def note_kinds)

lemma note_processed:
  "process [NamespaceOverrider ''stack''] (note_folder n p) = Inr ((note_folder n p)\<lparr>rs_Namespace := ''stack''\<rparr>)"
  "process [NamespaceOverrider ''stack''] note_dashboard = Inr (note_dashboard\<lparr>rs_Namespace := ''stack''\<rparr>)"
  "IsManaged note_lib ((note_folder n p)\<lparr>rs_Namespace := ''stack''\<rparr>)" "IsManaged note_lib (note_dashboard\<lparr>rs_Namespace := ''stack''\<rparr>)"
  by (simp_all add: process_def NamespaceOverrider_def note_folder_def note_dashboard_def IsManaged_def GetManagerKind_def note_lib_def)

lemma note_supported:
  "map_of (supportedDescriptors note_descriptors) (rs_GVK (note_folder n p)) = Some (note_descriptors ! 0)"
  "map_of (supportedDescriptors note_descriptors) (rs_GVK note_dashboard) = Some (note_descriptors ! 1)"
  by (simp_all add: supportedDescriptors_def note_descriptors_def descriptorGVK_def note_folder_def note_dashboard_def)

lemma note_runs:
  "\<exists>w0 w. pushFolders note_push = Some w0 \<and> runPush note_push note_schedule w0 = Some w \<and> pw_stage w = PushDone None \<and>
     os_successCount (pw_summary w) = 2 \<and> map fst (os_failures (pw_summary w)) = [Some (note_folder ''child'' ''top'')] \<and>
     map fst (pw_log w) = [note_folder ''top'' [], note_folder ''top'' [], note_folder ''child'' ''top'', note_folder ''child'' ''top'',
       note_dashboard, note_dashboard]"
proof -
  have three: "Len (NewResources (note_dashboard # two_folders)) = 3"
    using arg_cong [OF note_resources, of length] by (simp add: Len_def AsList_def two_folders_def)
  have all: "AsList (NewResources (note_dashboard # two_folders)) = [note_dashboard, note_folder ''child'' ''top'', note_folder ''top'' []]"
    unfolding note_resources by (simp add: two_folders_def)
  note defs = pushStep_def isDone_def taskAt_def inFlight_def pushSingleResource_def upsertResource_def finishUpsert_def
    failTask_def request_def setTask_def RecordSuccess_def RecordFailure_def nextStage_def startTasks_def emptyWorld_def emptySummary_def Let_def
  show ?thesis
    by (simp add: pushFolders_def note_folders note_fields two_folders_levels note_schedule_def defs note_kinds all three note_processed note_supported)
qed

lemma runPush_pushes: "runPush S evs w = Some w' \<Longrightarrow> pushes S n w \<Longrightarrow> \<exists>m. pushes S m w'"
proof (induction evs arbitrary: n w)
  case (Cons ev evs)
  then obtain w1 where "pushStep S ev w = Some w1" "runPush S evs w1 = Some w'" by (auto split: option.splits)
  then show ?case using Cons.IH pushes_step [OF Cons.prems(2)] by blast
qed auto

lemma note_pushed:
  obtains m w where "pushes note_push m w" "pw_stage w = PushDone None" "os_successCount (pw_summary w) = 2"
    "map fst (os_failures (pw_summary w)) = [Some (note_folder ''child'' ''top'')]"
    "map fst (pw_log w) = [note_folder ''top'' [], note_folder ''top'' [], note_folder ''child'' ''top'', note_folder ''child'' ''top'',
       note_dashboard, note_dashboard]"
  using note_runs
proof (elim exE conjE)
  fix w0 w
  assume "pushFolders note_push = Some w0" "runPush note_push note_schedule w0 = Some w"
  then obtain m where "pushes note_push m w" using runPush_pushes [OF _ pushes_start] by blast
  moreover assume "pw_stage w = PushDone None" "os_successCount (pw_summary w) = 2"
    "map fst (os_failures (pw_summary w)) = [Some (note_folder ''child'' ''top'')]"
    "map fst (pw_log w) = [note_folder ''top'' [], note_folder ''top'' [], note_folder ''child'' ''top'', note_folder ''child'' ''top'',
       note_dashboard, note_dashboard]"
  ultimately show thesis by (rule that)
qed

lemma note_proper: "proper_push note_push" "visits_all (ps_iteration note_push)" "\<forall>rs. mset (ps_order note_push rs) = mset rs"
proof -
  show v: "visits_all (ps_iteration note_push)" "\<forall>rs. mset (ps_order note_push rs) = mset rs"
    by (simp_all add: visits_all_def note_fields)
  have "filter (IsFolder note_lib) (note_dashboard # two_folders) = two_folders" by (simp add: two_folders_def note_kinds)
  then show "proper_push note_push"
    using v by (simp add: proper_push_def note_fields wf_NewResources note_resources) (simp add: two_folders_def note_folder_def)
qed

theorem folders_pushed_first_witness:
  "\<exists>m w. pushes note_push m w \<and> pw_log w ! 0 \<noteq> pw_log w ! 2 \<and>
     \<not> depends_on note_lib (fst (pw_log w ! 0)) (fst (pw_log w ! 2)) \<and> depends_on note_lib (fst (pw_log w ! 2)) (fst (pw_log w ! 0))"
proof -
  let ?log = "[note_folder ''top'' [], note_folder ''top'' [], note_folder ''child'' ''top'', note_folder ''child'' ''top'',
    note_dashboard, note_dashboard]"
  obtain m w where w: "pushes note_push m w" "map fst (pw_log w) = ?log" by (rule note_pushed)
  have len: "length (pw_log w) = 6" using arg_cong [OF w(2), of length] by simp
  have "map fst (pw_log w) ! 0 = ?log ! 0" "map fst (pw_log w) ! 2 = ?log ! 2" unfolding w(2) by (rule refl)+
  then have at: "fst (pw_log w ! 0) = note_folder ''top'' []" "fst (pw_log w ! 2) = note_folder ''child'' ''top''" using len by simp_all
  have "depends_on note_lib (note_folder ''child'' ''top'') (note_folder ''top'' [])"
    by (simp add: depends_on_def note_kinds) (simp add: GetFolder_def note_lib_def note_folder_def)
  moreover have "note_folder ''top'' [] \<noteq> note_folder ''child'' ''top''" by (simp add: note_folder_def)
  moreover have "\<not> depends_on note_lib (fst (pw_log w ! 0)) (fst (pw_log w ! 2))"
    using folders_pushed_first [OF note_proper(2) w(1)] len by (auto simp: note_fields)
  ultimately show ?thesis using w(1) at by metis
qed

theorem resources_accounted_witness:
  "\<exists>m w. pushes note_push m w \<and> os_successCount (pw_summary w) = 2 \<and> os_failedCount (pw_summary w) = 1 \<and>
     length (filter (\<lambda>r. \<not> skips note_push r) (note_dashboard # two_folders)) = 3"
proof -
  obtain m w where w: "pushes note_push m w" "pw_stage w = PushDone None" "os_successCount (pw_summary w) = 2"
    "map fst (os_failures (pw_summary w)) = [Some (note_folder ''child'' ''top'')]" by (rule note_pushed)
  have "length (os_failures (pw_summary w)) = 1" using arg_cong [OF w(4), of length] by simp
  then show ?thesis using resources_accounted [OF note_proper(1) w(1,2)] w(1,3)
    by (intro exI [of _ m] exI [of _ w]) (simp add: note_fields note_resources)
qed

theorem push_ends_witness:
  "\<exists>m w. pushes note_push m w \<and> m \<le> 22 \<and> isDone w \<and> inFlight w \<le> 1"
proof -
  obtain m w where w: "pushes note_push m w" "pw_stage w = PushDone None" by (rule note_pushed)
  have "Len (NewResources (note_dashboard # two_folders)) = 3"
    using arg_cong [OF note_resources, of length] by (simp add: Len_def AsList_def two_folders_def)
  then have "m \<le> 22" "inFlight w \<le> 1" using push_ends [OF note_proper(2,3) w(1)] by (simp_all add: note_fields)
  moreover have "isDone w" using w(2) by (simp add: isDone_def)
  ultimately show ?thesis using w(1) by blast
qed

end
