(* ===== verification/Serve_Guard.thy ===== *)
theory Serve_Guard
  imports Server_Url
begin

text \<open>
  The access guard of the dashboard server (\<^verbatim>\<open>internal/server/guard.go\<close>, \<^verbatim>\<open>address.go\<close>): which
  requests reach the proxy and the editor behind it.

  What the code uses of \<^verbatim>\<open>net/url\<close> on a query is written out (\<^verbatim>\<open>QueryUnescape\<close>, \<^verbatim>\<open>ParseQuery\<close>);
  \<^verbatim>\<open>url.Parse\<close> on an Origin header is \<open>parse_url\<close> of \<open>netlib\<close> and \<^verbatim>\<open>net.ParseIP\<close> the parameter
  \<open>parse_ip\<close>, which tells whether an address is unspecified and whether it is loopback. A header
  that is not set reads as the empty string, as \<^verbatim>\<open>Header.Get\<close> does. Texts of answers and log lines
  are not modelled.
\<close>

section \<open>Queries\<close>

definition fieldsFunc :: "(char \<Rightarrow> bool) \<Rightarrow> string \<Rightarrow> string list" where
  "fieldsFunc P s = filter (\<lambda>e. e \<noteq> []) (split_on P s)"

definition cutKey :: "string \<Rightarrow> string" where
  "cutKey piece = takeWhile (\<lambda>c. c \<noteq> CHR ''='') piece"

definition cutValue :: "string \<Rightarrow> string" where
  "cutValue piece = tl (dropWhile (\<lambda>c. c \<noteq> CHR ''='') piece)"

definition unhex :: "char \<Rightarrow> nat option" where
  "unhex c = (let n = of_char c :: nat in
     if 48 \<le> n \<and> n \<le> 57 then Some (n - 48)
     else if 97 \<le> n \<and> n \<le> 102 then Some (n - 87)
     else if 65 \<le> n \<and> n \<le> 70 then Some (n - 55) else None)"

fun queryUnescape :: "string \<Rightarrow> string option" where
  "queryUnescape [] = Some []"
| "queryUnescape (c # cs) =
     (if c = CHR ''%''
      then (case cs of
              a # b # rest \<Rightarrow>
                (case (unhex a, unhex b) of
                   (Some h, Some l) \<Rightarrow> map_option (\<lambda>s. char_of (16 * h + l) # s) (queryUnescape rest)
                 | _ \<Rightarrow> None)
            | _ \<Rightarrow> None)
      else map_option (\<lambda>s. (if c = CHR ''+'' then CHR '' '' else c) # s) (queryUnescape cs))"

text \<open>The values in the order of the query and whether some piece was not understood; a piece that was
  not is left out.\<close>

definition parsePiece :: "(string \<times> string) list \<times> bool \<Rightarrow> string \<Rightarrow> (string \<times> string) list \<times> bool" where
  "parsePiece s piece =
     (if CHR '';'' \<in> set piece then (fst s, True)
      else if piece = [] then s
      else case queryUnescape (cutKey piece) of None \<Rightarrow> (fst s, True)
      | Some key \<Rightarrow> (case queryUnescape (cutValue piece) of None \<Rightarrow> (fst s, True)
          | Some val \<Rightarrow> (fst s @ [(key, val)], snd s)))"

definition ParseQuery :: "string \<Rightarrow> (string \<times> string) list \<times> bool" where
  "ParseQuery query = foldl parsePiece ([], False) (split_on (\<lambda>c. c = CHR ''&'') query)"

definition valuesGet :: "(string \<times> string) list \<Rightarrow> string \<Rightarrow> string" where
  "valuesGet values key = (case map_of values key of None \<Rightarrow> [] | Some v \<Rightarrow> v)"

definition tokenQueryParam :: string where "tokenQueryParam = ''token''"
definition tokenCookiePrefix :: string where "tokenCookiePrefix = ''grafanapi_serve_''"
definition httpDefaultPort :: int where "httpDefaultPort = 80"

definition queryKey :: "string \<Rightarrow> string" where
  "queryKey piece = (case queryUnescape (cutKey piece) of None \<Rightarrow> cutKey piece | Some key \<Rightarrow> key)"

definition hasTokenParam :: "string \<Rightarrow> bool" where
  "hasTokenParam rawQuery \<longleftrightarrow>
     (\<exists>piece \<in> set (fieldsFunc (\<lambda>c. c = CHR ''&'' \<or> c = CHR '';'') rawQuery). queryKey piece = tokenQueryParam)"

section \<open>The guard\<close>

record guard =
  gd_hosts :: "string list"
  gd_token :: string
  gd_cookieName :: string

record serve_request =
  sq_Host :: string
  sq_Method :: string
  sq_RawQuery :: string
  sq_Cookies :: "(string \<times> string) list"
  sq_Origin :: string
  sq_SecFetchSite :: string

datatype serve_answer =
    Misdirected
  | Rejected
  | CrossOrigin
  | Redeemed string string string   \<comment> \<open>cookie name and value, location\<close>
  | Served

definition hostAllowed :: "guard \<Rightarrow> string \<Rightarrow> bool" where
  "hostAllowed g hostport \<longleftrightarrow> toLower hostport \<in> set (gd_hosts g)"

definition tokenValid :: "guard \<Rightarrow> string \<Rightarrow> bool" where
  "tokenValid g candidate \<longleftrightarrow> candidate = gd_token g"

definition authenticated :: "guard \<Rightarrow> serve_request \<Rightarrow> bool" where
  "authenticated g r \<longleftrightarrow>
     (case map_of (sq_Cookies r) (gd_cookieName g) of None \<Rightarrow> False | Some v \<Rightarrow> tokenValid g v)"

definition originAllowed :: "netlib \<Rightarrow> guard \<Rightarrow> serve_request \<Rightarrow> bool" where
  "originAllowed N g r \<longleftrightarrow>
     (if sq_SecFetchSite r \<noteq> [] \<and> sq_SecFetchSite r \<noteq> ''same-origin'' \<and> sq_SecFetchSite r \<noteq> ''none'' then False
      else if sq_Origin r = [] then True
      else case parse_url N (sq_Origin r) of None \<Rightarrow> False
      | Some o' \<Rightarrow> if u_Scheme o' \<noteq> ''http'' then False else hostAllowed g (u_Host o'))"

definition redeemQueryToken :: "guard \<Rightarrow> serve_request \<Rightarrow> serve_answer" where
  "redeemQueryToken g r =
     (case ParseQuery (sq_RawQuery r) of (values, failed) \<Rightarrow>
        if failed \<or> (sq_Method r \<noteq> ''GET'' \<and> sq_Method r \<noteq> ''HEAD'') \<or> \<not> tokenValid g (valuesGet values tokenQueryParam)
        then Rejected
        else Redeemed (gd_cookieName g) (gd_token g) ''/'')"

definition middleware :: "netlib \<Rightarrow> guard \<Rightarrow> serve_request \<Rightarrow> serve_answer" where
  "middleware N g r =
     (if \<not> hostAllowed g (sq_Host r) then Misdirected
      else if hasTokenParam (sq_RawQuery r) then redeemQueryToken g r
      else if \<not> authenticated g r then Rejected
      else if \<not> originAllowed N g r then CrossOrigin
      else Served)"

definition newGuard :: "string list \<Rightarrow> string \<Rightarrow> int \<Rightarrow> guard" where
  "newGuard hosts token port =
     \<lparr>gd_hosts = map toLower hosts, gd_token = token, gd_cookieName = tokenCookiePrefix @ show_int port\<rparr>"

section \<open>The hosts it names\<close>

datatype iface_addr = IPNet string bool | OtherAddr   \<comment> \<open>the address and whether it is link-local unicast\<close>

definition isWildcard :: "(string \<Rightarrow> (bool \<times> bool) option) \<Rightarrow> string \<Rightarrow> bool" where
  "isWildcard parse_ip host \<longleftrightarrow>
     host = [] \<or> (case parse_ip host of None \<Rightarrow> False | Some (unspecified, loopback) \<Rightarrow> unspecified)"

definition IsLoopbackAddress :: "(string \<Rightarrow> (bool \<times> bool) option) \<Rightarrow> string \<Rightarrow> bool" where
  "IsLoopbackAddress parse_ip address \<longleftrightarrow>
     equalFold address ''localhost'' \<or> (case parse_ip address of None \<Rightarrow> False | Some (unspecified, loopback) \<Rightarrow> loopback)"

definition loopbackNames :: "string list" where
  "loopbackNames = [''localhost'', ''127.0.0.1'', ''::1'']"

definition interfaceNames :: "iface_addr list \<Rightarrow> string list" where
  "interfaceNames addrs = concat (map (\<lambda>a. case a of IPNet ip linkLocal \<Rightarrow> if linkLocal then [] else [ip] | OtherAddr \<Rightarrow> []) addrs)"

definition addHost :: "string \<Rightarrow> string list \<Rightarrow> string list" where
  "addHost h hosts = (if toLower h \<in> set hosts then hosts else hosts @ [toLower h])"

definition addName :: "int \<Rightarrow> string list \<Rightarrow> string \<Rightarrow> string list" where
  "addName port hosts name =
     (let hosts' = addHost (joinHostPort name (show_int port)) hosts in
      if port = httpDefaultPort
      then addHost (if CHR '':'' \<in> set name then ''['' @ name @ '']'' else name) hosts'
      else hosts')"

definition allowedHosts ::
  "(string \<Rightarrow> (bool \<times> bool) option) \<Rightarrow> string \<Rightarrow> int \<Rightarrow> string + iface_addr list \<Rightarrow> string + string list" where
  "allowedHosts parse_ip listenHost port ifaceAddrs =
     bindR (if isWildcard parse_ip listenHost
            then bindR ifaceAddrs (\<lambda>addrs. Inr (loopbackNames @ interfaceNames addrs))
            else Inr (loopbackNames @ [listenHost]))
       (\<lambda>names. Inr (foldl (addName port) [] names))"

section \<open>Splitting\<close>

lemma split_on_finer: "split_on (\<lambda>c. P c \<or> Q c) s = concat (map (split_on Q) (split_on P s))"
proof (induction s)
  case (Cons c s)
  obtain e es where es: "split_on P s = e # es" by (cases "split_on P s") auto
  obtain f fs where fs: "split_on Q e = f # fs" by (cases "split_on Q e") auto
  show ?case using Cons.IH es fs by auto
qed simp

lemma piece_of_finer:
  assumes "piece \<in> set (split_on P s)" and "\<forall>c \<in> set piece. \<not> Q c"
  shows "piece \<in> set (split_on (\<lambda>c. P c \<or> Q c) s)"
  unfolding split_on_finer using assms split_on_none [OF assms(2)] by (auto intro!: bexI [of _ piece])

text \<open>Whatever the query parser finds under a key, the guard has seen a piece with that key.\<close>

lemma parsed_keys:
  assumes "(key, val) \<in> set (fst (ParseQuery query))"
  shows "\<exists>piece \<in> set (fieldsFunc (\<lambda>c. c = CHR ''&'' \<or> c = CHR '';'') query). queryKey piece = key"
proof -
  have "(key, val) \<in> set (fst s) \<or> (\<exists>piece \<in> set pieces. piece \<noteq> [] \<and> CHR '';'' \<notin> set piece \<and> queryKey piece = key)"
    if "(key, val) \<in> set (fst (foldl parsePiece s pieces))" for s pieces
    using that
  proof (induction pieces arbitrary: s)
    case (Cons piece pieces)
    from Cons.IH [of "parsePiece s piece"] Cons.prems
    consider "(key, val) \<in> set (fst (parsePiece s piece))"
      | "\<exists>p \<in> set pieces. p \<noteq> [] \<and> CHR '';'' \<notin> set p \<and> queryKey p = key" by auto
    then show ?case
    proof cases
      case 1
      then show ?thesis by (auto simp: parsePiece_def queryKey_def split: if_splits option.splits)
    qed auto
  qed simp
  then obtain piece where piece: "piece \<in> set (split_on (\<lambda>c. c = CHR ''&'') query)" "piece \<noteq> []"
    "CHR '';'' \<notin> set piece" "queryKey piece = key"
    using assms unfolding ParseQuery_def by fastforce
  then have "piece \<in> set (split_on (\<lambda>c. c = CHR ''&'' \<or> c = CHR '';'') query)"
    by (intro piece_of_finer) auto
  then show ?thesis using piece by (auto simp: fieldsFunc_def)
qed

lemma addHost_set: "set (addHost h hosts) = insert (toLower h) (set hosts)"
  by (auto simp: addHost_def)

lemma addNames_set:
  "h \<in> set (foldl (addName port) hosts names) \<longleftrightarrow> h \<in> set hosts \<or> (\<exists>name \<in> set names.
     h = toLower (joinHostPort name (show_int port)) \<or>
     port = httpDefaultPort \<and> h = toLower (if CHR '':'' \<in> set name then ''['' @ name @ '']'' else name))"
  by (induction names arbitrary: hosts) (auto simp: addName_def addHost_set Let_def)

section \<open>What reaches the server\<close>

definition guardedNames ::
  "(string \<Rightarrow> (bool \<times> bool) option) \<Rightarrow> string \<Rightarrow> string + iface_addr list \<Rightarrow> string set" where
  "guardedNames parse_ip listenHost ifaceAddrs = set loopbackNames \<union>
     (if isWildcard parse_ip listenHost then {ip. \<exists>addrs. ifaceAddrs = Inr addrs \<and> IPNet ip False \<in> set addrs} else {listenHost})"

lemma allowedHosts_named:
  assumes "allowedHosts parse_ip listenHost port ifaceAddrs = Inr hosts" and "h \<in> set hosts"
  shows "\<exists>name \<in> guardedNames parse_ip listenHost ifaceAddrs. h = toLower (joinHostPort name (show_int port)) \<or>
     port = 80 \<and> h = toLower (if CHR '':'' \<in> set name then ''['' @ name @ '']'' else name)"
proof (cases "isWildcard parse_ip listenHost")
  case True
  then obtain addrs where addrs: "ifaceAddrs = Inr addrs" and hosts: "hosts = foldl (addName port) [] (loopbackNames @ interfaceNames addrs)"
    using assms(1) by (cases ifaceAddrs) (auto simp: allowedHosts_def)
  have "set (interfaceNames addrs) \<subseteq> guardedNames parse_ip listenHost ifaceAddrs"
    using True addrs by (auto simp: interfaceNames_def guardedNames_def split: iface_addr.splits if_splits)
  moreover have "set loopbackNames \<subseteq> guardedNames parse_ip listenHost ifaceAddrs" by (simp add: guardedNames_def)
  ultimately show ?thesis using assms(2) unfolding hosts addNames_set by (auto simp: httpDefaultPort_def)
next
  case False
  then have hosts: "hosts = foldl (addName port) [] (loopbackNames @ [listenHost])" using assms(1) by (simp add: allowedHosts_def)
  have "set (loopbackNames @ [listenHost]) = guardedNames parse_ip listenHost ifaceAddrs" using False by (simp add: guardedNames_def)
  then show ?thesis using assms(2) unfolding hosts addNames_set httpDefaultPort_def by simp
qed

text \<open>C24: only requests for this server, with its token and from its own pages, reach what the guard
  protects: the Host names an address the server listens on, the cookie is the token, the fetch
  metadata and the Origin are the server's own, and the query holds no token however it is parsed, so
  that none is logged or forwarded; and a token is only ever exchanged for the cookie on a GET or HEAD
  that carries it, with a redirect to the root, and the cookie it sets is one the guard accepts.\<close>

theorem guard_protects:
  assumes hosts: "allowedHosts parse_ip listenHost port ifaceAddrs = Inr hosts" and g: "g = newGuard hosts token port"
    and answer: "middleware N g r = Served \<or> middleware N g r = Redeemed name val loc"
  shows "(\<exists>n \<in> guardedNames parse_ip listenHost ifaceAddrs. \<exists>h. toLower (sq_Host r) = toLower h \<and>
      (h = toLower (joinHostPort n (show_int port)) \<or>
       port = 80 \<and> h = toLower (if CHR '':'' \<in> set n then ''['' @ n @ '']'' else n))) \<and>
    (middleware N g r = Served \<longrightarrow>
       map_of (sq_Cookies r) (''grafanapi_serve_'' @ show_int port) = Some token \<and>
       sq_SecFetchSite r \<in> {[], ''same-origin'', ''none''} \<and>
       (sq_Origin r = [] \<or> (\<exists>u. parse_url N (sq_Origin r) = Some u \<and> u_Scheme u = ''http'' \<and> hostAllowed g (u_Host u))) \<and>
       (\<forall>key v. (key, v) \<in> set (fst (ParseQuery (sq_RawQuery r))) \<longrightarrow> key \<noteq> ''token'') \<and>
       (\<forall>piece \<in> set (split_on (\<lambda>c. c = CHR ''&'' \<or> c = CHR '';'') (sq_RawQuery r)). cutKey piece \<noteq> ''token'')) \<and>
    (middleware N g r = Redeemed name val loc \<longrightarrow>
       loc = ''/'' \<and> sq_Method r \<in> {''GET'', ''HEAD''} \<and> valuesGet (fst (ParseQuery (sq_RawQuery r))) ''token'' = token \<and>
       authenticated g (r\<lparr>sq_Cookies := [(name, val)]\<rparr>))"
proof -
  have host: "toLower (sq_Host r) \<in> set (map toLower hosts)"
    using answer by (auto simp: middleware_def hostAllowed_def g newGuard_def split: if_splits)
  then obtain h where h: "h \<in> set hosts" "toLower (sq_Host r) = toLower h" by auto
  have "\<exists>n \<in> guardedNames parse_ip listenHost ifaceAddrs. \<exists>h. toLower (sq_Host r) = toLower h \<and>
      (h = toLower (joinHostPort n (show_int port)) \<or>
       port = 80 \<and> h = toLower (if CHR '':'' \<in> set n then ''['' @ n @ '']'' else n))"
    using allowedHosts_named [OF hosts h(1)] h(2) by blast
  moreover have "middleware N g r = Served \<longrightarrow>
       map_of (sq_Cookies r) (''grafanapi_serve_'' @ show_int port) = Some token \<and>
       sq_SecFetchSite r \<in> {[], ''same-origin'', ''none''} \<and>
       (sq_Origin r = [] \<or> (\<exists>u. parse_url N (sq_Origin r) = Some u \<and> u_Scheme u = ''http'' \<and> hostAllowed g (u_Host u)))"
    by (auto simp: middleware_def redeemQueryToken_def authenticated_def tokenValid_def originAllowed_def g newGuard_def
        tokenCookiePrefix_def split: if_splits option.splits prod.splits)
  moreover have "\<forall>piece \<in> set (split_on (\<lambda>c. c = CHR ''&'' \<or> c = CHR '';'') (sq_RawQuery r)). cutKey piece \<noteq> ''token''"
    if "middleware N g r = Served"
  proof
    fix piece assume p: "piece \<in> set (split_on (\<lambda>c. c = CHR ''&'' \<or> c = CHR '';'') (sq_RawQuery r))"
    have "\<not> hasTokenParam (sq_RawQuery r)"
      using that by (auto simp: middleware_def redeemQueryToken_def split: if_splits prod.splits)
    then have "piece = [] \<or> queryKey piece \<noteq> ''token''" using p by (auto simp: hasTokenParam_def fieldsFunc_def tokenQueryParam_def)
    moreover have "queryKey piece = ''token''" if "cutKey piece = ''token''" by (simp add: queryKey_def that)
    ultimately show "cutKey piece \<noteq> ''token''" by (auto simp: cutKey_def)
  qed
  moreover have "key \<noteq> ''token''" if "middleware N g r = Served" "(key, v) \<in> set (fst (ParseQuery (sq_RawQuery r)))" for key v
  proof -
    have "\<not> hasTokenParam (sq_RawQuery r)"
      using that(1) by (auto simp: middleware_def redeemQueryToken_def split: if_splits prod.splits)
    then show ?thesis using parsed_keys [OF that(2)] by (auto simp: hasTokenParam_def tokenQueryParam_def)
  qed
  moreover have "middleware N g r = Redeemed name val loc \<longrightarrow>
       loc = ''/'' \<and> sq_Method r \<in> {''GET'', ''HEAD''} \<and> valuesGet (fst (ParseQuery (sq_RawQuery r))) ''token'' = token \<and>
       authenticated g (r\<lparr>sq_Cookies := [(name, val)]\<rparr>)"
    by (auto simp: middleware_def redeemQueryToken_def authenticated_def tokenValid_def g newGuard_def tokenQueryParam_def
        split: if_splits prod.splits)
  ultimately show ?thesis by blast
qed

section \<open>A server on the loopback interface\<close>

definition page_request :: serve_request where
  "page_request = \<lparr>sq_Host = ''LOCALHOST:8080'', sq_Method = ''GET'', sq_RawQuery = ''a=b;c'',
     sq_Cookies = [(''other'', ''x''), (''grafanapi_serve_8080'', ''s3'')], sq_Origin = [], sq_SecFetchSite = ''same-origin''\<rparr>"

definition smuggled_request :: serve_request where
  "smuggled_request = page_request\<lparr>sq_RawQuery := ''a=b;%74oken=s3''\<rparr>"

lemma port_8080: "show_int 8080 = ''8080''"
  by (simp add: show_int_def show_nat.simps [of 8080] show_nat.simps [of 808] show_nat.simps [of 80] show_nat.simps [of 8] digit_char_def char_of_def bit_0)

lemma guarded_names:
  "toLower ''localhost:8080'' = ''localhost:8080''" "toLower ''127.0.0.1:8080'' = ''127.0.0.1:8080''"
  "toLower ''[::1]:8080'' = ''[::1]:8080''" "toLower ''LOCALHOST:8080'' = ''localhost:8080''"
  by (simp_all del: toLower.simps(3) add: toLower_ascii lower_char_def char_of_def bit_0)

lemma guard_samples:
  "allowedHosts (\<lambda>s. None) ''127.0.0.1'' 8080 (Inl ''no interfaces'') = Inr [''localhost:8080'', ''127.0.0.1:8080'', ''[::1]:8080'']"
  "middleware N (newGuard [''localhost:8080'', ''127.0.0.1:8080'', ''[::1]:8080''] ''s3'' 8080) page_request = Served"
  "middleware N (newGuard [''localhost:8080'', ''127.0.0.1:8080'', ''[::1]:8080''] ''s3'' 8080) smuggled_request = Rejected"
proof -
  show "allowedHosts (\<lambda>s. None) ''127.0.0.1'' 8080 (Inl ''no interfaces'') = Inr [''localhost:8080'', ''127.0.0.1:8080'', ''[::1]:8080'']"
    by (simp del: toLower.simps add: allowedHosts_def isWildcard_def loopbackNames_def addName_def addHost_def httpDefaultPort_def
        joinHostPort_def port_8080 guarded_names)
  show "middleware N (newGuard [''localhost:8080'', ''127.0.0.1:8080'', ''[::1]:8080''] ''s3'' 8080) page_request = Served"
    by (simp del: toLower.simps add: middleware_def newGuard_def page_request_def hostAllowed_def guarded_names hasTokenParam_def
        fieldsFunc_def queryKey_def cutKey_def tokenQueryParam_def authenticated_def tokenCookiePrefix_def port_8080 tokenValid_def originAllowed_def)
  show "middleware N (newGuard [''localhost:8080'', ''127.0.0.1:8080'', ''[::1]:8080''] ''s3'' 8080) smuggled_request = Rejected"
    by (simp del: toLower.simps add: middleware_def newGuard_def page_request_def smuggled_request_def hostAllowed_def guarded_names
        hasTokenParam_def fieldsFunc_def queryKey_def cutKey_def tokenQueryParam_def unhex_def redeemQueryToken_def ParseQuery_def parsePiece_def char_of_def bit_0)
qed

definition no_net :: netlib where
  "no_net = \<lparr>parse_url = \<lambda>s. None, parse_addr = \<lambda>s. None\<rparr>"

theorem guard_protects_witness:
  "middleware no_net (newGuard [''localhost:8080'', ''127.0.0.1:8080'', ''[::1]:8080''] ''s3'' 8080) page_request = Served \<and>
     map_of (sq_Cookies page_request) ''grafanapi_serve_8080'' = Some ''s3''"
proof -
  have "map_of (sq_Cookies page_request) (''grafanapi_serve_'' @ show_int 8080) = Some ''s3''"
    using guard_protects [OF guard_samples(1) refl disjI1, where token = "''s3''" and N = no_net and r = page_request] guard_samples(2) by blast
  then show ?thesis using guard_samples(2) by (simp add: port_8080)
qed

end
