(* ===== verification/Yaml_Redaction.thy ===== *)
theory Yaml_Redaction
  imports Go_Strings
begin

text \<open>
  Hiding secrets in a YAML text that is shown with an error (\<^verbatim>\<open>internal/secrets/yaml.go\<close>).

  The text is scanned line by line; a line is what stands between two line feeds, and its visible part
  leaves out a carriage return at the end. The names of the secret keys, which the code collects from
  the tags of the configuration types by reflection, are the argument \<open>denylist\<close>.
\<close>

section \<open>Lines\<close>

definition isBlank :: "char \<Rightarrow> bool" where
  "isBlank c \<longleftrightarrow> c = CHR '' '' \<or> c = CHR 0x09"

definition isYAMLKeyByte :: "char \<Rightarrow> bool" where
  "isYAMLKeyByte c \<longleftrightarrow> (let n = of_char c :: nat in
     (97 \<le> n \<and> n \<le> 122) \<or> (65 \<le> n \<and> n \<le> 90) \<or> (48 \<le> n \<and> n \<le> 57) \<or> c = CHR ''_'' \<or> c = CHR ''-'')"

definition redacted :: string where "redacted = ''**REDACTED**''"

definition redactFill :: "nat \<Rightarrow> string" where
  "redactFill n = (if n \<ge> length redacted then redacted @ replicate (n - length redacted) (CHR '' '') else take n redacted)"

definition isBlockMarker :: "string \<Rightarrow> bool" where
  "isBlockMarker b \<longleftrightarrow> b \<noteq> [] \<and> (hd b = CHR ''|'' \<or> hd b = CHR ''>'') \<and>
     (let rest = dropWhile isBlank (dropWhile (\<lambda>c. c = CHR ''-'' \<or> c = CHR ''+'' \<or> is_digit_char c) (tl b))
      in rest = [] \<or> hd rest = CHR ''#'')"

definition yamlKeyName :: "string \<Rightarrow> string \<Rightarrow> string" where
  "yamlKeyName fieldName yamlTag =
     (let name = takeWhile (\<lambda>c. c \<noteq> CHR '','') yamlTag in if name = [] then toLower fieldName else name)"

datatype scan = Normal | InBlock nat   \<comment> \<open>the column of the key that opened the block\<close>

text \<open>The length of an optional list item prefix.\<close>

definition dashPrefix :: "string \<Rightarrow> nat" where
  "dashPrefix s =
     (if length s \<ge> 2 \<and> s ! 0 = CHR ''-'' \<and> s ! 1 = CHR '' ''
      then 2 + length (takeWhile isBlank (drop 2 s)) else 0)"

definition tryRedactKey :: "string set \<Rightarrow> string \<Rightarrow> string \<times> scan" where
  "tryRedactKey denylist vis =
     (let p = length (takeWhile isBlank vis) in
      if p \<ge> length vis \<or> vis ! p = CHR ''#'' then (vis, Normal)
      else
        let keyStart = p + dashPrefix (drop p vis);
            key = takeWhile isYAMLKeyByte (drop keyStart vis);
            sepPos = keyStart + length key
        in if sepPos \<ge> length vis then (vis, Normal)
           else if key \<notin> denylist then (vis, Normal)
           else if vis ! sepPos \<noteq> CHR '':'' then (take sepPos vis @ redactFill (length vis - sepPos), Normal)
           else if sepPos + 1 < length vis \<and> \<not> isBlank (vis ! (sepPos + 1)) \<and> vis ! (sepPos + 1) \<noteq> CHR ''#'' then (vis, Normal)
           else
             let valPos = sepPos + 1 + length (takeWhile isBlank (drop (sepPos + 1) vis)) in
             if valPos \<ge> length vis \<or> vis ! valPos = CHR ''#'' then (vis, Normal)
             else if isBlockMarker (drop valPos vis) then (vis, InBlock keyStart)
             else (take valPos vis @ redactFill (length vis - valPos), Normal))"

definition visible :: "string \<Rightarrow> string" where
  "visible line = (if line \<noteq> [] \<and> last line = CHR 0x0D then butlast line else line)"

definition lineTail :: "string \<Rightarrow> string" where
  "lineTail line = drop (length (visible line)) line"

definition redactVisible :: "string set \<Rightarrow> scan \<Rightarrow> string \<Rightarrow> string \<times> scan" where
  "redactVisible denylist st vis =
     (case st of
        Normal \<Rightarrow> tryRedactKey denylist vis
      | InBlock blockKeyIndent \<Rightarrow>
          let li = length (takeWhile isBlank vis) in
          if li = length vis then (vis, st)
          else if li > blockKeyIndent then (take li vis @ redactFill (length vis - li), st)
          else tryRedactKey denylist vis)"

fun redactInPlace :: "string set \<Rightarrow> scan \<Rightarrow> string list \<Rightarrow> string list" where
  "redactInPlace denylist st [] = []"
| "redactInPlace denylist st (line # lines) =
     (case redactVisible denylist st (visible line) of
        (vis, st') \<Rightarrow> (vis @ lineTail line) # redactInPlace denylist st' lines)"

fun join_lines :: "string list \<Rightarrow> string" where
  "join_lines [] = []"
| "join_lines [l] = l"
| "join_lines (l # ls) = l @ CHR 0x0A # join_lines ls"

definition RedactYAMLSecrets :: "string set \<Rightarrow> string \<Rightarrow> string" where
  "RedactYAMLSecrets denylist contents =
     (if contents = [] \<or> denylist = {} then contents
      else join_lines (redactInPlace denylist Normal (split_on (\<lambda>c. c = CHR 0x0A) contents)))"

section \<open>Lengths\<close>

lemma length_redactFill [simp]: "length (redactFill n) = n"
  by (simp add: redactFill_def)

lemma length_takeWhile_blank: "length (takeWhile isBlank s) \<le> length s"
  by (rule length_takeWhile_le)

lemma length_tryRedactKey: "length (fst (tryRedactKey denylist vis)) = length vis"
proof -
  have cut: "a < length vis \<Longrightarrow> length (take a vis @ redactFill (length vis - a)) = length vis" for a by simp
  show ?thesis unfolding tryRedactKey_def Let_def by (simp only: split: if_split) (auto simp only: cut fst_conv not_le split: if_splits)
qed

lemma length_redactVisible: "length (fst (redactVisible denylist st vis)) = length vis"
  using length_takeWhile_blank [of vis]
  by (cases st) (auto simp: redactVisible_def length_tryRedactKey Let_def)

lemma visible_tail: "visible line @ lineTail line = line"
  by (cases line rule: rev_cases) (simp_all add: visible_def lineTail_def)

lemma redactInPlace_lengths: "map length (redactInPlace denylist st lines) = map length lines"
proof (induction lines arbitrary: st)
  case (Cons line lines)
  obtain vis st' where v: "redactVisible denylist st (visible line) = (vis, st')" by (cases "redactVisible denylist st (visible line)")
  have "length vis = length (visible line)" using length_redactVisible [of denylist st "visible line"] v by simp
  then have "length (vis @ lineTail line) = length line" using arg_cong [OF visible_tail [of line], of length] by simp
  then show ?case using v Cons.IH [of st'] by simp
qed simp

lemma join_split: "join_lines (split_on (\<lambda>c. c = CHR 0x0A) s) = s"
proof (induction s)
  case (Cons c s)
  then show ?case by (cases "split_on (\<lambda>c. c = CHR 0x0A) s"; cases "tl (split_on (\<lambda>c. c = CHR 0x0A) s)") auto
qed simp

lemma length_join: "length (join_lines ls) = sum_list (map length ls) + (length ls - 1)"
  by (induction ls rule: join_lines.induct) auto

lemma split_join:
  "ls \<noteq> [] \<Longrightarrow> \<forall>l \<in> set ls. CHR 0x0A \<notin> set l \<Longrightarrow> split_on (\<lambda>c. c = CHR 0x0A) (join_lines ls) = ls"
proof (induction ls rule: join_lines.induct)
  case (3 l l' ls)
  have "CHR 0x0A \<notin> set l \<Longrightarrow> split_on (\<lambda>c. c = CHR 0x0A) (l @ CHR 0x0A # s) = l # split_on (\<lambda>c. c = CHR 0x0A) s" for s
    by (induction l) auto
  then show ?case using 3 by simp
qed (auto intro: split_on_none)

section \<open>What is recognised\<close>

text \<open>The start of a line with a secret key: white space, perhaps a list dash, and the key, which starts
  in column \<open>col\<close>.\<close>

definition secretKey :: "string set \<Rightarrow> string \<Rightarrow> nat \<Rightarrow> bool" where
  "secretKey denylist pre col \<longleftrightarrow> (\<exists>ws dash k. pre = ws @ dash @ k \<and> col = length (ws @ dash) \<and> list_all isBlank ws \<and>
     (dash = [] \<or> (\<exists>ws2. dash = ''- '' @ ws2 \<and> list_all isBlank ws2)) \<and>
     k \<in> denylist \<and> k \<noteq> [] \<and> hd k \<noteq> CHR ''-'' \<and> list_all isYAMLKeyByte k)"

lemma takeWhile_blank: "list_all isBlank ws \<Longrightarrow> t = [] \<or> \<not> isBlank (hd t) \<Longrightarrow> takeWhile isBlank (ws @ t) = ws"
  by (induction ws) (auto simp: takeWhile_eq_Nil_iff)

lemma key_byte_facts:
  assumes "isYAMLKeyByte c"
  shows "\<not> isBlank c" "c \<noteq> CHR ''#''" "c \<noteq> CHR '':''"
  using assms by (auto simp: isYAMLKeyByte_def isBlank_def)

lemma secretKey_parts:
  assumes "secretKey denylist pre col"
  obtains ws k where "length ws \<le> col" "pre = take col pre @ k" "length (take col pre) = col" "k \<in> denylist" "k \<noteq> []" "list_all isYAMLKeyByte k"
    "\<And>rest. takeWhile isBlank (pre @ rest) = ws" "\<And>rest. (pre @ rest) ! length ws \<noteq> CHR ''#''" "length ws < length pre"
    "\<And>rest. length ws + dashPrefix (drop (length ws) (pre @ rest)) = col"
proof -
  obtain ws dash k where pre: "pre = ws @ dash @ k" "col = length (ws @ dash)" "list_all isBlank ws"
    and dash: "dash = [] \<or> (\<exists>ws2. dash = ''- '' @ ws2 \<and> list_all isBlank ws2)"
    and k: "k \<in> denylist" "k \<noteq> []" "hd k \<noteq> CHR ''-''" "list_all isYAMLKeyByte k"
    using assms by (auto simp: secretKey_def)
  obtain c k' where c: "k = c # k'" "isYAMLKeyByte c" "c \<noteq> CHR ''-''" using k by (cases k) auto
  have head: "dash @ k @ rest \<noteq> []" "\<not> isBlank (hd (dash @ k @ rest))" "hd (dash @ k @ rest) \<noteq> CHR ''#''" for rest
    using dash c key_byte_facts [OF c(2)] by (auto simp: isBlank_def)
  have "takeWhile isBlank (pre @ rest) = ws" for rest
    using takeWhile_blank [OF pre(3), of "dash @ k @ rest"] head [of rest] pre(1) by simp
  moreover have "(pre @ rest) ! length ws \<noteq> CHR ''#''" for rest
    using head [of rest] pre(1) by (simp add: nth_append hd_conv_nth)
  moreover have "length ws + dashPrefix (drop (length ws) (pre @ rest)) = col" for rest
    using dash
  proof
    assume "dash = []"
    then show ?thesis using pre c by (simp add: dashPrefix_def)
  next
    assume "\<exists>ws2. dash = ''- '' @ ws2 \<and> list_all isBlank ws2"
    then obtain ws2 where "dash = ''- '' @ ws2" "list_all isBlank ws2" by blast
    moreover have "takeWhile isBlank (ws2 @ k @ rest) = ws2"
      using calculation(2) c key_byte_facts(1) [OF c(2)] by (intro takeWhile_blank) auto
    ultimately show ?thesis using pre by (simp add: dashPrefix_def)
  qed
  ultimately show thesis using pre k by (intro that [of ws k]) auto
qed

text \<open>A secret key followed by something that does not go on the key.\<close>

lemma tryRedactKey_at:
  assumes pre: "secretKey denylist pre col" and rest: "rest \<noteq> []" "\<not> isYAMLKeyByte (hd rest)"
  shows "tryRedactKey denylist (pre @ rest) =
    (if hd rest \<noteq> CHR '':'' then (pre @ redactFill (length rest), Normal)
     else if tl rest \<noteq> [] \<and> \<not> isBlank (hd (tl rest)) \<and> hd (tl rest) \<noteq> CHR ''#'' then (pre @ rest, Normal)
     else let val = dropWhile isBlank (tl rest) in
       if val = [] \<or> hd val = CHR ''#'' then (pre @ rest, Normal)
       else if isBlockMarker val then (pre @ rest, InBlock col)
       else (take (length (pre @ rest) - length val) (pre @ rest) @ redactFill (length val), Normal))"
proof -
  obtain ws k where p: "length ws \<le> col" "pre = take col pre @ k" "length (take col pre) = col" "k \<in> denylist" "k \<noteq> []" "list_all isYAMLKeyByte k"
    "\<And>rest. takeWhile isBlank (pre @ rest) = ws" "\<And>rest. (pre @ rest) ! length ws \<noteq> CHR ''#''" "length ws < length pre"
    "\<And>rest. length ws + dashPrefix (drop (length ws) (pre @ rest)) = col"
    by (rule secretKey_parts [OF pre]) blast
  define vis where "vis = pre @ rest"
  have "drop col vis = k @ rest" unfolding vis_def using p(2,3) by (metis append_assoc append_eq_conv_conj)
  moreover have "takeWhile isYAMLKeyByte (k @ rest) = k"
    using p(6) rest by (subst takeWhile_append2) (auto simp: list_all_iff takeWhile_eq_Nil_iff)
  ultimately have key: "takeWhile isYAMLKeyByte (drop col vis) = k" by simp
  have sep: "col + length k = length pre" using p(2,3) by (metis length_append)
  obtain c cs where r: "rest = c # cs" using rest(1) by (cases rest) auto
  define t where "t = takeWhile isBlank cs"
  define d where "d = dropWhile isBlank cs"
  have cs: "cs = t @ d" by (simp add: t_def d_def)
  have val: "(length vis \<le> length pre + 1 + length t) = (d = [])" "d \<noteq> [] \<Longrightarrow> vis ! (length pre + 1 + length t) = hd d"
    "drop (length pre + 1 + length t) vis = d" "length vis - (length pre + 1 + length t) = length d"
    "take (length pre + 1 + length t) vis = take (length vis - length d) vis"
    by (auto simp: vis_def r cs nth_append hd_conv_nth)
  have two: "(length pre + 1 < length vis) = (cs \<noteq> [])" "cs \<noteq> [] \<Longrightarrow> vis ! (length pre + 1) = hd cs" "vis ! length pre = c"
    "drop (length pre + 1) vis = cs" "take (length pre) vis = pre" "length vis - length pre = length rest"
    by (auto simp: vis_def r nth_append hd_conv_nth)
  have long: "(length vis \<le> length ws) = False" "(length vis \<le> length pre) = False" using p(9) by (auto simp: vis_def r)
  have start: "takeWhile isBlank vis = ws" "(vis ! length ws = CHR ''#'') = False" "length ws + dashPrefix (drop (length ws) vis) = col"
    "(k \<notin> denylist) = False"
    using p(4,7,8,10) by (simp_all add: vis_def)
  have more: "hd rest = c" "tl rest = cs" by (simp_all add: r)
  show ?thesis
    unfolding vis_def [symmetric] more tryRedactKey_def Let_def start key sep long two t_def [symmetric] d_def [symmetric] if_False disj_not1
    by (cases "c = CHR '':''"; cases "cs = []"; cases "d = []") (auto simp del: One_nat_def add_Suc_right simp: val two(2))
qed

section \<open>What is hidden\<close>

text \<open>A value on the line of its key, and the text of a line inside a block.\<close>

definition inlineValue :: "string \<Rightarrow> bool" where
  "inlineValue v \<longleftrightarrow> v \<noteq> [] \<and> \<not> isBlank (hd v) \<and> hd v \<noteq> CHR ''#'' \<and> \<not> isBlockMarker v \<and> last v \<noteq> CHR 0x0D"

definition lineEnd :: "string \<Rightarrow> bool" where
  "lineEnd cr \<longleftrightarrow> cr = [] \<or> cr = [CHR 0x0D]"

definition blockLines :: "nat \<Rightarrow> string \<Rightarrow> string \<Rightarrow> bool" where
  "blockLines col b b' \<longleftrightarrow> b = b' \<and> list_all isBlank (visible b) \<or>
     (\<exists>ws t t' cr. b = ws @ t @ cr \<and> b' = ws @ t' @ cr \<and> list_all isBlank ws \<and> col < length ws \<and> lineEnd cr \<and>
        length t = length t' \<and> t \<noteq> [] \<and> \<not> isBlank (hd t) \<and> \<not> isBlank (hd t') \<and> last t \<noteq> CHR 0x0D \<and> last t' \<noteq> CHR 0x0D)"

text \<open>Two texts that differ in secrets of the same lengths only: values of secret keys on their line,
  after a mistyped separator, or in the block below the key.\<close>

inductive hidden :: "string set \<Rightarrow> string list \<Rightarrow> string list \<Rightarrow> bool" for denylist where
  hidden_nil: "hidden denylist [] []"
| hidden_same: "hidden denylist ls ls' \<Longrightarrow> hidden denylist (l # ls) (l # ls')"
| hidden_inline: "hidden denylist ls ls' \<Longrightarrow> secretKey denylist pre col \<Longrightarrow> list_all isBlank gap \<Longrightarrow> gap \<noteq> [] \<Longrightarrow>
    inlineValue v \<Longrightarrow> inlineValue v' \<Longrightarrow> length v = length v' \<Longrightarrow> lineEnd cr \<Longrightarrow>
    hidden denylist ((pre @ '':'' @ gap @ v @ cr) # ls) ((pre @ '':'' @ gap @ v' @ cr) # ls')"
| hidden_typo: "hidden denylist ls ls' \<Longrightarrow> secretKey denylist pre col \<Longrightarrow> \<not> isYAMLKeyByte c \<Longrightarrow> c \<noteq> CHR '':'' \<Longrightarrow>
    \<not> isYAMLKeyByte c' \<Longrightarrow> c' \<noteq> CHR '':'' \<Longrightarrow> length v = length v' \<Longrightarrow> lineEnd cr \<Longrightarrow>
    last (c # v) \<noteq> CHR 0x0D \<Longrightarrow> last (c' # v') \<noteq> CHR 0x0D \<Longrightarrow>
    hidden denylist ((pre @ (c # v) @ cr) # ls) ((pre @ (c' # v') @ cr) # ls')"
| hidden_block: "hidden denylist ls ls' \<Longrightarrow> secretKey denylist pre col \<Longrightarrow> list_all isBlank gap \<Longrightarrow> gap \<noteq> [] \<Longrightarrow>
    isBlockMarker m \<Longrightarrow> last m \<noteq> CHR 0x0D \<Longrightarrow> lineEnd cr \<Longrightarrow> list_all2 (blockLines col) bs bs' \<Longrightarrow>
    hidden denylist ((pre @ '':'' @ gap @ m @ cr) # bs @ ls) ((pre @ '':'' @ gap @ m @ cr) # bs' @ ls')"

lemma visible_append:
  assumes "lineEnd cr" and "t \<noteq> []" and "last t \<noteq> CHR 0x0D"
  shows "visible (s @ t @ cr) = s @ t" and "lineTail (s @ t @ cr) = cr"
proof -
  show v: "visible (s @ t @ cr) = s @ t" using assms by (auto simp: visible_def lineEnd_def butlast_append)
  show "lineTail (s @ t @ cr) = cr" by (simp add: lineTail_def v)
qed

text \<open>Two lines on which the scan does the same.\<close>

lemma same_scan:
  assumes "redactVisible denylist st (visible l) = redactVisible denylist st (visible l')" and "lineTail l = lineTail l'"
    and "\<And>st. redactInPlace denylist st ls = redactInPlace denylist st ls'"
  shows "redactInPlace denylist st (l # ls) = redactInPlace denylist st (l' # ls')"
  using assms by simp

lemma redactVisible_same:
  assumes "tryRedactKey denylist (pre @ rest) = tryRedactKey denylist (pre @ rest')" and "secretKey denylist pre col"
    and "length rest = length rest'"
  shows "redactVisible denylist st (pre @ rest) = redactVisible denylist st (pre @ rest')"
proof (cases st)
  case (InBlock i)
  obtain ws where ws: "\<And>rest. takeWhile isBlank (pre @ rest) = ws" "length ws < length pre"
    by (rule secretKey_parts [OF assms(2)]) blast
  then show ?thesis using assms(1,3) by (simp add: InBlock redactVisible_def Let_def)
qed (simp add: redactVisible_def assms(1))

lemma colon_rest:
  assumes "secretKey denylist pre col" and "list_all isBlank gap" and "gap \<noteq> []" and "v \<noteq> []" and "\<not> isBlank (hd v)" and "hd v \<noteq> CHR ''#''"
  shows "tryRedactKey denylist (pre @ '':'' @ gap @ v) =
    (if isBlockMarker v then (pre @ '':'' @ gap @ v, InBlock col) else (pre @ '':'' @ gap @ redactFill (length v), Normal))"
proof -
  have "\<not> isYAMLKeyByte (CHR '':'')" using key_byte_facts(3) by blast
  then have c: "'':'' @ gap @ v \<noteq> []" "\<not> isYAMLKeyByte (hd ('':'' @ gap @ v))" by simp_all
  have "dropWhile isBlank (gap @ v) = v" using assms(2,4,5) by (subst dropWhile_append2) (auto simp: list_all_iff dropWhile_eq_self_iff)
  moreover have "isBlank (hd gap)" using assms(2,3) by (cases gap) auto
  ultimately show ?thesis using tryRedactKey_at [OF assms(1) c] assms(3-6) by simp
qed

lemma blockLines_scan:
  assumes "blockLines col b b'" and "i \<le> col"
  shows "redactVisible denylist (InBlock i) (visible b) = redactVisible denylist (InBlock i) (visible b')"
    and "lineTail b = lineTail b'" and "snd (redactVisible denylist (InBlock i) (visible b)) = InBlock i"
proof -
  have "redactVisible denylist (InBlock i) (visible b) = redactVisible denylist (InBlock i) (visible b') \<and> lineTail b = lineTail b' \<and>
      snd (redactVisible denylist (InBlock i) (visible b)) = InBlock i"
    using assms(1) unfolding blockLines_def
  proof (elim disjE conjE exE)
    assume "b = b'" "list_all isBlank (visible b)"
    then have tw: "takeWhile isBlank (visible b) = visible b" by (simp add: takeWhile_eq_all_conv list_all_iff)
    have "redactVisible denylist (InBlock i) (visible b) = (visible b, InBlock i)" by (simp add: redactVisible_def Let_def tw)
    then show ?thesis using \<open>b = b'\<close> by simp
  next
    fix ws t t' cr
    assume b: "b = ws @ t @ cr" "b' = ws @ t' @ cr" "list_all isBlank ws" "col < length ws" "lineEnd cr" "length t = length t'" "t \<noteq> []"
      "\<not> isBlank (hd t)" "\<not> isBlank (hd t')" "last t \<noteq> CHR 0x0D" "last t' \<noteq> CHR 0x0D"
    moreover have "t' \<noteq> []" using b(6,7) by auto
    ultimately show ?thesis using assms(2)
      by (simp add: visible_append redactVisible_def takeWhile_blank)
  qed
  then show "redactVisible denylist (InBlock i) (visible b) = redactVisible denylist (InBlock i) (visible b')"
    "lineTail b = lineTail b'" "snd (redactVisible denylist (InBlock i) (visible b)) = InBlock i" by auto
qed

lemma block_scan:
  assumes "list_all2 (blockLines col) bs bs'" and "i \<le> col"
    and "redactInPlace denylist (InBlock i) ls = redactInPlace denylist (InBlock i) ls'"
  shows "redactInPlace denylist (InBlock i) (bs @ ls) = redactInPlace denylist (InBlock i) (bs' @ ls')"
  using assms(1)
proof (induction rule: list_all2_induct)
  case (Cons b bs b' bs')
  note b = blockLines_scan(1) [OF Cons(1) assms(2), of denylist] blockLines_scan(2) [OF Cons(1) assms(2)]
    blockLines_scan(3) [OF Cons(1) assms(2), of denylist]
  obtain vis where vis: "redactVisible denylist (InBlock i) (visible b) = (vis, InBlock i)"
    using b(3) by (metis prod.collapse)
  then show ?case using b(1,2) Cons.IH by simp
qed (simp add: assms(3))

lemma hidden_scan: "hidden denylist ls ls' \<Longrightarrow> redactInPlace denylist st ls = redactInPlace denylist st ls'"
proof (induction arbitrary: st rule: hidden.induct)
  case (hidden_same ls ls' l)
  then show ?case by (auto split: prod.splits)
next
  case (hidden_inline ls ls' pre col gap v v' cr)
  have v: "v \<noteq> []" "\<not> isBlank (hd v)" "hd v \<noteq> CHR ''#''" "\<not> isBlockMarker v" "last v \<noteq> CHR 0x0D"
    "v' \<noteq> []" "\<not> isBlank (hd v')" "hd v' \<noteq> CHR ''#''" "\<not> isBlockMarker v'" "last v' \<noteq> CHR 0x0D"
    using hidden_inline.hyps(5,6) by (simp_all add: inlineValue_def)
  have "tryRedactKey denylist (pre @ '':'' @ gap @ v) = tryRedactKey denylist (pre @ '':'' @ gap @ v')"
    using colon_rest [OF hidden_inline.hyps(2-4) v(1-3)] colon_rest [OF hidden_inline.hyps(2-4) v(6-8)] v(4,9) hidden_inline.hyps(7) by simp
  note same = redactVisible_same [OF this hidden_inline.hyps(2)]
  have "redactVisible denylist st (pre @ '':'' @ gap @ v) = redactVisible denylist st (pre @ '':'' @ gap @ v')"
    using hidden_inline.hyps(7) by (intro same) simp
  moreover note visible_append [OF hidden_inline.hyps(8) v(1,5), of "pre @ '':'' @ gap"] visible_append [OF hidden_inline.hyps(8) v(6,10), of "pre @ '':'' @ gap"]
  ultimately show ?case by (intro same_scan hidden_inline.IH) simp_all
next
  case (hidden_typo ls ls' pre col c c' v v' cr)
  have "tryRedactKey denylist (pre @ c # v) = tryRedactKey denylist (pre @ c' # v')"
    using tryRedactKey_at [OF hidden_typo.hyps(2), of "c # v"] tryRedactKey_at [OF hidden_typo.hyps(2), of "c' # v'"] hidden_typo.hyps(3-7) by simp
  then have "redactVisible denylist st (pre @ c # v) = redactVisible denylist st (pre @ c' # v')"
    using hidden_typo.hyps(7) by (intro redactVisible_same [OF _ hidden_typo.hyps(2)]) simp_all
  then show ?case
    using visible_append [OF hidden_typo.hyps(8) _ hidden_typo.hyps(9), of pre] visible_append [OF hidden_typo.hyps(8) _ hidden_typo.hyps(10), of pre]
    by (intro same_scan hidden_typo.IH) simp_all
next
  case (hidden_block ls ls' pre col gap m cr bs bs')
  let ?h = "pre @ '':'' @ gap @ m"
  have "m \<noteq> [] \<and> (hd m = CHR ''|'' \<or> hd m = CHR ''>'')" using hidden_block.hyps(5) unfolding isBlockMarker_def by blast
  then have m: "m \<noteq> []" "\<not> isBlank (hd m)" "hd m \<noteq> CHR ''#''" by (auto simp: isBlank_def)
  have key: "tryRedactKey denylist ?h = (?h, InBlock col)"
    using colon_rest [OF hidden_block.hyps(2-4) m] hidden_block.hyps(5) by simp
  obtain ws where ws: "length ws \<le> col" "takeWhile isBlank ?h = ws" "length ws < length pre"
    by (rule secretKey_parts [OF hidden_block.hyps(2)]) (metis append_assoc)
  have "\<exists>vis i. redactVisible denylist st ?h = (vis, InBlock i) \<and> i \<le> col"
  proof (cases st)
    case (InBlock i)
    have "length ws \<noteq> length ?h" using ws(3) by simp
    then show ?thesis using key ws by (auto simp: InBlock redactVisible_def Let_def)
  next
    case Normal
    then show ?thesis using key by (simp add: redactVisible_def)
  qed
  then obtain vis i where vis: "redactVisible denylist st ?h = (vis, InBlock i)" "i \<le> col" by blast
  have "visible (?h @ cr) = ?h" using visible_append(1) [OF hidden_block.hyps(7) m(1) hidden_block.hyps(6), of "pre @ '':'' @ gap"] by simp
  then show ?case
    using vis(1) block_scan [OF hidden_block.hyps(8) vis(2) hidden_block.IH] by simp
qed simp

lemma redact_empty: "redactInPlace {} Normal ls = ls"
proof (induction ls)
  case (Cons l ls)
  have "tryRedactKey {} vis = (vis, Normal)" for vis by (simp add: tryRedactKey_def Let_def)
  then show ?case using Cons by (simp add: redactVisible_def visible_tail)
qed simp

lemma RedactYAMLSecrets_scan:
  "RedactYAMLSecrets denylist s = join_lines (redactInPlace denylist Normal (split_on (\<lambda>c. c = CHR 0x0A) s))"
proof (cases "s = []")
  case True
  then show ?thesis
    by (simp add: RedactYAMLSecrets_def visible_def lineTail_def redactVisible_def tryRedactKey_def Let_def)
qed (simp add: RedactYAMLSecrets_def redact_empty join_split)


section \<open>Two tokens\<close>

definition token_text :: "string \<Rightarrow> string list" where
  "token_text secret = [''contexts:'', ''  - token: '' @ secret, ''    user: u'', ''password; '' @ secret, ''key: >-'', ''   '' @ secret @ [CHR 0x0D], [], ''ca: x'']"

definition secret_keys :: "string set" where
  "secret_keys = {''token'', ''password'', ''key''}"

lemma token_keys:
  "secretKey secret_keys ''  - token'' 4" "secretKey secret_keys ''password'' 0" "secretKey secret_keys ''key'' 0"
proof -
  have k: "list_all isYAMLKeyByte ''token''" "list_all isYAMLKeyByte ''password''" "list_all isYAMLKeyByte ''key''"
    by (simp_all add: isYAMLKeyByte_def)
  show "secretKey secret_keys ''  - token'' 4"
    unfolding secretKey_def using k by (intro exI [of _ "''  ''"] exI [of _ "''- ''"] exI [of _ "''token''"]) (simp add: isBlank_def secret_keys_def)
  show "secretKey secret_keys ''password'' 0"
    unfolding secretKey_def using k by (intro exI [of _ "[]"] exI [of _ "[]"] exI [of _ "''password''"]) (simp add: secret_keys_def)
  show "secretKey secret_keys ''key'' 0"
    unfolding secretKey_def using k by (intro exI [of _ "[]"] exI [of _ "[]"] exI [of _ "''key''"]) (simp add: secret_keys_def)
qed

lemma token_hidden: "hidden secret_keys (token_text ''abc'') (token_text ''xyz'')"
proof -
  have v: "inlineValue ''abc''" "inlineValue ''xyz''" by (simp_all add: inlineValue_def isBlank_def isBlockMarker_def)
  have b: "list_all2 (blockLines 0) [''   abc'' @ [CHR 0x0D], []] [''   xyz'' @ [CHR 0x0D], []]"
  proof -
    have "blockLines 0 (''   abc'' @ [CHR 0x0D]) (''   xyz'' @ [CHR 0x0D])"
      unfolding blockLines_def
      by (intro disjI2 exI [of _ "''   ''"] exI [of _ "''abc''"] exI [of _ "''xyz''"] exI [of _ "[CHR 0x0D]"]) (simp add: isBlank_def lineEnd_def)
    moreover have "blockLines 0 [] []" by (simp add: blockLines_def visible_def)
    ultimately show ?thesis by simp
  qed
  have m: "isBlockMarker ''>-''" by (simp add: isBlockMarker_def)
  have tail: "hidden secret_keys [''ca: x''] [''ca: x'']" by (intro hidden_same hidden_nil)
  have "hidden secret_keys ((''key'' @ '':'' @ '' '' @ ''>-'' @ []) # [''   abc'' @ [CHR 0x0D], []] @ [''ca: x''])
      ((''key'' @ '':'' @ '' '' @ ''>-'' @ []) # [''   xyz'' @ [CHR 0x0D], []] @ [''ca: x''])"
    by (rule hidden_block [OF tail token_keys(3) _ _ m _ _ b]) (simp_all add: isBlank_def lineEnd_def)
  then have "hidden secret_keys ((''password'' @ (CHR '';'' # '' abc'') @ []) # (''key'' @ '':'' @ '' '' @ ''>-'' @ []) # [''   abc'' @ [CHR 0x0D], []] @ [''ca: x''])
      ((''password'' @ (CHR '';'' # '' xyz'') @ []) # (''key'' @ '':'' @ '' '' @ ''>-'' @ []) # [''   xyz'' @ [CHR 0x0D], []] @ [''ca: x''])"
    by (rule hidden_typo [OF _ token_keys(2)]) (simp_all add: isYAMLKeyByte_def lineEnd_def)
  from hidden_inline [OF hidden_same [OF this, of "''    user: u''"] token_keys(1) _ _ v, of "'' ''" "[]"]
  have "hidden secret_keys (tl (token_text ''abc'')) (tl (token_text ''xyz''))" by (simp add: token_text_def isBlank_def lineEnd_def)
  from hidden_same [OF this, of "''contexts:''"] show ?thesis by (simp add: token_text_def)
qed


end
