(* ===== verification/Go_Duration.thy ===== *)
theory Go_Duration
  imports Json_Values
begin

text \<open>
  Durations with days (\<^verbatim>\<open>internal/durationbounds/durationbounds.go\<close>) over Go's \<^verbatim>\<open>time.ParseDuration\<close>,
  which is written out: a duration is an integer of nanoseconds in the range of \<^verbatim>\<open>int64\<close>, sums wrap
  as \<^verbatim>\<open>uint64\<close> does, and fractions go through \<^verbatim>\<open>float64\<close>, rounded to nearest even.

  \<^verbatim>\<open>strconv.ParseFloat\<close>, which reads a day count, is the parameter \<open>cl_parse_float\<close>, and what the
  processor makes of converting \<open>2 ^ 63\<close> to an integer, which Go leaves open, is \<open>cl_overflowed\<close>.
\<close>

section \<open>Floating point\<close>

definition round_ratio :: "nat \<Rightarrow> nat \<Rightarrow> nat \<times> int" where
  "round_ratio num den =
     (if num = 0 then (0, 0)
      else let k0 = int (floorlog 2 num) - int (floorlog 2 den) - 53;
               k1 = (case scaled num den k0 of (a, b) \<Rightarrow> if a div b \<ge> 2 ^ 53 then k0 + 1 else k0);
               k2 = max k1 (- 1074)
           in (case scaled num den k2 of (a, b) \<Rightarrow> round_half_even a b, k2))"

definition float_mul :: "nat \<times> int \<Rightarrow> nat \<times> int \<Rightarrow> nat \<times> int" where
  "float_mul x y =
     (let k = snd x + snd y in
      if 0 \<le> k then round_ratio (fst x * fst y * 2 ^ nat k) 1 else round_ratio (fst x * fst y) (2 ^ nat (- k)))"

definition float_trunc :: "nat \<times> int \<Rightarrow> nat" where
  "float_trunc x = (if 0 \<le> snd x then fst x * 2 ^ nat (snd x) else fst x div 2 ^ nat (- snd x))"

definition float_above :: "nat \<times> int \<Rightarrow> nat \<Rightarrow> bool" where
  "float_above x n \<longleftrightarrow> (if 0 \<le> snd x then fst x * 2 ^ nat (snd x) > n else fst x > n * 2 ^ nat (- snd x))"

section \<open>time.ParseDuration\<close>

definition Second :: nat where "Second = 1000000000"
definition Minute :: nat where "Minute = 60 * Second"
definition Hour :: nat where "Hour = 60 * Minute"
definition maxInt64 :: nat where "maxInt64 = 2 ^ 63 - 1"

definition unitMap :: "(string \<times> nat) list" where
  "unitMap = [(''ns'', 1), (''us'', 1000), ([CHR 0xC2, CHR 0xB5, CHR ''s''], 1000), ([CHR 0xCE, CHR 0xBC, CHR ''s''], 1000),
     (''ms'', 1000000), (''s'', Second), (''m'', Minute), (''h'', Hour)]"

text \<open>The digits of a fraction that fit, and how many they are.\<close>

definition fractionDigit :: "nat \<times> nat \<times> bool \<Rightarrow> char \<Rightarrow> nat \<times> nat \<times> bool" where
  "fractionDigit s c =
     (case s of (f, k, overflow) \<Rightarrow>
        if overflow \<or> f > maxInt64 div 10 then (f, k, True)
        else let y = f * 10 + digit_val c in if y > 2 ^ 63 then (f, k, True) else (y, k + 1, False))"

definition leadingFraction :: "string \<Rightarrow> nat \<times> nat" where
  "leadingFraction ds = (case foldl fractionDigit (0, 0, False) ds of (f, k, overflow) \<Rightarrow> (f, k))"

text \<open>A term: integer digits, fraction digits if there is a point, the unit and the rest.\<close>

definition splitTerm :: "string \<Rightarrow> (string \<times> string \<times> string \<times> string) option" where
  "splitTerm s =
     (let ds = takeWhile is_digit_char s; s1 = dropWhile is_digit_char s;
          point = (s1 \<noteq> [] \<and> hd s1 = CHR ''.'');
          fs = (if point then takeWhile is_digit_char (tl s1) else []);
          s2 = (if point then dropWhile is_digit_char (tl s1) else s1);
          unit = takeWhile (\<lambda>c. c \<noteq> CHR ''.'' \<and> \<not> is_digit_char c) s2
      in if ds = [] \<and> fs = [] \<or> unit = [] then None
         else Some (ds, fs, unit, dropWhile (\<lambda>c. c \<noteq> CHR ''.'' \<and> \<not> is_digit_char c) s2))"

definition termValue :: "string \<Rightarrow> string \<Rightarrow> string \<Rightarrow> nat option" where
  "termValue ds fs u =
     (if digits_val ds > 2 ^ 63 then None
      else case map_of unitMap u of None \<Rightarrow> None
      | Some unit \<Rightarrow>
          if digits_val ds > 2 ^ 63 div unit then None
          else let v = digits_val ds * unit in
            (case leadingFraction fs of (f, k) \<Rightarrow>
               if f > 0
               then let v' = (v + float_trunc (float_mul (round_ratio f 1) (round_ratio unit (10 ^ k)))) mod 2 ^ 64
                    in if v' > 2 ^ 63 then None else Some v'
               else Some v))"

lemma splitTerm_shorter: "splitTerm s = Some (ds, fs, u, rest) \<Longrightarrow> length rest < length s"
proof -
  assume split: "splitTerm s = Some (ds, fs, u, rest)"
  define s1 where "s1 = dropWhile is_digit_char s"
  define s2 where "s2 = (if s1 \<noteq> [] \<and> hd s1 = CHR ''.'' then dropWhile is_digit_char (tl s1) else s1)"
  have "u \<noteq> []" "u = takeWhile (\<lambda>c. c \<noteq> CHR ''.'' \<and> \<not> is_digit_char c) s2" "rest = dropWhile (\<lambda>c. c \<noteq> CHR ''.'' \<and> \<not> is_digit_char c) s2"
    using split by (auto simp: splitTerm_def Let_def s1_def s2_def split: if_splits)
  then have "length rest < length s2" by (metis append_Nil length_append length_greater_0_conv less_add_same_cancel2 takeWhile_dropWhile_id)
  also have "length s2 \<le> length s1" using length_dropWhile_le [of is_digit_char "tl s1"] by (auto simp: s2_def)
  also have "length s1 \<le> length s" by (simp add: s1_def length_dropWhile_le)
  finally show ?thesis .
qed

function parseTerms :: "nat \<Rightarrow> string \<Rightarrow> nat option" where
  "parseTerms d s =
     (if s = [] then Some d
      else case splitTerm s of None \<Rightarrow> None
      | Some (ds, fs, u, rest) \<Rightarrow>
          (case termValue ds fs u of None \<Rightarrow> None
           | Some v \<Rightarrow> let d' = (d + v) mod 2 ^ 64 in if d' > 2 ^ 63 then None else parseTerms d' rest))"
  by pat_completeness auto
termination by (relation "measure (\<lambda>(d, s). length s)") (auto dest: splitTerm_shorter)

declare parseTerms.simps [simp del]

definition ParseDuration :: "string \<Rightarrow> int option" where
  "ParseDuration text =
     (let signed = (text \<noteq> [] \<and> (hd text = CHR ''-'' \<or> hd text = CHR ''+''));
          neg = (signed \<and> hd text = CHR ''-'');
          s = (if signed then tl text else text)
      in if s = ''0'' then Some 0
         else if s = [] then None
         else case parseTerms 0 s of None \<Rightarrow> None
         | Some d \<Rightarrow> if neg then Some (- int d) else if d > maxInt64 then None else Some (int d))"

section \<open>Days\<close>

datatype float_value = NotANumber | Infinite bool | Finite float64

record clock_lib =
  cl_parse_float :: "string \<Rightarrow> float_value option"
  cl_overflowed :: int

datatype duration_err = BadDuration | BadDayCount | DayCountNotFinite | DayCountOutOfRange | OutsideBounds

definition MinBound :: int where "MinBound = int Minute"
definition MaxBound :: int where "MaxBound = 6 * 24 * int Hour"

definition dayDuration :: "clock_lib \<Rightarrow> float64 \<Rightarrow> duration_err + int" where
  "dayDuration C days =
     (case days of Float64 neg m k \<Rightarrow>
        let nanos = float_mul (m, k) (round_ratio (24 * Hour) 1) in
        if float_above nanos (2 ^ 63) then Inl DayCountOutOfRange
        else if neg then Inr (- int (float_trunc nanos))
        else if float_trunc nanos = 2 ^ 63 then Inr (cl_overflowed C)
        else Inr (int (float_trunc nanos)))"

definition ParseWithDays :: "clock_lib \<Rightarrow> string \<Rightarrow> duration_err + int" where
  "ParseWithDays C s =
     (case ParseDuration s of Some d \<Rightarrow> Inr d
      | None \<Rightarrow>
          if s = [] \<or> last s \<noteq> CHR ''d'' then Inl BadDuration
          else case cl_parse_float C (butlast s) of
            None \<Rightarrow> Inl BadDayCount
          | Some NotANumber \<Rightarrow> Inl DayCountNotFinite
          | Some (Infinite neg) \<Rightarrow> Inl DayCountNotFinite
          | Some (Finite days) \<Rightarrow> dayDuration C days)"

section \<open>Whole numbers of a unit\<close>

text \<open>Digits followed by a unit are that many of the unit.\<close>

lemma splitTerm_whole:
  assumes "ds \<noteq> []" and "list_all is_digit_char ds" and "u \<noteq> []"
    and "list_all (\<lambda>c. c \<noteq> CHR ''.'' \<and> \<not> is_digit_char c) u"
  shows "splitTerm (ds @ u) = Some (ds, [], u, [])"
proof -
  have "takeWhile is_digit_char (ds @ u) = ds" "dropWhile is_digit_char (ds @ u) = u"
    using assms by (cases u; auto simp: list_all_iff takeWhile_append dropWhile_append)+
  moreover have "takeWhile (\<lambda>c. c \<noteq> CHR ''.'' \<and> \<not> is_digit_char c) u = u"
    "dropWhile (\<lambda>c. c \<noteq> CHR ''.'' \<and> \<not> is_digit_char c) u = []"
    using assms(4) by (simp_all add: list_all_iff)
  ultimately show ?thesis using assms by (cases u) (simp_all add: splitTerm_def)
qed

lemma ParseDuration_whole:
  assumes "ds \<noteq> []" and "list_all is_digit_char ds" and "u \<noteq> []"
    and "list_all (\<lambda>c. c \<noteq> CHR ''.'' \<and> \<not> is_digit_char c) u"
    and "map_of unitMap u = Some unit" and "0 < unit" and "digits_val ds * unit \<le> maxInt64"
  shows "ParseDuration (ds @ u) = Some (int (digits_val ds * unit))"
proof -
  have "digits_val ds \<le> digits_val ds * unit" using assms(6) by simp
  then have small: "digits_val ds \<le> 2 ^ 63" using assms(7) unfolding maxInt64_def by linarith
  have "digits_val ds \<le> 2 ^ 63 div unit" using assms(6,7) by (simp add: less_eq_div_iff_mult_less_eq maxInt64_def)
  with small have "termValue ds [] u = Some (digits_val ds * unit)"
    using assms(5) by (simp add: termValue_def leadingFraction_def)
  then have terms: "parseTerms 0 (ds @ u) = Some (digits_val ds * unit)"
    using assms(1,7) splitTerm_whole [OF assms(1-4)]
    by (simp add: parseTerms.simps [of 0] parseTerms.simps [of _ "[]"] maxInt64_def)
  have "\<not> (hd (ds @ u) = CHR ''-'' \<or> hd (ds @ u) = CHR ''+'')"
    using assms(1,2) by (cases ds) (auto simp: is_digit_char_def)
  moreover have "ds @ u \<noteq> ''0''"
  proof
    assume "ds @ u = ''0''"
    with assms(1,3) show False by (cases ds; cases "tl ds") auto
  qed
  ultimately show ?thesis using terms assms(1,7) by (simp add: ParseDuration_def)
qed

lemma ParseDuration_hours:
  assumes "n * Hour \<le> maxInt64"
  shows "ParseDuration (show_nat n @ ''h'') = Some (int (n * Hour))"
  using ParseDuration_whole [of "show_nat n" "''h''" Hour] assms
  by (simp add: show_nat_digits show_nat_nonempty unitMap_def is_digit_char_def Hour_def Minute_def Second_def)

end
