(* ===== verification/Launch_Agent.thy ===== *)
theory Launch_Agent
  imports Go_Duration Credentials
begin

text \<open>
  The macOS LaunchAgent of the keep-alive (\<^verbatim>\<open>internal/launchd\<close>): its paths, the binary it runs, its
  description and property list, and \<^verbatim>\<open>launchctl\<close> behind the controller.

  The machine is the parameter \<^verbatim>\<open>host\<close>: what \<^verbatim>\<open>os\<close>, \<^verbatim>\<open>filepath.EvalSymlinks\<close> and \<^verbatim>\<open>exec\<close> answer in a
  state of type \<open>'s\<close> that holds its files and loaded services. A command has an exit code, or none
  when it could not be run or did not exit, and what it wrote to each stream. Error texts are not
  modelled. \<open>xmlTokens\<close> is the token stream of \<^verbatim>\<open>encoding/xml\<close>'s decoder, and whether it ends in a
  syntax error instead of the end of the input.
\<close>

section \<open>The machine\<close>

record command_result =
  cm_exit :: "int option"
  cm_stdout :: string
  cm_stderr :: string
  cm_combined :: string

datatype removal = RemovedFile | AbsentFile | RemoveFailed

record 's host =
  ho_home :: "string option"
  ho_uid :: int
  ho_executable :: "string option"
  ho_symlinks :: "string \<Rightarrow> string option"
  ho_launchctl :: "string list \<Rightarrow> 's \<Rightarrow> command_result \<times> 's"
  ho_mkdir :: "string \<Rightarrow> 's \<Rightarrow> bool \<times> 's"
  ho_create :: "string \<Rightarrow> 's \<Rightarrow> bool \<times> 's"
  ho_append :: "string \<Rightarrow> string \<Rightarrow> 's \<Rightarrow> bool \<times> 's"
  ho_close :: "string \<Rightarrow> 's \<Rightarrow> bool \<times> 's"
  ho_remove :: "string \<Rightarrow> 's \<Rightarrow> removal \<times> 's"
  ho_stat :: "string \<Rightarrow> 's \<Rightarrow> bool"
  ho_read :: "string \<Rightarrow> 's \<Rightarrow> string option"

section \<open>Paths\<close>

definition Label :: string where "Label = ''io.github.avitsrimer.grafanapi.keepalive''"

definition joinPath :: "string list \<Rightarrow> string" where
  "joinPath elems =
     (case filter (\<lambda>e. e \<noteq> []) elems of [] \<Rightarrow> [] | es \<Rightarrow> cleanPath (join_slash es))"

definition homeDir :: "'s host \<Rightarrow> string" where
  "homeDir h = (case ho_home h of None \<Rightarrow> ''.'' | Some home \<Rightarrow> if home = [] then ''.'' else home)"

definition LaunchAgentsDir :: "'s host \<Rightarrow> string" where
  "LaunchAgentsDir h = joinPath [homeDir h, ''Library'', ''LaunchAgents'']"

definition PlistPath :: "'s host \<Rightarrow> string" where
  "PlistPath h = joinPath [LaunchAgentsDir h, Label @ ''.plist'']"

definition LogDir :: "'s host \<Rightarrow> string" where
  "LogDir h = joinPath [homeDir h, ''Library'', ''Logs'', ''grafanapi'']"

definition LogPath :: "'s host \<Rightarrow> string" where
  "LogPath h = joinPath [LogDir h, ''keepalive.log'']"

section \<open>The controller\<close>

datatype launch_err =
    NotLoaded  \<comment> \<open>\<^verbatim>\<open>ErrNotLoaded\<close>\<close>
  | LaunchctlFailed string

definition UserDomainTarget :: "'s host \<Rightarrow> string" where
  "UserDomainTarget h = ''gui/'' @ show_int (ho_uid h)"

definition UserServiceTarget :: "'s host \<Rightarrow> string" where
  "UserServiceTarget h = UserDomainTarget h @ ''/'' @ Label"

definition bootoutNotLoadedExitCode :: int where "bootoutNotLoadedExitCode = 3"
definition printNotLoadedExitCode :: int where "printNotLoadedExitCode = 113"

definition isBootoutNotLoaded :: "command_result \<Rightarrow> bool" where
  "isBootoutNotLoaded r =
     (let lower = toLower (trimSpace (cm_combined r));
          textMatch = (contains lower ''no such process'' \<or> contains lower ''could not find'')
      in case cm_exit r of None \<Rightarrow> False | Some code \<Rightarrow> code = bootoutNotLoadedExitCode \<and> textMatch)"

definition isPrintNotLoaded :: "command_result \<Rightarrow> bool" where
  "isPrintNotLoaded r =
     (case cm_exit r of None \<Rightarrow> False
      | Some code \<Rightarrow>
          code = printNotLoadedExitCode \<and> contains (toLower (trimSpace (cm_stderr r))) ''could not find'')"

definition Bootstrap :: "'s host \<Rightarrow> string \<Rightarrow> string \<Rightarrow> 's \<Rightarrow> launch_err option \<times> 's" where
  "Bootstrap h domainTarget plistPath s =
     (case ho_launchctl h [''bootstrap'', domainTarget, plistPath] s of (r, s') \<Rightarrow>
        (if cm_exit r = Some 0 then None else Some (LaunchctlFailed (trimSpace (cm_combined r))), s'))"

definition Bootout :: "'s host \<Rightarrow> string \<Rightarrow> 's \<Rightarrow> launch_err option \<times> 's" where
  "Bootout h serviceTarget s =
     (case ho_launchctl h [''bootout'', serviceTarget] s of (r, s') \<Rightarrow>
        (if cm_exit r = Some 0 then None
         else if isBootoutNotLoaded r then Some NotLoaded
         else Some (LaunchctlFailed (trimSpace (cm_combined r))), s'))"

definition Print :: "'s host \<Rightarrow> string \<Rightarrow> 's \<Rightarrow> (launch_err + string) \<times> 's" where
  "Print h serviceTarget s =
     (case ho_launchctl h [''print'', serviceTarget] s of (r, s') \<Rightarrow>
        (if cm_exit r = Some 0 then Inr (cm_stdout r)
         else if isPrintNotLoaded r then Inl NotLoaded
         else Inl (LaunchctlFailed []), s'))"

datatype LoadState = LoadStateLoaded | LoadStateNotLoaded | LoadStateInconclusive

definition ClassifyLoadState :: "'s host \<Rightarrow> string \<Rightarrow> 's \<Rightarrow> LoadState \<times> 's" where
  "ClassifyLoadState h serviceTarget s =
     (case Print h serviceTarget s of
        (Inr out, s') \<Rightarrow> (LoadStateLoaded, s')
      | (Inl NotLoaded, s') \<Rightarrow> (LoadStateNotLoaded, s')
      | (Inl e, s') \<Rightarrow> (LoadStateInconclusive, s'))"

section \<open>The binary\<close>

datatype binary_err = NoExecutable | NoSymlinks string

definition cellarMarkers :: "string list" where "cellarMarkers = [''/Cellar/'', ''/Caskroom/'']"

definition stableSymlinkCandidates :: "string list" where
  "stableSymlinkCandidates = [''/opt/homebrew/bin/grafanapi'', ''/usr/local/bin/grafanapi'']"

definition isCellarPath :: "string \<Rightarrow> bool" where
  "isCellarPath path = list_ex (contains path) cellarMarkers"

definition ResolveBinaryPath :: "'s host \<Rightarrow> binary_err + string" where
  "ResolveBinaryPath h =
     (case ho_executable h of None \<Rightarrow> Inl NoExecutable
      | Some execPath \<Rightarrow>
          (case ho_symlinks h execPath of None \<Rightarrow> Inl (NoSymlinks execPath)
           | Some resolved \<Rightarrow>
               if \<not> isCellarPath resolved then Inr resolved
               else case find (\<lambda>candidate. ho_symlinks h candidate = Some resolved) stableSymlinkCandidates of
                 Some candidate \<Rightarrow> Inr candidate | None \<Rightarrow> Inr resolved))"

section \<open>The agent\<close>

record AgentSpec =
  ag_Label :: string
  ag_BinaryPath :: string
  ag_Args :: "string list"
  ag_IntervalSeconds :: int
  ag_StdoutPath :: string
  ag_StderrPath :: string

definition ValidateInterval :: "int \<Rightarrow> duration_err option" where
  "ValidateInterval d = (if d < MinBound \<or> d > MaxBound then Some OutsideBounds else None)"

text \<open>\<^verbatim>\<open>int(interval.Seconds())\<close>, a truncation towards zero.\<close>

definition seconds :: "int \<Rightarrow> int" where
  "seconds d = (if d < 0 then - (- d div int Second) else d div int Second)"

definition DefaultAgentSpec :: "'s host \<Rightarrow> string \<Rightarrow> int \<Rightarrow> AgentSpec" where
  "DefaultAgentSpec h binaryPath interval =
     \<lparr>ag_Label = Label, ag_BinaryPath = binaryPath, ag_Args = [''session'', ''refresh'', ''--due''],
      ag_IntervalSeconds = seconds interval, ag_StdoutPath = LogPath h, ag_StderrPath = LogPath h\<rparr>"

end
