(* ===== verification/Launch_Plist.thy ===== *)
theory Launch_Plist
  imports Launch_Agent
begin

text \<open>
  The property list of the LaunchAgent (\<^verbatim>\<open>internal/launchd/plist.go\<close>): the text \<^verbatim>\<open>Generate\<close> writes
  and the scan \<^verbatim>\<open>Inspect\<close> makes of the tokens of a file.

  The tokens come from \<^verbatim>\<open>encoding/xml\<close>'s decoder, a parameter: a text has a list of tokens and
  either ends there or breaks off with a syntax error. A start tag keeps its local name only;
  comments, instructions and directives are \<open>Markup\<close>. \<^verbatim>\<open>DecodeElement\<close> into a string or an integer
  and \<^verbatim>\<open>Skip\<close> are written out over tokens.
\<close>

section \<open>Generating\<close>

definition tab :: char where "tab = CHR 0x09"
definition newline :: char where "newline = CHR 0x0A"

definition inCharacterRange :: "nat \<Rightarrow> bool" where
  "inCharacterRange r \<longleftrightarrow>
     r = 0x09 \<or> r = 0x0A \<or> r = 0x0D \<or> 0x20 \<le> r \<and> r \<le> 0xD7FF \<or> 0xE000 \<le> r \<and> r \<le> 0xFFFD \<or>
     0x10000 \<le> r \<and> r \<le> 0x10FFFF"

definition escapeRune :: "nat \<Rightarrow> string" where
  "escapeRune r =
     (if r = 0x22 then ''&#34;'' else if r = 0x27 then ''&#39;'' else if r = 0x26 then ''&amp;''
      else if r = 0x3C then ''&lt;'' else if r = 0x3E then ''&gt;'' else if r = 0x09 then ''&#x9;''
      else if r = 0x0A then ''&#xA;'' else if r = 0x0D then ''&#xD;''
      else if inCharacterRange r then encodeRune r else encodeRune runeError)"

definition escapeXMLText :: "string \<Rightarrow> string" where
  "escapeXMLText s = concat (map escapeRune (runes s))"

definition keyLine :: "string \<Rightarrow> string" where
  "keyLine key = tab # ''<key>'' @ key @ ''</key>'' @ [newline]"

definition stringElement :: "string \<Rightarrow> string" where
  "stringElement s = ''<string>'' @ escapeXMLText s @ ''</string>''"

definition Generate :: "AgentSpec \<Rightarrow> string" where
  \<open>Generate spec =
     ''<?xml version="1.0" encoding="UTF-8"?>'' @ [newline] @
     ''<!DOCTYPE plist PUBLIC "-//Apple//DTD PLIST 1.0//EN" "http://www.apple.com/DTDs/PropertyList-1.0.dtd">'' @ [newline] @
     ''<plist version="1.0">'' @ [newline] @ ''<dict>'' @ [newline] @
     keyLine ''Label'' @ [tab] @ stringElement (ag_Label spec) @ [newline] @
     keyLine ''ProgramArguments'' @ [tab] @ ''<array>'' @ [newline] @
     [tab, tab] @ stringElement (ag_BinaryPath spec) @
     concat (map (\<lambda>a. [newline, tab, tab] @ stringElement a) (ag_Args spec)) @ [newline, tab] @ ''</array>'' @ [newline] @
     keyLine ''StartInterval'' @ [tab] @ ''<integer>'' @ show_int (ag_IntervalSeconds spec) @ ''</integer>'' @ [newline] @
     keyLine ''RunAtLoad'' @ [tab] @ ''<false/>'' @ [newline] @
     keyLine ''StandardOutPath'' @ [tab] @ stringElement (ag_StdoutPath spec) @ [newline] @
     keyLine ''StandardErrorPath'' @ [tab] @ stringElement (ag_StderrPath spec) @ [newline] @
     ''</dict>'' @ [newline] @ ''</plist>'' @ [newline]\<close>

section \<open>Inspecting\<close>

datatype xml_token = StartTag string | EndTag string | Chars string | Markup

datatype plist_err = NoPlist | BadXml | BadElement string | BadInteger string | BadArray | NoLabel

text \<open>The character data directly inside an element, nested elements skipped, and what follows its
  end tag.\<close>

fun elementText :: "nat \<Rightarrow> xml_token list \<Rightarrow> (string \<times> xml_token list) option" where
  "elementText depth [] = None"
| "elementText depth (StartTag n # ts) = elementText (Suc depth) ts"
| "elementText depth (EndTag n # ts) = (case depth of 0 \<Rightarrow> Some ([], ts) | Suc d \<Rightarrow> elementText d ts)"
| "elementText depth (Chars t # ts) =
     map_option (\<lambda>(s, rest). (if depth = 0 then t @ s else s, rest)) (elementText depth ts)"
| "elementText depth (Markup # ts) = elementText depth ts"

lemma elementText_shorter: "elementText d ts = Some (s, rest) \<Longrightarrow> length rest < length ts"
  by (induction d ts arbitrary: s rest rule: elementText.induct) (fastforce split: nat.splits)+

lemma elementText_rest_shorter [simp]: "Some (s, rest) = elementText d ts \<Longrightarrow> length rest < length ts"
  using elementText_shorter by metis

function readStringArray :: "xml_token list \<Rightarrow> (string list \<times> xml_token list) option" where
  "readStringArray [] = None"
| "readStringArray (StartTag n # ts) =
     (if n \<noteq> ''string'' then None
      else case elementText 0 ts of None \<Rightarrow> None
      | Some (s, rest) \<Rightarrow> map_option (\<lambda>(ss, rest'). (s # ss, rest')) (readStringArray rest))"
| "readStringArray (EndTag n # ts) = (if n = ''array'' then Some ([], ts) else readStringArray ts)"
| "readStringArray (Chars t # ts) = readStringArray ts"
| "readStringArray (Markup # ts) = readStringArray ts"
  by pat_completeness auto
termination by (relation "measure length") (auto dest!: elementText_shorter)

lemma readStringArray_shorter: "readStringArray ts = Some (ss, rest) \<Longrightarrow> length rest < length ts"
proof (induction ts arbitrary: ss rest rule: readStringArray.induct)
  case (2 n ts)
  then show ?case by (fastforce split: if_splits option.splits dest: elementText_shorter)
qed (fastforce split: if_splits)+

definition putText :: "string \<Rightarrow> string \<Rightarrow> AgentSpec \<Rightarrow> AgentSpec" where
  "putText key v spec =
     (if key = ''Label'' then spec\<lparr>ag_Label := v\<rparr>
      else if key = ''StandardOutPath'' then spec\<lparr>ag_StdoutPath := v\<rparr>
      else if key = ''StandardErrorPath'' then spec\<lparr>ag_StderrPath := v\<rparr> else spec)"

definition putArguments :: "string list \<Rightarrow> AgentSpec \<Rightarrow> AgentSpec" where
  "putArguments args spec =
     (case args of [] \<Rightarrow> spec | b # rest \<Rightarrow> spec\<lparr>ag_BinaryPath := b, ag_Args := rest\<rparr>)"

text \<open>The integer an \<^verbatim>\<open>integer\<close> element decodes to: no text at all is zero.\<close>

definition elementInt :: "string \<Rightarrow> int option" where
  "elementInt s = (if s = [] then Some 0 else parse_int64 (trimSpace s))"

function scanPlist :: "bool \<Rightarrow> xml_token list \<Rightarrow> string \<Rightarrow> bool \<Rightarrow> AgentSpec \<Rightarrow> plist_err + AgentSpec" where
  "scanPlist broken [] pendingKey haveLabel spec =
     (if broken then Inl BadXml else if \<not> haveLabel then Inl NoLabel else Inr spec)"
| "scanPlist broken (StartTag n # ts) pendingKey haveLabel spec =
     (if n = ''key'' then
        (case elementText 0 ts of None \<Rightarrow> Inl (BadElement pendingKey)
         | Some (key, rest) \<Rightarrow> scanPlist broken rest key haveLabel spec)
      else if n = ''string'' then
        (case elementText 0 ts of None \<Rightarrow> Inl (BadElement pendingKey)
         | Some (v, rest) \<Rightarrow>
             scanPlist broken rest pendingKey (haveLabel \<or> pendingKey = ''Label'') (putText pendingKey v spec))
      else if n = ''integer'' then
        (case elementText 0 ts of None \<Rightarrow> Inl (BadElement pendingKey)
         | Some (v, rest) \<Rightarrow>
             (case elementInt v of None \<Rightarrow> Inl (BadInteger pendingKey)
              | Some i \<Rightarrow>
                  scanPlist broken rest pendingKey haveLabel
                    (if pendingKey = ''StartInterval'' then spec\<lparr>ag_IntervalSeconds := i\<rparr> else spec)))
      else if n = ''array'' then
        (if pendingKey \<noteq> ''ProgramArguments'' then
           (case elementText 0 ts of None \<Rightarrow> Inl BadArray
            | Some (v, rest) \<Rightarrow> scanPlist broken rest pendingKey haveLabel spec)
         else case readStringArray ts of None \<Rightarrow> Inl BadArray
         | Some (args, rest) \<Rightarrow> scanPlist broken rest pendingKey haveLabel (putArguments args spec))
      else scanPlist broken ts pendingKey haveLabel spec)"
| "scanPlist broken (EndTag n # ts) pendingKey haveLabel spec = scanPlist broken ts pendingKey haveLabel spec"
| "scanPlist broken (Chars t # ts) pendingKey haveLabel spec = scanPlist broken ts pendingKey haveLabel spec"
| "scanPlist broken (Markup # ts) pendingKey haveLabel spec = scanPlist broken ts pendingKey haveLabel spec"
  by pat_completeness auto
termination
  by (relation "measure (\<lambda>(broken, ts, key, have, spec). length ts)")
    (auto dest!: elementText_shorter readStringArray_shorter)

definition zeroSpec :: AgentSpec where
  "zeroSpec = \<lparr>ag_Label = [], ag_BinaryPath = [], ag_Args = [], ag_IntervalSeconds = 0, ag_StdoutPath = [], ag_StderrPath = []\<rparr>"

definition parsePlistDict :: "(string \<Rightarrow> xml_token list \<times> bool) \<Rightarrow> string \<Rightarrow> plist_err + AgentSpec" where
  "parsePlistDict xmlTokens source = (case xmlTokens source of (ts, broken) \<Rightarrow> scanPlist broken ts [] False zeroSpec)"

definition Inspect ::
  "(string \<Rightarrow> xml_token list \<times> bool) \<Rightarrow> 's host \<Rightarrow> string \<Rightarrow> 's \<Rightarrow> plist_err + AgentSpec" where
  "Inspect xmlTokens h path s =
     (case ho_read h path s of None \<Rightarrow> Inl NoPlist | Some source \<Rightarrow> parsePlistDict xmlTokens source)"

section \<open>The tokens of a generated list\<close>

definition textElement :: "string \<Rightarrow> string \<Rightarrow> xml_token list" where
  "textElement n s = StartTag n # (if s = [] then [] else [Chars s]) @ [EndTag n]"

definition keyTokens :: "string \<Rightarrow> xml_token list" where
  "keyTokens key = Chars [newline, tab] # textElement ''key'' key @ [Chars [newline, tab]]"

text \<open>What the decoder makes of \<^const>\<open>Generate\<close>'s text.\<close>

definition plistTokens :: "AgentSpec \<Rightarrow> xml_token list" where
  "plistTokens spec =
     [Markup, Chars [newline], Markup, Chars [newline], StartTag ''plist'', Chars [newline], StartTag ''dict''] @
     keyTokens ''Label'' @ textElement ''string'' (ag_Label spec) @
     keyTokens ''ProgramArguments'' @ [StartTag ''array'', Chars [newline, tab, tab]] @
     textElement ''string'' (ag_BinaryPath spec) @
     concat (map (\<lambda>a. Chars [newline, tab, tab] # textElement ''string'' a) (ag_Args spec)) @
     [Chars [newline, tab], EndTag ''array''] @
     keyTokens ''StartInterval'' @ textElement ''integer'' (show_int (ag_IntervalSeconds spec)) @
     keyTokens ''RunAtLoad'' @ [StartTag ''false'', EndTag ''false''] @
     keyTokens ''StandardOutPath'' @ textElement ''string'' (ag_StdoutPath spec) @
     keyTokens ''StandardErrorPath'' @ textElement ''string'' (ag_StderrPath spec) @
     [Chars [newline], EndTag ''dict'', Chars [newline], EndTag ''plist'', Chars [newline]]"

lemma elementText_textElement [simp]:
  "elementText 0 (tl (textElement n s) @ ts) = Some (s, ts)"
  by (simp add: textElement_def)

lemma textElement_append [simp]:
  "textElement n s @ ts = StartTag n # (tl (textElement n s) @ ts)"
  by (simp add: textElement_def)

lemma readStringArray_arguments:
  "readStringArray (concat (map (\<lambda>a. Chars t # textElement ''string'' a) as) @ Chars u # EndTag ''array'' # ts) = Some (as, ts)"
  by (induction as) simp_all

lemma scan_plistTokens:
  assumes "elementInt (show_int (ag_IntervalSeconds spec)) = Some (ag_IntervalSeconds spec)"
  shows "scanPlist False (plistTokens spec) [] False zeroSpec = Inr spec"
proof -
  have "readStringArray (Chars t # StartTag ''string'' # tl (textElement ''string'' b) @
      concat (map (\<lambda>a. Chars t # textElement ''string'' a) as) @ Chars u # EndTag ''array'' # ts) = Some (b # as, ts)" for t u b as ts
    by (simp add: readStringArray_arguments)
  then show ?thesis
    using assms by (simp add: plistTokens_def keyTokens_def putText_def putArguments_def zeroSpec_def del: readStringArray.simps)
qed

text \<open>Reading a generated list back gives the agent it was generated from, as long as the decoder reads
  the text as its tokens and the interval is a machine integer.\<close>

lemma parse_show_int:
  assumes "- (2 ^ 63) \<le> i" and "i < 2 ^ 63"
  shows "parse_int64 (show_int i) = Some i"
proof -
  have first: "hd (show_nat n) \<noteq> CHR ''-'' \<and> hd (show_nat n) \<noteq> CHR ''+''" for n
    using show_nat_digits [of n] show_nat_nonempty [of n] by (cases "show_nat n") (auto simp: is_digit_char_def)
  have sign: "split_sign (show_nat n) = (False, show_nat n)" for n
    using first [of n] show_nat_nonempty [of n] by (cases "show_nat n") (auto simp: split_sign_def)
  have "split_sign (CHR ''-'' # ds) = (True, ds)" for ds by (simp add: split_sign_def)
  with sign assms show ?thesis by (auto simp: parse_int64_def show_int_def show_nat_digits show_nat_nonempty)
qed

lemma trim_left_keeps: "s \<noteq> [] \<Longrightarrow> (\<And>p. p \<in> set spaces \<Longrightarrow> hd p \<noteq> hd s) \<Longrightarrow> trim_left spaces s = s"
  using trim_left_stop [of spaces "hd s" "tl s"] by simp

lemma trimSpace_show_int [simp]: "trimSpace (show_int i) = show_int i"
proof -
  have digit: "list_all (\<lambda>p. hd p \<noteq> c \<and> last p \<noteq> c) whitespace" if "is_digit_char c \<or> c = CHR ''-''" for c
    using that by (auto simp: whitespace_def is_digit_char_def)
  have "show_nat n \<noteq> [] \<and> is_digit_char (hd (show_nat n)) \<and> is_digit_char (last (show_nat n))" for n
    using show_nat_digits [of n] show_nat_nonempty [of n] by (simp add: list_all_iff)
  then have ends: "(is_digit_char (hd (show_int i)) \<or> hd (show_int i) = CHR ''-'') \<and> is_digit_char (last (show_int i)) \<and> show_int i \<noteq> []"
    by (simp add: show_int_def)
  then have "trim_left whitespace (show_int i) = show_int i"
    using digit [of "hd (show_int i)"] ends by (intro trim_left_keeps) (auto simp: list_all_iff)
  moreover have "trim_left (map rev whitespace) (rev (show_int i)) = rev (show_int i)"
    using digit [of "last (show_int i)"] ends by (intro trim_left_keeps) (auto simp: list_all_iff hd_rev)
  ultimately show ?thesis by (simp add: trimSpace_def)
qed

lemma inspect_generated:
  assumes "xmlTokens (Generate spec) = (plistTokens spec, False)" and "ho_read h path s = Some (Generate spec)"
    and "- (2 ^ 63) \<le> ag_IntervalSeconds spec" and "ag_IntervalSeconds spec < 2 ^ 63"
  shows "Inspect xmlTokens h path s = Inr spec"
proof -
  have "elementInt (show_int (ag_IntervalSeconds spec)) = Some (ag_IntervalSeconds spec)"
    using parse_show_int [OF assms(3,4)] by (simp add: elementInt_def) (simp add: show_int_def show_nat_nonempty)
  with assms(1,2) show ?thesis by (simp add: Inspect_def parsePlistDict_def scan_plistTokens)
qed

end
