(* ===== verification/Keep_Alive.thy ===== *)
theory Keep_Alive
  imports Launch_Plist Session_Source "HOL-Library.List_Lexorder" "HOL-Library.Char_ord"
begin

text \<open>
  Keeping sessions warm (\<^verbatim>\<open>cmd/grafanapi/session/refresh.go\<close> and \<^verbatim>\<open>keepalive.go\<close>, with
  \<^verbatim>\<open>GrafanaConfig.ParsedLiveWindow\<close>): which contexts are due, refreshing them one after another, and
  installing, inspecting and removing the agent that does so on a schedule.

  The order in which Go ranges over the context map is an argument (\<open>keys\<close>). Times are nanoseconds
  from one origin. What the server answers to the rotation of a context and whether its TLS settings
  load are functions of the context's name, since a run refreshes each context at most once. What a
  command prints is a list of lines, without their wording.
\<close>

section \<open>Live windows\<close>

definition ParsedLiveWindow :: "clock_lib \<Rightarrow> GrafanaConfig \<Rightarrow> duration_err + int option" where
  "ParsedLiveWindow C g =
     (if gr_LiveWindow g = [] then Inr None
      else case ParseWithDays C (gr_LiveWindow g) of Inl e \<Rightarrow> Inl e
      | Inr window \<Rightarrow> if window < MinBound \<or> window > MaxBound then Inl OutsideBounds else Inr (Some window))"

definition sortedContextNames :: "string list \<Rightarrow> string list" where
  "sortedContextNames keys = sort keys"

definition forEachLiveWindowContext ::
  "clock_lib \<Rightarrow> string list \<Rightarrow> Config \<Rightarrow> (string \<Rightarrow> duration_err \<Rightarrow> 'a \<Rightarrow> 'a) \<Rightarrow>
   (string \<Rightarrow> Context \<Rightarrow> int \<Rightarrow> 'a \<Rightarrow> 'a) \<Rightarrow> 'a \<Rightarrow> 'a" where
  "forEachLiveWindowContext C keys cfg warn fn st =
     fold (\<lambda>name st.
       case cf_Contexts cfg name of None \<Rightarrow> st
       | Some ctx \<Rightarrow>
           (case cx_Grafana ctx of None \<Rightarrow> st
            | Some g \<Rightarrow>
                (case ParsedLiveWindow C g of
                   Inl e \<Rightarrow> warn name e st
                 | Inr None \<Rightarrow> st
                 | Inr (Some window) \<Rightarrow> fn name ctx window st)))
       (sortedContextNames keys) st"

datatype warning = InvalidWindow string duration_err | NoRotationTime string cred_err

text \<open>\<^verbatim>\<open>Time.Sub\<close> saturates.\<close>

definition timeSub :: "int \<Rightarrow> int \<Rightarrow> int" where
  "timeSub t u = max (- (2 ^ 63)) (min (2 ^ 63 - 1) (t - u))"

definition dueContexts ::
  "clock_lib \<Rightarrow> string list \<Rightarrow> Config \<Rightarrow> int \<Rightarrow> (string \<Rightarrow> cred_err + int) \<Rightarrow> Context list \<times> warning list" where
  "dueContexts C keys cfg now modAt =
     forEachLiveWindowContext C keys cfg
       (\<lambda>name e (due, warnings). (due, warnings @ [InvalidWindow name e]))
       (\<lambda>name ctx window (due, warnings).
          case modAt (Account name) of
            Inl e \<Rightarrow> (due, if e \<noteq> ItemNotFound then warnings @ [NoRotationTime name e] else warnings)
          | Inr lastRotation \<Rightarrow> (if timeSub now lastRotation \<ge> window then due @ [ctx] else due, warnings))
       ([], [])"

definition minLiveWindowAcrossContexts :: "clock_lib \<Rightarrow> string list \<Rightarrow> Config \<Rightarrow> int \<times> bool \<times> warning list" where
  "minLiveWindowAcrossContexts C keys cfg =
     forEachLiveWindowContext C keys cfg
       (\<lambda>name e (minWindow, found, warnings). (minWindow, found, warnings @ [InvalidWindow name e]))
       (\<lambda>name ctx window (minWindow, found, warnings).
          if \<not> found \<or> window < minWindow then (window, True, warnings) else (minWindow, found, warnings))
       (0, False, [])"

section \<open>Refreshing\<close>

datatype refreshStatus = refreshSucceeded | refreshSkippedNoCookie | refreshAuthRejected | refreshErrored

datatype refresh_err = Unresolved cred_err | NotRotated rotate_err

record refreshOutcome =
  oc_name :: string
  oc_status :: refreshStatus
  oc_err :: "refresh_err option"

record refresh_env =
  re_net :: netlib
  re_json :: json_codec
  re_tls_ok :: "string \<Rightarrow> bool"
  re_answer :: "string \<Rightarrow> rotate_reply"
  re_allow_legacy :: bool

text \<open>\<^verbatim>\<open>SessionSource.Refresh\<close> of a source nobody else uses; the general case is the machine of
  \<^theory_text>\<open>Session_Source\<close>.\<close>

definition Refresh ::
  "session_setup \<Rightarrow> rotate_reply \<Rightarrow> bool \<Rightarrow> (string \<rightharpoonup> string) \<Rightarrow> (rotate_err + string) \<times> (string \<rightharpoonup> string)" where
  "Refresh S answer works items =
     (case doRotate S (so_cookie (st_source S)) answer of
        Inl e \<Rightarrow> (Inl e, items)
      | Inr cookie \<Rightarrow>
          (Inr cookie,
           case EncodeCredential (st_json S) \<lparr>cr_Cookie = cookie, cr_Origin = so_origin (st_source S)\<rparr> of
             Inl e \<Rightarrow> items
           | Inr secret \<Rightarrow> if works then items(so_account (st_source S) \<mapsto> secret) else items))"

definition refreshContext :: "refresh_env \<Rightarrow> keychain \<Rightarrow> Context \<Rightarrow> refreshOutcome \<times> keychain" where
  "refreshContext E kc ctx =
     (let outcome = (\<lambda>status e. \<lparr>oc_name = cx_Name ctx, oc_status = status, oc_err = e\<rparr>) in
      case ResolveContextSessionCookie (re_net E) (re_json E) kc ctx (re_allow_legacy E) of
        (Inl e, kc', ctx') \<Rightarrow> (outcome refreshErrored (Some (Unresolved e)), kc')
      | (Inr b, kc', ctx') \<Rightarrow>
          (case Option.bind (cx_Grafana ctx') gr_Session of
             None \<Rightarrow> (outcome refreshSkippedNoCookie None, kc')
           | Some source \<Rightarrow>
               let S = \<lparr>st_net = re_net E, st_json = re_json E, st_source = source,
                 st_tls_ok = re_tls_ok E (cx_Name ctx), st_jobs = [ForceRefresh]\<rparr> in
               (case Refresh S (re_answer E (cx_Name ctx)) (kc_set_ok kc') (kc_items kc') of (result, items) \<Rightarrow>
                 (case result of
                    Inl e \<Rightarrow> outcome (if e = RotateUnauthorized then refreshAuthRejected else refreshErrored) (Some (NotRotated e))
                  | Inr cookie \<Rightarrow> outcome refreshSucceeded None,
                  kc'\<lparr>kc_items := items\<rparr>))))"

datatype line =
    LineRefreshed string
  | LineRefused string "refresh_err option"
  | LineWarning warning
  | LineNothingDue

datatype command_err =
    ExclusiveFlags
  | NoContextGiven
  | UnknownContext string
  | NoStoredSession string
  | DeadSession  \<comment> \<open>an API error 401, exit code 2\<close>
  | RefreshFailures "(string \<times> refresh_err option) list"

text \<open>The keychain, the lines printed, whether a rotation was rejected and the other failures.\<close>

definition refreshOne ::
  "refresh_env \<Rightarrow> keychain \<times> line list \<times> bool \<times> (string \<times> refresh_err option) list \<Rightarrow> Context \<Rightarrow>
   keychain \<times> line list \<times> bool \<times> (string \<times> refresh_err option) list" where
  "refreshOne E st ctx =
     (case st of (kc, lines, authRejected, errs) \<Rightarrow>
      case refreshContext E kc ctx of (outcome, kc') \<Rightarrow>
        (case oc_status outcome of
           refreshSucceeded \<Rightarrow> (kc', lines @ [LineRefreshed (oc_name outcome)], authRejected, errs)
         | refreshSkippedNoCookie \<Rightarrow> (kc', lines, authRejected, errs)
         | refreshAuthRejected \<Rightarrow> (kc', lines @ [LineRefused (oc_name outcome) (oc_err outcome)], True, errs)
         | refreshErrored \<Rightarrow>
             (kc', lines @ [LineRefused (oc_name outcome) (oc_err outcome)], authRejected,
              errs @ [(oc_name outcome, oc_err outcome)])))"

definition refreshAll :: "refresh_env \<Rightarrow> keychain \<Rightarrow> Context list \<Rightarrow> command_err option \<times> line list \<times> keychain" where
  "refreshAll E kc contexts =
     (case foldl (refreshOne E) (kc, [], False, []) contexts of (kc', lines, authRejected, errs) \<Rightarrow>
        (if authRejected then Some DeadSession else if errs \<noteq> [] then Some (RefreshFailures errs) else None,
         lines, kc'))"

definition runSingle ::
  "refresh_env \<Rightarrow> keychain \<Rightarrow> Config \<Rightarrow> string \<Rightarrow> command_err option \<times> line list \<times> keychain" where
  "runSingle E kc cfg contextName =
     (let name = (if contextName = [] then cf_CurrentContext cfg else contextName) in
      if name = [] then (Some NoContextGiven, [], kc)
      else case cf_Contexts cfg name of None \<Rightarrow> (Some (UnknownContext name), [], kc)
      | Some ctx \<Rightarrow>
          (case refreshContext E kc ctx of (outcome, kc') \<Rightarrow>
             (case oc_status outcome of
                refreshSucceeded \<Rightarrow> (None, [LineRefreshed (oc_name outcome)], kc')
              | refreshSkippedNoCookie \<Rightarrow> (Some (NoStoredSession name), [], kc')
              | refreshAuthRejected \<Rightarrow> (Some DeadSession, [], kc')
              | refreshErrored \<Rightarrow> (Some (RefreshFailures [(name, oc_err outcome)]), [], kc'))))"

definition runAll ::
  "refresh_env \<Rightarrow> keychain \<Rightarrow> string list \<Rightarrow> Config \<Rightarrow> command_err option \<times> line list \<times> keychain" where
  "runAll E kc keys cfg = refreshAll E kc (present (map (cf_Contexts cfg) (sortedContextNames keys)))"

definition runDue ::
  "refresh_env \<Rightarrow> clock_lib \<Rightarrow> keychain \<Rightarrow> string list \<Rightarrow> Config \<Rightarrow> int \<Rightarrow> (string \<Rightarrow> cred_err + int) \<Rightarrow>
   command_err option \<times> line list \<times> keychain" where
  "runDue E C kc keys cfg now modAt =
     (case dueContexts C keys cfg now modAt of (due, warnings) \<Rightarrow>
        if due = [] then (None, map LineWarning warnings @ [LineNothingDue], kc)
        else case refreshAll E kc due of (result, lines, kc') \<Rightarrow> (result, map LineWarning warnings @ lines, kc'))"

definition refreshCommand ::
  "refresh_env \<Rightarrow> clock_lib \<Rightarrow> keychain \<Rightarrow> string list \<Rightarrow> Config \<Rightarrow> int \<Rightarrow> (string \<Rightarrow> cred_err + int) \<Rightarrow>
   bool \<Rightarrow> bool \<Rightarrow> string \<Rightarrow> command_err option \<times> line list \<times> keychain" where
  "refreshCommand E C kc keys cfg now modAt allFlag due contextFlag =
     (if allFlag \<and> due \<or> (allFlag \<or> due) \<and> contextFlag \<noteq> [] then (Some ExclusiveFlags, [], kc)
      else if due then runDue E C kc keys cfg now modAt
      else if allFlag then runAll E kc keys cfg
      else runSingle E kc cfg contextFlag)"

end
