(* ===== verification/Keep_Alive_Agent.thy ===== *)
theory Keep_Alive_Agent
  imports Keep_Alive
begin

text \<open>
  Installing, inspecting and removing the keep-alive agent (\<^verbatim>\<open>cmd/grafanapi/session/keepalive.go\<close>)
  on a \<^typ>\<open>'s host\<close>. What a command prints is a list of lines, without their wording; the text codec
  of the status report is not modelled.
\<close>

section \<open>Installing\<close>

definition derivedIntervalMin :: int where "derivedIntervalMin = 15 * int Minute"
definition derivedIntervalMax :: int where "derivedIntervalMax = 12 * int Hour"
definition logTailLines :: nat where "logTailLines = 10"

definition deriveInterval :: "int \<Rightarrow> int" where
  "deriveInterval minWindow =
     (let interval = (if minWindow < 0 then - (- minWindow div 2) else minWindow div 2) in
      if interval < derivedIntervalMin then derivedIntervalMin
      else if interval > derivedIntervalMax then derivedIntervalMax
      else interval)"

datatype plist_write_err = NoDirectory string | NotCreated string | NotGenerated | NotClosed string

definition writePlist :: "'s host \<Rightarrow> AgentSpec \<Rightarrow> 's \<Rightarrow> plist_write_err option \<times> 's" where
  "writePlist h spec s =
     (case ho_mkdir h (LaunchAgentsDir h) s of (agentsOk, s1) \<Rightarrow>
      if \<not> agentsOk then (Some (NoDirectory (LaunchAgentsDir h)), s1)
      else case ho_mkdir h (LogDir h) s1 of (logsOk, s2) \<Rightarrow>
      if \<not> logsOk then (Some (NoDirectory (LogDir h)), s2)
      else case ho_create h (PlistPath h) s2 of (created, s3) \<Rightarrow>
      if \<not> created then (Some (NotCreated (PlistPath h)), s3)
      else case ho_append h (PlistPath h) (Generate spec) s3 of (generated, s4) \<Rightarrow>
           case ho_close h (PlistPath h) s4 of (closeOk, s5) \<Rightarrow>
             (if \<not> generated then Some NotGenerated
              else if \<not> closeOk then Some (NotClosed (PlistPath h)) else None, s5))"

datatype agent_line =
    AgentWarning warning
  | OldInstanceLoaded launch_err
  | OldInstanceUnknown launch_err
  | NotBootstrapped launch_err
  | Installed int
  | Removed

datatype agent_err =
    NotOptedIn
  | BadInterval duration_err
  | NoBinary binary_err
  | NotWritten plist_write_err
  | StillLoaded launch_err
  | MaybeLoaded launch_err
  | PlistNotRemoved

text \<open>The interval an install uses: the flag if it is set, or the derived one.\<close>

definition effectiveInterval :: "clock_lib \<Rightarrow> int \<Rightarrow> string \<Rightarrow> duration_err + int" where
  "effectiveInterval C minWindow interval =
     (if interval = [] then Inr (deriveInterval minWindow)
      else case ParseWithDays C interval of Inl e \<Rightarrow> Inl e
      | Inr parsed \<Rightarrow> (case ValidateInterval parsed of Some e \<Rightarrow> Inl e | None \<Rightarrow> Inr parsed))"

text \<open>Booting out: nothing to report, or the failure and whether the agent is still loaded.\<close>

definition bootOutOld :: "'s host \<Rightarrow> 's \<Rightarrow> (launch_err \<times> LoadState) option \<times> 's" where
  "bootOutOld h s =
     (case Bootout h (UserServiceTarget h) s of
        (None, s1) \<Rightarrow> (None, s1)
      | (Some e, s1) \<Rightarrow>
          if e = NotLoaded then (None, s1)
          else case ClassifyLoadState h (UserServiceTarget h) s1 of (load, s2) \<Rightarrow> (Some (e, load), s2))"

definition oldInstanceLines :: "(launch_err \<times> LoadState) option \<Rightarrow> agent_line list" where
  "oldInstanceLines result =
     (case result of
        Some (e, LoadStateLoaded) \<Rightarrow> [OldInstanceLoaded e]
      | Some (e, LoadStateInconclusive) \<Rightarrow> [OldInstanceUnknown e]
      | _ \<Rightarrow> [])"

definition installKeepAlive ::
  "clock_lib \<Rightarrow> 's host \<Rightarrow> string list \<Rightarrow> Config \<Rightarrow> string \<Rightarrow> 's \<Rightarrow> agent_err option \<times> agent_line list \<times> 's"
where
  "installKeepAlive C h keys cfg interval s =
     (case minLiveWindowAcrossContexts C keys cfg of (minWindow, found, warnings) \<Rightarrow>
      let warned = map AgentWarning warnings in
      if \<not> found then (Some NotOptedIn, warned, s)
      else case effectiveInterval C minWindow interval of Inl e \<Rightarrow> (Some (BadInterval e), warned, s)
      | Inr d \<Rightarrow>
        (case ResolveBinaryPath h of Inl e \<Rightarrow> (Some (NoBinary e), warned, s)
         | Inr binary \<Rightarrow>
           (case writePlist h (DefaultAgentSpec h binary d) s of
              (Some e, s1) \<Rightarrow> (Some (NotWritten e), warned, s1)
            | (None, s1) \<Rightarrow>
              (case bootOutOld h s1 of (result, s2) \<Rightarrow>
                case Bootstrap h (UserDomainTarget h) (PlistPath h) s2 of
                  (Some e, s3) \<Rightarrow> (None, warned @ oldInstanceLines result @ [NotBootstrapped e], s3)
                | (None, s3) \<Rightarrow> (None, warned @ oldInstanceLines result @ [Installed d], s3)))))"

section \<open>Removing\<close>

definition keepaliveUninstall :: "'s host \<Rightarrow> 's \<Rightarrow> agent_err option \<times> agent_line list \<times> 's" where
  "keepaliveUninstall h s =
     (case bootOutOld h s of
        (Some (e, LoadStateLoaded), s1) \<Rightarrow> (Some (StillLoaded e), [], s1)
      | (Some (e, LoadStateInconclusive), s1) \<Rightarrow> (Some (MaybeLoaded e), [], s1)
      | (result, s1) \<Rightarrow>
          (case ho_remove h (PlistPath h) s1 of
             (RemoveFailed, s2) \<Rightarrow> (Some PlistNotRemoved, [], s2)
           | (removed, s2) \<Rightarrow> (None, [Removed], s2)))"

section \<open>Status\<close>

record statusReport =
  sr_Installed :: bool
  sr_Loaded :: bool
  sr_IntervalSeconds :: int
  sr_Binary :: string
  sr_PlistPath :: string
  sr_LogPath :: string
  sr_LogTail :: "string list"

text \<open>\<^verbatim>\<open>bufio.ScanLines\<close>: lines without their ends, a last line only if it is not empty, and no more
  after one that does not fit the buffer.\<close>

definition maxScanTokenSize :: nat where "maxScanTokenSize = 65536"

definition dropCarriage :: "string \<Rightarrow> string" where
  "dropCarriage l = (if l \<noteq> [] \<and> last l = CHR 0x0D then butlast l else l)"

definition scanLines :: "string \<Rightarrow> string list" where
  "scanLines s =
     (let ls = split_on (\<lambda>c. c = newline) s;
          ls' = (if last ls = [] then butlast ls else ls)
      in map dropCarriage (takeWhile (\<lambda>l. length l < maxScanTokenSize) ls'))"

definition keepLast :: "nat \<Rightarrow> string list \<Rightarrow> string \<Rightarrow> string list" where
  "keepLast n kept l = (let ls = kept @ [l] in if length ls > n then tl ls else ls)"

definition tailLog :: "'s host \<Rightarrow> string \<Rightarrow> nat \<Rightarrow> 's \<Rightarrow> string list" where
  "tailLog h path n s =
     (case ho_read h path s of None \<Rightarrow> [] | Some logged \<Rightarrow> foldl (keepLast n) [] (scanLines logged))"

definition gatherStatus :: "(string \<Rightarrow> xml_token list \<times> bool) \<Rightarrow> 's host \<Rightarrow> 's \<Rightarrow> statusReport \<times> 's" where
  "gatherStatus xmlTokens h s =
     (let installed = ho_stat h (PlistPath h) s;
          spec = (if installed
            then (case Inspect xmlTokens h (PlistPath h) s of Inl e \<Rightarrow> zeroSpec | Inr spec \<Rightarrow> spec)
            else zeroSpec)
      in case Print h (UserServiceTarget h) s of (printed, s') \<Rightarrow>
        (\<lparr>sr_Installed = installed, sr_Loaded = isOk printed, sr_IntervalSeconds = ag_IntervalSeconds spec,
          sr_Binary = ag_BinaryPath spec, sr_PlistPath = PlistPath h, sr_LogPath = LogPath h,
          sr_LogTail = tailLog h (LogPath h) logTailLines s'\<rparr>, s'))"

lemma foldl_keepLast:
  "length kept \<le> n \<Longrightarrow> foldl (keepLast n) kept ls = drop (length (kept @ ls) - n) (kept @ ls)"
proof (induction ls arbitrary: kept)
  case (Cons l ls)
  show ?case
  proof (cases "length kept < n")
    case True
    with Cons.IH [of "kept @ [l]"] show ?thesis by (simp add: keepLast_def)
  next
    case False
    with Cons.prems have n: "length kept = n" by simp
    show ?thesis
    proof (cases kept)
      case Nil
      with n Cons.IH [of "[]"] show ?thesis by (simp add: keepLast_def)
    next
      case (Cons k ks)
      with n Cons.IH [of "ks @ [l]"] show ?thesis by (simp add: keepLast_def Suc_diff_le)
    qed
  qed
qed simp

text \<open>The tail is the last lines of the log, all of them when it is short.\<close>

lemma tailLog_last:
  "ho_read h path s = Some logged \<Longrightarrow> tailLog h path n s = drop (length (scanLines logged) - n) (scanLines logged)"
  by (simp add: tailLog_def foldl_keepLast)

end
