(* ===== verification/Keep_Alive_Properties.thy ===== *)
theory Keep_Alive_Properties
  imports Keep_Alive_Agent Session_Safety
begin

text \<open>
  What the scheduled refresh does: which contexts are due and that each is refreshed on its own, that
  the installed agent wakes often enough for every live window, and that removing it is honest about
  whether it is gone.
\<close>

section \<open>Which contexts are due\<close>

definition windowOf :: "clock_lib \<Rightarrow> Config \<Rightarrow> string \<Rightarrow> duration_err + int option" where
  "windowOf C cfg name =
     (case cf_Contexts cfg name of None \<Rightarrow> Inr None
      | Some ctx \<Rightarrow> (case cx_Grafana ctx of None \<Rightarrow> Inr None | Some g \<Rightarrow> ParsedLiveWindow C g))"

definition isDue :: "clock_lib \<Rightarrow> Config \<Rightarrow> int \<Rightarrow> (string \<Rightarrow> cred_err + int) \<Rightarrow> string \<Rightarrow> bool" where
  "isDue C cfg now modAt name =
     (case (windowOf C cfg name, modAt (Account name)) of
        (Inr (Some window), Inr lastRotation) \<Rightarrow> window \<le> timeSub now lastRotation
      | _ \<Rightarrow> False)"

definition warningsOf :: "clock_lib \<Rightarrow> Config \<Rightarrow> (string \<Rightarrow> cred_err + int) \<Rightarrow> string \<Rightarrow> warning list" where
  "warningsOf C cfg modAt name =
     (case (windowOf C cfg name, modAt (Account name)) of
        (Inl e, _) \<Rightarrow> [InvalidWindow name e]
      | (Inr (Some window), Inl e) \<Rightarrow> if e = ItemNotFound then [] else [NoRotationTime name e]
      | _ \<Rightarrow> [])"

lemma forEach_windowOf:
  "forEachLiveWindowContext C keys cfg warn fn =
     fold (\<lambda>name st. case windowOf C cfg name of
         Inl e \<Rightarrow> warn name e st
       | Inr None \<Rightarrow> st
       | Inr (Some window) \<Rightarrow> fn name (the (cf_Contexts cfg name)) window st) (sortedContextNames keys)"
  unfolding forEachLiveWindowContext_def
  by (intro ext fold_cong) (auto simp: windowOf_def split: option.splits sum.splits)

lemma dueContexts_eq:
  "dueContexts C keys cfg now modAt =
     (map (\<lambda>name. the (cf_Contexts cfg name)) (filter (isDue C cfg now modAt) (sortedContextNames keys)),
      concat (map (warningsOf C cfg modAt) (sortedContextNames keys)))"
proof -
  have "fold (\<lambda>name st. case windowOf C cfg name of
         Inl e \<Rightarrow> (case st of (due, warnings) \<Rightarrow> (due, warnings @ [InvalidWindow name e]))
       | Inr None \<Rightarrow> st
       | Inr (Some window) \<Rightarrow> (case st of (due, warnings) \<Rightarrow>
           case modAt (Account name) of
             Inl e \<Rightarrow> (due, if e \<noteq> ItemNotFound then warnings @ [NoRotationTime name e] else warnings)
           | Inr lastRotation \<Rightarrow>
               (if timeSub now lastRotation \<ge> window then due @ [the (cf_Contexts cfg name)] else due, warnings))) names (due, ws) =
     (due @ map (\<lambda>name. the (cf_Contexts cfg name)) (filter (isDue C cfg now modAt) names),
      ws @ concat (map (warningsOf C cfg modAt) names))" for names due ws
    by (induction names arbitrary: due ws)
      (auto simp: isDue_def warningsOf_def split: sum.splits option.splits)
  from this [of "sortedContextNames keys" "[]" "[]"] show ?thesis
    unfolding dueContexts_def forEach_windowOf by simp
qed

lemma due_exists: "isDue C cfg now modAt name \<Longrightarrow> \<exists>ctx. cf_Contexts cfg name = Some ctx"
  by (auto simp: isDue_def windowOf_def split: option.splits sum.splits)

section \<open>Every context on its own\<close>

lemma Account_inj [simp]: "Account a = Account b \<longleftrightarrow> a = b"
  by (simp add: Account_def)

text \<open>The keychains that differ from one another only in the items of some accounts.\<close>

definition same_but :: "string set \<Rightarrow> keychain \<Rightarrow> keychain \<Rightarrow> bool" where
  "same_but accounts kc kc' \<longleftrightarrow>
     kc_get_error kc' = kc_get_error kc \<and> kc_set_ok kc' = kc_set_ok kc \<and>
     (\<forall>a. a \<notin> accounts \<longrightarrow> kc_items kc' a = kc_items kc a)"

lemma resolve_local:
  assumes "ResolveContextSessionCookie N J kc ctx allow = (result, kc', ctx')"
  shows "same_but {Account (cx_Name ctx)} kc kc'"
    and "\<And>g source. cx_Grafana ctx' = Some g \<Longrightarrow> result = Inr b \<Longrightarrow> sb_State b \<noteq> BindingNone \<Longrightarrow>
      gr_Session g = Some source \<Longrightarrow> so_account source = Account (cx_Name ctx)"
  using assms
  by (auto simp: ResolveContextSessionCookie_def bindLegacySession_def storeSet_def same_but_def NewSessionSource_def Let_def
      split: option.splits sum.splits if_splits)

definition loaded_context :: "string \<Rightarrow> Context \<Rightarrow> bool" where
  "loaded_context name ctx \<longleftrightarrow>
     cx_Name ctx = name \<and> (case cx_Grafana ctx of None \<Rightarrow> True | Some g \<Rightarrow> gr_Session g = None)"

text \<open>A configuration as it was loaded: every context knows its name and has no session yet.\<close>

definition loaded_config :: "Config \<Rightarrow> bool" where
  "loaded_config cfg \<longleftrightarrow> (\<forall>name ctx. cf_Contexts cfg name = Some ctx \<longrightarrow> loaded_context name ctx)"

definition agree_on :: "string \<Rightarrow> keychain \<Rightarrow> keychain \<Rightarrow> bool" where
  "agree_on account kc kc' \<longleftrightarrow>
     kc_get_error kc' = kc_get_error kc \<and> kc_set_ok kc' = kc_set_ok kc \<and> kc_items kc' account = kc_items kc account"

lemma resolve_agree:
  assumes "agree_on (Account (cx_Name ctx)) kc1 kc2"
    and "ResolveContextSessionCookie N J kc1 ctx allow = (r1, kc1', ctx1)"
    and "ResolveContextSessionCookie N J kc2 ctx allow = (r2, kc2', ctx2)"
  shows "r1 = r2 \<and> ctx1 = ctx2 \<and> agree_on (Account (cx_Name ctx)) kc1' kc2'"
proof -
  have "storeGet kc1 (Account (cx_Name ctx)) = storeGet kc2 (Account (cx_Name ctx))"
    using assms(1) unfolding agree_on_def storeGet_def by (elim conjE) (simp only:)
  with assms show ?thesis
    by (auto simp: ResolveContextSessionCookie_def bindLegacySession_def storeSet_def agree_on_def Let_def
        split: option.splits sum.splits if_splits)
qed

lemma resolve_account:
  assumes "ResolveContextSessionCookie N J kc ctx allow = (result, kc', ctx')" and "loaded_context name ctx"
    and "Option.bind (cx_Grafana ctx') gr_Session = Some source"
  shows "so_account source = Account name"
  using assms
  by (auto simp: ResolveContextSessionCookie_def loaded_context_def NewSessionSource_def Let_def bind_eq_Some_conv
      split: option.splits sum.splits if_splits)

lemma refresh_items:
  assumes "Refresh S answer works items = (result, items')" and "a \<noteq> so_account (st_source S)"
  shows "items' a = items a"
  using assms by (auto simp: Refresh_def split: sum.splits if_splits)

lemma refreshContext_local:
  assumes "loaded_context name ctx" and "refreshContext E kc ctx = (outcome, kc')"
  shows "same_but {Account name} kc kc'" and "oc_name outcome = name"
proof -
  have [simp]: "cx_Name ctx = name" using assms(1) by (simp add: loaded_context_def)
  obtain result kc1 ctx1 where r: "ResolveContextSessionCookie (re_net E) (re_json E) kc ctx (re_allow_legacy E) = (result, kc1, ctx1)"
    by (metis prod_cases3)
  have same: "same_but {Account name} kc kc1" using resolve_local(1) [OF r] by simp
  note outcomes = assms(2) [unfolded refreshContext_def Let_def r prod.case]
  show "oc_name outcome = name"
    using outcomes by (auto split: sum.splits option.splits prod.splits)
  show "same_but {Account name} kc kc'"
  proof (cases "isOk result \<and> Option.bind (cx_Grafana ctx1) gr_Session \<noteq> None")
    case False
    then have "kc' = kc1" using outcomes by (auto split: sum.splits option.splits prod.splits)
    with same show ?thesis by simp
  next
    case True
    then obtain b source where s: "result = Inr b" "Option.bind (cx_Grafana ctx1) gr_Session = Some source"
      by (cases result) auto
    from resolve_account [OF r assms(1) s(2)] have a: "so_account source = Account name" .
    from outcomes s obtain res items where "Refresh \<lparr>st_net = re_net E, st_json = re_json E, st_source = source,
          st_tls_ok = re_tls_ok E name, st_jobs = [ForceRefresh]\<rparr> (re_answer E name) (kc_set_ok kc1) (kc_items kc1) = (res, items)"
      and kc': "kc' = kc1\<lparr>kc_items := items\<rparr>"
      by (auto split: sum.splits prod.splits)
    from refresh_items [OF this(1)] a have "x \<noteq> Account name \<Longrightarrow> items x = kc_items kc1 x" for x by simp
    with same show ?thesis by (simp add: same_but_def kc')
  qed
qed

lemma Refresh_agree:
  assumes "items1 (so_account (st_source S)) = items2 (so_account (st_source S))"
  shows "fst (Refresh S answer works items1) = fst (Refresh S answer works items2) \<and>
    snd (Refresh S answer works items1) (so_account (st_source S)) = snd (Refresh S answer works items2) (so_account (st_source S))"
  using assms by (auto simp: Refresh_def split: sum.splits)

text \<open>What becomes of a context depends on its own item only.\<close>

lemma refreshContext_agree:
  assumes "loaded_context name ctx" and "agree_on (Account name) kc1 kc2"
  shows "fst (refreshContext E kc1 ctx) = fst (refreshContext E kc2 ctx)"
    and "kc_items (snd (refreshContext E kc1 ctx)) (Account name) = kc_items (snd (refreshContext E kc2 ctx)) (Account name)"
proof -
  have [simp]: "cx_Name ctx = name" using assms(1) by (simp add: loaded_context_def)
  obtain result kc1' ctx' where r1: "ResolveContextSessionCookie (re_net E) (re_json E) kc1 ctx (re_allow_legacy E) = (result, kc1', ctx')"
    by (metis prod_cases3)
  obtain result2 kc2' ctx2 where r2: "ResolveContextSessionCookie (re_net E) (re_json E) kc2 ctx (re_allow_legacy E) = (result2, kc2', ctx2)"
    by (metis prod_cases3)
  have eq: "result2 = result" "ctx2 = ctx'" "agree_on (Account name) kc1' kc2'"
    using resolve_agree [OF _ r1 r2] assms(2) by auto
  have "fst (refreshContext E kc1 ctx) = fst (refreshContext E kc2 ctx) \<and>
    kc_items (snd (refreshContext E kc1 ctx)) (Account name) = kc_items (snd (refreshContext E kc2 ctx)) (Account name)"
  proof (cases "isOk result \<and> Option.bind (cx_Grafana ctx') gr_Session \<noteq> None")
    case False
    then show ?thesis using eq(3)
      by (auto simp: refreshContext_def r1 r2 [unfolded eq] agree_on_def split: sum.splits option.splits)
  next
    case True
    then obtain b source where s: "result = Inr b" "Option.bind (cx_Grafana ctx') gr_Session = Some source"
      by (cases result) auto
    define S where "S = \<lparr>st_net = re_net E, st_json = re_json E, st_source = source,
          st_tls_ok = re_tls_ok E name, st_jobs = [ForceRefresh]\<rparr>"
    from resolve_account [OF r1 assms(1) s(2)] have a: "so_account (st_source S) = Account name" by (simp add: S_def)
    have "kc_items kc1' (Account name) = kc_items kc2' (Account name)" "kc_set_ok kc2' = kc_set_ok kc1'"
      using eq(3) by (simp_all add: agree_on_def)
    with Refresh_agree [of "kc_items kc1'" S "kc_items kc2'" "re_answer E name" "kc_set_ok kc1'"] a show ?thesis
      by (simp add: refreshContext_def r1 r2 [unfolded eq] s S_def [symmetric] case_prod_beta)
  qed
  then show "fst (refreshContext E kc1 ctx) = fst (refreshContext E kc2 ctx)"
    and "kc_items (snd (refreshContext E kc1 ctx)) (Account name) = kc_items (snd (refreshContext E kc2 ctx)) (Account name)"
    by simp_all
qed

text \<open>\<^const>\<open>Refresh\<close> is what the rotation machine does when one goroutine has the source to itself.\<close>

lemma Refresh_machine:
  assumes "st_jobs S = [ForceRefresh]"
  shows "\<exists>es w. steps S es (initial S items) = Some w \<and>
    sw_pc w 0 = Finished (Refreshed (fst (Refresh S answer works items))) \<and> sw_items w = snd (Refresh S answer works items)"
proof (cases "doRotate S (so_cookie (st_source S)) answer")
  case (Inl e)
  show ?thesis
    by (rule exI [of _ "[(0, Tau), (0, Tau), (0, Rot answer), (0, Tau), (0, Tau)]"])
      (auto simp: assms Inl Refresh_def advance_def begin_job_def Current_def enterRotate_def runRotate_def publish_def closeCall_def
        afterRotate_def initial_def goto_def Let_def split: sum.splits)
next
  case (Inr cookie)
  show ?thesis
    by (rule exI [of _ "[(0, Tau), (0, Tau), (0, Rot answer), (0, Tau), (0, Keep works), (0, Tau)]"])
      (auto simp: assms Inr Refresh_def advance_def begin_job_def Current_def enterRotate_def runRotate_def publish_def closeCall_def
        persist_def afterRotate_def initial_def goto_def Let_def split: sum.splits)
qed

definition outcomeLines :: "refreshOutcome \<Rightarrow> line list" where
  "outcomeLines r =
     (case oc_status r of
        refreshSucceeded \<Rightarrow> [LineRefreshed (oc_name r)]
      | refreshSkippedNoCookie \<Rightarrow> []
      | _ \<Rightarrow> [LineRefused (oc_name r) (oc_err r)])"

definition failures :: "refreshOutcome list \<Rightarrow> (string \<times> refresh_err option) list" where
  "failures rs = map (\<lambda>r. (oc_name r, oc_err r)) (filter (\<lambda>r. oc_status r = refreshErrored) rs)"

definition verdict :: "refreshOutcome list \<Rightarrow> command_err option" where
  "verdict rs =
     (if \<exists>r \<in> set rs. oc_status r = refreshAuthRejected then Some DeadSession
      else if failures rs \<noteq> [] then Some (RefreshFailures (failures rs)) else None)"

abbreviation alone :: "refresh_env \<Rightarrow> keychain \<Rightarrow> Context \<Rightarrow> refreshOutcome" where
  "alone E kc ctx \<equiv> fst (refreshContext E kc ctx)"

abbreviation item :: "keychain \<Rightarrow> Context \<Rightarrow> string option" where
  "item kc ctx \<equiv> kc_items kc (Account (cx_Name ctx))"

lemma refreshOne_eq:
  "refreshOne E (kc, lines, rejected, errs) ctx =
     (snd (refreshContext E kc ctx), lines @ outcomeLines (alone E kc ctx),
      rejected \<or> oc_status (alone E kc ctx) = refreshAuthRejected, errs @ failures [alone E kc ctx])"
  by (auto simp: refreshOne_def outcomeLines_def failures_def case_prod_beta split: refreshStatus.splits)

lemma failures_Cons: "failures (r # rs) = failures [r] @ failures rs"
  by (simp add: failures_def)

lemma same_but_agree: "same_but A kc kc' \<Longrightarrow> a \<notin> A \<Longrightarrow> agree_on a kc kc'"
  by (simp add: same_but_def agree_on_def)

text \<open>Refreshing contexts in a row: each comes out as it would alone.\<close>

lemma refreshAll_fold:
  assumes "distinct (map cx_Name ctxs)" and "\<forall>ctx \<in> set ctxs. loaded_context (cx_Name ctx) ctx"
    and "foldl (refreshOne E) (kc, lines, rejected, errs) ctxs = (kc', lines', rejected', errs')"
  shows "lines' = lines @ concat (map (\<lambda>ctx. outcomeLines (alone E kc ctx)) ctxs) \<and>
    (rejected' \<longleftrightarrow> rejected \<or> (\<exists>ctx \<in> set ctxs. oc_status (alone E kc ctx) = refreshAuthRejected)) \<and>
    errs' = errs @ failures (map (alone E kc) ctxs) \<and>
    (\<forall>ctx \<in> set ctxs. item kc' ctx = item (snd (refreshContext E kc ctx)) ctx) \<and>
    same_but ((\<lambda>ctx. Account (cx_Name ctx)) ` set ctxs) kc kc'"
  using assms
proof (induction ctxs arbitrary: kc lines rejected errs)
  case Nil
  then show ?case by (simp add: failures_def same_but_def)
next
  case (Cons ctx ctxs)
  obtain outcome kc1 where r: "refreshContext E kc ctx = (outcome, kc1)" by fastforce
  have loaded: "loaded_context (cx_Name ctx) ctx" using Cons.prems(2) by simp
  have local: "same_but {Account (cx_Name ctx)} kc kc1" using refreshContext_local(1) [OF loaded r] .
  have agree: "agree_on (Account (cx_Name c)) kc kc1" if "c \<in> set ctxs" for c
  proof -
    have "cx_Name c \<noteq> cx_Name ctx" using Cons.prems(1) that by (metis distinct.simps(2) image_eqI list.simps(9) list.set_map)
    then show ?thesis using same_but_agree [OF local, of "Account (cx_Name c)"] by simp
  qed
  have later: "alone E kc1 c = alone E kc c" "item (snd (refreshContext E kc1 c)) c = item (snd (refreshContext E kc c)) c"
    if "c \<in> set ctxs" for c
    using refreshContext_agree [OF _ agree [OF that], of c E] Cons.prems(2) that by simp_all
  have fold: "foldl (refreshOne E) (kc1, lines @ outcomeLines outcome, rejected \<or> oc_status outcome = refreshAuthRejected,
      errs @ failures [outcome]) ctxs = (kc', lines', rejected', errs')"
    using Cons.prems(3) by (simp add: refreshOne_eq r)
  have map_later: "map (alone E kc1) ctxs = map (alone E kc) ctxs"
    "concat (map (\<lambda>c. outcomeLines (alone E kc1 c)) ctxs) = concat (map (\<lambda>c. outcomeLines (alone E kc c)) ctxs)"
    using later(1) by (auto intro!: arg_cong [of _ _ concat])
  note IH = Cons.IH [OF _ _ fold, unfolded map_later]
  have IH': "lines' = (lines @ outcomeLines outcome) @ concat (map (\<lambda>ctx. outcomeLines (alone E kc ctx)) ctxs)"
    "rejected' \<longleftrightarrow> (rejected \<or> oc_status outcome = refreshAuthRejected) \<or> (\<exists>ctx \<in> set ctxs. oc_status (alone E kc1 ctx) = refreshAuthRejected)"
    "errs' = (errs @ failures [outcome]) @ failures (map (alone E kc) ctxs)"
    "\<forall>ctx \<in> set ctxs. item kc' ctx = item (snd (refreshContext E kc1 ctx)) ctx"
    "same_but ((\<lambda>ctx. Account (cx_Name ctx)) ` set ctxs) kc1 kc'"
    using IH Cons.prems(1,2) by simp_all
  have "Account (cx_Name ctx) \<notin> (\<lambda>c. Account (cx_Name c)) ` set ctxs" using Cons.prems(1) by auto
  from same_but_agree [OF IH'(5) this] have "item kc' ctx = item kc1 ctx" by (simp add: agree_on_def)
  then have items: "\<forall>c \<in> set (ctx # ctxs). item kc' c = item (snd (refreshContext E kc c)) c"
    using IH'(4) later(2) r by simp
  have same: "same_but ((\<lambda>ctx. Account (cx_Name ctx)) ` set (ctx # ctxs)) kc kc'"
    using IH'(5) local by (auto simp: same_but_def)
  show ?case using IH'(1-3) items same later(1) by (simp add: r failures_Cons [of outcome "map (alone E kc) ctxs"])
qed

lemma refreshAll_each:
  assumes "distinct (map cx_Name ctxs)" and "\<forall>ctx \<in> set ctxs. loaded_context (cx_Name ctx) ctx"
    and "refreshAll E kc ctxs = (result, lines, kc')"
  shows "lines = concat (map (\<lambda>ctx. outcomeLines (alone E kc ctx)) ctxs)"
    and "result = verdict (map (alone E kc) ctxs)"
    and "\<And>ctx. ctx \<in> set ctxs \<Longrightarrow> item kc' ctx = item (snd (refreshContext E kc ctx)) ctx"
    and "same_but ((\<lambda>ctx. Account (cx_Name ctx)) ` set ctxs) kc kc'"
proof -
  obtain kc1 lines1 rejected errs where f: "foldl (refreshOne E) (kc, [], False, []) ctxs = (kc1, lines1, rejected, errs)"
    by (metis prod_cases4)
  note each = refreshAll_fold [OF assms(1,2) f]
  show "lines = concat (map (\<lambda>ctx. outcomeLines (alone E kc ctx)) ctxs)"
    "\<And>ctx. ctx \<in> set ctxs \<Longrightarrow> item kc' ctx = item (snd (refreshContext E kc ctx)) ctx"
    "same_but ((\<lambda>ctx. Account (cx_Name ctx)) ` set ctxs) kc kc'"
    using each assms(3) by (auto simp: refreshAll_def f)
  show "result = verdict (map (alone E kc) ctxs)"
    using each assms(3) by (auto simp: refreshAll_def f verdict_def)
qed

text \<open>C26: A scheduled refresh attempts exactly the contexts whose live window has passed since their last
  rotation, in name order, each once and with the result and the keychain item it would have alone; it
  warns once for every unusable window and unreadable time, a rejected rotation decides over other
  failures, and no other item of the keychain changes.\<close>

theorem refresh_due:
  assumes loaded: "loaded_config cfg" and keys: "distinct keys" "set keys = dom (cf_Contexts cfg)"
    and due_eq: "due = map (\<lambda>name. the (cf_Contexts cfg name)) (filter (isDue C cfg now modAt) (sort keys))"
    and run: "runDue E C kc keys cfg now modAt = (result, lines, kc')"
  shows "result = verdict (map (alone E kc) due) \<and>
    lines = map LineWarning (concat (map (warningsOf C cfg modAt) (sort keys))) @
      (if due = [] then [LineNothingDue] else concat (map (\<lambda>ctx. outcomeLines (alone E kc ctx)) due)) \<and>
    (\<forall>ctx \<in> set due. item kc' ctx = item (snd (refreshContext E kc ctx)) ctx) \<and>
    same_but ((\<lambda>ctx. Account (cx_Name ctx)) ` set due) kc kc'"
proof -
  have name: "cf_Contexts cfg n = Some c \<Longrightarrow> loaded_context n c" for n c using loaded by (simp add: loaded_config_def)
  have "map cx_Name due = filter (isDue C cfg now modAt) (sort keys)"
    unfolding due_eq by (force simp: map_idI loaded_context_def dest: due_exists name intro: map_idI)
  then have "distinct (map cx_Name due)" using keys by simp
  moreover have "\<forall>ctx \<in> set due. loaded_context (cx_Name ctx) ctx"
    using name by (fastforce simp: due_eq loaded_context_def dest: due_exists)
  ultimately have each: "refreshAll E kc due = (r, l, k) \<Longrightarrow>
    l = concat (map (\<lambda>ctx. outcomeLines (alone E kc ctx)) due) \<and> r = verdict (map (alone E kc) due) \<and>
    (\<forall>ctx \<in> set due. item k ctx = item (snd (refreshContext E kc ctx)) ctx) \<and>
    same_but ((\<lambda>ctx. Account (cx_Name ctx)) ` set due) kc k" for r l k
    using refreshAll_each [of due E kc r l k] by blast
  have d: "dueContexts C keys cfg now modAt = (due, concat (map (warningsOf C cfg modAt) (sort keys)))"
    by (simp add: dueContexts_eq due_eq sortedContextNames_def)
  obtain r l k where all: "refreshAll E kc due = (r, l, k)" by (metis prod_cases3)
  from run each [OF all] show ?thesis
    by (auto simp: runDue_def d all verdict_def failures_def same_but_def split: if_splits)
qed

section \<open>The schedule of the agent\<close>

lemma window_in_bounds: "windowOf C cfg name = Inr (Some window) \<Longrightarrow> MinBound \<le> window \<and> window \<le> MaxBound"
  by (auto simp: windowOf_def ParsedLiveWindow_def split: option.splits if_splits sum.splits)

lemma minLiveWindow_least:
  assumes "minLiveWindowAcrossContexts C keys cfg = (m, found, warnings)"
  shows "(found \<longleftrightarrow> (\<exists>name \<in> set keys. \<exists>w. windowOf C cfg name = Inr (Some w))) \<and>
    (\<forall>name \<in> set keys. \<forall>w. windowOf C cfg name = Inr (Some w) \<longrightarrow> m \<le> w) \<and>
    (found \<longrightarrow> (\<exists>name \<in> set keys. windowOf C cfg name = Inr (Some m)))"
proof -
  define step where "step = (\<lambda>name (st :: int \<times> bool \<times> warning list). case windowOf C cfg name of
         Inl e \<Rightarrow> (case st of (minWindow, found, warnings) \<Rightarrow> (minWindow, found, warnings @ [InvalidWindow name e]))
       | Inr None \<Rightarrow> st
       | Inr (Some window) \<Rightarrow> (case st of (minWindow, found, warnings) \<Rightarrow>
           if \<not> found \<or> window < minWindow then (window, True, warnings) else (minWindow, found, warnings)))"
  have "fold step names (m0, f0, ws0) = (m, found, ws) \<Longrightarrow>
      (found \<longleftrightarrow> f0 \<or> (\<exists>name \<in> set names. \<exists>w. windowOf C cfg name = Inr (Some w))) \<and>
      (f0 \<longrightarrow> m \<le> m0) \<and>
      (\<forall>name \<in> set names. \<forall>w. windowOf C cfg name = Inr (Some w) \<longrightarrow> m \<le> w) \<and>
      (found \<longrightarrow> f0 \<and> m = m0 \<or> (\<exists>name \<in> set names. windowOf C cfg name = Inr (Some m)))" for names m0 f0 ws0 ws
  proof (induction names arbitrary: m0 f0 ws0)
    case (Cons name names)
    obtain m1 f1 ws1 where first: "step name (m0, f0, ws0) = (m1, f1, ws1)" by (metis prod_cases3)
    have "(f1 \<longleftrightarrow> f0 \<or> (\<exists>w. windowOf C cfg name = Inr (Some w))) \<and> (f0 \<longrightarrow> m1 \<le> m0) \<and>
      (\<forall>w. windowOf C cfg name = Inr (Some w) \<longrightarrow> m1 \<le> w) \<and>
      (f1 \<longrightarrow> f0 \<and> m1 = m0 \<or> windowOf C cfg name = Inr (Some m1))"
      using first by (auto simp: step_def split: sum.splits option.splits if_splits)
    moreover have "fold step names (m1, f1, ws1) = (m, found, ws)" using Cons.prems first by simp
    note Cons.IH [OF this]
    ultimately show ?case by (smt (verit, best) list.set_intros(1) list.set_intros(2) set_ConsD)
  qed simp
  note all = this
  have "fold step (sort keys) (0, False, []) = (m, found, warnings)"
    using assms unfolding minLiveWindowAcrossContexts_def forEach_windowOf step_def sortedContextNames_def .
  from all [OF this] show ?thesis by simp
qed

lemma effectiveInterval_bounds:
  assumes "effectiveInterval C m interval = Inr d"
  shows "MinBound \<le> d \<and> d \<le> MaxBound"
    and "interval = [] \<Longrightarrow> 0 \<le> m \<Longrightarrow> m \<le> w \<Longrightarrow>
      derivedIntervalMin \<le> d \<and> d \<le> derivedIntervalMax \<and> d \<le> max derivedIntervalMin (w div 2)"
  using assms
  by (auto simp: effectiveInterval_def deriveInterval_def ValidateInterval_def Let_def MinBound_def MaxBound_def
      derivedIntervalMin_def derivedIntervalMax_def Minute_def Hour_def Second_def split: if_splits sum.splits option.splits)

lemma seconds_period:
  assumes "MinBound \<le> d"
  shows "0 < seconds d * int Second" and "seconds d * int Second \<le> d"
proof -
  have "60 * int Second \<le> d" using assms by (simp add: MinBound_def Minute_def)
  then have d: "seconds d = d div int Second" and "60 \<le> d div int Second"
    by (simp_all add: seconds_def Second_def)
  then show "0 < seconds d * int Second" and "seconds d * int Second \<le> d"
    using div_mult_mod_eq [of d "int Second"] pos_mod_sign [of "int Second" d] by (simp_all add: Second_def)
qed

text \<open>Of wakes at equal distances one falls into every interval of that length.\<close>

lemma some_wake:
  fixes start goal period :: int
  assumes "start \<le> goal" and "0 < period"
  shows "\<exists>k. goal \<le> start + int k * period \<and> start + int k * period < goal + period"
proof -
  define q r where "q = (goal - start + period - 1) div period" and "r = (goal - start + period - 1) mod period"
  have eq: "goal - start + period - 1 = q * period + r" by (simp add: q_def r_def)
  have r: "0 \<le> r" "r < period" using assms(2) by (simp_all add: r_def)
  have "0 \<le> q" using assms by (simp add: q_def pos_imp_zdiv_nonneg_iff)
  then have "int (nat q) = q" by simp
  then have "start + int (nat q) * period = start + q * period" by simp
  with eq r show ?thesis by (intro exI [of _ "nat q"]) linarith
qed

lemma isDue_window:
  assumes "windowOf C cfg name = Inr (Some window)" and "modAt (Account name) = Inr t"
  shows "isDue C cfg now modAt name \<longleftrightarrow> t + window \<le> now"
  using window_in_bounds [OF assms(1)] assms
  by (auto simp: isDue_def timeSub_def MinBound_def MaxBound_def Minute_def Hour_def Second_def)

lemma install_interval:
  assumes "installKeepAlive C h keys cfg interval s = (None, lines, s')" and "Installed d \<in> set lines"
  obtains m warnings where "minLiveWindowAcrossContexts C keys cfg = (m, True, warnings)"
    and "effectiveInterval C m interval = Inr d"
  using assms
  by (auto simp: installKeepAlive_def oldInstanceLines_def Let_def split: prod.splits if_splits sum.splits option.splits LoadState.splits)

lemma due_member:
  assumes loaded: "loaded_config cfg" and keys: "set keys = dom (cf_Contexts cfg)" and ctx: "cf_Contexts cfg name = Some ctx"
  shows "ctx \<in> set (fst (dueContexts C keys cfg now modAt)) \<longleftrightarrow> isDue C cfg now modAt name"
proof -
  have own: "cf_Contexts cfg n = Some ctx \<Longrightarrow> n = name" for n
    using loaded ctx by (auto simp: loaded_config_def loaded_context_def)
  have "ctx \<in> set (fst (dueContexts C keys cfg now modAt)) \<longleftrightarrow>
      (\<exists>n. n \<in> dom (cf_Contexts cfg) \<and> isDue C cfg now modAt n \<and> ctx = the (cf_Contexts cfg n))"
    using keys by (auto simp: dueContexts_eq sortedContextNames_def)
  also have "\<dots> \<longleftrightarrow> isDue C cfg now modAt name"
  proof
    assume "\<exists>n. n \<in> dom (cf_Contexts cfg) \<and> isDue C cfg now modAt n \<and> ctx = the (cf_Contexts cfg n)"
    then obtain n where n: "n \<in> dom (cf_Contexts cfg)" "isDue C cfg now modAt n" "ctx = the (cf_Contexts cfg n)" by blast
    from own [of n] n(1,3) have "n = name" by auto
    with n(2) show "isDue C cfg now modAt name" by simp
  next
    assume "isDue C cfg now modAt name"
    with ctx show "\<exists>n. n \<in> dom (cf_Contexts cfg) \<and> isDue C cfg now modAt n \<and> ctx = the (cf_Contexts cfg n)"
      by (intro exI [of _ name]) auto
  qed
  finally show ?thesis .
qed

text \<open>C27: After an install, the agent wakes often enough: every opted-in context becomes due at a wake
  less than one interval after its live window has passed, and never before. The interval lies between
  a minute and six days; the derived one is at least 15 minutes, at most 12 hours, and at most the
  larger of 15 minutes and half of any window.\<close>

theorem keepalive_covers:
  assumes loaded: "loaded_config cfg" and keys: "set keys = dom (cf_Contexts cfg)"
    and install: "installKeepAlive C h keys cfg interval s = (None, lines, s')" "Installed d \<in> set lines"
    and ctx: "cf_Contexts cfg name = Some ctx" "windowOf C cfg name = Inr (Some window)"
    and rotated: "modAt (Account name) = Inr t" and started: "start \<le> t + window"
  shows "MinBound \<le> d \<and> d \<le> MaxBound \<and>
    (interval = [] \<longrightarrow> derivedIntervalMin \<le> d \<and> d \<le> derivedIntervalMax \<and> d \<le> max derivedIntervalMin (window div 2)) \<and>
    (\<exists>k. start + int k * (seconds d * int Second) < t + window + d \<and>
      ctx \<in> set (fst (dueContexts C keys cfg (start + int k * (seconds d * int Second)) modAt))) \<and>
    (\<forall>now. ctx \<in> set (fst (dueContexts C keys cfg now modAt)) \<longrightarrow> t + window \<le> now)"
proof -
  from install obtain m warnings where m: "minLiveWindowAcrossContexts C keys cfg = (m, True, warnings)"
    and d: "effectiveInterval C m interval = Inr d" by (rule install_interval)
  have "name \<in> set keys" using ctx(1) keys by auto
  with minLiveWindow_least [OF m] ctx(2) have least: "m \<le> window" by blast
  from minLiveWindow_least [OF m] obtain other where "windowOf C cfg other = Inr (Some m)" by blast
  from window_in_bounds [OF this] have "0 \<le> m" by (simp add: MinBound_def)
  note bounds = effectiveInterval_bounds [OF d]
  have due: "ctx \<in> set (fst (dueContexts C keys cfg now modAt)) \<longleftrightarrow> t + window \<le> now" for now
    using due_member [OF loaded keys ctx(1)] isDue_window [where modAt = modAt, OF ctx(2) rotated] by simp
  note period = seconds_period [OF conjunct1 [OF bounds(1)]]
  from some_wake [OF started period(1)] obtain k
    where k: "t + window \<le> start + int k * (seconds d * int Second)"
      "start + int k * (seconds d * int Second) < t + window + seconds d * int Second" by blast
  with period(2) have "start + int k * (seconds d * int Second) < t + window + d" by linarith
  with k(1) have "\<exists>k. start + int k * (seconds d * int Second) < t + window + d \<and>
      ctx \<in> set (fst (dueContexts C keys cfg (start + int k * (seconds d * int Second)) modAt))"
    unfolding due by blast
  then show ?thesis using bounds least \<open>0 \<le> m\<close> due by simp
qed

section \<open>Removing the agent\<close>

text \<open>What \<^verbatim>\<open>launchctl\<close> and the file system promise, in the exit codes and words that were observed
  (the comments of \<^verbatim>\<open>controller.go\<close>): a boot-out that exits with 0, or with 3 and the words
  \<^verbatim>\<open>no such process\<close> or \<^verbatim>\<open>could not find\<close> in its output, leaves the service unloaded; printing changes
  nothing, and exits with 113 and the words \<^verbatim>\<open>could not find\<close> on its standard error only when the
  service is not loaded; removing a file has no effect on services, and unless it fails the file is
  gone. Neither \<^verbatim>\<open>launchctl\<close> command touches the property list. Nothing is said of any other exit
  code, with which a service may well be loaded, nor of these two codes with other words.\<close>

definition says :: "string \<Rightarrow> string list \<Rightarrow> bool" where
  "says output phrases \<longleftrightarrow> (\<exists>phrase \<in> set phrases. contains (toLower (trimSpace output)) phrase)"

definition honest_host :: "'s host \<Rightarrow> ('s \<Rightarrow> bool) \<Rightarrow> bool" where
  "honest_host h loaded \<longleftrightarrow>
     (\<forall>s r s'. ho_launchctl h [''bootout'', UserServiceTarget h] s = (r, s') \<longrightarrow>
        ho_stat h (PlistPath h) s' = ho_stat h (PlistPath h) s \<and>
        (cm_exit r = Some 0 \<or>
         cm_exit r = Some 3 \<and> says (cm_combined r) [''no such process'', ''could not find''] \<longrightarrow> \<not> loaded s')) \<and>
     (\<forall>s r s'. ho_launchctl h [''print'', UserServiceTarget h] s = (r, s') \<longrightarrow>
        ho_stat h (PlistPath h) s' = ho_stat h (PlistPath h) s \<and> loaded s' = loaded s \<and>
        (cm_exit r = Some 113 \<and> says (cm_stderr r) [''could not find''] \<longrightarrow> \<not> loaded s)) \<and>
     (\<forall>s a s'. ho_remove h (PlistPath h) s = (a, s') \<longrightarrow>
        loaded s' = loaded s \<and> (a \<noteq> RemoveFailed \<longrightarrow> \<not> ho_stat h (PlistPath h) s'))"

lemma isBootoutNotLoaded_says:
  "isBootoutNotLoaded r \<longleftrightarrow> cm_exit r = Some 3 \<and> says (cm_combined r) [''no such process'', ''could not find'']"
  by (auto simp: isBootoutNotLoaded_def bootoutNotLoadedExitCode_def says_def Let_def split: option.split)

lemma isPrintNotLoaded_says:
  "isPrintNotLoaded r \<longleftrightarrow> cm_exit r = Some 113 \<and> says (cm_stderr r) [''could not find'']"
  by (auto simp: isPrintNotLoaded_def printNotLoadedExitCode_def says_def split: option.split)

lemma bootOutOld_honest:
  assumes "honest_host h loaded" and "bootOutOld h s = (result, s')"
  shows "ho_stat h (PlistPath h) s' = ho_stat h (PlistPath h) s \<and>
    (result = None \<or> (\<exists>e. result = Some (e, LoadStateNotLoaded)) \<longrightarrow> \<not> loaded s')"
proof -
  obtain r1 s1 where boot: "ho_launchctl h [''bootout'', UserServiceTarget h] s = (r1, s1)" by fastforce
  obtain r2 s2 where asked: "ho_launchctl h [''print'', UserServiceTarget h] s1 = (r2, s2)" by fastforce
  from assms(1) boot have b: "ho_stat h (PlistPath h) s1 = ho_stat h (PlistPath h) s"
    "cm_exit r1 = Some 0 \<or> isBootoutNotLoaded r1 \<Longrightarrow> \<not> loaded s1"
    by (auto simp: honest_host_def isBootoutNotLoaded_says)
  from assms(1) asked have p: "ho_stat h (PlistPath h) s2 = ho_stat h (PlistPath h) s1" "loaded s2 = loaded s1"
    "isPrintNotLoaded r2 \<Longrightarrow> \<not> loaded s1" by (auto simp: honest_host_def isPrintNotLoaded_says)
  show ?thesis using assms(2) b p
    by (auto simp: bootOutOld_def Bootout_def ClassifyLoadState_def Print_def boot asked split: if_splits)
qed

text \<open>C28: Removing the agent reports success only when the service is not loaded and its property list is
  gone; when the service is loaded, or may be, it fails and leaves the property list where it is. What
  it takes \<^verbatim>\<open>launchctl\<close> to mean is in \<open>honest_host\<close>: no other exit code counts as an unloaded service,
  and a boot-out that exits with 0 is never taken for a service that is still there.\<close>

theorem uninstall_honest:
  assumes "honest_host h loaded" and "keepaliveUninstall h s = (result, lines, s')"
  shows "(result = None \<longrightarrow> lines = [Removed] \<and> \<not> loaded s' \<and> \<not> ho_stat h (PlistPath h) s') \<and>
    (result \<noteq> None \<longrightarrow> lines = []) \<and>
    ((\<exists>e. result = Some (StillLoaded e) \<or> result = Some (MaybeLoaded e)) \<longrightarrow>
       ho_stat h (PlistPath h) s' = ho_stat h (PlistPath h) s) \<and>
    (cm_exit (fst (ho_launchctl h [''bootout'', UserServiceTarget h] s)) = Some 0 \<longrightarrow>
       result = None \<or> result = Some PlistNotRemoved)"
proof -
  obtain old s1 where old: "bootOutOld h s = (old, s1)" by fastforce
  obtain a s2 where removed: "ho_remove h (PlistPath h) s1 = (a, s2)" by fastforce
  from assms(1) removed have r: "loaded s2 = loaded s1" "a \<noteq> RemoveFailed \<Longrightarrow> \<not> ho_stat h (PlistPath h) s2"
    by (auto simp: honest_host_def)
  have worked: "old = None" if "cm_exit (fst (ho_launchctl h [''bootout'', UserServiceTarget h] s)) = Some 0"
    using that old by (cases "ho_launchctl h [''bootout'', UserServiceTarget h] s") (auto simp: bootOutOld_def Bootout_def)
  show ?thesis using assms(2) bootOutOld_honest [OF assms(1) old] r worked
    by (auto simp: keepaliveUninstall_def old removed split: option.splits prod.splits LoadState.splits removal.splits)
qed

text \<open>A machine with a loaded agent whose \<^verbatim>\<open>launchctl\<close> answers a boot-out in unknown words; its state is
  whether the service is loaded and whether the property list is there.\<close>

definition silent_launchctl :: "string list \<Rightarrow> bool \<times> bool \<Rightarrow> command_result \<times> bool \<times> bool" where
  "silent_launchctl args s =
     (if hd args = ''bootout'' then (\<lparr>cm_exit = Some 5, cm_stdout = [], cm_stderr = [], cm_combined = ''gone''\<rparr>, False, snd s)
      else if hd args = ''bootstrap'' then (\<lparr>cm_exit = Some 0, cm_stdout = [], cm_stderr = [], cm_combined = []\<rparr>, True, snd s)
      else (\<lparr>cm_exit = Some (if fst s then 0 else 113), cm_stdout = [], cm_stderr = ''Could not find service'', cm_combined = []\<rparr>, s))"

definition silent_host :: "(bool \<times> bool) host" where
  "silent_host =
     \<lparr>ho_home = Some ''/Users/me'', ho_uid = 501, ho_executable = Some ''/usr/local/bin/grafanapi'',
      ho_symlinks = (\<lambda>path. Some path), ho_launchctl = silent_launchctl, ho_mkdir = (\<lambda>path s. (True, s)),
      ho_create = (\<lambda>path s. (True, s)), ho_append = (\<lambda>path content s. (True, fst s, True)), ho_close = (\<lambda>path s. (True, s)),
      ho_remove = (\<lambda>path s. (if snd s then RemovedFile else AbsentFile, fst s, False)),
      ho_stat = (\<lambda>path s. snd s), ho_read = (\<lambda>path s. None)\<rparr>"

lemma exit_codes [simp]:
  "isBootoutNotLoaded \<lparr>cm_exit = Some 5, cm_stdout = o1, cm_stderr = e1, cm_combined = c1\<rparr> = False"
  "isPrintNotLoaded \<lparr>cm_exit = Some 0, cm_stdout = o1, cm_stderr = e1, cm_combined = c1\<rparr> = False"
  by (simp_all add: isBootoutNotLoaded_def bootoutNotLoadedExitCode_def isPrintNotLoaded_def printNotLoadedExitCode_def)

lemma silent_honest: "honest_host silent_host fst"
  by (auto simp: honest_host_def silent_host_def silent_launchctl_def split: if_splits)

theorem uninstall_honest_witness:
  "honest_host silent_host fst \<and> fst (keepaliveUninstall silent_host (True, True)) = None \<and>
    \<not> ho_stat silent_host (PlistPath silent_host) (snd (snd (keepaliveUninstall silent_host (True, True))))"
proof -
  have asked: "isPrintNotLoaded \<lparr>cm_exit = Some 113, cm_stdout = [], cm_stderr = ''Could not find service'', cm_combined = []\<rparr>"
    by code_simp
  obtain lines s' where run: "keepaliveUninstall silent_host (True, True) = (None, lines, s')"
    using asked by (auto simp: keepaliveUninstall_def bootOutOld_def Bootout_def ClassifyLoadState_def Print_def
        silent_host_def silent_launchctl_def)
  from uninstall_honest [OF silent_honest run] show ?thesis by (simp add: silent_honest run)
qed

section \<open>A configuration with one live window\<close>

definition warm_context :: Context where
  "warm_context = dev_context\<lparr>cx_Grafana := map_option (gr_LiveWindow_update (\<lambda>w. ''12h'')) (cx_Grafana dev_context)\<rparr>"

definition warm_config :: Config where
  "warm_config = \<lparr>cf_Contexts = [''dev'' \<mapsto> warm_context], cf_CurrentContext = ''dev''\<rparr>"

definition warm_clock :: clock_lib where
  "warm_clock = \<lparr>cl_parse_float = (\<lambda>s. map_option Finite (parse_float64 s)), cl_overflowed = - (2 ^ 63)\<rparr>"

definition warm_env :: refresh_env where
  "warm_env = \<lparr>re_net = home_net, re_json = one_codec, re_tls_ok = (\<lambda>n. True),
     re_answer = (\<lambda>n. RotateReply 200 [(SessionCookieName, ''c1'')]), re_allow_legacy = False\<rparr>"

lemma warm_window: "windowOf warm_clock warm_config ''dev'' = Inr (Some (12 * int Hour))"
proof -
  have "show_nat 12 = ''12''" by code_simp
  with ParseDuration_hours [of 12] have "ParseDuration ''12h'' = Some (12 * int Hour)"
    by (simp add: Hour_def Minute_def Second_def maxInt64_def)
  then show ?thesis
    by (simp add: windowOf_def warm_config_def warm_context_def dev_context_def ParsedLiveWindow_def ParseWithDays_def
        MinBound_def MaxBound_def Hour_def Minute_def Second_def)
qed

lemma warm_loaded:
  "loaded_config warm_config" "set [''dev''] = dom (cf_Contexts warm_config)" "cf_Contexts warm_config ''dev'' = Some warm_context"
  by (auto simp: loaded_config_def loaded_context_def warm_config_def warm_context_def dev_context_def split: if_splits)

lemma warm_refreshed: "alone warm_env dev_keychain warm_context = \<lparr>oc_name = ''dev'', oc_status = refreshSucceeded, oc_err = None\<rparr>"
proof -
  define S where "S = \<lparr>st_net = home_net, st_json = one_codec, st_source = home_source, st_tls_ok = True, st_jobs = [ForceRefresh]\<rparr>"
  obtain u where "rotateRequest two_jobs ''c0'' = Inr u" using home_rotate by blast
  then have "rotateRequest S ''c0'' = Inr u" by (simp only: rotateRequest_def two_jobs_def S_def session_setup.select_convs)
  then have rotated: "doRotate S ''c0'' (RotateReply 200 [(SessionCookieName, ''c1'')]) = Inr ''c1''"
    by (simp add: doRotate_def extractSessionCookie_def)
  have "DecodeCredential one_codec ''{'' = Inr \<lparr>cr_Cookie = ''c0'', cr_Origin = ''https://g.example:443''\<rparr>"
    by (simp add: DecodeCredential_def one_codec_def CredentialVersion_def starts_with_def)
  moreover have "storeGet dev_keychain (Account ''dev'') = Inr ''{''"
    by (simp add: storeGet_def dev_keychain_def Account_def Service_def)
  ultimately obtain b where
    "ResolveContextSessionCookie home_net one_codec dev_keychain warm_context False =
      (Inr b, dev_keychain, warm_context\<lparr>cx_Grafana := map_option (\<lambda>g. g\<lparr>gr_SessionCookie := ''c0'', gr_Session := Some home_source\<rparr>) (cx_Grafana warm_context)\<rparr>)"
    by (simp add: ResolveContextSessionCookie_def warm_context_def dev_context_def home_origin Legacy_def home_source_def
        NewSessionSource_def Account_def Service_def)
  moreover have "cx_Name warm_context = ''dev''" "cx_Grafana warm_context \<noteq> None" "so_cookie home_source = ''c0''"
    by (simp_all add: warm_context_def dev_context_def home_source_def)
  ultimately show ?thesis
    using rotated by (auto simp: refreshContext_def warm_env_def Refresh_def S_def)
qed

theorem refresh_due_witness:
  "\<exists>kc'. runDue warm_env warm_clock dev_keychain [''dev''] warm_config (13 * int Hour) (\<lambda>a. Inr 0) = (None, [LineRefreshed ''dev''], kc') \<and>
     isDue warm_clock warm_config (13 * int Hour) (\<lambda>a. Inr 0) ''dev''"
proof -
  obtain result lines kc' where run:
    "runDue warm_env warm_clock dev_keychain [''dev''] warm_config (13 * int Hour) (\<lambda>a. Inr 0) = (result, lines, kc')"
    by (metis prod_cases3)
  have due: "isDue warm_clock warm_config (13 * int Hour) (\<lambda>a. Inr 0) ''dev''"
    using isDue_window [where modAt = "\<lambda>a. Inr 0", OF warm_window refl] by simp
  note each = refresh_due [OF warm_loaded(1) _ warm_loaded(2) refl run]
  have "result = None \<and> lines = [LineRefreshed ''dev'']"
    using each by (simp add: due warningsOf_def warm_window warm_loaded(3) warm_refreshed verdict_def failures_def outcomeLines_def)
  with run due show ?thesis by blast
qed

theorem keepalive_covers_witness:
  "\<exists>d lines s'. installKeepAlive warm_clock silent_host [''dev''] warm_config [] (False, False) = (None, lines, s') \<and>
     Installed d \<in> set lines \<and> d = 6 * int Hour \<and>
     (\<exists>k. int k * (seconds d * int Second) < 12 * int Hour + d \<and>
        warm_context \<in> set (fst (dueContexts warm_clock [''dev''] warm_config (int k * (seconds d * int Second)) (\<lambda>a. Inr 0))))"
proof -
  have least: "minLiveWindowAcrossContexts warm_clock [''dev''] warm_config = (12 * int Hour, True, [])"
    by (simp add: minLiveWindowAcrossContexts_def forEach_windowOf sortedContextNames_def warm_window)
  have "\<not> isCellarPath ''/usr/local/bin/grafanapi''" by code_simp
  then have binary: "ResolveBinaryPath silent_host = Inr ''/usr/local/bin/grafanapi''"
    by (simp add: ResolveBinaryPath_def silent_host_def)
  have d: "deriveInterval (12 * int Hour) = 6 * int Hour"
    by (simp add: deriveInterval_def derivedIntervalMin_def derivedIntervalMax_def Hour_def Minute_def Second_def)
  have asked: "isPrintNotLoaded \<lparr>cm_exit = Some 113, cm_stdout = [], cm_stderr = ''Could not find service'', cm_combined = []\<rparr>"
    by code_simp
  have host: "ho_launchctl silent_host = silent_launchctl" "ho_mkdir silent_host = (\<lambda>path s. (True, s))"
    "ho_create silent_host = (\<lambda>path s. (True, s))" "ho_append silent_host = (\<lambda>path content s. (True, fst s, True))"
    "ho_close silent_host = (\<lambda>path s. (True, s))"
    by (simp_all add: silent_host_def)
  obtain lines s' where run:
    "installKeepAlive warm_clock silent_host [''dev''] warm_config [] (False, False) = (None, lines, s')" "Installed (6 * int Hour) \<in> set lines"
    using asked
    by (auto simp: installKeepAlive_def least effectiveInterval_def d binary writePlist_def bootOutOld_def Bootout_def
        ClassifyLoadState_def Print_def Bootstrap_def host silent_launchctl_def Let_def)
  have "0 \<le> 0 + 12 * int Hour" by simp
  note covers = keepalive_covers [where modAt = "\<lambda>a. Inr 0", OF warm_loaded(1,2) run warm_loaded(3) warm_window refl this]
  with run show ?thesis by (simp only: add_0) blast
qed

end
