(* ===== verification/Resource_Selectors.thy ===== *)
theory Resource_Selectors
  imports Resource_Model Go_Strings
begin

text \<open>
  Selecting resources on the command line (\<^verbatim>\<open>internal/resources/selector.go\<close>, \<^verbatim>\<open>filter.go\<close>): the
  texts of selectors, such as \<^verbatim>\<open>dashboards.v1.dashboard.grafana.app/a,b\<close>, and the filters they
  become once a descriptor is known. Nil selectors are not modelled.
\<close>

section \<open>Splitting and joining\<close>

text \<open>\<^verbatim>\<open>strings.Join\<close> with a separator of one character, and \<^verbatim>\<open>strings.SplitN\<close> for a positive bound.\<close>

fun joinWith :: "char \<Rightarrow> string list \<Rightarrow> string" where
  "joinWith sep [] = []"
| "joinWith sep [e] = e"
| "joinWith sep (e # es) = e @ sep # joinWith sep es"

fun splitN :: "char \<Rightarrow> nat \<Rightarrow> string \<Rightarrow> string list" where
  "splitN sep 0 s = []"
| "splitN sep (Suc 0) s = [s]"
| "splitN sep (Suc (Suc n)) s =
     (if sep \<in> set s
      then takeWhile (\<lambda>c. c \<noteq> sep) s # splitN sep (Suc n) (tl (dropWhile (\<lambda>c. c \<noteq> sep) s))
      else [s])"

section \<open>Selectors\<close>

datatype FilterType = FilterTypeUnknown | FilterTypeAll | FilterTypeMultiple | FilterTypeSingle

record PartialGVK =
  pg_Group :: string
  pg_Version :: string
  pg_Resource :: string

record Selector =
  sl_Type :: FilterType
  sl_GVK :: PartialGVK
  sl_ResourceUIDs :: "string list"

datatype selector_err =
    NoResource
  | NoGroup
  | NoVersion
  | MissingUIDs
  | MissingUID
  | TooManyParts
  | Unsupported  \<comment> \<open>the server does not support the resource\<close>

datatype invalid_selector = InvalidSelectorError string selector_err

definition parsePartialGVK :: "string \<Rightarrow> selector_err + PartialGVK" where
  "parsePartialGVK src =
     (case splitN CHR ''.'' 3 src of
        [r] \<Rightarrow> if r = [] then Inl NoResource else Inr \<lparr>pg_Group = [], pg_Version = [], pg_Resource = r\<rparr>
      | [r, g] \<Rightarrow>
          if r = [] then Inl NoResource else if g = [] then Inl NoGroup
          else Inr \<lparr>pg_Group = g, pg_Version = [], pg_Resource = r\<rparr>
      | [r, v, g] \<Rightarrow>
          if r = [] then Inl NoResource else if v = [] then Inl NoVersion else if g = [] then Inl NoGroup
          else Inr \<lparr>pg_Group = g, pg_Version = v, pg_Resource = r\<rparr>
      | _ \<Rightarrow> Inl TooManyParts)"

definition partialGVKString :: "PartialGVK \<Rightarrow> string" where
  "partialGVKString g =
     pg_Resource g @ (if pg_Version g \<noteq> [] then ''.'' @ pg_Version g else []) @
     (if pg_Group g \<noteq> [] then ''.'' @ pg_Group g else [])"

definition parseUIDs :: "string \<Rightarrow> selector_err + string list" where
  "parseUIDs uids =
     (if uids = [] then Inl MissingUIDs
      else let res = split_on (\<lambda>c. c = CHR '','') uids in if [] \<in> set res then Inl MissingUID else Inr res)"

definition selectorString :: "Selector \<Rightarrow> string" where
  "selectorString sel =
     partialGVKString (sl_GVK sel) @
     (if sl_ResourceUIDs sel \<noteq> [] then ''/'' @ joinWith CHR '','' (sl_ResourceUIDs sel) else [])"

definition parseSelector :: "string \<Rightarrow> invalid_selector + Selector" where
  "parseSelector src =
     (case split_on (\<lambda>c. c = CHR ''/'') src of
        [] \<Rightarrow> Inl (InvalidSelectorError src NoResource)
      | [p] \<Rightarrow>
          (case parsePartialGVK p of Inl e \<Rightarrow> Inl (InvalidSelectorError src e)
           | Inr g \<Rightarrow> Inr \<lparr>sl_Type = FilterTypeAll, sl_GVK = g, sl_ResourceUIDs = []\<rparr>)
      | [p, u] \<Rightarrow>
          if u = [] then Inl (InvalidSelectorError src MissingUIDs)
          else
            (case parsePartialGVK p of Inl e \<Rightarrow> Inl (InvalidSelectorError src e)
             | Inr g \<Rightarrow>
                 (case parseUIDs u of Inl e \<Rightarrow> Inl (InvalidSelectorError src e)
                  | Inr uids \<Rightarrow>
                      Inr \<lparr>sl_Type = (if length uids > 1 then FilterTypeMultiple else FilterTypeSingle),
                        sl_GVK = g, sl_ResourceUIDs = uids\<rparr>))
      | _ \<Rightarrow> Inl (InvalidSelectorError src TooManyParts))"

definition ParseSelectors :: "string list \<Rightarrow> invalid_selector + Selector list" where
  "ParseSelectors sels = mapR parseSelector sels"

definition IsNamedSelector :: "Selector \<Rightarrow> bool" where
  "IsNamedSelector sel \<longleftrightarrow> sl_ResourceUIDs sel \<noteq> []"

definition HasNamedSelectorsOnly :: "Selector list \<Rightarrow> bool" where
  "HasNamedSelectorsOnly sels \<longleftrightarrow> sels \<noteq> [] \<and> list_all IsNamedSelector sels"

definition IsSingleTarget :: "Selector list \<Rightarrow> bool" where
  "IsSingleTarget sels \<longleftrightarrow> length sels = 1 \<and> sl_Type (hd sels) = FilterTypeSingle"

section \<open>Filters\<close>

record ResourceFilter =
  fl_Type :: FilterType
  fl_Descriptor :: Descriptor
  fl_ResourceUIDs :: "string list"

definition filterTypeString :: "FilterType \<Rightarrow> string" where
  "filterTypeString t =
     (case t of FilterTypeAll \<Rightarrow> ''GetAll'' | FilterTypeMultiple \<Rightarrow> ''GetMultiple'' | FilterTypeSingle \<Rightarrow> ''GetSingle''
      | FilterTypeUnknown \<Rightarrow> ''Unknown'')"

definition filterString :: "ResourceFilter \<Rightarrow> string" where
  "filterString f =
     filterTypeString (fl_Type f) @ '':'' @ descriptorString (fl_Descriptor f) @
     (if fl_ResourceUIDs f \<noteq> [] then ''/'' @ joinWith CHR '','' (fl_ResourceUIDs f) else [])"

definition filterMatches :: "ResourceFilter \<Rightarrow> Resource \<Rightarrow> bool" where
  "filterMatches f res \<longleftrightarrow>
     DescriptorMatches (fl_Descriptor f) (rs_GVK res) \<and>
     (case fl_Type f of
        FilterTypeAll \<Rightarrow> True
      | FilterTypeUnknown \<Rightarrow> False
      | _ \<Rightarrow> rs_Name res \<in> set (fl_ResourceUIDs f))"

definition filtersMatch :: "ResourceFilter list \<Rightarrow> Resource \<Rightarrow> bool" where
  "filtersMatch fs res \<longleftrightarrow> fs = [] \<or> list_ex (\<lambda>f. filterMatches f res) fs"

section \<open>The texts of selectors\<close>

lemma split_on_plain: "sep \<notin> set e \<Longrightarrow> split_on (\<lambda>c. c = sep) e = [e]"
  by (induction e) auto

lemma split_on_cut: "sep \<notin> set e \<Longrightarrow> split_on (\<lambda>c. c = sep) (e @ sep # s) = e # split_on (\<lambda>c. c = sep) s"
  by (induction e) auto

lemma split_on_join:
  "es \<noteq> [] \<Longrightarrow> \<forall>e \<in> set es. sep \<notin> set e \<Longrightarrow> split_on (\<lambda>c. c = sep) (joinWith sep es) = es"
  by (induction sep es rule: joinWith.induct) (simp_all add: split_on_plain split_on_cut)

lemma join_split_on:
  "joinWith sep (split_on (\<lambda>c. c = sep) s) = s \<and> split_on (\<lambda>c. c = sep) s \<noteq> [] \<and>
   (\<forall>e \<in> set (split_on (\<lambda>c. c = sep) s). sep \<notin> set e)"
proof (induction s)
  case (Cons c s)
  show ?case
  proof (cases "split_on (\<lambda>c. c = sep) s")
    case (Cons e es)
    with Cons.IH show ?thesis by (cases es) auto
  qed (use Cons.IH in simp)
qed simp

text \<open>What a selector that was parsed looks like.\<close>

definition wf_partial :: "PartialGVK \<Rightarrow> bool" where
  "wf_partial g \<longleftrightarrow>
     pg_Resource g \<noteq> [] \<and> CHR ''.'' \<notin> set (pg_Resource g) \<and> CHR ''/'' \<notin> set (pg_Resource g @ pg_Version g @ pg_Group g) \<and>
     CHR ''.'' \<notin> set (pg_Version g) \<and>
     (if pg_Version g = [] then CHR ''.'' \<notin> set (pg_Group g) else pg_Group g \<noteq> [])"

definition wf_selector :: "Selector \<Rightarrow> bool" where
  "wf_selector sel \<longleftrightarrow>
     wf_partial (sl_GVK sel) \<and>
     (\<forall>u \<in> set (sl_ResourceUIDs sel). u \<noteq> [] \<and> CHR '','' \<notin> set u \<and> CHR ''/'' \<notin> set u) \<and>
     sl_Type sel = (case sl_ResourceUIDs sel of [] \<Rightarrow> FilterTypeAll | [u] \<Rightarrow> FilterTypeSingle | _ \<Rightarrow> FilterTypeMultiple)"

lemma splitN_plain: "sep \<notin> set s \<Longrightarrow> splitN sep (Suc n) s = [s]"
  by (cases n) simp_all

lemma splitN_cut: "sep \<notin> set a \<Longrightarrow> splitN sep (Suc (Suc n)) (a @ sep # s) = a # splitN sep (Suc n) s"
  by (simp add: takeWhile_tail dropWhile_append)

lemma cut_at: "sep \<in> set s \<Longrightarrow> \<exists>a b. s = a @ sep # b \<and> sep \<notin> set a"
  using split_list_first by metis

lemma parsePartialGVK_cases:
  obtains (resource) "CHR ''.'' \<notin> set src"
    | (grouped) r g where "src = r @ ''.'' @ g" "CHR ''.'' \<notin> set r" "CHR ''.'' \<notin> set g"
    | (full) r v g where "src = r @ ''.'' @ v @ ''.'' @ g" "CHR ''.'' \<notin> set r" "CHR ''.'' \<notin> set v"
proof (cases "CHR ''.'' \<in> set src")
  case True
  from cut_at [OF this] obtain r s where r: "src = r @ ''.'' @ s" "CHR ''.'' \<notin> set r" by auto
  show ?thesis
  proof (cases "CHR ''.'' \<in> set s")
    case True
    from cut_at [OF this] obtain v g where "s = v @ ''.'' @ g" "CHR ''.'' \<notin> set v" by auto
    with r show ?thesis using full by auto
  qed (use r grouped in auto)
qed (use resource in auto)

lemma parsePartialGVK_plain:
  "CHR ''.'' \<notin> set src \<Longrightarrow>
     parsePartialGVK src = (if src = [] then Inl NoResource else Inr \<lparr>pg_Group = [], pg_Version = [], pg_Resource = src\<rparr>)"
  by (simp add: parsePartialGVK_def eval_nat_numeral splitN_plain del: splitN.simps)

lemma parsePartialGVK_grouped:
  "CHR ''.'' \<notin> set r \<Longrightarrow> CHR ''.'' \<notin> set g \<Longrightarrow>
     parsePartialGVK (r @ ''.'' @ g) =
       (if r = [] then Inl NoResource else if g = [] then Inl NoGroup
        else Inr \<lparr>pg_Group = g, pg_Version = [], pg_Resource = r\<rparr>)"
  by (simp add: parsePartialGVK_def eval_nat_numeral splitN_plain splitN_cut del: splitN.simps)

lemma parsePartialGVK_full:
  "CHR ''.'' \<notin> set r \<Longrightarrow> CHR ''.'' \<notin> set v \<Longrightarrow>
     parsePartialGVK (r @ ''.'' @ v @ ''.'' @ g) =
       (if r = [] then Inl NoResource else if v = [] then Inl NoVersion else if g = [] then Inl NoGroup
        else Inr \<lparr>pg_Group = g, pg_Version = v, pg_Resource = r\<rparr>)"
  by (simp add: parsePartialGVK_def eval_nat_numeral splitN_cut del: splitN.simps(3))

lemma parsePartialGVK_iff:
  "CHR ''/'' \<notin> set src \<Longrightarrow> parsePartialGVK src = Inr g \<longleftrightarrow> wf_partial g \<and> src = partialGVKString g"
proof
  assume slash: "CHR ''/'' \<notin> set src" and p: "parsePartialGVK src = Inr g"
  show "wf_partial g \<and> src = partialGVKString g"
    by (cases src rule: parsePartialGVK_cases)
      (use p slash in \<open>auto simp: parsePartialGVK_plain parsePartialGVK_grouped [unfolded append.simps] parsePartialGVK_full [unfolded append.simps]
        wf_partial_def partialGVKString_def split: if_splits\<close>)
next
  assume wf: "wf_partial g \<and> src = partialGVKString g"
  obtain group version r where g: "g = \<lparr>pg_Group = group, pg_Version = version, pg_Resource = r\<rparr>" by (cases g)
  consider "version = []" "group = []" | "version = []" "group \<noteq> []" | "version \<noteq> []" by blast
  then show "parsePartialGVK src = Inr g"
    using wf by cases (auto simp: g wf_partial_def partialGVKString_def parsePartialGVK_plain
        parsePartialGVK_grouped [unfolded append.simps] parsePartialGVK_full [unfolded append.simps])
qed

lemma parseUIDs_iff:
  "CHR ''/'' \<notin> set s \<Longrightarrow> parseUIDs s = Inr uids \<longleftrightarrow>
     uids \<noteq> [] \<and> (\<forall>u \<in> set uids. u \<noteq> [] \<and> CHR '','' \<notin> set u \<and> CHR ''/'' \<notin> set u) \<and> s = joinWith CHR '','' uids"
proof -
  assume slash: "CHR ''/'' \<notin> set s"
  have chars: "set e \<subseteq> set (joinWith sep es)" if "e \<in> set es" for e sep es
    using that by (induction sep es rule: joinWith.induct) auto
  show ?thesis
  proof
    assume p: "parseUIDs s = Inr uids"
    then have uids: "uids = split_on (\<lambda>c. c = CHR '','') s" "[] \<notin> set uids" by (auto simp: parseUIDs_def Let_def split: if_splits)
    then have j: "s = joinWith CHR '','' uids" "uids \<noteq> []" "\<forall>u \<in> set uids. CHR '','' \<notin> set u"
      using join_split_on [of "CHR '',''" s] by auto
    then show "uids \<noteq> [] \<and> (\<forall>u \<in> set uids. u \<noteq> [] \<and> CHR '','' \<notin> set u \<and> CHR ''/'' \<notin> set u) \<and> s = joinWith CHR '','' uids"
      using uids(2) slash chars by blast
  next
    assume u: "uids \<noteq> [] \<and> (\<forall>u \<in> set uids. u \<noteq> [] \<and> CHR '','' \<notin> set u \<and> CHR ''/'' \<notin> set u) \<and> s = joinWith CHR '','' uids"
    then have "split_on (\<lambda>c. c = CHR '','') s = uids" by (simp add: split_on_join)
    moreover from u have "s \<noteq> []" by (cases uids; cases "tl uids") auto
    ultimately show "parseUIDs s = Inr uids" using u by (auto simp: parseUIDs_def Let_def)
  qed
qed

lemma slashless: "wf_partial g \<Longrightarrow> CHR ''/'' \<notin> set (partialGVKString g)"
  by (auto simp: wf_partial_def partialGVKString_def)

lemma parse_partialGVKString: "wf_partial g \<Longrightarrow> parsePartialGVK (partialGVKString g) = Inr g"
  using parsePartialGVK_iff [OF slashless, of g g] by simp

lemma joinWith_set: "set (joinWith sep es) \<subseteq> insert sep (\<Union>e \<in> set es. set e)"
  by (induction sep es rule: joinWith.induct) auto

text \<open>C35: Parsing and printing of selectors are inverse to one another: a text parses to a selector exactly
  when the selector is well formed and prints as that text.\<close>

theorem selector_round_trip:
  "parseSelector src = Inr sel \<longleftrightarrow> wf_selector sel \<and> src = selectorString sel"
proof -
  obtain t g uids where sel: "sel = \<lparr>sl_Type = t, sl_GVK = g, sl_ResourceUIDs = uids\<rparr>" by (cases sel)
  show ?thesis
  proof
    assume p: "parseSelector src = Inr sel"
    let ?parts = "split_on (\<lambda>c. c = CHR ''/'') src"
    have j: "joinWith CHR ''/'' ?parts = src" "\<forall>e \<in> set ?parts. CHR ''/'' \<notin> set e"
      using join_split_on [of "CHR ''/''" src] by auto
    from p consider p1 where "?parts = [p1]" | p1 u where "?parts = [p1, u]"
      by (auto simp: parseSelector_def split: list.splits)
    then show "wf_selector sel \<and> src = selectorString sel"
    proof cases
      case 1
      with p j show ?thesis
        by (auto simp: parseSelector_def sel wf_selector_def selectorString_def parsePartialGVK_iff split: sum.splits)
    next
      case 2
      with p j show ?thesis
        by (auto simp: parseSelector_def sel wf_selector_def selectorString_def parsePartialGVK_iff parseUIDs_iff
            split: sum.splits if_splits list.splits)
    qed
  next
    assume wf: "wf_selector sel \<and> src = selectorString sel"
    then have g: "parsePartialGVK (partialGVKString g) = Inr g" "CHR ''/'' \<notin> set (partialGVKString g)"
      using parse_partialGVKString slashless by (auto simp: wf_selector_def sel)
    show "parseSelector src = Inr sel"
    proof (cases "uids = []")
      case True
      then show ?thesis using wf g
        by (simp add: parseSelector_def sel wf_selector_def selectorString_def split_on_plain)
    next
      case False
      have u: "\<forall>u \<in> set uids. u \<noteq> [] \<and> CHR '','' \<notin> set u \<and> CHR ''/'' \<notin> set u" using wf by (simp add: wf_selector_def sel)
      then have j: "CHR ''/'' \<notin> set (joinWith CHR '','' uids)" using joinWith_set [of "CHR '',''" uids] by fastforce
      have parsed: "parseUIDs (joinWith CHR '','' uids) = Inr uids" using u False by (simp add: parseUIDs_iff [OF j])
      moreover have "joinWith CHR '','' uids \<noteq> []" using parsed by (auto simp: parseUIDs_def)
      ultimately show ?thesis using wf g False j
        by (simp add: parseSelector_def sel wf_selector_def selectorString_def split_on_cut split_on_plain split: list.splits)
    qed
  qed
qed

end
