(* ===== verification/Discovery.thy ===== *)
theory Discovery
  imports Resource_Selectors
begin

text \<open>
  What the server supports (\<^verbatim>\<open>internal/resources/discovery/registry_index.go\<close>, \<^verbatim>\<open>registry.go\<close>): the
  index built from the API groups and resource lists of a discovery, the lookup of a descriptor for
  a partial identification, and the filters selectors become.

  The maps the code ranges over are association lists with different keys; a range over one visits
  a permutation of it, which is an argument. The other maps are functions. Log lines are not
  modelled, and neither are the locks: an update and a lookup are one step each.
\<close>

section \<open>The answers of the server\<close>

record GroupVersion =
  gv_Group :: string
  gv_Version :: string

record APIGroup =
  ap_Name :: string
  ap_PreferredVersion :: string
  ap_Versions :: "string list"

record APIResource =
  ar_Name :: string
  ar_SingularName :: string
  ar_Kind :: string
  ar_Group :: string
  ar_Version :: string
  ar_Namespaced :: bool

record APIResourceList =
  al_GroupVersion :: string
  al_Resources :: "APIResource list"

datatype discovery_err =
    DiscoveryFailed string
  | DuplicateGroupVersion GroupVersion
  | UnlistedGroupVersion GroupVersion
  | InvalidGroupVersion string

definition makeShortName :: "string \<Rightarrow> string" where
  "makeShortName name = hd (split_on (\<lambda>c. c = CHR ''.'') name)"

definition parseGroupVersion :: "string \<Rightarrow> discovery_err + GroupVersion" where
  "parseGroupVersion src =
     (case split_on (\<lambda>c. c = CHR ''/'') src of
        [g, v] \<Rightarrow>
          if g = [] \<or> v = [] then Inl (InvalidGroupVersion src) else Inr \<lparr>gv_Group = g, gv_Version = v\<rparr>
      | _ \<Rightarrow> Inl (InvalidGroupVersion src))"

section \<open>The index\<close>

type_synonym group_kind = "string \<times> string"

record RegistryIndex =
  ri_shortGroups :: "string \<rightharpoonup> string"
  ri_longGroups :: "string set"
  ri_preferredVersions :: "(string \<times> GroupVersion) list"
  ri_descriptors :: "(GroupVersion \<times> Descriptor list) list"
  ri_kindNames :: "string \<rightharpoonup> group_kind list"
  ri_singularNames :: "string \<rightharpoonup> group_kind list"
  ri_pluralNames :: "string \<rightharpoonup> group_kind list"

definition NewRegistryIndex :: RegistryIndex where
  "NewRegistryIndex =
     \<lparr>ri_shortGroups = Map.empty, ri_longGroups = {}, ri_preferredVersions = [], ri_descriptors = [],
      ri_kindNames = Map.empty, ri_singularNames = Map.empty, ri_pluralNames = Map.empty\<rparr>"

definition GetDescriptors :: "(GroupVersion \<times> Descriptor list) list \<Rightarrow> Descriptor list" where
  "GetDescriptors visited = concat (map snd visited)"

definition GetPreferredVersions :: "RegistryIndex \<Rightarrow> (string \<times> GroupVersion) list \<Rightarrow> Descriptor list" where
  "GetPreferredVersions r visited =
     concat (map (\<lambda>(name, gv). case map_of (ri_descriptors r) gv of None \<Rightarrow> [] | Some descs \<Rightarrow> descs) visited)"

definition addVersion :: "string \<Rightarrow> RegistryIndex \<Rightarrow> string \<Rightarrow> discovery_err + RegistryIndex" where
  "addVersion name r version =
     (let gv = \<lparr>gv_Group = name, gv_Version = version\<rparr> in
      if map_of (ri_descriptors r) gv \<noteq> None then Inl (DuplicateGroupVersion gv)
      else Inr (r\<lparr>ri_descriptors := AList.update gv [] (ri_descriptors r)\<rparr>))"

definition addGroup :: "RegistryIndex \<Rightarrow> APIGroup \<Rightarrow> discovery_err + RegistryIndex" where
  "addGroup r grp =
     (let name = ap_Name grp;
          named = r\<lparr>ri_longGroups := insert name (ri_longGroups r),
            ri_shortGroups := (ri_shortGroups r)(makeShortName name \<mapsto> name)\<rparr>;
          preferred = (if ap_PreferredVersion grp \<noteq> []
            then named\<lparr>ri_preferredVersions := AList.update name
              \<lparr>gv_Group = name, gv_Version = ap_PreferredVersion grp\<rparr> (ri_preferredVersions named)\<rparr>
            else named)
      in foldR (addVersion name) preferred (ap_Versions grp))"

definition addName :: "string \<Rightarrow> group_kind \<Rightarrow> (string \<rightharpoonup> group_kind list) \<Rightarrow> string \<rightharpoonup> group_kind list" where
  "addName name gk names =
     names(name \<mapsto> (case names name of None \<Rightarrow> [gk] | Some gks \<Rightarrow> gks @ [gk]))"

text \<open>The group and version of a resource: its own where it has them, those of its list otherwise.\<close>

definition resourceGroupVersion :: "GroupVersion \<Rightarrow> APIResource \<Rightarrow> GroupVersion" where
  "resourceGroupVersion gv res =
     \<lparr>gv_Group = (if ar_Group res \<noteq> [] then ar_Group res else gv_Group gv),
      gv_Version = (if ar_Version res \<noteq> [] then ar_Version res else gv_Version gv)\<rparr>"

definition resourceDescriptor :: "GroupVersion \<Rightarrow> APIResource \<Rightarrow> Descriptor" where
  "resourceDescriptor gv res =
     \<lparr>ds_Group = gv_Group gv, ds_Version = gv_Version gv, ds_Kind = ar_Kind res,
      ds_Singular = ar_SingularName res, ds_Plural = ar_Name res\<rparr>"

definition addAPIResource :: "string \<Rightarrow> RegistryIndex \<Rightarrow> APIResource \<Rightarrow> discovery_err + RegistryIndex" where
  "addAPIResource groupVersion r res =
     bindR (parseGroupVersion groupVersion) (\<lambda>listed.
     let gv = resourceGroupVersion listed res in
     case map_of (ri_descriptors r) gv of
       None \<Rightarrow> Inl (UnlistedGroupVersion gv)
     | Some descs \<Rightarrow>
         let gk = (gv_Group gv, ar_Kind res) in
         Inr (r\<lparr>ri_descriptors := AList.update gv (descs @ [resourceDescriptor gv res]) (ri_descriptors r),
           ri_kindNames := addName (ar_Kind res) gk (ri_kindNames r),
           ri_singularNames := addName (ar_SingularName res) gk (ri_singularNames r),
           ri_pluralNames := addName (ar_Name res) gk (ri_pluralNames r)\<rparr>))"

definition addResourceList :: "RegistryIndex \<Rightarrow> APIResourceList \<Rightarrow> discovery_err + RegistryIndex" where
  "addResourceList r list = foldR (addAPIResource (al_GroupVersion list)) r (al_Resources list)"

definition buildIndex :: "APIGroup list \<Rightarrow> APIResourceList list \<Rightarrow> discovery_err + RegistryIndex" where
  "buildIndex groups ls =
     bindR (foldR addGroup NewRegistryIndex groups) (\<lambda>r. foldR addResourceList r ls)"

text \<open>The new indices replace the old ones only when the whole answer was consistent.\<close>

definition UpdateIndex ::
  "RegistryIndex \<Rightarrow> APIGroup list \<Rightarrow> APIResourceList list \<Rightarrow> discovery_err option \<times> RegistryIndex" where
  "UpdateIndex r groups ls =
     (case buildIndex groups ls of Inl e \<Rightarrow> (Some e, r) | Inr r' \<Rightarrow> (None, r'))"

section \<open>Lookups\<close>

definition getKindCandidates :: "RegistryIndex \<Rightarrow> string \<Rightarrow> group_kind list option" where
  "getKindCandidates r res =
     (case ri_kindNames r res of
        Some k \<Rightarrow> Some k
      | None \<Rightarrow> (case ri_singularNames r res of Some k \<Rightarrow> Some k | None \<Rightarrow> ri_pluralNames r res))"

text \<open>The group a partial identification names; none when it names no supported group, the empty one
  when it names none at all.\<close>

definition namedGroup :: "RegistryIndex \<Rightarrow> string \<Rightarrow> string option" where
  "namedGroup r grp =
     (if grp = [] then Some []
      else if grp \<in> ri_longGroups r then Some grp
      else ri_shortGroups r grp)"

text \<open>The loop over the candidates: the group it settles on and the kind, empty when it found none.\<close>

fun chooseKind :: "string \<Rightarrow> group_kind list \<Rightarrow> string \<times> string" where
  "chooseKind grp [] = (grp, [])"
| "chooseKind grp (gk # gks) =
     (let g = (if grp = [] then fst gk else grp) in
      if g = fst gk then (g, snd gk) else chooseKind g gks)"

definition filterCandidates :: "RegistryIndex \<Rightarrow> group_kind list \<Rightarrow> string \<Rightarrow> string \<Rightarrow> Descriptor option" where
  "filterCandidates r candidates grp version =
     (case namedGroup r grp of None \<Rightarrow> None
      | Some named \<Rightarrow>
          (case chooseKind named candidates of (g, kind) \<Rightarrow>
             if kind = [] then None
             else
               let v = (if version \<noteq> [] then Some version
                        else map_option gv_Version (map_of (ri_preferredVersions r) g))
               in case v of None \<Rightarrow> None
               | Some v' \<Rightarrow>
                   (case map_of (ri_descriptors r) \<lparr>gv_Group = g, gv_Version = v'\<rparr> of None \<Rightarrow> None
                    | Some descs \<Rightarrow> find (\<lambda>d. ds_Kind d = kind) descs)))"

definition LookupPartialGVK :: "RegistryIndex \<Rightarrow> PartialGVK \<Rightarrow> Descriptor option" where
  "LookupPartialGVK r gvk =
     (case getKindCandidates r (pg_Resource gvk) of None \<Rightarrow> None
      | Some candidates \<Rightarrow> filterCandidates r candidates (pg_Group gvk) (pg_Version gvk))"

definition targetKind :: "group_kind list \<Rightarrow> string \<Rightarrow> string" where
  "targetKind candidates g = (case find (\<lambda>gk. fst gk = g) candidates of None \<Rightarrow> [] | Some gk \<Rightarrow> snd gk)"

text \<open>The groups visited when none is named are an argument, and so is the order in which the
  descriptors are visited for each group.\<close>

definition filterAllCandidates ::
  "RegistryIndex \<Rightarrow> string list \<Rightarrow> (string \<Rightarrow> (GroupVersion \<times> Descriptor list) list) \<Rightarrow> group_kind list \<Rightarrow>
   string \<Rightarrow> string \<Rightarrow> Descriptor list option" where
  "filterAllCandidates r groupSet visited candidates grp version =
     (if version \<noteq> [] then map_option (\<lambda>d. [d]) (filterCandidates r candidates grp version)
      else
        let targets = (if grp = [] then Some groupSet
              else case ri_shortGroups r grp of Some g \<Rightarrow> Some [g]
                   | None \<Rightarrow> if grp \<in> ri_longGroups r then Some [grp] else None)
        in case targets of None \<Rightarrow> None
        | Some targetGroups \<Rightarrow>
            let found = concat (map (\<lambda>g.
                  let kind = targetKind candidates g in
                  if kind = [] then []
                  else concat (map (\<lambda>(gv, descs). if gv_Group gv \<noteq> g then []
                         else case find (\<lambda>d. ds_Kind d = kind) descs of None \<Rightarrow> [] | Some d \<Rightarrow> [d]) (visited g)))
                targetGroups)
            in if found = [] then None else Some found)"

definition LookupAllVersionsForPartialGVK ::
  "RegistryIndex \<Rightarrow> (group_kind list \<Rightarrow> string list) \<Rightarrow> (string \<Rightarrow> (GroupVersion \<times> Descriptor list) list) \<Rightarrow>
   PartialGVK \<Rightarrow> Descriptor list option" where
  "LookupAllVersionsForPartialGVK r groupsOf visited gvk =
     (case getKindCandidates r (pg_Resource gvk) of None \<Rightarrow> None
      | Some candidates \<Rightarrow>
          filterAllCandidates r (groupsOf candidates) visited candidates (pg_Group gvk) (pg_Version gvk))"

section \<open>The registry\<close>

definition ignoredResourceGroups :: "string list" where
  "ignoredResourceGroups =
     [''apiregistration.k8s.io'', ''featuretoggle.grafana.app'', ''service.grafana.app'', ''userstorage.grafana.app'',
      ''notifications.alerting.grafana.app'', ''iam.grafana.app'']"

definition keptResource :: "APIResource \<Rightarrow> bool" where
  "keptResource res \<longleftrightarrow> ar_Namespaced res \<and> CHR ''/'' \<notin> set (ar_Name res)"

definition filterList ::
  "string list \<Rightarrow> APIResourceList list \<Rightarrow> APIResourceList \<Rightarrow> discovery_err + APIResourceList list" where
  "filterList ignored kept list =
     bindR (parseGroupVersion (al_GroupVersion list)) (\<lambda>gv.
       Inr (if gv_Group gv \<in> set ignored then kept
            else kept @ [list\<lparr>al_Resources := filter keptResource (al_Resources list)\<rparr>]))"

definition FilterDiscoveryResults ::
  "string list \<Rightarrow> APIGroup list \<Rightarrow> APIResourceList list \<Rightarrow> discovery_err + APIGroup list \<times> APIResourceList list" where
  "FilterDiscoveryResults ignored groups ls =
     bindR (foldR (filterList ignored) [] ls) (\<lambda>kept.
       Inr (filter (\<lambda>g. ap_Name g \<notin> set ignored) groups, kept))"

definition Discover ::
  "RegistryIndex \<Rightarrow> string + APIGroup list \<times> APIResourceList list \<Rightarrow> discovery_err option \<times> RegistryIndex" where
  "Discover r answer =
     (case answer of Inl e \<Rightarrow> (Some (DiscoveryFailed e), r)
      | Inr (groups, ls) \<Rightarrow>
          (case FilterDiscoveryResults ignoredResourceGroups groups ls of
             Inl e \<Rightarrow> (Some e, r)
           | Inr (groups', ls') \<Rightarrow> UpdateIndex r groups' ls'))"

definition makeFiltersForSelector ::
  "RegistryIndex \<Rightarrow> (group_kind list \<Rightarrow> string list) \<Rightarrow> (string \<Rightarrow> (GroupVersion \<times> Descriptor list) list) \<Rightarrow>
   bool \<Rightarrow> Selector \<Rightarrow> invalid_selector + ResourceFilter list" where
  "makeFiltersForSelector r groupsOf visited preferredVersionOnly sel =
     (let descs = (if pg_Version (sl_GVK sel) \<noteq> [] \<or> preferredVersionOnly
                   then map_option (\<lambda>d. [d]) (LookupPartialGVK r (sl_GVK sel))
                   else LookupAllVersionsForPartialGVK r groupsOf visited (sl_GVK sel))
      in case descs of
           None \<Rightarrow> Inl (InvalidSelectorError (selectorString sel) Unsupported)
         | Some ds \<Rightarrow>
             Inr (map (\<lambda>d. \<lparr>fl_Type = sl_Type sel, fl_Descriptor = d, fl_ResourceUIDs = sl_ResourceUIDs sel\<rparr>) ds))"

definition MakeFilters ::
  "RegistryIndex \<Rightarrow> (group_kind list \<Rightarrow> string list) \<Rightarrow> (string \<Rightarrow> (GroupVersion \<times> Descriptor list) list) \<Rightarrow>
   bool \<Rightarrow> Selector list \<Rightarrow> invalid_selector + ResourceFilter list" where
  "MakeFilters r groupsOf visited preferredVersionOnly sels =
     foldR (\<lambda>fs sel. bindR (makeFiltersForSelector r groupsOf visited preferredVersionOnly sel) (\<lambda>gs. Inr (fs @ gs))) [] sels"

end
