(* ===== verification/Discovery_Properties.thy ===== *)
theory Discovery_Properties
  imports Discovery
begin

text \<open>
  The index holds exactly what the server listed, and a filter is made only for a resource the server
  supports and grafanapi may use.
\<close>

section \<open>What the server listed\<close>

definition listedResources :: "APIResourceList \<Rightarrow> (GroupVersion \<times> APIResource) list" where
  "listedResources l =
     (case parseGroupVersion (al_GroupVersion l) of Inl e \<Rightarrow> []
      | Inr gv \<Rightarrow> map (\<lambda>res. (resourceGroupVersion gv res, res)) (al_Resources l))"

definition listedEntries :: "APIResourceList list \<Rightarrow> (GroupVersion \<times> APIResource) list" where
  "listedEntries ls = concat (map listedResources ls)"

definition describe :: "GroupVersion \<times> APIResource \<Rightarrow> Descriptor" where
  "describe e = resourceDescriptor (fst e) (snd e)"

definition groupKind :: "GroupVersion \<times> APIResource \<Rightarrow> group_kind" where
  "groupKind e = (gv_Group (fst e), ar_Kind (snd e))"

text \<open>The groups and kinds of the resources that have a name, in the order listed.\<close>

definition named :: "(APIResource \<Rightarrow> string) \<Rightarrow> (GroupVersion \<times> APIResource) list \<Rightarrow> string \<rightharpoonup> group_kind list" where
  "named nameOf es n =
     (case filter (\<lambda>e. nameOf (snd e) = n) es of [] \<Rightarrow> None | es' \<Rightarrow> Some (map groupKind es'))"

definition groups_ok :: "RegistryIndex \<Rightarrow> APIGroup list \<Rightarrow> bool" where
  "groups_ok r groups \<longleftrightarrow>
     ri_longGroups r = ap_Name ` set groups \<and>
     (\<forall>s g. ri_shortGroups r s = Some g \<longrightarrow> g \<in> ri_longGroups r \<and> makeShortName g = s) \<and>
     (\<forall>g \<in> ri_longGroups r. ri_shortGroups r (makeShortName g) \<noteq> None) \<and>
     distinct (map fst (ri_preferredVersions r)) \<and>
     (\<forall>name gv. map_of (ri_preferredVersions r) name = Some gv \<longrightarrow>
        gv_Group gv = name \<and> (\<exists>g \<in> set groups. ap_Name g = name \<and> ap_PreferredVersion g = gv_Version gv \<and> gv_Version gv \<noteq> []))"

definition resources_ok :: "RegistryIndex \<Rightarrow> APIGroup list \<Rightarrow> (GroupVersion \<times> APIResource) list \<Rightarrow> bool" where
  "resources_ok r groups es \<longleftrightarrow>
     distinct (map fst (ri_descriptors r)) \<and>
     dom (map_of (ri_descriptors r)) = {gv. \<exists>g \<in> set groups. gv_Group gv = ap_Name g \<and> gv_Version gv \<in> set (ap_Versions g)} \<and>
     (\<forall>gv descs. map_of (ri_descriptors r) gv = Some descs \<longrightarrow> descs = map describe (filter (\<lambda>e. fst e = gv) es)) \<and>
     (\<forall>e \<in> set es. fst e \<in> dom (map_of (ri_descriptors r)) \<and> gv_Group (fst e) \<noteq> []) \<and>
     ri_kindNames r = named ar_Kind es \<and> ri_singularNames r = named ar_SingularName es \<and> ri_pluralNames r = named ar_Name es"

text \<open>An invariant of a loop over what it has gone through so far.\<close>

lemma foldR_prefix:
  assumes "foldR step s xs = Inr s'" and "P [] s"
    and "\<And>ys x t t'. P ys t \<Longrightarrow> step t x = Inr t' \<Longrightarrow> P (ys @ [x]) t'"
  shows "P xs s'"
proof -
  have "foldR step t zs = Inr s' \<Longrightarrow> P ys t \<Longrightarrow> P (ys @ zs) s'" for ys zs t
  proof (induction zs arbitrary: ys t)
    case (Cons x zs)
    then obtain u where u: "step t x = Inr u" "foldR step u zs = Inr s'" by (auto split: sum.splits)
    from Cons.IH [OF u(2), of "ys @ [x]"] assms(3) [OF Cons.prems(2) u(1)] show ?case by simp
  qed simp
  from this [OF assms(1,2)] show ?thesis by simp
qed

text \<open>What the versions of a group leave alone.\<close>

definition same_names :: "RegistryIndex \<Rightarrow> RegistryIndex \<Rightarrow> bool" where
  "same_names r r' \<longleftrightarrow>
     ri_longGroups r' = ri_longGroups r \<and> ri_shortGroups r' = ri_shortGroups r \<and>
     ri_preferredVersions r' = ri_preferredVersions r \<and> ri_kindNames r' = ri_kindNames r \<and>
     ri_singularNames r' = ri_singularNames r \<and> ri_pluralNames r' = ri_pluralNames r"

definition empty_descriptors :: "RegistryIndex \<Rightarrow> GroupVersion set \<Rightarrow> bool" where
  "empty_descriptors r gvs \<longleftrightarrow>
     distinct (map fst (ri_descriptors r)) \<and> dom (map_of (ri_descriptors r)) = gvs \<and>
     (\<forall>gv descs. map_of (ri_descriptors r) gv = Some descs \<longrightarrow> descs = [])"

lemma addVersion_empty:
  assumes "empty_descriptors r gvs" and "addVersion name r v = Inr r'"
  shows "same_names r r'" and "empty_descriptors r' (insert \<lparr>gv_Group = name, gv_Version = v\<rparr> gvs)"
  using assms
  by (auto simp: addVersion_def Let_def same_names_def empty_descriptors_def update_conv' distinct_update split: if_splits)

lemma addVersions_empty:
  assumes "foldR (addVersion name) r vs = Inr r'" and "empty_descriptors r gvs"
  shows "same_names r r' \<and> empty_descriptors r' (gvs \<union> {gv. gv_Group gv = name \<and> gv_Version gv \<in> set vs})"
proof (rule foldR_prefix [OF assms(1)])
  fix ys v t t'
  let ?versions = "\<lambda>vs. {gv. gv_Group gv = name \<and> gv_Version gv \<in> set vs}"
  assume t: "same_names r t \<and> empty_descriptors t (gvs \<union> ?versions ys)" "addVersion name t v = Inr t'"
  have eq: "insert \<lparr>gv_Group = name, gv_Version = v\<rparr> (gvs \<union> ?versions ys) = gvs \<union> ?versions (ys @ [v])" by auto
  from addVersion_empty [OF conjunct2 [OF t(1)] t(2)] t(1)
  show "same_names r t' \<and> empty_descriptors t' (gvs \<union> ?versions (ys @ [v]))"
    unfolding eq by (simp add: same_names_def)
qed (use assms(2) in \<open>simp add: same_names_def\<close>)

section \<open>Groups\<close>

definition listedVersions :: "APIGroup list \<Rightarrow> GroupVersion set" where
  "listedVersions groups = {gv. \<exists>g \<in> set groups. gv_Group gv = ap_Name g \<and> gv_Version gv \<in> set (ap_Versions g)}"

definition no_names :: "RegistryIndex \<Rightarrow> bool" where
  "no_names r \<longleftrightarrow> ri_kindNames r = Map.empty \<and> ri_singularNames r = Map.empty \<and> ri_pluralNames r = Map.empty"

lemma groups_ok_same: "same_names r r' \<Longrightarrow> groups_ok r' gs \<longleftrightarrow> groups_ok r gs"
  unfolding same_names_def groups_ok_def by (elim conjE) (simp only:)

lemma addGroup_ok:
  assumes "groups_ok r groups" and "empty_descriptors r (listedVersions groups)" and "no_names r" and "addGroup r g = Inr r'"
  shows "groups_ok r' (groups @ [g]) \<and> empty_descriptors r' (listedVersions (groups @ [g])) \<and> no_names r'"
proof -
  define r0 where "r0 = r\<lparr>ri_longGroups := insert (ap_Name g) (ri_longGroups r),
      ri_shortGroups := (ri_shortGroups r)(makeShortName (ap_Name g) \<mapsto> ap_Name g)\<rparr>"
  define r1 where "r1 = (if ap_PreferredVersion g \<noteq> []
      then r0\<lparr>ri_preferredVersions := AList.update (ap_Name g)
        \<lparr>gv_Group = ap_Name g, gv_Version = ap_PreferredVersion g\<rparr> (ri_preferredVersions r0)\<rparr> else r0)"
  have fold: "foldR (addVersion (ap_Name g)) r1 (ap_Versions g) = Inr r'"
    using assms(4) unfolding addGroup_def Let_def r0_def r1_def .
  have "empty_descriptors r1 (listedVersions groups)" and n1: "no_names r1"
    using assms(2,3) by (simp_all add: r1_def r0_def empty_descriptors_def no_names_def)
  from addVersions_empty [OF fold this(1)]
  have same: "same_names r1 r'" and empty: "empty_descriptors r' (listedVersions (groups @ [g]))"
    by (auto simp: listedVersions_def elim!: arg_cong [of _ _ "empty_descriptors r'", THEN iffD1, rotated])
  have "groups_ok r1 (groups @ [g])"
    using assms(1) by (auto simp: groups_ok_def r1_def r0_def update_conv' distinct_update simp del: map_of_eq_Some_iff split: if_splits)
  with groups_ok_same [OF same] have "groups_ok r' (groups @ [g])" by simp
  with same n1 empty show ?thesis by (simp add: same_names_def no_names_def)
qed

lemma addGroups_ok:
  assumes "foldR addGroup NewRegistryIndex groups = Inr r"
  shows "groups_ok r groups \<and> empty_descriptors r (listedVersions groups) \<and> no_names r"
proof (rule foldR_prefix [OF assms, where P = "\<lambda>gs r. groups_ok r gs \<and> empty_descriptors r (listedVersions gs) \<and> no_names r"])
  show "groups_ok NewRegistryIndex [] \<and> empty_descriptors NewRegistryIndex (listedVersions []) \<and> no_names NewRegistryIndex"
    by (simp add: NewRegistryIndex_def groups_ok_def empty_descriptors_def listedVersions_def no_names_def)
qed (rule addGroup_ok; blast)

section \<open>Resources\<close>

lemma named_snoc:
  "addName (nameOf (snd e)) (groupKind e) (named nameOf es) = named nameOf (es @ [e])"
  by (rule ext) (auto simp: addName_def named_def split: list.splits option.splits)

lemma resources_start:
  assumes "empty_descriptors r (listedVersions groups)" and "no_names r"
  shows "resources_ok r groups []"
  using assms by (auto simp: resources_ok_def empty_descriptors_def no_names_def listedVersions_def named_def)

lemma addAPIResource_ok:
  assumes "resources_ok r groups es" and "addAPIResource src r res = Inr r'" and "parseGroupVersion src = Inr listed"
  shows "resources_ok r' groups (es @ [(resourceGroupVersion listed res, res)])"
    and "groups_ok r' groups \<longleftrightarrow> groups_ok r groups"
proof -
  define e where "e = (resourceGroupVersion listed res, res)"
  from assms(2,3) obtain descs where descs: "map_of (ri_descriptors r) (fst e) = Some descs"
    and r': "r' = r\<lparr>ri_descriptors := AList.update (fst e) (descs @ [describe e]) (ri_descriptors r),
       ri_kindNames := addName (ar_Kind (snd e)) (groupKind e) (ri_kindNames r),
       ri_singularNames := addName (ar_SingularName (snd e)) (groupKind e) (ri_singularNames r),
       ri_pluralNames := addName (ar_Name (snd e)) (groupKind e) (ri_pluralNames r)\<rparr>"
    by (auto simp: addAPIResource_def Let_def e_def describe_def groupKind_def split: option.splits)
  have "gv_Group (fst e) \<noteq> []"
    using assms(3) by (auto simp: e_def resourceGroupVersion_def parseGroupVersion_def split: list.splits if_splits)
  note group = this
  note R = assms(1) [unfolded resources_ok_def]
  have own: "descs = map describe (filter (\<lambda>x. fst x = fst e) es)" using R descs by blast
  have dom: "dom (map_of (ri_descriptors r')) = dom (map_of (ri_descriptors r))"
    using descs by (auto simp: r' update_conv')
  have names: "ri_kindNames r' = named ar_Kind (es @ [e])" "ri_singularNames r' = named ar_SingularName (es @ [e])"
    "ri_pluralNames r' = named ar_Name (es @ [e])"
    using R by (simp_all add: r' named_snoc)
  have "distinct (map fst (ri_descriptors r'))" using R by (simp add: r' distinct_update)
  moreover have "\<forall>gv ds. map_of (ri_descriptors r') gv = Some ds \<longrightarrow> ds = map describe (filter (\<lambda>x. fst x = gv) (es @ [e]))"
    using R own by (auto simp: r' update_conv' simp del: map_of_eq_Some_iff)
  moreover have "\<forall>x \<in> set (es @ [e]). fst x \<in> dom (map_of (ri_descriptors r')) \<and> gv_Group (fst x) \<noteq> []"
    using R group descs unfolding dom by auto
  ultimately show "resources_ok r' groups (es @ [(resourceGroupVersion listed res, res)])"
    using R unfolding e_def [symmetric] resources_ok_def dom names by blast
  show "groups_ok r' groups \<longleftrightarrow> groups_ok r groups" by (simp add: groups_ok_def r')
qed

lemma addResourceList_ok:
  assumes "resources_ok r groups es" and "groups_ok r groups" and "addResourceList r l = Inr r'"
  shows "resources_ok r' groups (es @ listedResources l) \<and> groups_ok r' groups"
proof (cases "parseGroupVersion (al_GroupVersion l)")
  case (Inl e)
  then have "al_Resources l = []" using assms(3)
    by (cases "al_Resources l") (simp_all add: addResourceList_def addAPIResource_def)
  then show ?thesis using assms Inl by (simp add: addResourceList_def listedResources_def)
next
  case (Inr listed)
  let ?entries = "map (\<lambda>res. (resourceGroupVersion listed res, res))"
  from assms(3) have "foldR (addAPIResource (al_GroupVersion l)) r (al_Resources l) = Inr r'" by (simp add: addResourceList_def)
  then have "resources_ok r' groups (es @ ?entries (al_Resources l)) \<and> groups_ok r' groups"
  proof (rule foldR_prefix)
    fix ys x t t'
    assume "resources_ok t groups (es @ ?entries ys) \<and> groups_ok t groups" "addAPIResource (al_GroupVersion l) t x = Inr t'"
    with addAPIResource_ok [OF _ this(2) Inr] show "resources_ok t' groups (es @ ?entries (ys @ [x])) \<and> groups_ok t' groups" by force
  qed (use assms in simp)
  then show ?thesis by (simp add: listedResources_def Inr)
qed

lemma buildIndex_ok:
  assumes "buildIndex groups ls = Inr r"
  shows "groups_ok r groups \<and> resources_ok r groups (listedEntries ls)"
proof -
  from assms obtain r0 where r0: "foldR addGroup NewRegistryIndex groups = Inr r0" and r: "foldR addResourceList r0 ls = Inr r"
    by (auto simp: buildIndex_def bindR_Inr_iff)
  note start = addGroups_ok [OF r0]
  show ?thesis
  proof (rule foldR_prefix [OF r, where P = "\<lambda>ls r. groups_ok r groups \<and> resources_ok r groups (listedEntries ls)"])
    show "groups_ok r0 groups \<and> resources_ok r0 groups (listedEntries [])"
      using start by (simp add: resources_start listedEntries_def)
  qed (use addResourceList_ok in \<open>fastforce simp: listedEntries_def\<close>)
qed

text \<open>The tables of the groups, written out: of two groups with one short name, or one name, the last one
  listed counts, and a group without a preferred version has no entry.\<close>

definition listedShort :: "APIGroup list \<Rightarrow> string \<rightharpoonup> string" where
  "listedShort groups = map_of (rev (map (\<lambda>g. (makeShortName (ap_Name g), ap_Name g)) groups))"

definition listedPreferred :: "APIGroup list \<Rightarrow> string \<rightharpoonup> GroupVersion" where
  "listedPreferred groups =
     map_of (rev (map (\<lambda>g. (ap_Name g, \<lparr>gv_Group = ap_Name g, gv_Version = ap_PreferredVersion g\<rparr>))
       (filter (\<lambda>g. ap_PreferredVersion g \<noteq> []) groups)))"

definition groups_exact :: "RegistryIndex \<Rightarrow> APIGroup list \<Rightarrow> bool" where
  "groups_exact r groups \<longleftrightarrow>
     ri_shortGroups r = listedShort groups \<and> map_of (ri_preferredVersions r) = listedPreferred groups"

lemma addGroup_exact:
  assumes "groups_exact r groups" and "addGroup r g = Inr r'"
  shows "groups_exact r' (groups @ [g])"
proof -
  define r1 where "r1 = (let named = r\<lparr>ri_longGroups := insert (ap_Name g) (ri_longGroups r),
        ri_shortGroups := (ri_shortGroups r)(makeShortName (ap_Name g) \<mapsto> ap_Name g)\<rparr> in
      if ap_PreferredVersion g \<noteq> []
      then named\<lparr>ri_preferredVersions := AList.update (ap_Name g)
        \<lparr>gv_Group = ap_Name g, gv_Version = ap_PreferredVersion g\<rparr> (ri_preferredVersions named)\<rparr> else named)"
  have "foldR (addVersion (ap_Name g)) r1 (ap_Versions g) = Inr r'"
    using assms(2) unfolding addGroup_def Let_def r1_def .
  then have "ri_shortGroups r' = ri_shortGroups r1 \<and> ri_preferredVersions r' = ri_preferredVersions r1"
    by (rule foldR_prefix) (auto simp: addVersion_def Let_def split: if_splits)
  with assms(1) show ?thesis
    by (auto simp: groups_exact_def r1_def Let_def listedShort_def listedPreferred_def update_conv')
qed

lemma addGroups_exact:
  assumes "foldR addGroup NewRegistryIndex groups = Inr r"
  shows "groups_exact r groups"
proof (rule foldR_prefix [OF assms, where P = "\<lambda>gs r. groups_exact r gs"])
  show "groups_exact NewRegistryIndex []"
    by (simp add: NewRegistryIndex_def groups_exact_def listedShort_def listedPreferred_def)
qed (rule addGroup_exact)

lemma addAPIResource_groups:
  "addAPIResource gv r res = Inr r' \<Longrightarrow>
     ri_shortGroups r' = ri_shortGroups r \<and> ri_preferredVersions r' = ri_preferredVersions r"
  by (auto simp: addAPIResource_def bindR_Inr_iff Let_def split: option.splits)

lemma buildIndex_exact:
  assumes "buildIndex groups ls = Inr r"
  shows "groups_exact r groups"
proof -
  from assms obtain r0 where r0: "foldR addGroup NewRegistryIndex groups = Inr r0" and r: "foldR addResourceList r0 ls = Inr r"
    by (auto simp: buildIndex_def bindR_Inr_iff)
  have one: "groups_exact t' groups" if "groups_exact t groups" "addResourceList t l = Inr t'" for t t' l
    using that(2) unfolding addResourceList_def
    by (rule foldR_prefix) (use that(1) addAPIResource_groups in \<open>auto simp: groups_exact_def\<close>)
  show ?thesis by (rule foldR_prefix [OF r]) (use addGroups_exact [OF r0] one in auto)
qed


section \<open>Lookups\<close>

text \<open>A descriptor answers a partial identification: it is one the server listed, some resource of its
  group and kind carries the name asked for, and its version and group are the ones asked for.\<close>

definition answers :: "(GroupVersion \<times> APIResource) list \<Rightarrow> PartialGVK \<Rightarrow> Descriptor \<Rightarrow> bool" where
  "answers es gvk d \<longleftrightarrow>
     (\<exists>e \<in> set es. d = describe e \<and>
        (\<exists>e' \<in> set es. groupKind e' = groupKind e \<and>
           pg_Resource gvk \<in> {ar_Kind (snd e'), ar_SingularName (snd e'), ar_Name (snd e')})) \<and>
     (pg_Version gvk \<noteq> [] \<longrightarrow> ds_Version d = pg_Version gvk) \<and>
     (pg_Group gvk \<noteq> [] \<longrightarrow> ds_Group d = pg_Group gvk \<or> makeShortName (ds_Group d) = pg_Group gvk)"

definition preferred :: "APIGroup list \<Rightarrow> Descriptor \<Rightarrow> bool" where
  "preferred groups d \<longleftrightarrow> (\<exists>g \<in> set groups. ap_Name g = ds_Group d \<and> ap_PreferredVersion g = ds_Version d)"

lemma chooseKind_in:
  "chooseKind g cs = (g', kind) \<Longrightarrow> kind \<noteq> [] \<Longrightarrow> (g', kind) \<in> set cs \<and> (g \<noteq> [] \<longrightarrow> g' = g)"
  by (induction g cs rule: chooseKind.induct) (auto simp: Let_def split: if_splits)

lemma named_eq: "named nameOf es n = Some cs \<Longrightarrow> cs = map groupKind (filter (\<lambda>e. nameOf (snd e) = n) es)"
  unfolding named_def by (cases "filter (\<lambda>e. nameOf (snd e) = n) es") simp_all

lemma named_in: "named nameOf es n = Some cs \<Longrightarrow> c \<in> set cs \<Longrightarrow> \<exists>e \<in> set es. groupKind e = c \<and> nameOf (snd e) = n"
  by (drule named_eq) auto

lemma getKindCandidates_in:
  assumes "resources_ok r groups es" and "getKindCandidates r n = Some cs" and "c \<in> set cs"
  shows "\<exists>e \<in> set es. groupKind e = c \<and> n \<in> {ar_Kind (snd e), ar_SingularName (snd e), ar_Name (snd e)}"
proof -
  have "ri_kindNames r = named ar_Kind es" "ri_singularNames r = named ar_SingularName es" "ri_pluralNames r = named ar_Name es"
    using assms(1) by (simp_all add: resources_ok_def)
  with assms(2) consider "named ar_Kind es n = Some cs" | "named ar_SingularName es n = Some cs" | "named ar_Name es n = Some cs"
    by (auto simp: getKindCandidates_def split: option.splits)
  then show ?thesis by cases (use named_in [OF _ assms(3)] in blast)+
qed

lemma stored_descriptor:
  assumes "resources_ok r groups es" and "map_of (ri_descriptors r) gv = Some descs" and "find (\<lambda>d. ds_Kind d = kind) descs = Some d"
  shows "\<exists>e \<in> set es. d = describe e \<and> groupKind e = (gv_Group gv, kind) \<and> ds_Version d = gv_Version gv \<and> ds_Group d = gv_Group gv"
proof -
  have "descs = map describe (filter (\<lambda>e. fst e = gv) es)" using assms(1,2) by (simp add: resources_ok_def)
  with find_Some_in [OF assms(3)] show ?thesis
    by (auto simp: describe_def resourceDescriptor_def groupKind_def)
qed

lemma namedGroup_ok:
  assumes "groups_ok r groups" and "namedGroup r g = Some g'" and "g \<noteq> []"
  shows "g' = g \<or> makeShortName g' = g"
  using assms by (auto simp: groups_ok_def namedGroup_def split: if_splits)

lemma filterCandidates_sound:
  assumes G: "groups_ok r groups" and R: "resources_ok r groups es"
    and cs: "getKindCandidates r (pg_Resource gvk) = Some cs"
    and d: "filterCandidates r cs (pg_Group gvk) (pg_Version gvk) = Some d"
  shows "answers es gvk d" and "pg_Version gvk = [] \<Longrightarrow> preferred groups d"
proof -
  from d obtain g0 g kind v descs where g0: "namedGroup r (pg_Group gvk) = Some g0" and k: "chooseKind g0 cs = (g, kind)" "kind \<noteq> []"
    and v: "(if pg_Version gvk \<noteq> [] then Some (pg_Version gvk) else map_option gv_Version (map_of (ri_preferredVersions r) g)) = Some v"
    and found: "map_of (ri_descriptors r) \<lparr>gv_Group = g, gv_Version = v\<rparr> = Some descs" "find (\<lambda>d. ds_Kind d = kind) descs = Some d"
    by (auto simp: filterCandidates_def Let_def split: option.splits prod.splits if_splits)
  from stored_descriptor [OF R found] obtain e where e: "e \<in> set es" "d = describe e" "groupKind e = (g, kind)"
    "ds_Version d = v" "ds_Group d = g" by auto
  note c = chooseKind_in [OF k]
  from getKindCandidates_in [OF R cs, of "(g, kind)"] c obtain e' where e': "e' \<in> set es" "groupKind e' = (g, kind)"
    "pg_Resource gvk \<in> {ar_Kind (snd e'), ar_SingularName (snd e'), ar_Name (snd e')}" by auto
  have "pg_Group gvk \<noteq> [] \<longrightarrow> g = pg_Group gvk \<or> makeShortName g = pg_Group gvk"
  proof
    assume group: "pg_Group gvk \<noteq> []"
    have "g0 \<noteq> []"
    proof
      assume "g0 = []"
      with namedGroup_ok [OF G g0 group] have "pg_Group gvk = []" using group by (auto simp: makeShortName_def)
      with group show False by simp
    qed
    with c namedGroup_ok [OF G g0 group] show "g = pg_Group gvk \<or> makeShortName g = pg_Group gvk" by auto
  qed
  moreover have "pg_Version gvk \<noteq> [] \<longrightarrow> v = pg_Version gvk" using v by auto
  ultimately show "answers es gvk d" using e e' unfolding answers_def by fastforce
  show "preferred groups d" if none: "pg_Version gvk = []"
  proof -
    from v none obtain gv where gv: "map_of (ri_preferredVersions r) g = Some gv" "gv_Version gv = v" by auto
    with G have "\<exists>x \<in> set groups. ap_Name x = g \<and> ap_PreferredVersion x = gv_Version gv" unfolding groups_ok_def by blast
    with gv(2) e(4,5) show ?thesis by (auto simp: preferred_def)
  qed
qed

lemma LookupPartialGVK_sound:
  assumes "groups_ok r groups" and "resources_ok r groups es" and "LookupPartialGVK r gvk = Some d"
  shows "answers es gvk d" and "pg_Version gvk = [] \<Longrightarrow> preferred groups d"
  using assms(3) filterCandidates_sound [OF assms(1,2)] by (auto simp: LookupPartialGVK_def split: option.splits)

lemma targetKind_in: "targetKind cs g \<noteq> [] \<Longrightarrow> (g, targetKind cs g) \<in> set cs"
  by (auto simp: targetKind_def split: option.splits dest!: find_Some_in)

text \<open>The order of the ranges does not matter: any permutation visits the same things.\<close>

definition visits_index :: "RegistryIndex \<Rightarrow> (string \<Rightarrow> (GroupVersion \<times> Descriptor list) list) \<Rightarrow> (group_kind list \<Rightarrow> string list) \<Rightarrow> bool" where
  "visits_index r visited groupsOf \<longleftrightarrow>
     (\<forall>g. set (visited g) = set (ri_descriptors r)) \<and> (\<forall>cs. set (groupsOf cs) = fst ` set cs)"

lemma targets_named:
  assumes "groups_ok r groups" and "grp \<noteq> []"
    and "(case ri_shortGroups r grp of Some g \<Rightarrow> Some [g] | None \<Rightarrow> if grp \<in> ri_longGroups r then Some [grp] else None) = Some targets"
    and "g \<in> set targets"
  shows "g = grp \<or> makeShortName g = grp"
  using assms by (auto simp: groups_ok_def split: option.splits if_splits)

lemma filterAllCandidates_sound:
  assumes G: "groups_ok r groups" and R: "resources_ok r groups es" and V: "visits_index r visited groupsOf"
    and cs: "getKindCandidates r (pg_Resource gvk) = Some cs"
    and ds: "filterAllCandidates r (groupsOf cs) visited cs (pg_Group gvk) (pg_Version gvk) = Some ds"
  shows "ds \<noteq> []" and "d \<in> set ds \<Longrightarrow> answers es gvk d"
proof -
  have "ds \<noteq> [] \<and> (d \<in> set ds \<longrightarrow> answers es gvk d)"
  proof (cases "pg_Version gvk = []")
    case False
    then show ?thesis using ds filterCandidates_sound(1) [OF G R cs] by (auto simp: filterAllCandidates_def)
  next
    case True
    define targets where "targets = (if pg_Group gvk = [] then Some (groupsOf cs)
              else case ri_shortGroups r (pg_Group gvk) of Some g \<Rightarrow> Some [g]
                   | None \<Rightarrow> if pg_Group gvk \<in> ri_longGroups r then Some [pg_Group gvk] else None)"
    from ds True obtain gs where gs: "targets = Some gs" and ds_eq: "ds = concat (map (\<lambda>g. if targetKind cs g = [] then []
        else concat (map (\<lambda>(gv, descs). if gv_Group gv \<noteq> g then []
               else case find (\<lambda>d. ds_Kind d = targetKind cs g) descs of None \<Rightarrow> [] | Some d \<Rightarrow> [d]) (visited g))) gs)" "ds \<noteq> []"
      by (auto simp: filterAllCandidates_def targets_def [symmetric] Let_def split: option.splits if_splits)
    have "answers es gvk d" if d: "d \<in> set ds"
    proof -
      from d obtain g gv descs where g: "g \<in> set gs" "targetKind cs g \<noteq> []" and in_visited: "(gv, descs) \<in> set (visited g)"
        and found: "gv_Group gv = g" "find (\<lambda>d. ds_Kind d = targetKind cs g) descs = Some d"
        by (auto simp: ds_eq(1) split: if_splits option.splits)
      have "map_of (ri_descriptors r) gv = Some descs"
        using in_visited V R by (auto simp: visits_index_def resources_ok_def intro: map_of_is_SomeI)
      from stored_descriptor [OF R this found(2)] obtain e where e: "e \<in> set es" "d = describe e"
        "groupKind e = (g, targetKind cs g)" "ds_Group d = g" using found(1) by auto
      from getKindCandidates_in [OF R cs targetKind_in [OF g(2)]] obtain e' where e': "e' \<in> set es"
        "groupKind e' = (g, targetKind cs g)" "pg_Resource gvk \<in> {ar_Kind (snd e'), ar_SingularName (snd e'), ar_Name (snd e')}"
        by auto
      have "pg_Group gvk \<noteq> [] \<longrightarrow> g = pg_Group gvk \<or> makeShortName g = pg_Group gvk"
      proof
        assume group: "pg_Group gvk \<noteq> []"
        with gs have "(case ri_shortGroups r (pg_Group gvk) of Some g \<Rightarrow> Some [g]
            | None \<Rightarrow> if pg_Group gvk \<in> ri_longGroups r then Some [pg_Group gvk] else None) = Some gs"
          by (simp add: targets_def)
        from targets_named [OF G group this g(1)] show "g = pg_Group gvk \<or> makeShortName g = pg_Group gvk" .
      qed
      with e e' True show ?thesis unfolding answers_def by fastforce
    qed
    with ds_eq(2) show ?thesis by blast
  qed
  then show "ds \<noteq> []" and "d \<in> set ds \<Longrightarrow> answers es gvk d" by blast+
qed

lemma makeFilters_sound:
  assumes G: "groups_ok r groups" and R: "resources_ok r groups es" and V: "visits_index r visited groupsOf"
    and fs: "makeFiltersForSelector r groupsOf visited pref sel = Inr fs"
  shows "fs \<noteq> [] \<and> (\<forall>f \<in> set fs. fl_Type f = sl_Type sel \<and> fl_ResourceUIDs f = sl_ResourceUIDs sel \<and>
    answers es (sl_GVK sel) (fl_Descriptor f) \<and>
    (pref \<and> pg_Version (sl_GVK sel) = [] \<longrightarrow> preferred groups (fl_Descriptor f)))"
proof (cases "pg_Version (sl_GVK sel) \<noteq> [] \<or> pref")
  case True
  with fs show ?thesis using LookupPartialGVK_sound [OF G R]
    by (auto simp: makeFiltersForSelector_def Let_def split: option.splits)
next
  case False
  with fs obtain ds where "LookupAllVersionsForPartialGVK r groupsOf visited (sl_GVK sel) = Some ds"
    and fs_eq: "fs = map (\<lambda>d. \<lparr>fl_Type = sl_Type sel, fl_Descriptor = d, fl_ResourceUIDs = sl_ResourceUIDs sel\<rparr>) ds"
    by (auto simp: makeFiltersForSelector_def Let_def split: option.splits)
  then obtain cs where "getKindCandidates r (pg_Resource (sl_GVK sel)) = Some cs"
    "filterAllCandidates r (groupsOf cs) visited cs (pg_Group (sl_GVK sel)) (pg_Version (sl_GVK sel)) = Some ds"
    by (auto simp: LookupAllVersionsForPartialGVK_def split: option.splits)
  from filterAllCandidates_sound [OF G R V this] fs_eq False show ?thesis by auto
qed

section \<open>From the discovery to the filters\<close>

lemma filterList_step:
  assumes "filterList ignored kept l = Inr kept'"
  shows "kept' = kept \<or> (\<exists>gv. parseGroupVersion (al_GroupVersion l) = Inr gv \<and> gv_Group gv \<notin> set ignored \<and>
    kept' = kept @ [l\<lparr>al_Resources := filter keptResource (al_Resources l)\<rparr>])"
  using assms by (auto simp: filterList_def bindR_Inr_iff split: if_splits)

lemma listedEntries_snoc: "listedEntries (ls @ [l]) = listedEntries ls @ listedResources l"
  by (simp add: listedEntries_def)

lemma listedResources_kept:
  "set (listedResources (l\<lparr>al_Resources := filter keptResource (al_Resources l)\<rparr>)) = {e \<in> set (listedResources l). keptResource (snd e)}"
  by (auto simp: listedResources_def split: sum.splits)

lemma filtered_entries:
  assumes "FilterDiscoveryResults ignored groups ls = Inr (groups', ls')"
  shows "set groups' = {g \<in> set groups. ap_Name g \<notin> set ignored} \<and>
    set (listedEntries ls') \<subseteq> {e \<in> set (listedEntries ls). keptResource (snd e)}"
proof -
  from assms have fold: "foldR (filterList ignored) [] ls = Inr ls'" and groups': "groups' = filter (\<lambda>g. ap_Name g \<notin> set ignored) groups"
    by (auto simp: FilterDiscoveryResults_def bindR_Inr_iff)
  have "set (listedEntries ls') \<subseteq> {e \<in> set (listedEntries ls). keptResource (snd e)}"
  proof (rule foldR_prefix [OF fold, where P = "\<lambda>ls ls'. set (listedEntries ls') \<subseteq> {e \<in> set (listedEntries ls). keptResource (snd e)}"])
    fix ys l kept kept'
    assume IH: "set (listedEntries kept) \<subseteq> {e \<in> set (listedEntries ys). keptResource (snd e)}" and "filterList ignored kept l = Inr kept'"
    from filterList_step [OF this(2)]
    show "set (listedEntries kept') \<subseteq> {e \<in> set (listedEntries (ys @ [l])). keptResource (snd e)}"
      using IH by (auto simp: listedEntries_snoc listedResources_kept)
  qed (simp add: listedEntries_def)
  with groups' show ?thesis by auto
qed

lemma answers_mono: "answers es gvk d \<Longrightarrow> set es \<subseteq> set es' \<Longrightarrow> answers es' gvk d"
  unfolding answers_def by blast

definition filter_for :: "APIGroup list \<Rightarrow> (GroupVersion \<times> APIResource) list \<Rightarrow> bool \<Rightarrow> Selector \<Rightarrow> ResourceFilter \<Rightarrow> bool" where
  "filter_for groups es pref sel f \<longleftrightarrow>
     fl_Type f = sl_Type sel \<and> fl_ResourceUIDs f = sl_ResourceUIDs sel \<and>
     answers es (sl_GVK sel) (fl_Descriptor f) \<and>
     (pref \<and> pg_Version (sl_GVK sel) = [] \<longrightarrow> preferred groups (fl_Descriptor f)) \<and>
     (\<exists>e \<in> set es. fl_Descriptor f = describe e \<and> ar_Namespaced (snd e) \<and> CHR ''/'' \<notin> set (ar_Name (snd e))) \<and>
     ds_Group (fl_Descriptor f) \<notin> set ignoredResourceGroups"

lemma discovered_filter:
  assumes discovered: "Discover r0 (Inr (groups, ls)) = (None, r)" and V: "visits_index r visited groupsOf"
    and gs: "makeFiltersForSelector r groupsOf visited pref sel = Inr gs"
  shows "gs \<noteq> [] \<and> (\<forall>f \<in> set gs. filter_for groups (listedEntries ls) pref sel f)"
proof -
  from discovered obtain groups' ls' where filtered: "FilterDiscoveryResults ignoredResourceGroups groups ls = Inr (groups', ls')"
    and built: "buildIndex groups' ls' = Inr r"
    by (auto simp: Discover_def UpdateIndex_def split: sum.splits)
  from buildIndex_ok [OF built] have G: "groups_ok r groups'" and R: "resources_ok r groups' (listedEntries ls')" by auto
  note sub = filtered_entries [OF filtered]
  have "filter_for groups (listedEntries ls) pref sel f" if f: "f \<in> set gs" for f
  proof -
    from makeFilters_sound [OF G R V gs] f have made: "fl_Type f = sl_Type sel" "fl_ResourceUIDs f = sl_ResourceUIDs sel"
      "answers (listedEntries ls') (sl_GVK sel) (fl_Descriptor f)"
      "pref \<and> pg_Version (sl_GVK sel) = [] \<Longrightarrow> preferred groups' (fl_Descriptor f)" by auto
    from made(3) obtain e where e: "e \<in> set (listedEntries ls')" "fl_Descriptor f = describe e" unfolding answers_def by blast
    from R e(1) have "fst e \<in> dom (map_of (ri_descriptors r))" unfolding resources_ok_def by blast
    with R have "\<exists>g \<in> set groups'. gv_Group (fst e) = ap_Name g" unfolding resources_ok_def by auto
    with sub have "gv_Group (fst e) \<notin> set ignoredResourceGroups" by auto
    then have "ds_Group (fl_Descriptor f) \<notin> set ignoredResourceGroups" by (simp add: e(2) describe_def resourceDescriptor_def)
    moreover have "answers (listedEntries ls) (sl_GVK sel) (fl_Descriptor f)" using answers_mono [OF made(3)] sub by blast
    moreover have "preferred groups (fl_Descriptor f)" if "pref \<and> pg_Version (sl_GVK sel) = []"
      using made(4) [OF that] sub by (auto simp: preferred_def)
    moreover have "e \<in> set (listedEntries ls) \<and> keptResource (snd e)" using e(1) sub by blast
    ultimately show ?thesis using made(1,2) e(2) unfolding filter_for_def keptResource_def by blast
  qed
  with makeFilters_sound [OF G R V gs] show ?thesis by blast
qed

text \<open>C30: After a discovery, every filter made from selectors carries the type and the names of one of
  them, and its descriptor is a resource the server listed that answers that selector: namespaced, no
  subresource, in no ignored group, and the preferred version where only that was asked for. Every
  selector gets a filter, and a selector nothing answers is an error.\<close>

theorem discovered_filters:
  assumes discovered: "Discover r0 (Inr (groups, ls)) = (None, r)" and V: "visits_index r visited groupsOf"
    and fs: "MakeFilters r groupsOf visited pref sels = Inr fs"
  shows "(\<forall>f \<in> set fs. \<exists>sel \<in> set sels. filter_for groups (listedEntries ls) pref sel f) \<and>
    (\<forall>sel \<in> set sels. \<exists>f \<in> set fs. filter_for groups (listedEntries ls) pref sel f)"
    (is "?ok sels fs")
proof -
  have fold: "foldR (\<lambda>fs sel. bindR (makeFiltersForSelector r groupsOf visited pref sel) (\<lambda>gs. Inr (fs @ gs))) [] sels = Inr fs"
    using fs by (simp add: MakeFilters_def)
  show ?thesis
  proof (rule foldR_prefix [OF fold, where P = ?ok])
    fix ys sel t t'
    assume IH: "?ok ys t"
      and "bindR (makeFiltersForSelector r groupsOf visited pref sel) (\<lambda>gs. Inr (t @ gs)) = Inr t'"
    then obtain gs where gs: "makeFiltersForSelector r groupsOf visited pref sel = Inr gs" and t': "t' = t @ gs"
      by (auto simp: bindR_Inr_iff)
    from discovered_filter [OF discovered V gs] obtain f where f: "f \<in> set gs" "filter_for groups (listedEntries ls) pref sel f"
      by (cases gs) auto
    with IH discovered_filter [OF discovered V gs] show "?ok (ys @ [sel]) t'"
      unfolding t' by (simp add: ball_Un bex_Un) blast
  qed simp
qed

section \<open>Completeness\<close>

lemma chooseKind_same:
  "g \<noteq> [] \<Longrightarrow> \<forall>c \<in> set cs. snd c = kind \<Longrightarrow> (g, kind) \<in> set cs \<Longrightarrow> chooseKind g cs = (g, kind)"
  by (induction cs) (auto simp: Let_def)

text \<open>Every listed resource with a kind is found under its own group, version and kind.\<close>

lemma LookupPartialGVK_complete:
  assumes G: "groups_ok r groups" and R: "resources_ok r groups es" and e: "e \<in> set es"
    and named_kind: "ar_Kind (snd e) \<noteq> []" "gv_Version (fst e) \<noteq> []"
  shows "\<exists>d. LookupPartialGVK r \<lparr>pg_Group = gv_Group (fst e), pg_Version = gv_Version (fst e), pg_Resource = ar_Kind (snd e)\<rparr> = Some d \<and>
    descriptorGVK d = \<lparr>gvk_Group = gv_Group (fst e), gvk_Version = gv_Version (fst e), gvk_Kind = ar_Kind (snd e)\<rparr>"
proof -
  let ?g = "gv_Group (fst e)" and ?v = "gv_Version (fst e)" and ?k = "ar_Kind (snd e)"
  have dom: "fst e \<in> dom (map_of (ri_descriptors r))" and group: "?g \<noteq> []"
    using R e unfolding resources_ok_def by blast+
  have long: "?g \<in> ri_longGroups r" using R G dom unfolding resources_ok_def groups_ok_def by auto
  define cs where "cs = map groupKind (filter (\<lambda>x. ar_Kind (snd x) = ?k) es)"
  have "named ar_Kind es ?k = Some cs"
    using e by (auto simp: named_def cs_def filter_empty_conv split: list.splits)
  then have cs: "getKindCandidates r ?k = Some cs" using R by (simp add: getKindCandidates_def resources_ok_def)
  have "chooseKind ?g cs = (?g, ?k)"
    using e group by (intro chooseKind_same) (auto simp: cs_def groupKind_def)
  moreover obtain descs where descs: "map_of (ri_descriptors r) (fst e) = Some descs" using dom by blast
  then have "descs = map describe (filter (\<lambda>x. fst x = fst e) es)" using R by (simp add: resources_ok_def)
  then have "describe e \<in> set descs" using e by simp
  then obtain d where d: "find (\<lambda>d. ds_Kind d = ?k) descs = Some d"
    by (cases "find (\<lambda>d. ds_Kind d = ?k) descs") (auto simp: find_None_iff describe_def resourceDescriptor_def)
  moreover have "map_of (ri_descriptors r) \<lparr>gv_Group = ?g, gv_Version = ?v\<rparr> = Some descs"
    using descs by (cases "fst e") simp
  ultimately have "LookupPartialGVK r \<lparr>pg_Group = ?g, pg_Version = ?v, pg_Resource = ?k\<rparr> = Some d"
    using cs long group named_kind by (simp add: LookupPartialGVK_def filterCandidates_def namedGroup_def)
  with stored_descriptor [OF R descs d] show ?thesis
    by (auto simp: descriptorGVK_def describe_def resourceDescriptor_def groupKind_def)
qed

section \<open>A server with dashboards\<close>

definition dash_groups :: "APIGroup list" where
  "dash_groups = [\<lparr>ap_Name = ''d.app'', ap_PreferredVersion = ''v1'', ap_Versions = [''v1'', ''v2'']\<rparr>,
     \<lparr>ap_Name = ''iam.grafana.app'', ap_PreferredVersion = [], ap_Versions = [''v0'']\<rparr>]"

definition dash_lists :: "APIResourceList list" where
  "dash_lists = [\<lparr>al_GroupVersion = ''d.app/v1'',
     al_Resources = [\<lparr>ar_Name = ''dashboards'', ar_SingularName = ''dashboard'', ar_Kind = ''Dashboard'', ar_Group = [], ar_Version = [],
         ar_Namespaced = True\<rparr>,
       \<lparr>ar_Name = ''dashboards/dto'', ar_SingularName = [], ar_Kind = ''Dto'', ar_Group = [], ar_Version = [], ar_Namespaced = True\<rparr>]\<rparr>]"

definition dash_selector :: Selector where
  "dash_selector = \<lparr>sl_Type = FilterTypeSingle, sl_GVK = \<lparr>pg_Group = ''d'', pg_Version = [], pg_Resource = ''dashboards''\<rparr>, sl_ResourceUIDs = [''a'']\<rparr>"

definition dash_index :: RegistryIndex where
  "dash_index = snd (Discover NewRegistryIndex (Inr (dash_groups, dash_lists)))"

lemma dash_discovered: "fst (Discover NewRegistryIndex (Inr (dash_groups, dash_lists))) = None"
  by code_simp

lemma dash_filter: "isOk (MakeFilters dash_index (map fst) (\<lambda>g. ri_descriptors dash_index) True [dash_selector])"
  by code_simp

theorem discovered_filters_witness:
  "\<exists>r fs. Discover NewRegistryIndex (Inr (dash_groups, dash_lists)) = (None, r) \<and>
     MakeFilters r (map fst) (\<lambda>g. ri_descriptors r) True [dash_selector] = Inr fs \<and>
     (\<exists>f \<in> set fs. filter_for dash_groups (listedEntries dash_lists) True dash_selector f)"
proof -
  have r: "Discover NewRegistryIndex (Inr (dash_groups, dash_lists)) = (None, dash_index)"
    using dash_discovered by (simp add: dash_index_def prod_eq_iff)
  from dash_filter obtain fs where fs: "MakeFilters dash_index (map fst) (\<lambda>g. ri_descriptors dash_index) True [dash_selector] = Inr fs"
    by (auto simp: isOk_iff)
  have "visits_index dash_index (\<lambda>g. ri_descriptors dash_index) (map fst)" by (simp add: visits_index_def)
  from discovered_filters [OF r this fs] r fs show ?thesis by auto
qed

lemma dash_built: "isOk (buildIndex dash_groups dash_lists)"
  by code_simp


end
