(* ===== verification/Resource_Pull.thy ===== *)
theory Resource_Pull
  imports Discovery_Properties Folder_Levels_Properties
begin

text \<open>
  Pulling resources (\<^verbatim>\<open>internal/resources/remote/puller.go\<close>): one goroutine a filter asks the server,
  then the answers are processed in the order of the filters.

  The client is not part of the repository: what it answers to the request of a goroutine is an
  argument, and so is the order in which the goroutines come to an end, a permutation of the filters.
  An object of the server is of type \<open>'i\<close>, and what \<^verbatim>\<open>FromUnstructured\<close> makes of one is another
  argument. Log lines are not modelled.
\<close>

section \<open>Requests\<close>

record pull_request =
  pl_Filters :: "ResourceFilter list"
  pl_Processors :: "Processor list"
  pl_ExcludeManaged :: bool
  pl_StopOnError :: bool

datatype pull_op = PullList Descriptor | PullMany Descriptor "string list" | PullOne Descriptor string

datatype pull_end =
    Pulled
  | PullStopped resource_err
  | PullPanics  \<comment> \<open>a filter for a single resource without its name\<close>

text \<open>Without filters every preferred resource is pulled.\<close>

definition effectiveFilters :: "Descriptor list \<Rightarrow> ResourceFilter list \<Rightarrow> ResourceFilter list" where
  "effectiveFilters preferredResources fs =
     (if fs = []
      then map (\<lambda>d. \<lparr>fl_Type = FilterTypeAll, fl_Descriptor = d, fl_ResourceUIDs = []\<rparr>) preferredResources
      else fs)"

definition nameless :: "ResourceFilter \<Rightarrow> bool" where
  "nameless f \<longleftrightarrow> fl_Type f = FilterTypeSingle \<and> fl_ResourceUIDs f = []"

definition fetchFilter :: "(pull_op \<Rightarrow> string + 'i list) \<Rightarrow> ResourceFilter \<Rightarrow> string + 'i list" where
  "fetchFilter answer f =
     (case fl_Type f of
        FilterTypeAll \<Rightarrow> answer (PullList (fl_Descriptor f))
      | FilterTypeMultiple \<Rightarrow> answer (PullMany (fl_Descriptor f) (fl_ResourceUIDs f))
      | FilterTypeSingle \<Rightarrow> answer (PullOne (fl_Descriptor f) (hd (fl_ResourceUIDs f)))
      | FilterTypeUnknown \<Rightarrow> Inr [])"

text \<open>What a goroutine does when its answer has come: its own slot or the shared summary.\<close>

definition reportFetch ::
  "(nat \<Rightarrow> string + 'i list) \<Rightarrow> bool \<Rightarrow> 'i list list \<times> OperationSummary \<Rightarrow> nat \<Rightarrow>
   resource_err + 'i list list \<times> OperationSummary" where
  "reportFetch fetched stopOnError st idx =
     (case st of (partialRes, summary) \<Rightarrow>
      case fetched idx of
        Inl e \<Rightarrow> if stopOnError then Inl (ClientFailed e) else Inr (partialRes, RecordFailure None (ClientFailed e) summary)
      | Inr items \<Rightarrow> Inr (partialRes[idx := items], summary))"

text \<open>The processors rewrite the resource in place: a failure leaves what the ones before it made of it.\<close>

fun processInPlace :: "Processor list \<Rightarrow> Resource \<Rightarrow> string option \<times> Resource" where
  "processInPlace [] res = (None, res)"
| "processInPlace (p # ps) res =
     (case p res of Inl e \<Rightarrow> (Some e, res) | Inr res' \<Rightarrow> processInPlace ps res')"

text \<open>The loop over the pulled objects: the collection and the summary so far, or the end it makes.\<close>

definition processItem ::
  "grafana_lib \<Rightarrow> ('i \<Rightarrow> string + Resource) \<Rightarrow> pull_request \<Rightarrow> pull_end \<times> OperationSummary \<times> Resources \<Rightarrow> 'i \<Rightarrow>
   pull_end \<times> OperationSummary \<times> Resources" where
  "processItem L fromObject req st i =
     (case st of (ended, summary, collected) \<Rightarrow>
      if ended \<noteq> Pulled then st
      else case fromObject i of Inl e \<Rightarrow> (PullStopped (InvalidObject e), summary, collected)
      | Inr res \<Rightarrow>
          if \<not> IsManaged L res \<and> pl_ExcludeManaged req then st
          else (case processInPlace (pl_Processors req) res of
                  (Some e, res') \<Rightarrow>
                    if pl_StopOnError req then (PullStopped (ProcessorFailed e), summary, collected)
                    else (Pulled, RecordFailure (Some res') (ProcessorFailed e) summary, collected)
                | (None, res') \<Rightarrow> (Pulled, RecordSuccess summary, AddResource res' collected)))"

definition PullResources ::
  "grafana_lib \<Rightarrow> ('i \<Rightarrow> string + Resource) \<Rightarrow> Descriptor list \<Rightarrow> (nat \<Rightarrow> pull_op \<Rightarrow> string + 'i list) \<Rightarrow> nat list \<Rightarrow>
   pull_request \<Rightarrow> Resources \<Rightarrow> pull_end \<times> OperationSummary \<times> Resources" where
  "PullResources L fromObject preferredResources answer schedule req old =
     (let fs = effectiveFilters preferredResources (pl_Filters req) in
      if list_ex nameless fs then (PullPanics, emptySummary, old)
      else case foldR (reportFetch (\<lambda>idx. fetchFilter (answer idx) (fs ! idx)) (pl_StopOnError req))
                  (replicate (length fs) [], emptySummary) schedule of
        Inl e \<Rightarrow> (PullStopped e, emptySummary, old)
      | Inr (partialRes, summary) \<Rightarrow>
          foldl (processItem L fromObject req) (Pulled, summary, []) (concat partialRes))"

section \<open>Any order of the goroutines\<close>

definition slot :: "string + 'i list \<Rightarrow> 'i list" where
  "slot r = (case r of Inl e \<Rightarrow> [] | Inr items \<Rightarrow> items)"

definition fetchFailures :: "(nat \<Rightarrow> string + 'i list) \<Rightarrow> nat list \<Rightarrow> (Resource option \<times> resource_err) list" where
  "fetchFailures fetched ns = concat (map (\<lambda>n. case fetched n of Inl e \<Rightarrow> [(None, ClientFailed e)] | Inr items \<Rightarrow> []) ns)"

lemma report_all:
  assumes "foldR (reportFetch fetched stop) (replicate n [], emptySummary) schedule = Inr (partial, summary)"
    and "mset schedule = mset [0..<n]"
  shows "partial = map (\<lambda>i. slot (fetched i)) [0..<n]"
    and "summary = \<lparr>os_successCount = 0, os_failedCount = length (fetchFailures fetched schedule), os_failures = fetchFailures fetched schedule\<rparr>"
proof -
  define P where "P = (\<lambda>ns (st :: 'a list list \<times> OperationSummary). length (fst st) = n \<and>
      (\<forall>i < n. fst st ! i = (if i \<in> set ns then slot (fetched i) else [])) \<and>
      snd st = \<lparr>os_successCount = 0, os_failedCount = length (fetchFailures fetched ns), os_failures = fetchFailures fetched ns\<rparr>)"
  have "P schedule (partial, summary)"
  proof (rule foldR_prefix [OF assms(1)])
    fix ys x t t'
    assume P: "P ys t" and step: "reportFetch fetched stop t x = Inr t'"
    obtain partial0 summary0 where t: "t = (partial0, summary0)" by (cases t)
    from P have len: "length partial0 = n" and slots: "\<And>i. i < n \<Longrightarrow> partial0 ! i = (if i \<in> set ys then slot (fetched i) else [])"
      and sum: "summary0 = \<lparr>os_successCount = 0, os_failedCount = length (fetchFailures fetched ys), os_failures = fetchFailures fetched ys\<rparr>"
      by (simp_all add: P_def t)
    show "P (ys @ [x]) t'"
    proof (cases "fetched x")
      case (Inl e)
      then have "slot (fetched x) = []" by (simp add: slot_def)
      moreover have "t' = (partial0, RecordFailure None (ClientFailed e) summary0)"
        using step Inl by (simp add: reportFetch_def t split: if_splits)
      ultimately show ?thesis using len slots sum Inl by (auto simp: P_def fetchFailures_def RecordFailure_def)
    next
      case (Inr items)
      then have "slot (fetched x) = items" by (simp add: slot_def)
      moreover have "t' = (partial0[x := items], summary0)" using step Inr by (simp add: reportFetch_def t)
      moreover have "partial0[x := slot (fetched x)] ! i = (if i \<in> set (ys @ [x]) then slot (fetched i) else [])" if "i < n" for i
        using that len slots [OF that] by (cases "i = x") auto
      moreover have "fetchFailures fetched (ys @ [x]) = fetchFailures fetched ys" by (simp add: fetchFailures_def Inr)
      ultimately show ?thesis using len sum by (simp add: P_def)
    qed
  qed (simp add: P_def emptySummary_def fetchFailures_def)
  moreover have "set schedule = {0..<n}" using assms(2) by (metis mset_eq_setD set_upt)
  ultimately show "partial = map (\<lambda>i. slot (fetched i)) [0..<n]"
    and "summary = \<lparr>os_successCount = 0, os_failedCount = length (fetchFailures fetched schedule), os_failures = fetchFailures fetched schedule\<rparr>"
    by (auto simp: P_def intro: nth_equalityI)
qed

text \<open>The failures recorded, as a multiset, do not depend on the order.\<close>

lemma fetchFailures_mset: "mset ns = mset ns' \<Longrightarrow> mset (fetchFailures fetched ns) = mset (fetchFailures fetched ns')"
proof -
  have "mset (fetchFailures fetched ns) = (\<Sum>n \<in># mset ns. mset (case fetched n of Inl e \<Rightarrow> [(None, ClientFailed e)] | Inr items \<Rightarrow> []))" for ns
    by (simp add: fetchFailures_def mset_concat sum_mset_sum_list [symmetric] comp_def)
  then show "mset ns = mset ns' \<Longrightarrow> mset (fetchFailures fetched ns) = mset (fetchFailures fetched ns')" by simp
qed

section \<open>The objects pulled\<close>

text \<open>What becomes of one object: left out, failed, or kept as processed.\<close>

datatype fate = LeftOut | Kept Resource | Faulty Resource resource_err | Broken string

definition fateOf :: "grafana_lib \<Rightarrow> ('i \<Rightarrow> string + Resource) \<Rightarrow> pull_request \<Rightarrow> 'i \<Rightarrow> fate" where
  "fateOf L fromObject req i =
     (case fromObject i of Inl e \<Rightarrow> Broken e
      | Inr res \<Rightarrow>
          if \<not> IsManaged L res \<and> pl_ExcludeManaged req then LeftOut
          else (case processInPlace (pl_Processors req) res of
                  (None, res') \<Rightarrow> Kept res' | (Some e, res') \<Rightarrow> Faulty res' (ProcessorFailed e)))"

definition kept :: "fate list \<Rightarrow> Resource list" where
  "kept fs = concat (map (\<lambda>f. case f of Kept r \<Rightarrow> [r] | _ \<Rightarrow> []) fs)"

definition faults :: "fate list \<Rightarrow> (Resource option \<times> resource_err) list" where
  "faults fs = concat (map (\<lambda>f. case f of Faulty r e \<Rightarrow> [(Some r, e)] | _ \<Rightarrow> []) fs)"

lemma processItem_ended: "e \<noteq> Pulled \<Longrightarrow> foldl (processItem L fromObject req) (e, s, c) items = (e, s, c)"
  by (induction items) (simp_all add: processItem_def)

lemma process_all:
  assumes "foldl (processItem L fromObject req) (Pulled, s, c) items = (Pulled, s', c')"
  shows "c' = AddResources (kept (map (fateOf L fromObject req) items)) c \<and>
    os_successCount s' = os_successCount s + length (kept (map (fateOf L fromObject req) items)) \<and>
    os_failedCount s' = os_failedCount s + length (faults (map (fateOf L fromObject req) items)) \<and>
    os_failures s' = os_failures s @ faults (map (fateOf L fromObject req) items) \<and>
    (pl_StopOnError req \<longrightarrow> faults (map (fateOf L fromObject req) items) = []) \<and>
    (\<forall>i \<in> set items. \<forall>e. fateOf L fromObject req i \<noteq> Broken e)"
  using assms
proof (induction items arbitrary: s c)
  case Nil
  then show ?case by (simp add: kept_def faults_def AddResources_def)
next
  case (Cons i items)
  obtain ended s1 c1 where one: "processItem L fromObject req (Pulled, s, c) i = (ended, s1, c1)" by (metis prod_cases3)
  have "ended = Pulled"
  proof (rule ccontr)
    assume "ended \<noteq> Pulled"
    with processItem_ended [OF this, of L fromObject req s1 c1 items] Cons.prems one show False by simp
  qed
  with Cons.prems one have rest: "foldl (processItem L fromObject req) (Pulled, s1, c1) items = (Pulled, s', c')" by simp
  from one \<open>ended = Pulled\<close> Cons.IH [OF rest] show ?case
    by (auto simp: processItem_def fateOf_def kept_def faults_def AddResources_def RecordSuccess_def RecordFailure_def
        split: sum.splits if_splits prod.splits option.splits)
qed

lemma process_ends:
  "fst (foldl (processItem L fromObject req) (Pulled, s, c) items) = Pulled \<longleftrightarrow>
     (\<forall>i \<in> set items. (\<forall>e. fateOf L fromObject req i \<noteq> Broken e) \<and>
        (pl_StopOnError req \<longrightarrow> (\<forall>r e. fateOf L fromObject req i \<noteq> Faulty r e)))"
proof (induction items arbitrary: s c)
  case (Cons i items)
  obtain ended s1 c1 where one: "processItem L fromObject req (Pulled, s, c) i = (ended, s1, c1)" by (metis prod_cases3)
  have "ended = Pulled \<longleftrightarrow> (\<forall>e. fateOf L fromObject req i \<noteq> Broken e) \<and>
      (pl_StopOnError req \<longrightarrow> (\<forall>r e. fateOf L fromObject req i \<noteq> Faulty r e))"
    using one by (auto simp: processItem_def fateOf_def split: sum.splits if_splits prod.splits option.splits)
  then show ?case
    using Cons.IH [of s1 c1] processItem_ended [of ended L fromObject req s1 c1 items] by (cases "ended = Pulled") (auto simp: one)
qed simp

lemma report_ends:
  "isOk (foldR (reportFetch fetched stop) st schedule) \<longleftrightarrow> \<not> stop \<or> (\<forall>i \<in> set schedule. isOk (fetched i))"
proof (induction schedule arbitrary: st)
  case (Cons i schedule)
  obtain partial0 summary0 where st: "st = (partial0, summary0)" by (cases st)
  show ?case
    using Cons.IH by (cases "fetched i") (simp_all add: st reportFetch_def)
qed simp

text \<open>C31: Whatever order the requests of a pull come to an end in, it succeeds in the same cases: every
  single filter has its name, every object is one, and with StopOnError no request and no processing
  failed. The collection then holds the processed objects in the order of the filters, less those
  managed elsewhere if they are excluded; each is counted once, and the failures are the failed
  requests and the failed objects.\<close>

theorem pull_any_schedule:
  assumes "fs = effectiveFilters preferredResources (pl_Filters req)" and "mset schedule = mset [0..<length fs]"
    and "fetched = (\<lambda>i. fetchFilter (answer i) (fs ! i))"
    and "fates = map (fateOf L fromObject req) (concat (map (\<lambda>i. slot (fetched i)) [0..<length fs]))"
    and "PullResources L fromObject preferredResources answer schedule req old = (ended, summary, collected)"
  shows "(ended = Pulled \<longleftrightarrow>
      list_all (\<lambda>f. \<not> nameless f) fs \<and> (\<forall>f \<in> set fates. \<forall>e. f \<noteq> Broken e) \<and>
      (pl_StopOnError req \<longrightarrow> (\<forall>i < length fs. isOk (fetched i)) \<and> (\<forall>f \<in> set fates. \<forall>r e. f \<noteq> Faulty r e))) \<and>
    (ended = Pulled \<longrightarrow> collected = NewResources (kept fates) \<and> os_successCount summary = length (kept fates) \<and>
      mset (os_failures summary) = mset (fetchFailures fetched [0..<length fs] @ faults fates) \<and>
      os_failedCount summary = length (os_failures summary))"
proof (cases "list_ex nameless fs")
  case True
  then show ?thesis using assms(5)
    by (auto simp: PullResources_def assms(1) [symmetric] list_all_iff list_ex_iff)
next
  case False
  define reported where "reported = foldR (reportFetch fetched (pl_StopOnError req)) (replicate (length fs) [], emptySummary) schedule"
  have run: "(ended, summary, collected) = (case reported of Inl e \<Rightarrow> (PullStopped e, emptySummary, old)
      | Inr (partialRes, summary) \<Rightarrow> foldl (processItem L fromObject req) (Pulled, summary, []) (concat partialRes))"
    using assms(5) False by (simp add: PullResources_def assms(1,3) [symmetric] reported_def)
  have ok: "isOk reported \<longleftrightarrow> \<not> pl_StopOnError req \<or> (\<forall>i < length fs. isOk (fetched i))"
    using mset_eq_setD [OF assms(2)] by (auto simp: reported_def report_ends)
  show ?thesis
  proof (cases reported)
    case (Inl e)
    with run ok show ?thesis by auto
  next
    case (Inr r)
    obtain partialRes summary0 where r: "r = (partialRes, summary0)" by (cases r)
    note report = report_all [OF Inr [unfolded reported_def r] assms(2)]
    have fold: "foldl (processItem L fromObject req) (Pulled, summary0, []) (concat partialRes) = (ended, summary, collected)"
      using run Inr r by simp
    have fates: "fates = map (fateOf L fromObject req) (concat partialRes)" by (simp add: assms(4) report(1))
    have "ended = Pulled \<longleftrightarrow> (\<forall>f \<in> set fates. \<forall>e. f \<noteq> Broken e) \<and>
        (pl_StopOnError req \<longrightarrow> (\<forall>f \<in> set fates. \<forall>r e. f \<noteq> Faulty r e))"
      using process_ends [of L fromObject req summary0 "[]" "concat partialRes"] fold by (auto simp: fates)
    moreover have "list_all (\<lambda>f. \<not> nameless f) fs" using False by (auto simp: list_all_iff list_ex_iff)
    moreover have "ended = Pulled \<longrightarrow> collected = NewResources (kept fates) \<and> os_successCount summary = length (kept fates) \<and>
        mset (os_failures summary) = mset (fetchFailures fetched [0..<length fs] @ faults fates) \<and>
        os_failedCount summary = length (os_failures summary)"
      using process_all [of L fromObject req summary0 "[]" "concat partialRes" summary collected] fold
        fetchFailures_mset [OF assms(2), of fetched] by (auto simp: fates [symmetric] report(2) NewResources_def)
    ultimately show ?thesis using ok Inr by auto
  qed
qed

section \<open>Two filters\<close>

definition two_filters :: pull_request where
  "two_filters =
     \<lparr>pl_Filters =
        [\<lparr>fl_Type = FilterTypeSingle, fl_Descriptor = resourceDescriptor \<lparr>gv_Group = ''g'', gv_Version = ''v1''\<rparr>
            \<lparr>ar_Name = ''as'', ar_SingularName = ''a'', ar_Kind = ''A'', ar_Group = [], ar_Version = [], ar_Namespaced = True\<rparr>,
          fl_ResourceUIDs = [''x'']\<rparr>,
         \<lparr>fl_Type = FilterTypeAll, fl_Descriptor = resourceDescriptor \<lparr>gv_Group = ''g'', gv_Version = ''v1''\<rparr>
            \<lparr>ar_Name = ''bs'', ar_SingularName = ''b'', ar_Kind = ''B'', ar_Group = [], ar_Version = [], ar_Namespaced = True\<rparr>,
          fl_ResourceUIDs = []\<rparr>],
      pl_Processors = [NamespaceOverrider ''stack''], pl_ExcludeManaged = False, pl_StopOnError = True\<rparr>"

definition note_answer :: "nat \<Rightarrow> pull_op \<Rightarrow> string + Resource list" where
  "note_answer i op = Inr [note_folder (if i = 0 then ''x'' else ''y'') []]"

theorem pull_any_schedule_witness:
  "\<exists>summary collected. PullResources note_lib Inr [] note_answer [1, 0] two_filters [] = (Pulled, summary, collected) \<and>
     os_successCount summary = 2 \<and> mset [1, 0] = mset [0..<2::nat]"
proof -
  obtain ended summary collected where run:
    "PullResources note_lib Inr [] note_answer [1, 0] two_filters [] = (ended, summary, collected)" by (metis prod_cases3)
  let ?fs = "effectiveFilters [] (pl_Filters two_filters)"
  let ?fates = "map (fateOf note_lib Inr two_filters) (concat (map (\<lambda>i. slot (fetchFilter (note_answer i) (?fs ! i))) [0..<length ?fs]))"
  have upt: "[0..<2] = [0, 1::nat]" by (simp add: upt_rec)
  have len: "length ?fs = 2" by (simp add: effectiveFilters_def two_filters_def)
  have fates: "?fates = [Kept ((note_folder ''x'' [])\<lparr>rs_Namespace := ''stack''\<rparr>), Kept ((note_folder ''y'' [])\<lparr>rs_Namespace := ''stack''\<rparr>)]"
    unfolding len upt
    by (simp add: effectiveFilters_def two_filters_def fetchFilter_def note_answer_def slot_def fateOf_def NamespaceOverrider_def note_folder_def)
  have perm: "mset [1, 0] = mset [0..<length ?fs]" unfolding len upt by simp
  note pulled = pull_any_schedule [OF refl perm refl refl run]
  have "list_all (\<lambda>f. \<not> nameless f) ?fs" by (simp add: effectiveFilters_def two_filters_def nameless_def)
  moreover have "\<forall>i < length ?fs. isOk (fetchFilter (note_answer i) (?fs ! i))"
    by (simp add: fetchFilter_def note_answer_def split: FilterType.split)
  ultimately have "ended = Pulled" and "os_successCount summary = length (kept ?fates)"
    using pulled unfolding fates by auto
  moreover have "length (kept ?fates) = 2" unfolding fates by (simp add: kept_def)
  ultimately show ?thesis using run by (simp add: upt add_mset_commute)
qed

end
