(* ===== verification/Error_Reports.thy ===== *)
theory Error_Reports
  imports Termsafe
begin

text \<open>
  From an error to what the user reads and the exit code of the process
  (\<^verbatim>\<open>cmd/grafanapi/fail/convert.go\<close>, \<^verbatim>\<open>detailed.go\<close>, \<^verbatim>\<open>cmd/grafanapi/main.go\<close>).

  An error is a tree: its kind, its text and the errors it wraps. \<^verbatim>\<open>errors.As\<close> and \<^verbatim>\<open>errors.Is\<close>
  search the tree in preorder. The parameter \<open>report_lib\<close> holds what other packages decide: how the
  Kubernetes client classifies a status, Go's \<^verbatim>\<open>%q\<close>, the colours, and the rendering of an error
  of the YAML parser.
\<close>

section \<open>Errors\<close>

datatype problem = Problem problem_kind string "problem list"
and problem_kind =
    PlainProblem
  | DetailedProblem detailed_error
  | ValidationProblem string string string "string list"  \<comment> \<open>file, message, annotated source, suggestions\<close>
  | UnmarshalProblem string problem
  | ContextNotFoundProblem
  | BindingProblem string string string  \<comment> \<open>context, bound origin, origin of the server\<close>
  | PathProblem string
  | NotExistProblem
  | InvalidProblem
  | PermissionProblem
  | SelectorProblem string
  | RuleNotFoundProblem
  | RedirectProblem
  | ServerURLProblem
  | UrlProblem
  | APIProblem int  \<comment> \<open>the status of the generated client's error\<close>
  | SessionUnauthorizedProblem
  | StatusProblem string int  \<comment> \<open>reason and code of the Kubernetes client's error\<close>
and detailed_error =
  DetailedError
    (de_Summary: string) (de_Details: string) (de_Parent: "problem option")
    (de_Suggestions: "string list") (de_DocsLink: string) (de_ExitCode: "int option")

primrec kindOf :: "problem \<Rightarrow> problem_kind" where
  "kindOf (Problem k t ps) = k"

primrec textOf :: "problem \<Rightarrow> string" where
  "textOf (Problem k t ps) = t"

fun chain :: "problem \<Rightarrow> problem list" where
  "chain (Problem k t ps) = Problem k t ps # concat (map chain ps)"

definition errorsAs :: "(problem_kind \<Rightarrow> bool) \<Rightarrow> problem \<Rightarrow> problem option" where
  "errorsAs P p = find (\<lambda>n. P (kindOf n)) (chain p)"

definition errorsIs :: "problem_kind \<Rightarrow> problem \<Rightarrow> bool" where
  "errorsIs k p \<longleftrightarrow> list_ex (\<lambda>n. kindOf n = k) (chain p)"

record report_lib =
  rp_unauthorized :: "string \<Rightarrow> int \<Rightarrow> bool"
  rp_forbidden :: "string \<Rightarrow> int \<Rightarrow> bool"
  rp_not_found :: "string \<Rightarrow> int \<Rightarrow> bool"
  rp_quote :: "string \<Rightarrow> string"
  rp_no_color :: bool
  rp_red :: "string \<Rightarrow> string"
  rp_blue :: "string \<Rightarrow> string"
  rp_yaml :: "problem \<Rightarrow> string option"

section \<open>Texts\<close>

definition staleSessionSuggestion :: string where "staleSessionSuggestion = ''Run: grafanapi login update''"
definition loginRejectedSuggestion :: string where
  "loginRejectedSuggestion = ''Verify the session cookie value and try again''"
definition permissionDeniedSuggestion :: string where
  "permissionDeniedSuggestion = ''Check the permissions of your user, and that the current context targets '' @
     ''the intended Grafana instance: grafanapi config current-context''"
definition neverPasteCookieSuggestion :: string where
  "neverPasteCookieSuggestion = ''Never paste a session cookie while an unexpected server is configured: '' @
     ''login update sends it to that server to validate it''"
definition sessionAuthExitCode :: int where "sessionAuthExitCode = 2"
definition legacyAuthFieldNames :: "string list" where "legacyAuthFieldNames = [''token'', ''user'', ''password'']"

section \<open>Quoting for a shell\<close>

definition shellSafe :: "char \<Rightarrow> bool" where
  "shellSafe r \<longleftrightarrow>
     list_ex (\<lambda>(first, final). \<not> (r < first \<or> r > final))
       [(CHR ''a'', CHR ''z''), (CHR ''A'', CHR ''Z''), (CHR ''0'', CHR ''9'')] \<or>
     r = CHR ''.'' \<or> r = CHR ''_'' \<or> r = CHR ''-''"

text \<open>A rune outside ASCII is unsafe, and so is each of its bytes.\<close>

definition quoteChar :: "char \<Rightarrow> string" where
  "quoteChar c = (if c = CHR 0x27 then [CHR 0x27, CHR 0x5C, CHR 0x27, CHR 0x27] else [c])"

definition shellQuote :: "string \<Rightarrow> string" where
  "shellQuote name =
     (if name \<noteq> [] \<and> list_all shellSafe name then name
      else [CHR 0x27] @ concat (map quoteChar name) @ [CHR 0x27])"

section \<open>Converting errors\<close>

text \<open>A report without details, link and exit code.\<close>

definition report :: "string \<Rightarrow> problem \<Rightarrow> string list \<Rightarrow> detailed_error" where
  "report summary parent suggestions = DetailedError summary [] (Some parent) suggestions [] None"

definition staleSessionError :: "problem \<Rightarrow> detailed_error" where
  "staleSessionError p =
     DetailedError ''Grafana session is stale or unauthorized'' [] (Some p) [staleSessionSuggestion] [] (Some sessionAuthExitCode)"

definition loginRejectedError :: "problem \<Rightarrow> detailed_error" where
  "loginRejectedError p =
     DetailedError ''Grafana rejected the provided session cookie'' [] (Some p) [loginRejectedSuggestion] [] (Some sessionAuthExitCode)"

definition permissionDeniedError :: "problem \<Rightarrow> detailed_error" where
  "permissionDeniedError p =
     report ''Grafana denied the request: your user lacks the required permission'' p [permissionDeniedSuggestion]"

definition legacyAuthField :: "problem \<Rightarrow> string option" where
  \<open>legacyAuthField p = find (\<lambda>name. contains (textOf p) (''unknown field "'' @ name @ ''"'')) legacyAuthFieldNames\<close>

definition validationDetails :: "string \<Rightarrow> string \<Rightarrow> string \<Rightarrow> string" where
  \<open>validationDetails file message annotated =
     ''Invalid configuration found in '' @ [CHR 0x27] @ file @ [CHR 0x27] @ '':'' @ [CHR 0x0A] @ message @
     (if annotated \<noteq> [] then [CHR 0x0A, CHR 0x0A] @ annotated else [])\<close>

definition removedFieldReport :: "string \<Rightarrow> string \<Rightarrow> detailed_error" where
  "removedFieldReport file field =
     DetailedError ''Configuration uses a removed authentication field''
       (''The '' @ [CHR 0x27] @ field @ [CHR 0x27] @ '' field in '' @ [CHR 0x27] @ file @ [CHR 0x27] @
        '' is no longer supported: grafanapi authenticates using a Grafana session cookie instead of API tokens or basic-auth credentials.'')
       None [''Run: grafanapi login''] [] None"

definition unmarshalReport :: "string \<Rightarrow> problem \<Rightarrow> detailed_error" where
  "unmarshalReport file inner =
     (case legacyAuthField inner of
        Some field \<Rightarrow> removedFieldReport file field
      | None \<Rightarrow>
          DetailedError ''Could not parse configuration''
            (''Invalid configuration found in '' @ [CHR 0x27] @ file @ [CHR 0x27] @ ''.'') (Some inner) [] [] None)"

definition convertConfigErrors :: "problem \<Rightarrow> detailed_error option" where
  "convertConfigErrors p =
     (case errorsAs (\<lambda>k. case k of ValidationProblem f m a s \<Rightarrow> True | _ \<Rightarrow> False) p of
        Some (Problem (ValidationProblem file message annotated suggestions) t ps) \<Rightarrow>
          Some (DetailedError ''Invalid configuration'' (validationDetails file message annotated) None
            (''Review your configuration: grafanapi config view'' # suggestions) [] None)
      | _ \<Rightarrow>
          (case errorsAs (\<lambda>k. case k of UnmarshalProblem f e \<Rightarrow> True | _ \<Rightarrow> False) p of
             Some (Problem (UnmarshalProblem file inner) t ps) \<Rightarrow> Some (unmarshalReport file inner)
           | _ \<Rightarrow>
               if errorsIs ContextNotFoundProblem p
               then Some (report ''Invalid configuration'' p
                 [''Check for typos in the context name'', ''Review your configuration: grafanapi config view''])
               else None))"

definition convertSessionBindingErrors :: "report_lib \<Rightarrow> problem \<Rightarrow> detailed_error option" where
  "convertSessionBindingErrors R p =
     (case errorsAs (\<lambda>k. case k of BindingProblem c b s \<Rightarrow> True | _ \<Rightarrow> False) p of
        Some (Problem (BindingProblem ctx bound server) t ps) \<Rightarrow>
          Some (if bound = []
            then DetailedError ''Session cookie not sent: session is not bound to a server yet'' [] (Some p)
              [''Run the command again from a shell without GRAFANA_SERVER, GRAFANAPI_CONFIG, '' @
               ''XDG_CONFIG_HOME or --config: the stored session is then bound automatically to the '' @
               ''server in your own configuration file'',
               ''Or, from that clean shell, run grafanapi login update --context '' @ shellQuote ctx,
               neverPasteCookieSuggestion] [] (Some sessionAuthExitCode)
            else report ''Session cookie not sent: server does not match its login'' p
              [''If you did not expect grafanapi to target '' @ server @ '', unset GRAFANA_SERVER and GRAFANAPI_CONFIG '' @
               ''and drop --config (check for an .envrc or a repo-local configuration) so context '' @ rp_quote R ctx @
               '' targets '' @ bound @ '' again'',
               ''Only if you really moved context '' @ rp_quote R ctx @ '' to '' @ server @ '': from a shell without those overrides, '' @
               ''run grafanapi login update --context '' @ shellQuote ctx @ '' --rebind'',
               neverPasteCookieSuggestion])
      | _ \<Rightarrow> None)"

definition convertFSErrors :: "problem \<Rightarrow> detailed_error option" where
  "convertFSErrors p =
     (case errorsAs (\<lambda>k. case k of PathProblem f \<Rightarrow> True | _ \<Rightarrow> False) p of
        Some (Problem (PathProblem path) t ps) \<Rightarrow>
          if errorsIs NotExistProblem p
          then Some (DetailedError ''File not found'' (''could not read '' @ [CHR 0x27] @ path @ [CHR 0x27]) (Some p)
            [''Check for typos in the command'' @ [CHR 0x27] @ ''s arguments''] [] None)
          else if errorsIs InvalidProblem p
          then Some (DetailedError ''Invalid path'' (''path '' @ [CHR 0x27] @ path @ [CHR 0x27] @ '' is not valid'') (Some p)
            [''Make sure that you are passing in a valid path'',
             ''If you are pulling resources make sure that the path is a directory''] [] None)
          else if errorsIs PermissionProblem p
          then Some (report ''Permission denied'' p [''Review the permissions on the file''])
          else None
      | _ \<Rightarrow> None)"

definition convertResourcesErrors :: "problem \<Rightarrow> detailed_error option" where
  "convertResourcesErrors p =
     (case errorsAs (\<lambda>k. case k of SelectorProblem c \<Rightarrow> True | _ \<Rightarrow> False) p of
        Some (Problem (SelectorProblem command) t ps) \<Rightarrow>
          Some (DetailedError ''Could not parse resource(s) selector''
            (''Failed to parse command '' @ [CHR 0x27] @ command @ [CHR 0x27]) (Some p)
            [''Make sure that your are passing in valid resource selectors''] [] None)
      | _ \<Rightarrow> None)"

definition convertAlertsErrors :: "problem \<Rightarrow> detailed_error option" where
  "convertAlertsErrors p =
     (if errorsIs RuleNotFoundProblem p
      then Some (report ''Alert rule not found'' p [''Check the UID against the UID column of: grafanapi alerts rules list''])
      else None)"

definition convertServerPolicyErrors :: "problem \<Rightarrow> detailed_error option" where
  "convertServerPolicyErrors p =
     (case errorsAs (\<lambda>k. k = RedirectProblem) p of
        Some refused \<Rightarrow>
          Some (report ''Refused a redirect away from the configured Grafana server'' refused
            [''Set the context'' @ [CHR 0x27] @ ''s server to the exact URL Grafana serves (scheme, host, port and sub-path, '' @
             ''Grafana'' @ [CHR 0x27] @ ''s root_url): grafanapi config set contexts.<name>.grafana.server <url>'',
             ''Check the configured server: grafanapi config view''])
      | None \<Rightarrow>
          map_option (\<lambda>refused. report ''Invalid Grafana server URL'' refused
            [''Use the https:// address of your Grafana server, e.g. https://grafana.example.com'',
             ''Plain http:// is only accepted for a Grafana running on this machine (localhost, 127.0.0.1, ::1)''])
            (errorsAs (\<lambda>k. k = ServerURLProblem) p))"

definition convertNetworkErrors :: "problem \<Rightarrow> detailed_error option" where
  "convertNetworkErrors p =
     (if errorsIs UrlProblem p
      then Some (report ''Network error'' p
        [''Make sure that the API is reachable'', ''Make sure that the configured target server is correct''])
      else None)"

definition convertAuthErrors :: "problem \<Rightarrow> detailed_error option" where
  "convertAuthErrors p =
     (let rejected = (if errorsIs SessionUnauthorizedProblem p then Some (loginRejectedError p) else None) in
      case errorsAs (\<lambda>k. case k of APIProblem c \<Rightarrow> True | _ \<Rightarrow> False) p of
        Some (Problem (APIProblem code) t ps) \<Rightarrow>
          if code = 401 then Some (staleSessionError p)
          else if code = 403 then Some (permissionDeniedError p)
          else rejected
      | _ \<Rightarrow> rejected)"

definition convertAPIErrors :: "report_lib \<Rightarrow> problem \<Rightarrow> detailed_error option" where
  "convertAPIErrors R p =
     (case errorsAs (\<lambda>k. case k of StatusProblem r c \<Rightarrow> True | _ \<Rightarrow> False) p of
        Some (Problem (StatusProblem reason code) t ps) \<Rightarrow>
          Some (if rp_unauthorized R reason code then staleSessionError p
            else if rp_forbidden R reason code then report (reason @ '' - code '' @ show_int code) p
              [''Make sure that the configured credentials are correct'',
               ''Make sure that the configured credentials have enough permissions'']
            else if rp_not_found R reason code then report (''Resource not found - code '' @ show_int code) p
              [''Make sure that your are passing in valid resource selectors'']
            else report (''API error: '' @ reason @ '' - code '' @ show_int code) p [])
      | _ \<Rightarrow> None)"

definition errorConverters :: "report_lib \<Rightarrow> (problem \<Rightarrow> detailed_error option) list" where
  "errorConverters R =
     [convertConfigErrors, convertSessionBindingErrors R, convertFSErrors, convertResourcesErrors, convertAlertsErrors,
      convertServerPolicyErrors, convertNetworkErrors, convertAuthErrors, convertAPIErrors R]"

fun firstConverted :: "(problem \<Rightarrow> detailed_error option) list \<Rightarrow> problem \<Rightarrow> detailed_error option" where
  "firstConverted [] p = None"
| "firstConverted (c # cs) p = (case c p of Some d \<Rightarrow> Some d | None \<Rightarrow> firstConverted cs p)"

definition ErrorToDetailedError :: "report_lib \<Rightarrow> problem \<Rightarrow> detailed_error" where
  "ErrorToDetailedError R p =
     (case errorsAs (\<lambda>k. case k of DetailedProblem d \<Rightarrow> True | _ \<Rightarrow> False) p of
        Some (Problem (DetailedProblem d) t ps) \<Rightarrow> d
      | _ \<Rightarrow>
          (case firstConverted (errorConverters R) p of Some d \<Rightarrow> d
           | None \<Rightarrow> report ''Unexpected error'' p []))"

definition exitCode :: "report_lib \<Rightarrow> problem option \<Rightarrow> int" where
  "exitCode R err =
     (case err of None \<Rightarrow> 0
      | Some p \<Rightarrow> (case de_ExitCode (ErrorToDetailedError R p) of None \<Rightarrow> 1 | Some code \<Rightarrow> code))"

section \<open>Rendering\<close>

definition bar :: string where "bar = [CHR 0xE2, CHR 0x94, CHR 0x82]"
definition branch :: string where "branch = [CHR 0xE2, CHR 0x94, CHR 0x9C, CHR 0xE2, CHR 0x94, CHR 0x80]"
definition corner :: string where "corner = [CHR 0xE2, CHR 0x94, CHR 0x94, CHR 0xE2, CHR 0x94, CHR 0x80]"
definition bullet :: string where "bullet = [CHR 0xE2, CHR 0x80, CHR 0xA2]"

definition barLine :: "string \<Rightarrow> string" where
  "barLine l = bar @ '' '' @ l @ [CHR 0x0A]"

definition heading :: "report_lib \<Rightarrow> string \<Rightarrow> string" where
  "heading R title = bar @ [CHR 0x0A] @ branch @ '' '' @ rp_blue R title @ [CHR 0x0A] @ bar @ [CHR 0x0A]"

definition parentText :: "report_lib \<Rightarrow> problem \<Rightarrow> string" where
  "parentText R p =
     (case rp_yaml R p of None \<Rightarrow> Text (textOf p)
      | Some pretty \<Rightarrow> if rp_no_color R then Text pretty else pretty)"

definition renderError :: "report_lib \<Rightarrow> detailed_error \<Rightarrow> string" where
  "renderError R d =
     rp_red R ''Error: '' @ Cell (de_Summary d) @ [CHR 0x0A] @
     (if de_Details d \<noteq> []
      then bar @ [CHR 0x0A] @ concat (map barLine (split_on (\<lambda>c. c = CHR 0x0A) (de_Details d))) else []) @
     (case de_Parent d of None \<Rightarrow> []
      | Some p \<Rightarrow> heading R ''Details:'' @ concat (map barLine (split_on (\<lambda>c. c = CHR 0x0A) (parentText R p)))) @
     (if de_Suggestions d \<noteq> []
      then heading R ''Suggestions:'' @ concat (map (\<lambda>s. barLine (bullet @ '' '' @ Cell s)) (de_Suggestions d)) else []) @
     (if de_DocsLink d \<noteq> []
      then heading R ''Learn more:'' @ barLine (Cell (de_DocsLink d)) else []) @
     bar @ [CHR 0x0A] @ corner @ [CHR 0x0A]"

section \<open>What a shell reads\<close>

text \<open>The words a POSIX shell makes of a line without expansions: white space separates them, a single
  quote starts a literal text up to the next one, a backslash keeps the next character. A character
  with another meaning to the shell, or an open quote, gives none.\<close>

definition shellMeta :: "char \<Rightarrow> bool" where
  "shellMeta c \<longleftrightarrow> c \<in> set ''\"$`;&|<>()*?[]#~=%!{}'' "

definition wordOf :: "string option \<Rightarrow> string" where
  "wordOf w = (case w of None \<Rightarrow> [] | Some x \<Rightarrow> x)"

fun shRead :: "string option \<Rightarrow> string \<Rightarrow> string list option"
  and shQuoted :: "string \<Rightarrow> string \<Rightarrow> string list option" where
  "shRead w [] = Some (case w of None \<Rightarrow> [] | Some x \<Rightarrow> [x])"
| "shRead w (c # cs) =
     (if c \<in> {CHR '' '', CHR 0x09, CHR 0x0A}
      then map_option (\<lambda>ws. case w of None \<Rightarrow> ws | Some x \<Rightarrow> x # ws) (shRead None cs)
      else if c = CHR 0x27 then shQuoted (wordOf w) cs
      else if c = CHR 0x5C
      then (case cs of [] \<Rightarrow> None
            | d # ds \<Rightarrow> if d = CHR 0x0A then shRead w ds else shRead (Some (wordOf w @ [d])) ds)
      else if shellMeta c then None
      else shRead (Some (wordOf w @ [c])) cs)"
| "shQuoted x [] = None"
| "shQuoted x (c # cs) = (if c = CHR 0x27 then shRead (Some x) cs else shQuoted (x @ [c]) cs)"

lemma shellSafe_plain:
  assumes "shellSafe c"
  shows "c \<noteq> CHR '' ''" "c \<noteq> CHR 0x09" "c \<noteq> CHR 0x0A" "c \<noteq> CHR 0x27" "c \<noteq> CHR 0x5C" "\<not> shellMeta c"
proof -
  have "\<not> shellSafe d" if "d \<in> set ([CHR '' '', CHR 0x09, CHR 0x0A, CHR 0x27, CHR 0x5C] @ ''\"$`;&|<>()*?[]#~=%!{}'')" for d
    using that by (auto simp: shellSafe_def less_char_def)
  with assms show "c \<noteq> CHR '' ''" "c \<noteq> CHR 0x09" "c \<noteq> CHR 0x0A" "c \<noteq> CHR 0x27" "c \<noteq> CHR 0x5C" "\<not> shellMeta c"
    by (auto simp: shellMeta_def)
qed

lemma shRead_plain: "shellSafe c \<Longrightarrow> shRead w (c # cs) = shRead (Some (wordOf w @ [c])) cs"
  using shellSafe_plain [of c] by simp

lemma shRead_safe: "list_all shellSafe name \<Longrightarrow> shRead (Some x) name = Some [x @ name]"
  by (induction name arbitrary: x) (simp_all add: shRead_plain wordOf_def del: shRead.simps(2))

lemma shQuoted_quoted: "shQuoted x (concat (map quoteChar name) @ [CHR 0x27]) = Some [x @ name]"
  by (induction name arbitrary: x) (simp_all add: quoteChar_def wordOf_def)

lemma shell_reads_quoted: "shRead None (shellQuote name) = Some [name]"
proof (cases "name \<noteq> [] \<and> list_all shellSafe name")
  case True
  then obtain c cs where name: "name = c # cs" by (cases name) auto
  with True show ?thesis using shRead_safe [of cs "[c]"]
    by (simp add: shellQuote_def shRead_plain wordOf_def del: shRead.simps(2))
next
  case False
  then show ?thesis using shQuoted_quoted [of "[]" name] by (auto simp: shellQuote_def wordOf_def)
qed

section \<open>What a report says\<close>

definition undetailed :: "problem \<Rightarrow> bool" where
  "undetailed p \<longleftrightarrow> errorsAs (\<lambda>k. case k of DetailedProblem d \<Rightarrow> True | _ \<Rightarrow> False) p = None"

text \<open>None of the first \<open>n\<close> converters takes the error.\<close>

definition unclaimed :: "report_lib \<Rightarrow> nat \<Rightarrow> problem \<Rightarrow> bool" where
  "unclaimed R n p \<longleftrightarrow> undetailed p \<and> list_all (\<lambda>c. c p = None) (take n (errorConverters R))"

text \<open>The kinds of error for which the user has to log in again.\<close>

definition needsLogin :: "report_lib \<Rightarrow> problem_kind \<Rightarrow> bool" where
  "needsLogin R k =
     (case k of BindingProblem c b s \<Rightarrow> b = []
      | SessionUnauthorizedProblem \<Rightarrow> True
      | APIProblem code \<Rightarrow> code = 401
      | StatusProblem reason code \<Rightarrow> rp_unauthorized R reason code
      | _ \<Rightarrow> False)"

lemma errorsAs_Some: "errorsAs P p = Some n \<Longrightarrow> n \<in> set (chain p) \<and> P (kindOf n)"
  by (auto simp: errorsAs_def find_Some_iff in_set_conv_nth)

lemma errorsIs_member: "errorsIs k p \<longleftrightarrow> (\<exists>n\<in>set (chain p). kindOf n = k)"
  by (simp add: errorsIs_def list_ex_iff)

lemma firstConverted_Some:
  "firstConverted cs p = Some d \<Longrightarrow> \<exists>c\<in>set cs. c p = Some d"
  by (induction cs) (auto split: option.splits)

lemma firstConverted_at:
  assumes "list_all (\<lambda>c. c p = None) (take n cs)" "n < length cs" "(cs ! n) p = Some d"
  shows "firstConverted cs p = Some d"
  using assms
proof (induction cs arbitrary: n)
  case (Cons c cs)
  then show ?case by (cases n) auto
qed simp

lemma unclaimed_report:
  assumes "unclaimed R n p" "n < 9" "(errorConverters R ! n) p = Some d"
  shows "ErrorToDetailedError R p = d"
proof -
  have "firstConverted (errorConverters R) p = Some d"
    using assms by (intro firstConverted_at) (auto simp: unclaimed_def errorConverters_def)
  then show ?thesis using assms(1) by (simp add: ErrorToDetailedError_def unclaimed_def undetailed_def)
qed

definition exitOk :: "report_lib \<Rightarrow> problem \<Rightarrow> detailed_error \<Rightarrow> bool" where
  "exitOk R p d \<longleftrightarrow>
     de_ExitCode d = None \<or> de_ExitCode d = Some 2 \<and> list_ex (\<lambda>n. needsLogin R (kindOf n)) (chain p)"

lemma exitOk_login:
  assumes "n \<in> set (chain p)" "needsLogin R (kindOf n)" "de_ExitCode d = Some 2"
  shows "exitOk R p d"
  using assms by (auto simp: exitOk_def list_ex_iff)

lemma exitOk_node:
  assumes "Problem k t ps \<in> set (chain p)" "needsLogin R k" "de_ExitCode d = Some 2"
  shows "exitOk R p d"
  using exitOk_login [OF assms(1)] assms by simp

lemma exitOk_None: "de_ExitCode d = None \<Longrightarrow> exitOk R p d"
  by (simp add: exitOk_def)

lemmas report_parts = report_def staleSessionError_def loginRejectedError_def permissionDeniedError_def
  removedFieldReport_def sessionAuthExitCode_def

lemma errorsAs_validation:
  assumes "errorsAs (\<lambda>k. case k of ValidationProblem f m a s \<Rightarrow> True | _ \<Rightarrow> False) p = Some n"
  shows "\<exists>f m a s t ps. n = Problem (ValidationProblem f m a s) t ps \<and> Problem (ValidationProblem f m a s) t ps \<in> set (chain p)"
  using errorsAs_Some [OF assms] by (cases n; cases "kindOf n") auto

lemma errorsAs_unmarshal:
  assumes "errorsAs (\<lambda>k. case k of UnmarshalProblem f e \<Rightarrow> True | _ \<Rightarrow> False) p = Some n"
  shows "\<exists>f e t ps. n = Problem (UnmarshalProblem f e) t ps \<and> Problem (UnmarshalProblem f e) t ps \<in> set (chain p)"
  using errorsAs_Some [OF assms] by (cases n; cases "kindOf n") auto

lemma errorsAs_binding:
  assumes "errorsAs (\<lambda>k. case k of BindingProblem c b s \<Rightarrow> True | _ \<Rightarrow> False) p = Some n"
  shows "\<exists>c b s t ps. n = Problem (BindingProblem c b s) t ps \<and> Problem (BindingProblem c b s) t ps \<in> set (chain p)"
  using errorsAs_Some [OF assms] by (cases n; cases "kindOf n") auto

lemma errorsAs_path:
  assumes "errorsAs (\<lambda>k. case k of PathProblem f \<Rightarrow> True | _ \<Rightarrow> False) p = Some n"
  shows "\<exists>f t ps. n = Problem (PathProblem f) t ps \<and> Problem (PathProblem f) t ps \<in> set (chain p)"
  using errorsAs_Some [OF assms] by (cases n; cases "kindOf n") auto

lemma errorsAs_selector:
  assumes "errorsAs (\<lambda>k. case k of SelectorProblem c \<Rightarrow> True | _ \<Rightarrow> False) p = Some n"
  shows "\<exists>c t ps. n = Problem (SelectorProblem c) t ps \<and> Problem (SelectorProblem c) t ps \<in> set (chain p)"
  using errorsAs_Some [OF assms] by (cases n; cases "kindOf n") auto

lemma errorsAs_api:
  assumes "errorsAs (\<lambda>k. case k of APIProblem c \<Rightarrow> True | _ \<Rightarrow> False) p = Some n"
  shows "\<exists>c t ps. n = Problem (APIProblem c) t ps \<and> Problem (APIProblem c) t ps \<in> set (chain p)"
  using errorsAs_Some [OF assms] by (cases n; cases "kindOf n") auto

lemma errorsAs_status:
  assumes "errorsAs (\<lambda>k. case k of StatusProblem r c \<Rightarrow> True | _ \<Rightarrow> False) p = Some n"
  shows "\<exists>r c t ps. n = Problem (StatusProblem r c) t ps \<and> Problem (StatusProblem r c) t ps \<in> set (chain p)"
  using errorsAs_Some [OF assms] by (cases n; cases "kindOf n") auto

lemmas errorsAs_kinds = errorsAs_validation errorsAs_unmarshal errorsAs_binding errorsAs_path errorsAs_selector errorsAs_api errorsAs_status

lemma converter_exits:
  assumes "c \<in> set (errorConverters R)" "c p = Some d"
  shows "exitOk R p d"
proof -
  have config: "exitOk R p d" if "convertConfigErrors p = Some d" for d
    using that by (intro exitOk_None)
      (auto simp: convertConfigErrors_def unmarshalReport_def report_parts split: option.splits if_splits dest!: errorsAs_kinds)
  have binding: "exitOk R p d" if "convertSessionBindingErrors R p = Some d" for d
    using that
    by (auto simp: convertSessionBindingErrors_def report_parts split: option.splits if_splits dest!: errorsAs_kinds)
      ((erule exitOk_node; simp add: needsLogin_def; fail) | simp add: exitOk_def)+
  have fs: "exitOk R p d" if "convertFSErrors p = Some d" for d
    using that by (intro exitOk_None)
      (auto simp: convertFSErrors_def report_parts split: option.splits if_splits dest!: errorsAs_kinds)
  have resources: "exitOk R p d" if "convertResourcesErrors p = Some d" for d
    using that by (intro exitOk_None)
      (auto simp: convertResourcesErrors_def report_parts split: option.splits dest!: errorsAs_kinds)
  have alerts: "exitOk R p d" if "convertAlertsErrors p = Some d" for d
    using that by (intro exitOk_None) (auto simp: convertAlertsErrors_def report_parts split: if_splits)
  have policy: "exitOk R p d" if "convertServerPolicyErrors p = Some d" for d
    using that by (intro exitOk_None) (auto simp: convertServerPolicyErrors_def report_parts split: option.splits)
  have network: "exitOk R p d" if "convertNetworkErrors p = Some d" for d
    using that by (intro exitOk_None) (auto simp: convertNetworkErrors_def report_parts split: if_splits)
  have auth: "exitOk R p d" if "convertAuthErrors p = Some d" for d
    using that
    by (auto simp: convertAuthErrors_def report_parts errorsIs_member Let_def
        split: option.splits if_splits dest!: errorsAs_kinds)
      ((erule exitOk_node; simp add: needsLogin_def; fail) | (erule exitOk_login; simp add: needsLogin_def; fail) |
       simp add: exitOk_def)+
  have api: "exitOk R p d" if "convertAPIErrors R p = Some d" for d
    using that
    by (auto simp: convertAPIErrors_def report_parts split: option.splits if_splits dest!: errorsAs_kinds)
      ((erule exitOk_node; simp add: needsLogin_def; fail) | simp add: exitOk_def)+
  show ?thesis using assms config binding fs resources alerts policy network auth api
    by (auto simp: errorConverters_def)
qed

lemma report_exits:
  assumes "undetailed p"
  shows "exitOk R p (ErrorToDetailedError R p)"
proof (cases "firstConverted (errorConverters R) p")
  case None
  then show ?thesis using assms by (simp add: ErrorToDetailedError_def undetailed_def exitOk_def report_def)
next
  case (Some d)
  then show ?thesis using assms firstConverted_Some [OF Some] converter_exits
    by (auto simp: ErrorToDetailedError_def undetailed_def)
qed

lemma report_codes:
  assumes "undetailed p"
  shows "exitCode R (Some p) \<in> {1, 2}" "exitCode R (Some p) = 2 \<Longrightarrow> \<exists>n\<in>set (chain p). needsLogin R (kindOf n)"
  using report_exits [OF assms, of R] by (auto simp: exitOk_def exitCode_def list_ex_iff)

lemma api_report:
  assumes "unclaimed R 7 p" "errorsAs (\<lambda>k. case k of APIProblem c \<Rightarrow> True | _ \<Rightarrow> False) p = Some (Problem (APIProblem code) t ps)"
  shows "code = 401 \<longrightarrow> exitCode R (Some p) = 2 \<and> de_Suggestions (ErrorToDetailedError R p) = [staleSessionSuggestion]"
    and "code = 403 \<longrightarrow> exitCode R (Some p) = 1 \<and> de_Suggestions (ErrorToDetailedError R p) = [permissionDeniedSuggestion]"
  using unclaimed_report [OF assms(1), of "staleSessionError p"] unclaimed_report [OF assms(1), of "permissionDeniedError p"] assms(2)
  by (auto simp: errorConverters_def convertAuthErrors_def exitCode_def report_parts)

lemma removed_field_report:
  assumes "undetailed p" "errorsAs (\<lambda>k. case k of ValidationProblem f m a s \<Rightarrow> True | _ \<Rightarrow> False) p = None"
    "errorsAs (\<lambda>k. case k of UnmarshalProblem f e \<Rightarrow> True | _ \<Rightarrow> False) p = Some (Problem (UnmarshalProblem path inner) t ps)"
    "legacyAuthField inner = Some field"
  shows "ErrorToDetailedError R p = removedFieldReport path field"
proof -
  have "unclaimed R 0 p" using assms by (simp add: unclaimed_def)
  from unclaimed_report [OF this, of "removedFieldReport path field"] assms show ?thesis
    by (simp add: errorConverters_def convertConfigErrors_def unmarshalReport_def)
qed

lemma redirect_report:
  assumes "unclaimed R 5 p" "errorsAs (\<lambda>k. k = RedirectProblem) p = Some refused"
  shows "de_Parent (ErrorToDetailedError R p) = Some refused \<and> kindOf refused = RedirectProblem"
  using unclaimed_report [OF assms(1)] assms(2) errorsAs_Some [OF assms(2)]
  by (simp add: errorConverters_def convertServerPolicyErrors_def report_def)


text \<open>A redirect refused below a network error, a 401 below a 500, and a removed field holding a token.\<close>

definition plain_reports :: report_lib where
  "plain_reports =
     \<lparr>rp_unauthorized = (\<lambda>r c. c = 401), rp_forbidden = (\<lambda>r c. c = 403), rp_not_found = (\<lambda>r c. c = 404),
      rp_quote = (\<lambda>s. [CHR 0x22] @ s @ [CHR 0x22]), rp_no_color = True, rp_red = id, rp_blue = id, rp_yaml = (\<lambda>p. None)\<rparr>"

definition refused_redirect :: problem where
  "refused_redirect = Problem RedirectProblem ''redirect refused'' []"

definition redirected :: problem where
  "redirected = Problem UrlProblem ''Get http://evil.example/?auth=1'' [refused_redirect]"

definition stale :: problem where
  "stale = Problem PlainProblem ''listing rules: 401'' [Problem (APIProblem 401) ''401'' []]"

definition pasted_token :: problem where
  \<open>pasted_token = Problem PlainProblem ''[3:5] unknown field "token" > 3 | token: s3cret'' []\<close>

definition old_config :: problem where
  "old_config = Problem (UnmarshalProblem ''config.yaml'' pasted_token) ''unmarshal'' [pasted_token]"

lemmas report_inputs = undetailed_def unclaimed_def errorsAs_def errorsIs_def errorConverters_def convertConfigErrors_def
  convertSessionBindingErrors_def convertFSErrors_def convertResourcesErrors_def convertAlertsErrors_def
  convertServerPolicyErrors_def convertNetworkErrors_def

lemma redirected_input: "undetailed redirected" "unclaimed plain_reports 5 redirected"
  by (simp_all add: report_inputs redirected_def refused_redirect_def)

lemma stale_input: "undetailed stale" "unclaimed plain_reports 7 stale"
  by (simp_all add: report_inputs stale_def)

lemma old_config_input: "undetailed old_config"
  by (simp add: report_inputs old_config_def pasted_token_def)

lemma pasted_token_field: "legacyAuthField pasted_token = Some ''token''"
  by code_simp


end
