(* ===== verification/Explore.thy ===== *)
theory Explore
  imports Error_Reports Resource_Selectors Go_Duration Credentials
begin

text \<open>
  Ad-hoc queries of a datasource (\<^verbatim>\<open>internal/explore\<close>): finding the datasource, the body of the
  query, what becomes of the answer, and the table it is printed as.

  The parameter \<open>explore_lib\<close> holds what other packages decide: the JSON decoders, the runes that
  \<^verbatim>\<open>strconv.IsPrint\<close> accepts, and RFC 3339 texts of instants. The alignment of columns by
  \<^verbatim>\<open>text/tabwriter\<close> is not modelled: \<open>RenderTable\<close> is the text handed to it, cells separated by tabs.
\<close>

section \<open>Data frames\<close>

record FieldSchema =
  fs_Name :: string
  fs_Type :: string
  fs_Labels :: "(string \<times> string) list"

record Frame =
  fr_Name :: string
  fr_Fields :: "FieldSchema list"
  fr_Values :: "string list list"  \<comment> \<open>the JSON texts of the cells, by column\<close>

record FrameResult =
  rt_Frames :: "Frame list"
  rt_Error :: string

text \<open>The result of each query under its name; the names are different.\<close>

type_synonym QueryResponse = "(string \<times> FrameResult) list"

record explore_lib =
  el_json :: "string \<Rightarrow> json option"
  el_string :: "string \<Rightarrow> string option"
  el_int64 :: "string \<Rightarrow> int option"
  el_response :: "string \<Rightarrow> problem + QueryResponse"
  el_rfc3339 :: "int \<Rightarrow> string"
  el_print :: "nat \<Rightarrow> bool"

definition sortedRefIDs :: "QueryResponse \<Rightarrow> string list" where
  "sortedRefIDs results = sort (map fst results)"

definition resultOf :: "QueryResponse \<Rightarrow> string \<Rightarrow> FrameResult" where
  "resultOf results refID =
     (case map_of results refID of None \<Rightarrow> \<lparr>rt_Frames = [], rt_Error = []\<rparr> | Some r \<Rightarrow> r)"

definition FirstError :: "QueryResponse \<Rightarrow> string \<times> string" where
  "FirstError results =
     (case find (\<lambda>refID. rt_Error (resultOf results refID) \<noteq> []) (sortedRefIDs results) of
        None \<Rightarrow> ([], []) | Some refID \<Rightarrow> (refID, rt_Error (resultOf results refID)))"

definition RowCount :: "Frame \<Rightarrow> nat" where
  "RowCount f = foldl (\<lambda>rows column. if length column > rows then length column else rows) 0 (fr_Values f)"

definition frameCell :: "Frame \<Rightarrow> nat \<Rightarrow> nat \<Rightarrow> string" where
  "frameCell f column row =
     (if column \<ge> length (fr_Values f) then ''null''
      else let cells = fr_Values f ! column in if row \<ge> length cells then ''null'' else cells ! row)"

section \<open>Quoting\<close>

text \<open>\<^verbatim>\<open>strconv.Quote\<close>, which \<^verbatim>\<open>%q\<close> prints.\<close>

definition hexDigit :: "nat \<Rightarrow> char" where
  "hexDigit d = ''0123456789abcdef'' ! (d mod 16)"

fun hexDigits :: "nat \<Rightarrow> nat \<Rightarrow> string" where
  "hexDigits 0 n = []"
| "hexDigits (Suc k) n = hexDigits k (n div 16) @ [hexDigit n]"

definition controlEscapes :: "(nat \<times> char) list" where
  "controlEscapes =
     [(0x07, CHR ''a''), (0x08, CHR ''b''), (0x0C, CHR ''f''), (0x0A, CHR ''n''), (0x0D, CHR ''r''), (0x09, CHR ''t''),
      (0x0B, CHR ''v'')]"

definition quoteRune :: "explore_lib \<Rightarrow> nat \<Rightarrow> string" where
  "quoteRune E r =
     (if r = 0x22 \<or> r = 0x5C then [CHR 0x5C, char_of r]
      else if el_print E r then encodeRune r
      else case map_of controlEscapes r of
        Some c \<Rightarrow> [CHR 0x5C, c]
      | None \<Rightarrow>
          if r < 0x20 \<or> r = 0x7F then [CHR 0x5C, CHR ''x''] @ hexDigits 2 r
          else if r < 0x10000 then [CHR 0x5C, CHR ''u''] @ hexDigits 4 r
          else [CHR 0x5C, CHR ''U''] @ hexDigits 8 r)"

function quoteRunes :: "explore_lib \<Rightarrow> string \<Rightarrow> string" where
  "quoteRunes E s =
     (if s = [] then []
      else case decodeRune s of (r, width) \<Rightarrow>
        (if width = 1 \<and> r = runeError then [CHR 0x5C, CHR ''x''] @ hexDigits 2 (byte (hd s)) else quoteRune E r) @
        quoteRunes E (drop width s))"
  by pat_completeness auto
termination
proof (relation "measure (\<lambda>(E, s). length s)")
  fix E :: explore_lib and s :: string and r width :: nat
  assume "s \<noteq> []" "(r, width) = decodeRune s"
  then have "1 \<le> width" using decodeRune_width [of s] by (metis snd_conv)
  with \<open>s \<noteq> []\<close> show "((E, drop width s), E, s) \<in> measure (\<lambda>(E, s). length s)" by auto
qed simp

declare quoteRunes.simps [simp del]

definition quoteText :: "explore_lib \<Rightarrow> string \<Rightarrow> string" where
  "quoteText E s = [CHR 0x22] @ quoteRunes E s @ [CHR 0x22]"

section \<open>Building a query\<close>

record DataSource =
  dq_UID :: string
  dq_Name :: string
  dq_Type :: string

record QueryOptions =
  qo_Field :: string
  qo_MaxDataPoints :: int
  qo_Interval :: string
  qo_Instant :: bool
  qo_Params :: "string list"

datatype query_err = UnsupportedType string | InvalidInterval string | InvalidParam string

definition sqlExtras :: "(string \<times> json) list" where
  "sqlExtras = [(''format'', JStr ''table'')]"

definition fieldByType :: "(string \<times> string \<times> (string \<times> json) list) list" where
  "fieldByType =
     [(''prometheus'', ''expr'', []), (''loki'', ''expr'', []),
      (''mysql'', ''rawSql'', sqlExtras), (''postgres'', ''rawSql'', sqlExtras),
      (''grafana-postgresql-datasource'', ''rawSql'', sqlExtras), (''mssql'', ''rawSql'', sqlExtras),
      (''elasticsearch'', ''query'', []), (''influxdb'', ''query'', []), (''graphite'', ''target'', [])]"

definition QueryFieldForType :: "string \<Rightarrow> string \<Rightarrow> query_err + string \<times> (string \<times> json) list" where
  "QueryFieldForType dsType override =
     (let mapping = map_of fieldByType (toLower dsType) in
      if override \<noteq> [] then Inr (override, case mapping of None \<Rightarrow> [] | Some (field, extras) \<Rightarrow> extras)
      else case mapping of None \<Rightarrow> Inl (UnsupportedType dsType) | Some m \<Rightarrow> Inr m)"

text \<open>The value is what follows the first equals sign.\<close>

definition parseParam :: "explore_lib \<Rightarrow> string \<Rightarrow> query_err + string \<times> json" where
  "parseParam E param =
     (if CHR ''='' \<notin> set param then Inl (InvalidParam param)
      else
        let key = takeWhile (\<lambda>c. c \<noteq> CHR ''='') param; val = tl (dropWhile (\<lambda>c. c \<noteq> CHR ''='') param)
        in Inr (key, case el_json E val of Some typed \<Rightarrow> typed | None \<Rightarrow> JStr val))"

text \<open>\<^verbatim>\<open>Duration.Milliseconds\<close> truncates towards zero.\<close>

definition milliseconds :: "int \<Rightarrow> int" where
  "milliseconds d = (if d < 0 then - (- d div 1000000) else d div 1000000)"

definition addParam ::
  "explore_lib \<Rightarrow> (string \<rightharpoonup> json) \<Rightarrow> string \<Rightarrow> query_err + (string \<rightharpoonup> json)" where
  "addParam E query param = bindR (parseParam E param) (\<lambda>(key, val). Inr (query(key \<mapsto> val)))"

definition BuildQuery ::
  "explore_lib \<Rightarrow> DataSource \<Rightarrow> string \<Rightarrow> QueryOptions \<Rightarrow> query_err + (string \<rightharpoonup> json)" where
  "BuildQuery E ds queryStr opts =
     bindR (QueryFieldForType (dq_Type ds) (qo_Field opts)) (\<lambda>(field, extras).
       let base = [''refId'' \<mapsto> JStr ''A'',
             ''datasource'' \<mapsto> JObj [(''uid'', JStr (dq_UID ds)), (''type'', JStr (dq_Type ds))],
             ''maxDataPoints'' \<mapsto> JInt (qo_MaxDataPoints opts)];
           query = (base ++ map_of extras)(field \<mapsto> JStr queryStr)
       in bindR
         (if qo_Interval opts = [] then Inr query
          else case ParseDuration (qo_Interval opts) of None \<Rightarrow> Inl (InvalidInterval (qo_Interval opts))
            | Some d \<Rightarrow> Inr (query(''intervalMs'' \<mapsto> JInt (milliseconds d))))
         (\<lambda>query. foldR (addParam E)
            (if qo_Instant opts then query(''instant'' \<mapsto> JBool True, ''range'' \<mapsto> JBool False) else query)
            (qo_Params opts)))"

record MetricRequest =
  mr_From :: string
  mr_To :: string
  mr_Queries :: "(string \<rightharpoonup> json) list"

definition BuildRequest :: "(string \<rightharpoonup> json) \<Rightarrow> string \<Rightarrow> string \<Rightarrow> MetricRequest" where
  "BuildRequest query start stop = \<lparr>mr_From = start, mr_To = stop, mr_Queries = [query]\<rparr>"

section \<open>Finding the datasource\<close>

text \<open>The three requests the generated client can make, each as an answer or a failure; the failures the
  code tells apart are the typed 404 of the first and the status of the others.\<close>

datatype source_failure = UIDNotFound | SourceAPIError int | OtherSourceFailure string

datatype source_request = ByUID string | ByName string | ListAll

record source_client =
  sc_by_uid :: "string \<Rightarrow> source_failure + DataSource"
  sc_by_name :: "string \<Rightarrow> source_failure + DataSource"
  sc_list :: "source_failure + DataSource list"

datatype resolve_err =
    RequestFailed source_failure
  | ListingFailed string source_failure
  | DataSourceNotFound string "DataSource list"  \<comment> \<open>what was asked for, what there is\<close>

definition notFoundError :: "source_client \<Rightarrow> string \<Rightarrow> resolve_err" where
  "notFoundError S ref =
     (case sc_list S of Inl e \<Rightarrow> ListingFailed ref e
      | Inr items \<Rightarrow> DataSourceNotFound ref (sort_key dq_Name items))"

text \<open>Datasources of one name would come in any order; Grafana has none. With the requests made, in order.\<close>

definition ResolveDataSource :: "source_client \<Rightarrow> string \<Rightarrow> (resolve_err + DataSource) \<times> source_request list" where
  "ResolveDataSource S ref =
     (case sc_by_uid S ref of
        Inr ds \<Rightarrow> (Inr ds, [ByUID ref])
      | Inl e \<Rightarrow>
          if e \<noteq> UIDNotFound then (Inl (RequestFailed e), [ByUID ref])
          else (case sc_by_name S ref of
                  Inr ds \<Rightarrow> (Inr ds, [ByUID ref, ByName ref])
                | Inl e' \<Rightarrow>
                    if e' \<noteq> SourceAPIError 404 then (Inl (RequestFailed e'), [ByUID ref, ByName ref])
                    else (Inl (notFoundError S ref), [ByUID ref, ByName ref, ListAll])))"

section \<open>Running a query\<close>

definition maxErrorBodySnippet :: nat where "maxErrorBodySnippet = 2048"

definition readBodySnippet :: "string \<Rightarrow> string" where
  "readBodySnippet body = trimSpace (take maxErrorBodySnippet body)"

definition buildQueryURL :: "netlib \<Rightarrow> string \<Rightarrow> url option" where
  "buildQueryURL N = buildURL N ''/api/ds/query''"

text \<open>The error of the generated client has a text of its own, which is an argument.\<close>

definition handleQueryResponse :: "explore_lib \<Rightarrow> (string \<Rightarrow> string) \<Rightarrow> int \<Rightarrow> string \<Rightarrow> problem + QueryResponse" where
  "handleQueryResponse E apiText status body =
     (if status = 200 \<or> status = 207 then
        (case el_response E body of
           Inl e \<Rightarrow> Inl (Problem PlainProblem (''explore: decoding response: '' @ textOf e) [e])
         | Inr decoded \<Rightarrow>
             (case FirstError decoded of (refID, msg) \<Rightarrow>
                if msg \<noteq> [] then Inl (Problem PlainProblem (''query '' @ quoteText E refID @ '' failed: '' @ msg) [])
                else Inr decoded))
      else if status = 401 then Inl (Problem (APIProblem 401) (apiText (readBodySnippet body)) [])
      else
        let snippet = readBodySnippet body in
        Inl (Problem PlainProblem (''explore: unexpected status '' @ show_int status @
          (if snippet = [] then [] else '': '' @ snippet)) []))"

text \<open>The request of a run: its address and headers. The text of an error of the address parser, which is a
  \<^verbatim>\<open>url.Error\<close>, is left out; a transport can always be made and the query always encoded. Sending it, with the rotation of the session after
  a 401 and the policy for redirects, is an argument: a status and a body, or the error of the client.\<close>

definition queryRequest :: "netlib \<Rightarrow> GrafanaConfig \<Rightarrow> http_request option" where
  "queryRequest N g =
     map_option (\<lambda>u. \<lparr>hr_URL = Some u,
        hr_Header = (let h = [''Content-Type'' \<mapsto> ''application/json''] in
          if gr_OrgID g \<noteq> 0 then h(''X-Grafana-Org-Id'' \<mapsto> show_int (gr_OrgID g)) else h)\<rparr>)
       (buildQueryURL N (gr_Server g))"

definition Run ::
  "netlib \<Rightarrow> explore_lib \<Rightarrow> (string \<Rightarrow> string) \<Rightarrow> (http_request \<Rightarrow> problem + int \<times> string) \<Rightarrow> Context option \<Rightarrow>
   problem + QueryResponse" where
  "Run N E apiText send ctx =
     (case Option.bind ctx cx_Grafana of
        None \<Rightarrow> Inl (Problem PlainProblem ''explore: no grafana context configured'' [])
      | Some g \<Rightarrow>
          (case queryRequest N g of
             None \<Rightarrow> Inl (Problem PlainProblem ''explore: invalid server address: '' [Problem UrlProblem [] []])
           | Some req \<Rightarrow>
               (case send req of
                  Inl e \<Rightarrow> Inl (Problem PlainProblem (''explore: query request: '' @ textOf e) [e])
                | Inr (status, body) \<Rightarrow> handleQueryResponse E apiText status body)))"

section \<open>The table\<close>

definition defaultMaxCellWidth :: nat where "defaultMaxCellWidth = 60"

definition ellipsis :: nat where "ellipsis = 0x2026"

definition truncateCell :: "string \<Rightarrow> nat \<Rightarrow> string" where
  "truncateCell s maxWidth =
     (let rs = runes s in
      if length rs \<le> maxWidth then s
      else if maxWidth \<le> 1 then concat (map encodeRune (take maxWidth rs))
      else concat (map encodeRune (take (maxWidth - 1) rs)) @ encodeRune ellipsis)"

definition formatTimeCell :: "explore_lib \<Rightarrow> string \<Rightarrow> string \<Rightarrow> string" where
  "formatTimeCell E raw trimmed = (case el_int64 E raw of None \<Rightarrow> trimmed | Some ms \<Rightarrow> el_rfc3339 E ms)"

definition formatCell :: "explore_lib \<Rightarrow> string \<Rightarrow> string \<Rightarrow> string" where
  "formatCell E raw fieldType =
     (let trimmed = trimSpace raw in
      if trimmed = [] \<or> trimmed = ''null'' then []
      else if fieldType = ''time'' then formatTimeCell E raw trimmed
      else if fieldType = ''string'' then (case el_string E raw of Some s \<Rightarrow> s | None \<Rightarrow> trimmed)
      else trimmed)"

definition labelPair :: "explore_lib \<Rightarrow> (string \<times> string) list \<Rightarrow> string \<Rightarrow> string" where
  "labelPair E labels k =
     Cell k @ ''='' @ quoteText E (Cell (case map_of labels k of None \<Rightarrow> [] | Some v \<Rightarrow> v))"

text \<open>\<^verbatim>\<open>strings.Join\<close> with a separator of any length.\<close>

fun joinText :: "string \<Rightarrow> string list \<Rightarrow> string" where
  "joinText sep [] = []"
| "joinText sep [e] = e"
| "joinText sep (e # es) = e @ sep @ joinText sep es"

definition columnHeader :: "explore_lib \<Rightarrow> FieldSchema \<Rightarrow> string" where
  "columnHeader E field =
     (if fs_Labels field = [] then Cell (fs_Name field)
      else Cell (fs_Name field) @ '' {'' @
        joinText '', '' (map (labelPair E (fs_Labels field)) (sort (map fst (fs_Labels field)))) @ ''}'')"

definition tableCell :: "explore_lib \<Rightarrow> nat \<Rightarrow> Frame \<Rightarrow> nat \<Rightarrow> nat \<Rightarrow> string" where
  "tableCell E maxWidth frame row column =
     truncateCell (Cell (formatCell E (frameCell frame column row) (fs_Type (fr_Fields frame ! column)))) maxWidth"

definition printLine :: "string list \<Rightarrow> string" where
  "printLine cells = joinWith CHR 0x09 cells @ [CHR 0x0A]"

definition renderFrame :: "explore_lib \<Rightarrow> string \<Rightarrow> Frame \<Rightarrow> nat \<Rightarrow> string" where
  "renderFrame E refID frame maxWidth =
     ''# '' @ Cell refID @ (if fr_Name frame \<noteq> [] then '' '' @ Cell (fr_Name frame) else []) @ [CHR 0x0A] @
     (if fr_Fields frame = [] \<or> RowCount frame = 0 then ''no data'' @ [CHR 0x0A]
      else printLine (map (columnHeader E) (fr_Fields frame)) @
        concat (map (\<lambda>row. printLine (map (tableCell E maxWidth frame row) [0..<length (fr_Fields frame)]))
          [0..<RowCount frame]))"

text \<open>The blocks of the table, one a frame or a query without frames, and an empty line between two.\<close>

definition renderResult :: "explore_lib \<Rightarrow> QueryResponse \<Rightarrow> nat \<Rightarrow> string \<Rightarrow> string list" where
  "renderResult E results maxWidth refID =
     (case rt_Frames (resultOf results refID) of
        [] \<Rightarrow> [Cell refID @ '': no data'' @ [CHR 0x0A]]
      | frames \<Rightarrow> map (\<lambda>frame. renderFrame E refID frame maxWidth) frames)"

definition RenderTable :: "explore_lib \<Rightarrow> QueryResponse option \<Rightarrow> int \<Rightarrow> string" where
  "RenderTable E resp maxCellWidth =
     (let maxWidth = (if maxCellWidth \<le> 0 then defaultMaxCellWidth else nat maxCellWidth) in
      case resp of None \<Rightarrow> ''No data.'' @ [CHR 0x0A]
      | Some results \<Rightarrow>
          if results = [] then ''No data.'' @ [CHR 0x0A]
          else joinText [CHR 0x0A] (concat (map (renderResult E results maxWidth) (sortedRefIDs results))))"

end
