(* ===== verification/Explore_Properties.thy ===== *)
theory Explore_Properties
  imports Explore
begin

text \<open>
  What a query of a datasource promises: a table whose rows and cells are those of the data whatever
  texts the server put in it, a body in which later options win, and errors that tell a dead session
  from every other failure.
\<close>

section \<open>Harmless texts\<close>

definition harmless :: "string \<Rightarrow> bool" where
  "harmless s \<longleftrightarrow> (\<exists>rs. s = concat (map encodeRune rs) \<and> (\<forall>r \<in> set rs. valid_rune r \<and> \<not> isUnsafe r))"

lemma harmless_runes:
  "\<forall>r \<in> set rs. valid_rune r \<and> \<not> isUnsafe r \<Longrightarrow> harmless (concat (map encodeRune rs))"
  unfolding harmless_def by blast

lemma harmless_Nil [intro]: "harmless []"
  using harmless_runes [of "[]"] by simp

lemma harmless_append [intro]: "harmless a \<Longrightarrow> harmless b \<Longrightarrow> harmless (a @ b)"
proof -
  assume "harmless a" "harmless b"
  then obtain rs qs where "a = concat (map encodeRune rs)" "b = concat (map encodeRune qs)"
    "\<forall>r \<in> set (rs @ qs). valid_rune r \<and> \<not> isUnsafe r" unfolding harmless_def by auto
  then show ?thesis using harmless_runes [of "rs @ qs"] by simp
qed

lemma harmless_rune [intro]: "valid_rune r \<Longrightarrow> \<not> isUnsafe r \<Longrightarrow> harmless (encodeRune r)"
  using harmless_runes [of "[r]"] by simp

lemma harmless_char: "0x20 \<le> byte c \<Longrightarrow> byte c < 0x7F \<Longrightarrow> harmless [c]"
proof -
  assume "0x20 \<le> byte c" "byte c < 0x7F"
  then have "harmless (encodeRune (byte c))"
    by (intro harmless_rune) (auto simp: valid_rune_def isUnsafe_def isControl_def formatRanges_def)
  moreover have "encodeRune (byte c) = [c]"
    using \<open>byte c < 0x7F\<close> by (simp add: encodeRune_def valid_rune_def)
  ultimately show ?thesis by simp
qed

lemma harmless_ascii: "list_all (\<lambda>c. 0x20 \<le> byte c \<and> byte c < 0x7F) s \<Longrightarrow> harmless s"
proof (induction s)
  case (Cons c s)
  then show ?case using harmless_append [of "[c]" s] harmless_char by simp
qed auto

lemma harmless_Cell [intro]: "harmless (Cell v)"
  using sanitize_runes [of v False] harmless_runes by (auto simp: Cell_def keeps_def)

text \<open>No byte of a harmless text separates cells or lines.\<close>

lemma encodeRune_high: "c \<in> set (encodeRune r) \<Longrightarrow> c = char_of r \<and> r < 0x80 \<and> encodeRune r = [c] \<or> 0x80 \<le> byte c"
  unfolding encodeRune_def by (auto split: if_splits simp: valid_rune_def)

lemma harmless_bytes:
  assumes "harmless s"
  shows "CHR 0x09 \<notin> set s" "CHR 0x0A \<notin> set s"
proof -
  have "c \<noteq> CHR 0x09 \<and> c \<noteq> CHR 0x0A" if "c \<in> set (encodeRune r)" "\<not> isUnsafe r" for c r
    using encodeRune_high [OF that(1)]
  proof
    assume "c = char_of r \<and> r < 0x80 \<and> encodeRune r = [c]"
    then have "byte c = r" by simp
    with that(2) show ?thesis by (auto simp: isUnsafe_def isControl_def)
  qed auto
  with assms show "CHR 0x09 \<notin> set s" "CHR 0x0A \<notin> set s" unfolding harmless_def by fastforce+
qed

lemma runes_harmless: "harmless s \<Longrightarrow> s = concat (map encodeRune (runes s)) \<and> (\<forall>r \<in> set (runes s). valid_rune r \<and> \<not> isUnsafe r)"
  unfolding harmless_def using runes_concat by auto

section \<open>Cells\<close>

lemma runes_of: "\<forall>r \<in> set rs. valid_rune r \<Longrightarrow> runes (concat (map encodeRune rs)) = rs"
  using runes_concat by simp

lemma truncateCell_harmless:
  assumes "harmless s" "0 < w"
  shows "harmless (truncateCell s w)" "length (runes (truncateCell s w)) \<le> w"
proof -
  note rs = runes_harmless [OF assms(1)]
  define kept where "kept = take w (runes s)"
  define cut where "cut = take (w - 1) (runes s) @ [ellipsis]"
  have dots: "valid_rune ellipsis \<and> \<not> isUnsafe ellipsis"
    by (simp add: ellipsis_def valid_rune_def isUnsafe_def isControl_def formatRanges_def)
  have ok: "\<forall>r \<in> set kept. valid_rune r \<and> \<not> isUnsafe r" "\<forall>r \<in> set cut. valid_rune r \<and> \<not> isUnsafe r"
    using rs dots by (auto simp: kept_def cut_def dest: in_set_takeD)
  then have lens: "length (runes (concat (map encodeRune kept))) \<le> w" "length (runes (concat (map encodeRune cut))) \<le> w"
    using assms(2) by (simp_all add: runes_of) (simp_all add: kept_def cut_def)
  have t: "truncateCell s w = (if length (runes s) \<le> w then s
      else if w \<le> 1 then concat (map encodeRune kept) else concat (map encodeRune cut))"
    by (simp add: truncateCell_def Let_def kept_def cut_def)
  show "harmless (truncateCell s w)" "length (runes (truncateCell s w)) \<le> w"
    unfolding t using assms(1) harmless_runes [OF ok(1)] harmless_runes [OF ok(2)] lens by simp_all
qed

lemma truncateCell_short: "length (runes s) \<le> w \<Longrightarrow> truncateCell s w = s"
  by (simp add: truncateCell_def)

text \<open>What is assumed of the parameter: a printable rune is neither a control nor a format character.\<close>

definition prints_harmless :: "explore_lib \<Rightarrow> bool" where
  "prints_harmless E \<longleftrightarrow> (\<forall>r. el_print E r \<longrightarrow> \<not> isUnsafe r)"

lemma hexDigit_ascii: "0x20 \<le> byte (hexDigit d) \<and> byte (hexDigit d) < 0x7F"
proof -
  have "list_all (\<lambda>c. 0x20 \<le> byte c \<and> byte c < 0x7F) ''0123456789abcdef''" by code_simp
  then show ?thesis by (simp add: hexDigit_def list_all_length)
qed

lemma harmless_hexDigits: "harmless (hexDigits k n)"
  by (induction k n rule: hexDigits.induct) (auto simp: harmless_append harmless_char hexDigit_ascii)

lemma harmless_escape: "0x20 \<le> byte c \<Longrightarrow> byte c < 0x7F \<Longrightarrow> harmless t \<Longrightarrow> harmless ([CHR 0x5C, c] @ t)"
  using harmless_append [of "[CHR 0x5C, c]" t] harmless_ascii [of "[CHR 0x5C, c]"] by simp

lemma harmless_quoteRune:
  assumes "prints_harmless E" "valid_rune r"
  shows "harmless (quoteRune E r)"
proof -
  have "harmless [CHR 0x5C, c]" if "map_of controlEscapes r = Some c" for c
  proof -
    have "list_all (\<lambda>(r, c). 0x20 \<le> byte c \<and> byte c < 0x7F) controlEscapes" by code_simp
    with map_of_SomeD [OF that] have "0x20 \<le> byte c \<and> byte c < 0x7F" by (auto simp: list_all_iff)
    then show ?thesis using harmless_escape [of c "[]"] by auto
  qed
  moreover have "harmless (encodeRune r)" if "el_print E r"
    using assms that by (auto simp: prints_harmless_def)
  moreover have "harmless [CHR 0x5C, char_of r]" if "r = 0x22 \<or> r = 0x5C"
    using that harmless_ascii [of "[CHR 0x5C, char_of r]"] by auto
  moreover have "harmless ([CHR 0x5C, c] @ hexDigits k r)" if "c \<in> set ''xuU''" for c k
    using that harmless_hexDigits by (intro harmless_escape) auto
  ultimately show ?thesis unfolding quoteRune_def by (auto split: option.split)
qed

lemma harmless_quoteRunes: "prints_harmless E \<Longrightarrow> harmless (quoteRunes E s)"
proof (induction E s rule: quoteRunes.induct)
  case (1 E s)
  show ?case
  proof (cases "s = []")
    case True
    then show ?thesis using quoteRunes.simps [of E "[]"] by (simp add: harmless_Nil)
  next
    case False
    obtain r width where d: "decodeRune s = (r, width)" by (cases "decodeRune s")
    define q where "q = (if width = 1 \<and> r = runeError then [CHR 0x5C, CHR ''x''] @ hexDigits 2 (byte (hd s)) else quoteRune E r)"
    have "valid_rune r" using decodeRune_valid [of s] d by simp
    then have "harmless q"
      using harmless_quoteRune [OF "1.prems"] harmless_escape [of "CHR ''x''", OF _ _ harmless_hexDigits [of 2 "byte (hd s)"]]
      by (auto simp: q_def)
    moreover have "quoteRunes E s = q @ quoteRunes E (drop width s)"
      using False by (simp add: quoteRunes.simps [of E s] d q_def)
    moreover have "harmless (quoteRunes E (drop width s))" using "1.IH" [OF False d [symmetric]] "1.prems" by simp
    ultimately show ?thesis by (simp add: harmless_append)
  qed
qed

lemma harmless_quoteText: "prints_harmless E \<Longrightarrow> harmless (quoteText E s)"
  using harmless_quoteRunes harmless_char [of "CHR 0x22"] unfolding quoteText_def by (intro harmless_append) auto

lemma harmless_joinText: "harmless sep \<Longrightarrow> \<forall>e \<in> set es. harmless e \<Longrightarrow> harmless (joinText sep es)"
  by (induction sep es rule: joinText.induct) auto

lemma harmless_columnHeader:
  assumes "prints_harmless E"
  shows "harmless (columnHeader E field)"
proof -
  have lit: "harmless '' {''" "harmless '', ''" "harmless ''}''" "harmless ''=''" by (rule harmless_ascii, simp)+
  have pair: "harmless (labelPair E labels k)" for labels k
    unfolding labelPair_def by (intro harmless_append harmless_Cell lit harmless_quoteText assms)
  have "harmless (joinText '', '' (map (labelPair E labels) ks))" for labels ks
    by (rule harmless_joinText) (use lit pair in auto)
  then show ?thesis
    unfolding columnHeader_def by (cases "fs_Labels field = []") (use lit in \<open>simp_all only: refl if_True if_False harmless_Cell harmless_append\<close>)
qed

section \<open>The table as a grid\<close>

text \<open>The lines of the table, each the list of its cells, empty lines between the blocks included.\<close>

definition rowCells :: "explore_lib \<Rightarrow> nat \<Rightarrow> Frame \<Rightarrow> nat \<Rightarrow> string list" where
  "rowCells E maxWidth frame row = map (tableCell E maxWidth frame row) [0..<length (fr_Fields frame)]"

definition frameGrid :: "explore_lib \<Rightarrow> string \<Rightarrow> Frame \<Rightarrow> nat \<Rightarrow> string list list" where
  "frameGrid E refID frame maxWidth =
     [''# '' @ Cell refID @ (if fr_Name frame \<noteq> [] then '' '' @ Cell (fr_Name frame) else [])] #
     (if fr_Fields frame = [] \<or> RowCount frame = 0 then [[''no data'']]
      else map (columnHeader E) (fr_Fields frame) # map (rowCells E maxWidth frame) [0..<RowCount frame])"

definition resultGrids :: "explore_lib \<Rightarrow> QueryResponse \<Rightarrow> nat \<Rightarrow> string \<Rightarrow> string list list list" where
  "resultGrids E results maxWidth refID =
     (case rt_Frames (resultOf results refID) of
        [] \<Rightarrow> [[[Cell refID @ '': no data'']]]
      | frames \<Rightarrow> map (\<lambda>frame. frameGrid E refID frame maxWidth) frames)"

fun spacedGrid :: "string list list list \<Rightarrow> string list list" where
  "spacedGrid [] = []"
| "spacedGrid [g] = g"
| "spacedGrid (g # gs) = g @ [[]] # spacedGrid gs"

definition tableGrid :: "explore_lib \<Rightarrow> QueryResponse \<Rightarrow> nat \<Rightarrow> string list list" where
  "tableGrid E results maxWidth =
     spacedGrid (concat (map (resultGrids E results maxWidth) (sortedRefIDs results)))"

text \<open>How a reader takes a text apart: lines at line feeds, cells at tabs.\<close>

definition linesOf :: "string \<Rightarrow> string list list" where
  "linesOf s = map (split_on (\<lambda>c. c = CHR 0x09)) (split_on (\<lambda>c. c = CHR 0x0A) s)"

text \<open>A row of cells that can be taken apart again.\<close>

definition splittable :: "string list \<Rightarrow> bool" where
  "splittable cells \<longleftrightarrow> cells \<noteq> [] \<and> (\<forall>e \<in> set cells. harmless e)"

lemma linesOf_printLine:
  assumes "splittable cells"
  shows "linesOf (printLine cells @ s) = cells # linesOf s"
proof -
  have no: "\<forall>e \<in> set cells. CHR 0x09 \<notin> set e" "\<forall>e \<in> set cells. CHR 0x0A \<notin> set e"
    using assms harmless_bytes by (auto simp: splittable_def)
  have "set (joinWith CHR 0x09 cells) \<subseteq> insert CHR 0x09 (\<Union>e \<in> set cells. set e)" by (rule joinWith_set)
  then have "CHR 0x0A \<notin> set (joinWith CHR 0x09 cells)" using no(2) by auto
  then show ?thesis using assms no(1) by (simp add: linesOf_def printLine_def split_on_cut split_on_join splittable_def)
qed

lemma linesOf_grid: "\<forall>cells \<in> set grid. splittable cells \<Longrightarrow> linesOf (concat (map printLine grid)) = grid @ [[[]]]"
  by (induction grid) (simp_all add: linesOf_printLine, simp add: linesOf_def)

lemma printLine_single: "printLine [s] = s @ [CHR 0x0A]"
  by (simp add: printLine_def)

lemma renderFrame_grid: "renderFrame E refID frame w = concat (map printLine (frameGrid E refID frame w))"
  by (simp add: renderFrame_def frameGrid_def printLine_single rowCells_def comp_def)

lemma renderResult_grid: "renderResult E results w refID = map (\<lambda>g. concat (map printLine g)) (resultGrids E results w refID)"
  by (simp add: renderResult_def resultGrids_def renderFrame_grid printLine_single split: list.split)

lemma joinText_grid: "joinText [CHR 0x0A] (map (\<lambda>g. concat (map printLine g)) gs) = concat (map printLine (spacedGrid gs))"
  by (induction gs rule: spacedGrid.induct) (simp_all add: printLine_single)

lemma RenderTable_grid:
  assumes "results \<noteq> []" "w = (if maxCellWidth \<le> 0 then defaultMaxCellWidth else nat maxCellWidth)"
  shows "RenderTable E (Some results) maxCellWidth = concat (map printLine (tableGrid E results w))"
proof -
  have "concat (map (renderResult E results w) ids) =
      map (\<lambda>g. concat (map printLine g)) (concat (map (resultGrids E results w) ids))" for ids
    by (induction ids) (simp_all add: renderResult_grid)
  then show ?thesis using assms by (simp add: RenderTable_def Let_def joinText_grid tableGrid_def)
qed

lemma spacedGrid_set: "set (spacedGrid gs) \<subseteq> insert [[]] (\<Union>g \<in> set gs. set g)"
  by (induction gs rule: spacedGrid.induct) auto

lemma frameGrid_splittable:
  assumes "prints_harmless E" "0 < w" "cells \<in> set (frameGrid E refID frame w)"
  shows "splittable cells"
proof -
  have lit: "harmless ''# ''" "harmless '' ''" "harmless ''no data''" by (rule harmless_ascii, simp)+
  have "harmless (''# '' @ Cell refID @ (if fr_Name frame \<noteq> [] then '' '' @ Cell (fr_Name frame) else []))"
    by (intro harmless_append lit harmless_Cell) (simp only: lit harmless_append harmless_Cell harmless_Nil split: if_split, simp)
  moreover have "harmless (tableCell E w frame row column)" for row column
    unfolding tableCell_def by (rule truncateCell_harmless(1) [OF harmless_Cell assms(2)])
  ultimately show ?thesis using assms lit(3) harmless_columnHeader
    by (auto simp: frameGrid_def splittable_def rowCells_def split: if_splits)
qed

lemma tableGrid_splittable:
  assumes "prints_harmless E" "0 < w" "cells \<in> set (tableGrid E results w)"
  shows "splittable cells"
proof -
  have "harmless (Cell refID @ '': no data'')" for refID
    by (intro harmless_append harmless_Cell harmless_ascii) simp
  then have "splittable cells" if "cells \<in> set g" "g \<in> set (resultGrids E results w refID)" for g refID
    using that frameGrid_splittable [OF assms(1,2)]
    by (auto simp: resultGrids_def splittable_def split: list.splits)
  moreover have "splittable [[]]" by (auto simp: splittable_def)
  ultimately show ?thesis
    using assms(3) spacedGrid_set by (fastforce simp: tableGrid_def)
qed

lemma RowCount_bounds:
  "\<forall>column \<in> set (fr_Values f). length column \<le> RowCount f"
  "RowCount f = 0 \<or> (\<exists>column \<in> set (fr_Values f). length column = RowCount f)"
proof -
  let ?step = "\<lambda>rows column :: string list. if length column > rows then length column else rows"
  have "n \<le> foldl ?step n xs \<and> (\<forall>x \<in> set xs. length x \<le> foldl ?step n xs) \<and>
      (foldl ?step n xs = n \<or> (\<exists>x \<in> set xs. length x = foldl ?step n xs))" for n xs
  proof (induction xs arbitrary: n)
    case (Cons x xs)
    define k where "k = ?step n x"
    define m where "m = foldl ?step k xs"
    have k: "n \<le> k" "length x \<le> k" "k = n \<or> k = length x" by (auto simp: k_def)
    have "k \<le> m" "\<forall>y \<in> set xs. length y \<le> m" "m = k \<or> (\<exists>y \<in> set xs. length y = m)"
      using Cons.IH [of k] unfolding m_def by blast+
    with k have "n \<le> m \<and> (\<forall>y \<in> set (x # xs). length y \<le> m) \<and> (m = n \<or> (\<exists>y \<in> set (x # xs). length y = m))" by auto
    then show ?case unfolding m_def k_def foldl_Cons .
  qed simp
  from this [of 0 "fr_Values f"] show "\<forall>column \<in> set (fr_Values f). length column \<le> RowCount f"
    "RowCount f = 0 \<or> (\<exists>column \<in> set (fr_Values f). length column = RowCount f)"
    by (simp_all add: RowCount_def)
qed

lemma Cell_harmless: "harmless v \<Longrightarrow> Cell v = v"
  unfolding harmless_def Cell_def using sanitize_kept by (fastforce simp: keeps_def)

text \<open>How much of a text is shown: all of it where it fits, otherwise its start and an ellipsis.\<close>

definition abridged :: "nat \<Rightarrow> string \<Rightarrow> nat list" where
  "abridged w v =
     (if length (runes v) \<le> w then runes v
      else if w \<le> 1 then take w (runes v) else take (w - 1) (runes v) @ [ellipsis])"

lemma truncateCell_runes: "harmless v \<Longrightarrow> runes (truncateCell v w) = abridged w v"
proof -
  assume "harmless v"
  then have valid: "\<forall>r \<in> set (runes v). valid_rune r" using runes_harmless by blast
  have "valid_rune ellipsis" by (simp add: ellipsis_def valid_rune_def)
  moreover from this valid have "runes (concat (map encodeRune (take (w - 1) (runes v) @ [ellipsis]))) =
      take (w - 1) (runes v) @ [ellipsis]" "runes (concat (map encodeRune (take w (runes v)))) = take w (runes v)"
    by (intro runes_of; auto dest: in_set_takeD)+
  ultimately show ?thesis by (simp add: truncateCell_def abridged_def Let_def)
qed


text \<open>A cell that would break its row and a ragged column.\<close>

definition ascii_explore :: explore_lib where
  "ascii_explore =
     \<lparr>el_json = (\<lambda>s. None), el_string = (\<lambda>s. Some s), el_int64 = (\<lambda>s. None), el_response = (\<lambda>s. Inr []),
      el_rfc3339 = (\<lambda>ms. []), el_print = (\<lambda>r. 0x20 \<le> r \<and> r < 0x7F)\<rparr>"

definition broken_row :: QueryResponse where
  "broken_row =
     [(''A'', \<lparr>rt_Frames = [\<lparr>fr_Name = [],
        fr_Fields = [\<lparr>fs_Name = ''a'', fs_Type = ''string'', fs_Labels = []\<rparr>, \<lparr>fs_Name = ''b'', fs_Type = ''number'', fs_Labels = []\<rparr>],
        fr_Values = [[[CHR ''x'', CHR 0x0A, CHR 0x09, CHR ''y'']], []]\<rparr>], rt_Error = []\<rparr>)]"


section \<open>Queries\<close>

text \<open>A parameter wins over every field the query has otherwise, and the last of a key wins.\<close>

lemma addParams_last:
  "foldR (addParam E) query (params @ [param]) = Inr query' \<Longrightarrow> parseParam E param = Inr (key, val) \<Longrightarrow> query' key = Some val"
  by (induction params arbitrary: query) (auto simp: addParam_def bindR_Inr_iff split: sum.splits)

lemma BuildQuery_param_wins:
  assumes "BuildQuery E ds q opts = Inr query" "qo_Params opts = params @ [param]" "parseParam E param = Inr (key, val)"
  shows "query key = Some val"
  using assms addParams_last [OF _ assms(3)] by (auto simp: BuildQuery_def bindR_Inr_iff Let_def split: if_splits option.splits)

text \<open>The name is tried only after the identifier was not found, and the list asked for only to say what
  there is; any other failure is passed on as it is.\<close>

lemma ResolveDataSource_requests:
  "ResolveDataSource S ref = (res, requests) \<Longrightarrow>
     (ByName ref \<in> set requests \<longleftrightarrow> sc_by_uid S ref = Inl UIDNotFound) \<and>
     (ListAll \<in> set requests \<longleftrightarrow> sc_by_uid S ref = Inl UIDNotFound \<and> sc_by_name S ref = Inl (SourceAPIError 404)) \<and>
     (\<forall>e. sc_by_uid S ref = Inl e \<and> e \<noteq> UIDNotFound \<longrightarrow> res = Inl (RequestFailed e))"
  by (auto simp: ResolveDataSource_def split: sum.splits if_splits)

text \<open>A 401 that outlived the rotation ends the process like every other dead session.\<close>

lemma query_401_exits:
  "handleQueryResponse E apiText 401 body = Inl p \<Longrightarrow> exitCode R (Some p) = 2 \<and>
     de_Suggestions (ErrorToDetailedError R p) = [staleSessionSuggestion]"
  by (auto simp: handleQueryResponse_def exitCode_def ErrorToDetailedError_def report_inputs convertAuthErrors_def
      staleSessionError_def sessionAuthExitCode_def Let_def)

end
