(* ===== verification/Config_Editor.thy ===== *)
theory Config_Editor
  imports Json_Values Go_Strings "HOL-Library.AList"
begin

text \<open>
  Editing the configuration by path (\<^verbatim>\<open>internal/config/editor.go\<close>), as \<^verbatim>\<open>config set\<close> and
  \<^verbatim>\<open>config unset\<close> do, over the fields of \<^verbatim>\<open>internal/config/types.go\<close>.

  The code walks a value by reflection. Here a value is a tree beside its type: a struct lists its
  fields with their YAML names, a pointer or a map may be nil, and the entries of a map are pointers to
  structs, since the code takes the element of the element type. The walk changes the value in place,
  so what it returns is how it ended and what it left, also when it failed.
\<close>

section \<open>Types and values\<close>

datatype field_type =
    StringType
  | BytesType
  | StringsType  \<comment> \<open>a slice of strings, whose kind is that of a slice of bytes\<close>
  | BoolType
  | Int64Type
  | OpaqueType
  | StructType "(string \<times> field_type) list"
  | PtrType field_type
  | MapType field_type  \<comment> \<open>of pointers to values of the type\<close>

datatype field_value =
    StringValue string
  | BytesValue string
  | StringsValue "string list"
  | BoolValue bool
  | Int64Value int
  | OpaqueValue
  | StructValue "field_value list"
  | PtrValue "field_value option"
  | MapValue "(string \<times> field_value option) list option"

fun zeroValue :: "field_type \<Rightarrow> field_value" where
  "zeroValue StringType = StringValue []"
| "zeroValue BytesType = BytesValue []"
| "zeroValue StringsType = StringsValue []"
| "zeroValue BoolType = BoolValue False"
| "zeroValue Int64Type = Int64Value 0"
| "zeroValue OpaqueType = OpaqueValue"
| "zeroValue (StructType fs) = StructValue (map (\<lambda>(name, t). zeroValue t) fs)"
| "zeroValue (PtrType t) = PtrValue None"
| "zeroValue (MapType t) = MapValue None"

section \<open>The walk\<close>

datatype edit_err =
    CannotSetStruct
  | CannotSetMap
  | UnknownStep string
  | MoreSteps
  | BadBool string
  | BadInt64 string
  | UnhandledKind

datatype edit_end = EditDone | EditFailed edit_err | EditPanics

text \<open>\<^verbatim>\<open>strconv.ParseBool\<close>.\<close>

definition parseBool :: "string \<Rightarrow> bool option" where
  "parseBool s =
     (if s \<in> {''1'', ''t'', ''T'', ''true'', ''TRUE'', ''True''} then Some True
      else if s \<in> {''0'', ''f'', ''F'', ''false'', ''FALSE'', ''False''} then Some False else None)"

definition toBool :: "string \<Rightarrow> bool option" where
  "toBool s = (if s = [] then Some False else parseBool s)"

text \<open>A leaf: what is written into it, or how that fails. Setting the bytes of a slice of strings panics.\<close>

definition setLeaf :: "field_type \<Rightarrow> field_value \<Rightarrow> string \<Rightarrow> bool \<Rightarrow> edit_end \<times> field_value" where
  "setLeaf t v val unset =
     (case t of
        StringType \<Rightarrow> (EditDone, StringValue (if unset then [] else val))
      | BytesType \<Rightarrow> (EditDone, BytesValue (if unset then [] else val))
      | StringsType \<Rightarrow> (EditPanics, v)
      | BoolType \<Rightarrow>
          if unset then (EditDone, BoolValue False)
          else (case toBool val of None \<Rightarrow> (EditFailed (BadBool val), v) | Some b \<Rightarrow> (EditDone, BoolValue b))
      | Int64Type \<Rightarrow>
          if unset then (EditDone, Int64Value 0)
          else (case parse_int64 val of None \<Rightarrow> (EditFailed (BadInt64 val), v) | Some i \<Rightarrow> (EditDone, Int64Value i))
      | _ \<Rightarrow> (EditFailed UnhandledKind, v))"

text \<open>One pointer is followed: a nil pointer and a pointer to a pointer are kinds the walk does not know.\<close>

definition throughPointer ::
  "(field_type \<Rightarrow> field_value \<Rightarrow> edit_end \<times> field_value) \<Rightarrow> field_type \<Rightarrow> field_value \<Rightarrow> edit_end \<times> field_value" where
  "throughPointer f t v =
     (case (t, v) of
        (PtrType s, PtrValue (Some w)) \<Rightarrow>
          (case f s w of (ended, w') \<Rightarrow> (ended, PtrValue (Some w')))
      | (PtrType s, _) \<Rightarrow> (EditFailed UnhandledKind, v)
      | _ \<Rightarrow> f t v)"

definition fieldIndex :: "(string \<times> field_type) list \<Rightarrow> string \<Rightarrow> nat option" where
  "fieldIndex fs step = find (\<lambda>i. fst (fs ! i) = step) [0..<length fs]"

text \<open>A nil map or pointer on the way is made first.\<close>

definition makeField :: "field_type \<Rightarrow> field_value \<Rightarrow> field_value" where
  "makeField t v =
     (case (t, v) of
        (MapType s, MapValue None) \<Rightarrow> MapValue (Some [])
      | (PtrType s, PtrValue None) \<Rightarrow> PtrValue (Some (zeroValue s))
      | _ \<Rightarrow> v)"

fun updateValue :: "field_type \<Rightarrow> field_value \<Rightarrow> string list \<Rightarrow> string \<Rightarrow> bool \<Rightarrow> edit_end \<times> field_value" where
  "updateValue t v [] val unset =
     (case t of
        StructType fs \<Rightarrow> if unset then (EditDone, zeroValue t) else (EditFailed CannotSetStruct, v)
      | MapType s \<Rightarrow> (EditFailed CannotSetMap, v)
      | _ \<Rightarrow> setLeaf t v val unset)"
| "updateValue t v (step # path) val unset =
     (case (t, v) of
        (StructType fs, StructValue vs) \<Rightarrow>
          (case fieldIndex fs step of None \<Rightarrow> (EditFailed (UnknownStep step), v)
           | Some i \<Rightarrow>
               let ft = snd (fs ! i) in
               if path = [] \<and> unset then (EditDone, StructValue (vs[i := zeroValue ft]))
               else (case throughPointer (\<lambda>t v. updateValue t v path val unset) ft (makeField ft (vs ! i)) of
                 (ended, w) \<Rightarrow> (ended, StructValue (vs[i := w]))))
      | (MapType s, MapValue (Some es)) \<Rightarrow>
          if path = [] \<and> unset then (EditDone, MapValue (Some (AList.delete step es)))
          else
            let entry = (case map_of es step of None \<Rightarrow> Some (zeroValue s) | Some e \<Rightarrow> e) in
            (case throughPointer (\<lambda>t v. updateValue t v path val unset) (PtrType s) (PtrValue entry) of
              (ended, PtrValue entry') \<Rightarrow> (ended, MapValue (Some (AList.update step entry' es)))
            | (ended, _) \<Rightarrow> (ended, v))
      | (MapType s, MapValue None) \<Rightarrow> (if path = [] \<and> unset then EditDone else EditPanics, v)
      | (StringType, _) \<Rightarrow> (EditFailed MoreSteps, v)
      | (BytesType, _) \<Rightarrow> (EditFailed MoreSteps, v)
      | (StringsType, _) \<Rightarrow> (EditFailed MoreSteps, v)
      | (BoolType, _) \<Rightarrow> (EditFailed MoreSteps, v)
      | (Int64Type, _) \<Rightarrow> (EditFailed MoreSteps, v)
      | _ \<Rightarrow> (EditFailed UnhandledKind, v))"

definition SetValue :: "field_type \<Rightarrow> field_value \<Rightarrow> string \<Rightarrow> string \<Rightarrow> edit_end \<times> field_value" where
  "SetValue t v path val = updateValue t v (split_on (\<lambda>c. c = CHR ''.'') path) val False"

definition UnsetValue :: "field_type \<Rightarrow> field_value \<Rightarrow> string \<Rightarrow> edit_end \<times> field_value" where
  "UnsetValue t v path = updateValue t v (split_on (\<lambda>c. c = CHR ''.'') path) [] True"

text \<open>Whether a path that was unset names a whole context, whose stored session goes with it.\<close>

definition removedContextName :: "string \<Rightarrow> string option" where
  "removedContextName path =
     (case split_on (\<lambda>c. c = CHR ''.'') path of
        [a, name] \<Rightarrow> if a = ''contexts'' then Some name else None
      | _ \<Rightarrow> None)"

section \<open>The configuration\<close>

definition tlsType :: field_type where
  "tlsType = StructType
     [(''insecure-skip-verify'', BoolType), (''server-name'', StringType), (''cert-data'', BytesType),
      (''key-data'', BytesType), (''ca-data'', BytesType), (''next-protos'', StringsType)]"

definition grafanaType :: field_type where
  "grafanaType = StructType
     [(''server'', StringType), (''org-id'', Int64Type), (''stack-id'', Int64Type), (''tls'', PtrType tlsType),
      (''live-window'', StringType), (''-'', StringType), (''-'', OpaqueType)]"

definition contextType :: field_type where
  "contextType = StructType [(''-'', StringType), (''grafana'', PtrType grafanaType)]"

definition configType :: field_type where
  "configType = StructType
     [(''-'', StringType), (''contexts'', MapType contextType), (''current-context'', StringType)]"

end
