(* ===== verification/Config_Editor_Properties.thy ===== *)
theory Config_Editor_Properties
  imports Config_Editor "HOL-Library.Sublist"
begin

text \<open>
  What an edit of the configuration does: a path that was set reads back as the value, one that was
  unset reads as nothing or as zero, and every other path reads as it did, except that a field of a
  struct made on the way reads as zero.
\<close>

section \<open>Reading a path\<close>

definition isLeaf :: "field_type \<Rightarrow> bool" where
  "isLeaf t \<longleftrightarrow> t \<in> {StringType, BytesType, StringsType, BoolType, Int64Type}"

fun readAt :: "field_type \<Rightarrow> field_value \<Rightarrow> string list \<Rightarrow> field_value option" where
  "readAt (PtrType s) v path = (case v of PtrValue (Some w) \<Rightarrow> readAt s w path | _ \<Rightarrow> None)"
| "readAt t v [] = (if isLeaf t then Some v else None)"
| "readAt (StructType fs) v (step # path) =
     (case v of StructValue vs \<Rightarrow>
        (case fieldIndex fs step of None \<Rightarrow> None | Some i \<Rightarrow> readAt (snd (fs ! i)) (vs ! i) path)
      | _ \<Rightarrow> None)"
| "readAt (MapType s) v (step # path) =
     (case v of MapValue (Some es) \<Rightarrow> (case map_of es step of Some (Some w) \<Rightarrow> readAt s w path | _ \<Rightarrow> None)
      | _ \<Rightarrow> None)"
| "readAt t v (step # path) = None"

text \<open>The type a path leads to, where that is one that can be set.\<close>

fun leafType :: "field_type \<Rightarrow> string list \<Rightarrow> field_type option" where
  "leafType (PtrType s) path = leafType s path"
| "leafType t [] = (if isLeaf t then Some t else None)"
| "leafType (StructType fs) (step # path) =
     (case fieldIndex fs step of None \<Rightarrow> None | Some i \<Rightarrow> leafType (snd (fs ! i)) path)"
| "leafType (MapType s) (step # path) = leafType s path"
| "leafType t (step # path) = None"

text \<open>Values of a type; the entries of a map are not nil.\<close>

fun hasType :: "field_type \<Rightarrow> field_value \<Rightarrow> bool" where
  "hasType StringType v \<longleftrightarrow> (\<exists>s. v = StringValue s)"
| "hasType BytesType v \<longleftrightarrow> (\<exists>s. v = BytesValue s)"
| "hasType StringsType v \<longleftrightarrow> (\<exists>ss. v = StringsValue ss)"
| "hasType BoolType v \<longleftrightarrow> (\<exists>b. v = BoolValue b)"
| "hasType Int64Type v \<longleftrightarrow> (\<exists>i. v = Int64Value i)"
| "hasType OpaqueType v \<longleftrightarrow> v = OpaqueValue"
| "hasType (StructType fs) v \<longleftrightarrow> (\<exists>vs. v = StructValue vs \<and> list_all2 (\<lambda>f w. hasType (snd f) w) fs vs)"
| "hasType (PtrType t) v \<longleftrightarrow> v = PtrValue None \<or> (\<exists>w. v = PtrValue (Some w) \<and> hasType t w)"
| "hasType (MapType t) v \<longleftrightarrow> v = MapValue None \<or>
     (\<exists>es. v = MapValue (Some es) \<and> distinct (map fst es) \<and> (\<forall>e \<in> set es. \<exists>w. snd e = Some w \<and> hasType t w))"

text \<open>The types of a configuration: pointers and maps lead to structs.\<close>

definition isStruct :: "field_type \<Rightarrow> bool" where
  "isStruct t \<longleftrightarrow> (case t of StructType fs \<Rightarrow> True | _ \<Rightarrow> False)"

fun goodType :: "field_type \<Rightarrow> bool" where
  "goodType (StructType fs) \<longleftrightarrow> list_all (\<lambda>f. goodType (snd f)) fs"
| "goodType (PtrType t) \<longleftrightarrow> isStruct t \<and> goodType t"
| "goodType (MapType t) \<longleftrightarrow> isStruct t \<and> goodType t"
| "goodType t \<longleftrightarrow> True"

lemma goodType_config: "goodType configType"
  by (simp add: configType_def contextType_def grafanaType_def tlsType_def isStruct_def)

section \<open>Types\<close>

lemma fieldIndex_Some: "fieldIndex fs step = Some i \<Longrightarrow> i < length fs \<and> fst (fs ! i) = step"
  by (auto simp: fieldIndex_def find_Some_iff)

lemma hasType_zero: "hasType t (zeroValue t)"
proof (induction t)
  case (StructType fs)
  then have "hasType (snd f) (zeroValue (snd f))" if "f \<in> set fs" for f
    using that by (cases f) fastforce
  then show ?case by (auto simp: list_all2_map2 list_all2_same case_prod_beta)
qed auto

lemma setLeaf_leaf:
  "setLeaf t v val unset = (EditDone, w) \<Longrightarrow> isLeaf t \<and> hasType t w \<and> setLeaf t x val unset = (EditDone, w) \<and>
     (unset \<longrightarrow> w = zeroValue t)"
  by (cases t) (auto simp: setLeaf_def isLeaf_def split: option.splits if_splits)

lemma hasType_makeField: "hasType t v \<Longrightarrow> hasType t (makeField t v)"
  by (cases t) (auto simp: makeField_def hasType_zero)

lemma leafType_ends: "leafType t p = Some lt \<Longrightarrow> leafType t (p @ c # q) = None"
  by (induction t p rule: leafType.induct) (auto simp: isLeaf_def split: option.splits if_splits)

lemma readAt_leafType: "readAt t v q = Some x \<Longrightarrow> \<exists>lt. leafType t q = Some lt"
  by (induction t v q rule: readAt.induct) (auto split: field_value.splits option.splits if_splits)

lemma readAt_zero: "readAt t (zeroValue t) q = Some x \<Longrightarrow> \<exists>lt. leafType t q = Some lt \<and> x = zeroValue lt"
proof (induction t q rule: leafType.induct)
  case (3 fs step path)
  then obtain i where i: "fieldIndex fs step = Some i" by (auto split: option.splits)
  with 3 fieldIndex_Some [OF i] show ?case by (auto simp: case_prod_beta)
qed (auto split: if_splits)

section \<open>Edits\<close>

text \<open>A path reads as before, or as the zero of a struct made since.\<close>

definition unchangedAt :: "field_type \<Rightarrow> field_value \<Rightarrow> field_value \<Rightarrow> string list \<Rightarrow> bool" where
  "unchangedAt t v v' q \<longleftrightarrow> readAt t v' q = readAt t v q \<or>
     readAt t v q = None \<and> (\<exists>lt. leafType t q = Some lt \<and> readAt t v' q = Some (zeroValue lt))"

definition zeroOrGone :: "field_type \<Rightarrow> field_value \<Rightarrow> string list \<Rightarrow> bool" where
  "zeroOrGone t v' q \<longleftrightarrow> readAt t v' q = None \<or> (\<exists>lt. leafType t q = Some lt \<and> readAt t v' q = Some (zeroValue lt))"

definition landed :: "field_type \<Rightarrow> field_value \<Rightarrow> string list \<Rightarrow> string \<Rightarrow> bool \<Rightarrow> bool" where
  "landed t v' path val unset \<longleftrightarrow>
     (if unset then \<forall>q. prefix path q \<longrightarrow> zeroOrGone t v' q
      else \<exists>lt w. leafType t path = Some lt \<and> setLeaf lt (zeroValue lt) val False = (EditDone, w) \<and>
             readAt t v' path = Some w)"

definition edited :: "field_type \<Rightarrow> field_value \<Rightarrow> field_value \<Rightarrow> string list \<Rightarrow> string \<Rightarrow> bool \<Rightarrow> bool" where
  "edited t v v' path val unset \<longleftrightarrow>
     hasType t v' \<and> (\<forall>q. \<not> prefix path q \<longrightarrow> unchangedAt t v v' q) \<and> landed t v' path val unset"

lemma unchangedAt_made:
  assumes "unchangedAt s (zeroValue s) w q"
  shows "zeroOrGone s w q"
  using assms readAt_zero [of s q] by (cases "readAt s (zeroValue s) q") (auto simp: unchangedAt_def zeroOrGone_def)

lemma edited_pointer:
  assumes e: "edited s w w' path val unset" and v: "v = PtrValue (Some w) \<or> v = PtrValue None \<and> w = zeroValue s"
  shows "edited (PtrType s) v (PtrValue (Some w')) path val unset"
proof -
  have "unchangedAt (PtrType s) v (PtrValue (Some w')) q" if "unchangedAt s w w' q" for q
    using v
  proof
    assume "v = PtrValue (Some w)"
    with that show ?thesis by (simp add: unchangedAt_def)
  next
    assume "v = PtrValue None \<and> w = zeroValue s"
    with that unchangedAt_made [of s w' q] show ?thesis by (simp add: unchangedAt_def zeroOrGone_def)
  qed
  moreover have "landed (PtrType s) (PtrValue (Some w')) path val unset = landed s w' path val unset"
    by (simp add: landed_def zeroOrGone_def)
  ultimately show ?thesis using e by (simp add: edited_def)
qed

lemma edited_through:
  assumes IH: "\<And>t v v'. goodType t \<Longrightarrow> hasType t v \<Longrightarrow> updateValue t v path val unset = (EditDone, v') \<Longrightarrow> edited t v v' path val unset"
    and "goodType t" "hasType t v"
    and run: "throughPointer (\<lambda>t v. updateValue t v path val unset) t (makeField t v) = (EditDone, v')"
  shows "edited t v v' path val unset"
proof (cases t)
  case (PtrType s)
  define w where "w = (case v of PtrValue (Some w) \<Rightarrow> w | _ \<Rightarrow> zeroValue s)"
  have v: "v = PtrValue (Some w) \<or> v = PtrValue None \<and> w = zeroValue s" "hasType s w"
    using assms(3) hasType_zero by (auto simp: PtrType w_def)
  then have "makeField t v = PtrValue (Some w)" by (auto simp: makeField_def PtrType)
  with run obtain w' where "updateValue s w path val unset = (EditDone, w')" "v' = PtrValue (Some w')"
    by (auto simp: throughPointer_def PtrType split: prod.splits)
  with IH [of s w w'] assms(2) v(2) have "edited s w w' path val unset" by (simp add: PtrType)
  from edited_pointer [OF this v(1)] show ?thesis by (simp add: PtrType \<open>v' = PtrValue (Some w')\<close>)
next
  case (MapType s)
  have "updateValue t (makeField t v) path val unset = (EditDone, v')" using run by (simp add: throughPointer_def MapType)
  from IH [OF assms(2) hasType_makeField [OF assms(3)] this]
  have e: "edited t (makeField t v) v' path val unset" .
  have "readAt t (makeField t v) q = readAt t v q" for q
    using assms(3) by (cases q) (auto simp: makeField_def MapType isLeaf_def)
  with e show ?thesis by (simp add: edited_def unchangedAt_def)
qed (use IH [OF assms(2,3)] run in \<open>simp_all add: throughPointer_def makeField_def\<close>)

lemma edited_zero: "edited t v (zeroValue t) [] val True"
proof -
  have "zeroOrGone t (zeroValue t) q" for q
    using readAt_zero [of t q] by (cases "readAt t (zeroValue t) q") (simp_all add: zeroOrGone_def)
  then show ?thesis using hasType_zero by (simp add: edited_def landed_def)
qed

lemma edited_field:
  assumes "hasType (StructType fs) (StructValue vs)" "fieldIndex fs step = Some i"
    and e: "edited (snd (fs ! i)) (vs ! i) w path val unset"
  shows "edited (StructType fs) (StructValue vs) (StructValue (vs[i := w])) (step # path) val unset"
proof -
  have i: "i < length fs" "fst (fs ! i) = step" using fieldIndex_Some [OF assms(2)] by auto
  have vs: "list_all2 (\<lambda>f w. hasType (snd f) w) fs vs" using assms(1) by simp
  then have len: "length vs = length fs" by (simp add: list_all2_lengthD [symmetric])
  have "hasType (StructType fs) (StructValue (vs[i := w]))"
    using vs e i len by (auto simp: list_all2_conv_all_nth nth_list_update edited_def)
  moreover have "unchangedAt (StructType fs) (StructValue vs) (StructValue (vs[i := w])) q" if "\<not> prefix (step # path) q" for q
  proof (cases q)
    case (Cons s' q')
    show ?thesis
    proof (cases "fieldIndex fs s'")
      case (Some j)
      show ?thesis
      proof (cases "j = i")
        case True
        then have "\<not> prefix path q'" using that Cons i fieldIndex_Some [OF Some] by simp
        with e have "unchangedAt (snd (fs ! i)) (vs ! i) w q'" by (simp add: edited_def)
        then show ?thesis using Some True i len by (simp add: unchangedAt_def Cons)
      qed (use Some in \<open>simp add: unchangedAt_def Cons\<close>)
    qed (simp add: unchangedAt_def Cons)
  qed (simp add: unchangedAt_def isLeaf_def)
  moreover have "landed (StructType fs) (StructValue (vs[i := w])) (step # path) val unset"
  proof (cases unset)
    case True
    have "zeroOrGone (StructType fs) (StructValue (vs[i := w])) q" if "prefix (step # path) q" for q
      using that e assms(2) i len True by (cases q) (auto simp: zeroOrGone_def edited_def landed_def)
    then show ?thesis using True by (simp add: landed_def)
  next
    case False
    then show ?thesis using e assms(2) i len by (auto simp: edited_def landed_def)
  qed
  ultimately show ?thesis by (simp add: edited_def)
qed

lemma edited_entry:
  assumes es: "hasType (MapType s) (MapValue (Some es))"
    and w0: "w0 = (case map_of es step of Some (Some x) \<Rightarrow> x | _ \<Rightarrow> zeroValue s)"
    and e: "edited s w0 w path val unset"
  shows "edited (MapType s) (MapValue (Some es)) (MapValue (Some (AList.update step (Some w) es))) (step # path) val unset"
proof -
  let ?es = "AList.update step (Some w) es"
  have es': "distinct (map fst es)" "\<forall>x \<in> set es. \<exists>w. snd x = Some w \<and> hasType s w" using es by auto
  then have "distinct (map fst ?es)" by (simp add: distinct_update)
  moreover have "\<exists>w'. snd x = Some w' \<and> hasType s w'" if "x \<in> set ?es" for x
  proof -
    have "map_of ?es (fst x) = Some (snd x)" using that \<open>distinct (map fst ?es)\<close> by (simp add: map_of_is_SomeI)
    then have "snd x = Some w \<or> x \<in> set es"
      by (auto simp: update_conv split: if_splits dest: map_of_SomeD)
    then show ?thesis using es'(2) e by (auto simp: edited_def)
  qed
  ultimately have "hasType (MapType s) (MapValue (Some ?es))" by simp
  moreover have "unchangedAt (MapType s) (MapValue (Some es)) (MapValue (Some ?es)) q" if "\<not> prefix (step # path) q" for q
  proof (cases q)
    case (Cons s' q')
    show ?thesis
    proof (cases "s' = step")
      case True
      with that Cons e have u: "unchangedAt s w0 w q'" by (simp add: edited_def)
      show ?thesis
      proof (cases "map_of es step")
        case None
        then show ?thesis using unchangedAt_made [of s w q'] u True
          by (simp add: unchangedAt_def zeroOrGone_def Cons w0 update_conv')
      next
        case (Some x)
        then obtain y where "x = Some y" using es'(2) by (fastforce dest: map_of_SomeD)
        then show ?thesis using u Some True by (simp add: unchangedAt_def Cons w0 update_conv')
      qed
    qed (simp add: unchangedAt_def Cons update_conv')
  qed (simp add: unchangedAt_def isLeaf_def)
  moreover have "landed (MapType s) (MapValue (Some ?es)) (step # path) val unset"
  proof (cases unset)
    case True
    have "zeroOrGone (MapType s) (MapValue (Some ?es)) q" if "prefix (step # path) q" for q
      using that e True by (cases q) (auto simp: zeroOrGone_def edited_def landed_def update_conv')
    then show ?thesis using True by (simp add: landed_def)
  next
    case False
    then show ?thesis using e by (auto simp: edited_def landed_def update_conv')
  qed
  ultimately show ?thesis by (simp add: edited_def)
qed

lemma edited_delete:
  assumes "hasType (MapType s) (MapValue (Some es))"
  shows "edited (MapType s) (MapValue (Some es)) (MapValue (Some (AList.delete step es))) [step] val True"
proof -
  have "hasType (MapType s) (MapValue (Some (AList.delete step es)))"
    using assms by (auto simp: AList.delete_eq distinct_map_filter)
  moreover have "unchangedAt (MapType s) (MapValue (Some es)) (MapValue (Some (AList.delete step es))) q" if "\<not> prefix [step] q" for q
    using that by (cases q) (auto simp: unchangedAt_def isLeaf_def delete_conv')
  moreover have "zeroOrGone (MapType s) (MapValue (Some (AList.delete step es))) q" if "prefix [step] q" for q
    using that by (cases q) (auto simp: zeroOrGone_def delete_conv')
  ultimately show ?thesis by (simp add: edited_def landed_def)
qed

lemma updateValue_struct:
  assumes "fieldIndex fs step = Some i"
  shows "updateValue (StructType fs) (StructValue vs) (step # path) val unset =
    (if path = [] \<and> unset then (EditDone, StructValue (vs[i := zeroValue (snd (fs ! i))]))
     else case throughPointer (\<lambda>t v. updateValue t v path val unset) (snd (fs ! i)) (makeField (snd (fs ! i)) (vs ! i)) of
       (ended, w) \<Rightarrow> (ended, StructValue (vs[i := w])))"
  using assms by (simp add: Let_def)

lemma updateValue_entry:
  assumes "(case map_of es step of None \<Rightarrow> Some (zeroValue s) | Some e \<Rightarrow> e) = Some w0"
  shows "updateValue (MapType s) (MapValue (Some es)) (step # path) val unset =
    (if path = [] \<and> unset then (EditDone, MapValue (Some (AList.delete step es)))
     else case updateValue s w0 path val unset of
       (ended, w) \<Rightarrow> (ended, MapValue (Some (AList.update step (Some w) es))))"
  using assms by (simp add: Let_def throughPointer_def split: prod.split)

lemma updateValue_edited:
  assumes "goodType t" "hasType t v" "updateValue t v path val unset = (EditDone, v')"
  shows "edited t v v' path val unset"
  using assms
proof (induction path arbitrary: t v v')
  case Nil
  then consider "unset" "v' = zeroValue t" | "\<not> unset" "setLeaf t v val False = (EditDone, v')"
    by (cases t) (auto simp: setLeaf_def split: if_splits)
  then show ?case
  proof cases
    case 1
    then show ?thesis using edited_zero by simp
  next
    case 2
    from setLeaf_leaf [OF 2(2), of "zeroValue t"] 2(1) show ?thesis
      by (cases t) (auto simp: edited_def landed_def isLeaf_def)
  qed
next
  case (Cons step path)
  note IH = Cons.IH and run = Cons.prems(3)
  show ?case
  proof (cases t)
    case (StructType fs)
    then obtain vs where v: "v = StructValue vs" and vs: "list_all2 (\<lambda>f w. hasType (snd f) w) fs vs"
      using Cons.prems(2) by auto
    with run StructType obtain i where i: "fieldIndex fs step = Some i" by (auto split: option.splits)
    let ?ft = "snd (fs ! i)"
    have ft: "i < length fs" "goodType ?ft" "hasType ?ft (vs ! i)"
      using fieldIndex_Some [OF i] Cons.prems(1) StructType vs by (auto simp: list_all_length list_all2_conv_all_nth)
    have field: "edited t v (StructValue (vs[i := w])) (step # path) val unset" if "edited ?ft (vs ! i) w path val unset" for w
      using edited_field [OF _ i that] Cons.prems(2) by (simp add: StructType v)
    show ?thesis
    proof (cases "path = [] \<and> unset")
      case True
      with run have "v' = StructValue (vs[i := zeroValue ?ft])" by (simp add: StructType v i Let_def)
      with field edited_zero True show ?thesis by simp
    next
      case False
      obtain ended w where through:
        "throughPointer (\<lambda>t v. updateValue t v path val unset) ?ft (makeField ?ft (vs ! i)) = (ended, w)" by fastforce
      with run False have "ended = EditDone" "v' = StructValue (vs[i := w])" unfolding StructType v updateValue_struct [OF i] by simp_all
      from field [OF edited_through [OF IH ft(2,3) through [unfolded this(1)]]] show ?thesis
        unfolding \<open>v' = StructValue (vs[i := w])\<close> .
    qed
  next
    case (MapType s)
    then consider "v = MapValue None" | es where "v = MapValue (Some es)" using Cons.prems(2) by auto
    then show ?thesis
    proof cases
      case 1
      with run MapType have "path = []" "unset" "v' = v" by (auto split: if_splits)
      then show ?thesis using 1 MapType by (auto simp: edited_def unchangedAt_def landed_def zeroOrGone_def neq_Nil_conv prefix_def)
    next
      case 2
      show ?thesis
      proof (cases "path = [] \<and> unset")
        case True
        with run have "v' = MapValue (Some (AList.delete step es))" by (simp add: MapType 2)
        with True edited_delete Cons.prems(2) show ?thesis by (simp add: MapType 2)
      next
        case False
        define w0 where "w0 = (case map_of es step of Some (Some x) \<Rightarrow> x | _ \<Rightarrow> zeroValue s)"
        have w0: "(case map_of es step of None \<Rightarrow> Some (zeroValue s) | Some e \<Rightarrow> e) = Some w0" "hasType s w0"
          using Cons.prems(2) hasType_zero by (fastforce simp: w0_def MapType 2 split: option.split dest: map_of_SomeD)+
        obtain ended w where entry: "updateValue s w0 path val unset = (ended, w)" by fastforce
        with run False have "ended = EditDone" "v' = MapValue (Some (AList.update step (Some w) es))"
          unfolding MapType 2 updateValue_entry [OF w0(1)] by auto
        moreover have "goodType s" using Cons.prems(1) by (simp add: MapType)
        ultimately have "edited s w0 w path val unset" using IH [OF _ w0(2)] entry by blast
        from edited_entry [OF _ w0_def this] Cons.prems(2) show ?thesis
          unfolding \<open>v' = MapValue (Some (AList.update step (Some w) es))\<close> by (simp only: MapType 2)
      qed
    qed
  qed (use run in \<open>auto split: field_value.splits\<close>)
qed

section \<open>How an edit ends\<close>

definition setEnd :: "field_type \<Rightarrow> string list \<Rightarrow> string \<Rightarrow> edit_end \<Rightarrow> bool" where
  "setEnd t path val ended \<longleftrightarrow>
     (case leafType t path of
        Some lt \<Rightarrow> ended = fst (setLeaf lt (zeroValue lt) val False)
      | None \<Rightarrow> \<exists>e. ended = EditFailed e)"

text \<open>A type the walk stands on: no pointer, and no nil map.\<close>

definition standsOn :: "field_type \<Rightarrow> field_value \<Rightarrow> bool" where
  "standsOn t v \<longleftrightarrow> (case t of PtrType s \<Rightarrow> False | MapType s \<Rightarrow> v \<noteq> MapValue None | _ \<Rightarrow> True)"

lemma setEnd_through:
  assumes IH: "\<And>t v. goodType t \<Longrightarrow> hasType t v \<Longrightarrow> standsOn t v \<Longrightarrow> setEnd t path val (fst (updateValue t v path val False))"
    and "goodType t" "hasType t v"
  shows "setEnd t path val (fst (throughPointer (\<lambda>t v. updateValue t v path val False) t (makeField t v)))"
proof (cases t)
  case (PtrType s)
  define w where "w = (case v of PtrValue (Some w) \<Rightarrow> w | _ \<Rightarrow> zeroValue s)"
  have v: "makeField t v = PtrValue (Some w)" "hasType s w"
    using assms(3) hasType_zero by (auto simp: PtrType w_def makeField_def)
  have "goodType s" "standsOn s w" using assms(2) by (auto simp: PtrType standsOn_def isStruct_def split: field_type.splits)
  from IH [OF this(1) v(2) this(2)] show ?thesis unfolding v(1)
    by (cases "updateValue s w path val False") (simp add: PtrType throughPointer_def setEnd_def)
next
  case (MapType s)
  then have "standsOn t (makeField t v)" using assms(3) by (auto simp: standsOn_def makeField_def)
  from IH [OF assms(2) hasType_makeField [OF assms(3)] this] show ?thesis by (simp add: throughPointer_def MapType)
qed (use IH [OF assms(2,3)] in \<open>simp_all add: throughPointer_def makeField_def standsOn_def\<close>)

lemma setLeaf_end: "fst (setLeaf t v val unset) = fst (setLeaf t x val unset)"
  by (cases t) (auto simp: setLeaf_def split: option.splits)

lemma updateValue_end:
  "goodType t \<Longrightarrow> hasType t v \<Longrightarrow> standsOn t v \<Longrightarrow> setEnd t path val (fst (updateValue t v path val False))"
proof (induction path arbitrary: t v)
  case Nil
  then show ?case
    using setLeaf_end [of t v val False "zeroValue t"]
    by (cases t) (auto simp: setEnd_def isLeaf_def standsOn_def, auto simp: setLeaf_def)
next
  case (Cons step path)
  show ?case
  proof (cases t)
    case (StructType fs)
    then obtain vs where v: "v = StructValue vs" and vs: "list_all2 (\<lambda>f w. hasType (snd f) w) fs vs"
      using Cons.prems(2) by auto
    show ?thesis
    proof (cases "fieldIndex fs step")
      case (Some i)
      have ft: "goodType (snd (fs ! i))" "hasType (snd (fs ! i)) (vs ! i)"
        using fieldIndex_Some [OF Some] Cons.prems(1) StructType vs by (auto simp: list_all_length list_all2_conv_all_nth)
      have "fst (updateValue t v (step # path) val False) =
          fst (throughPointer (\<lambda>t v. updateValue t v path val False) (snd (fs ! i)) (makeField (snd (fs ! i)) (vs ! i)))"
        unfolding StructType v updateValue_struct [OF Some] by (simp split: prod.split)
      moreover have "leafType t (step # path) = leafType (snd (fs ! i)) path" by (simp add: StructType Some)
      ultimately show ?thesis using setEnd_through [OF Cons.IH ft] unfolding setEnd_def by (simp only:)
    qed (simp add: StructType v setEnd_def)
  next
    case (MapType s)
    then obtain es where v: "v = MapValue (Some es)" using Cons.prems(2,3) by (auto simp: standsOn_def)
    define w0 where "w0 = (case map_of es step of Some (Some x) \<Rightarrow> x | _ \<Rightarrow> zeroValue s)"
    have w0: "(case map_of es step of None \<Rightarrow> Some (zeroValue s) | Some e \<Rightarrow> e) = Some w0" "hasType s w0"
      using Cons.prems(2) hasType_zero by (fastforce simp: w0_def MapType v split: option.split dest: map_of_SomeD)+
    have s: "goodType s" "standsOn s w0"
      using Cons.prems(1) by (auto simp: MapType standsOn_def isStruct_def split: field_type.splits)
    have "fst (updateValue t v (step # path) val False) = fst (updateValue s w0 path val False)"
      unfolding MapType v updateValue_entry [OF w0(1)] by (simp split: prod.split)
    with Cons.IH [OF s(1) w0(2) s(2)] show ?thesis by (simp add: setEnd_def MapType)
  qed (use Cons.prems in \<open>auto simp: setEnd_def standsOn_def\<close>)
qed

lemma setLeaf_panics: "isLeaf t \<Longrightarrow> fst (setLeaf t v val False) = EditPanics \<longleftrightarrow> t = StringsType"
  by (auto simp: isLeaf_def setLeaf_def split: option.splits)

lemma leafType_leaf: "leafType t p = Some lt \<Longrightarrow> isLeaf lt"
  by (induction t p rule: leafType.induct) (auto split: if_splits option.splits)


section \<open>A fresh context\<close>

definition default_config :: field_value where
  "default_config = StructValue [StringValue ''config.yaml'',
     MapValue (Some [(''default'', Some (StructValue [StringValue ''default'', PtrValue None]))]),
     StringValue ''default'']"

lemma hasType_default: "hasType configType default_config"
  by (simp add: default_config_def configType_def contextType_def)

lemma default_server: "leafType configType [''contexts'', ''default'', ''grafana'', ''server''] = Some StringType"
  by (simp add: configType_def contextType_def grafanaType_def fieldIndex_def upt_rec isLeaf_def)

text \<open>The example in the help of \<^verbatim>\<open>config set\<close> names a path that does not exist.\<close>

lemma help_example:
  "leafType configType [''contexts'', ''dev-instance'', ''grafana'', ''insecure-skip-tls-verify''] = None"
  by (simp add: configType_def contextType_def grafanaType_def fieldIndex_def upt_rec isLeaf_def)


end
