(* ===== verification/Config_Loading.thy ===== *)
theory Config_Loading
  imports Keep_Alive
begin

text \<open>
  Loading a context (\<^verbatim>\<open>Options.LoadConfig\<close> of \<^verbatim>\<open>cmd/grafanapi/config/command.go\<close>, \<^verbatim>\<open>internal/config\<close>:
  \<^verbatim>\<open>loader.go\<close>, \<^verbatim>\<open>types.go\<close>, \<^verbatim>\<open>stack_id.go\<close>, \<^verbatim>\<open>rest.go\<close>): the file, the environment, the flag for the
  context, the cookie of the keychain, and then the validation, which asks the server for its stack.

  The record \<open>load_env\<close> holds what is outside: the decoded file, the parser of environment variables, the
  TLS settings of each context (none, or whether their material loads), the answers of the server and
  the parser of namespaces. What is asked of the server is returned with the result, every redirect that
  is followed included. Of errors the code makes, paths and suggestions are left out. A context of the
  file is a record: a key without a value (a nil pointer in Go, on which \<^verbatim>\<open>Load\<close> panics) is not modelled.
\<close>

section \<open>What is outside\<close>

text \<open>A redirect comes with its location, resolved to an absolute URL as \<^verbatim>\<open>net/http\<close> does.\<close>

datatype boot_answer = BootFailed | BootStatus int | BootNamespace string | BootUndecodable | BootRedirect url

record load_env =
  le_net :: netlib
  le_json :: json_codec
  le_clock :: clock_lib
  le_file :: "string + Config"
  le_environment :: "GrafanaConfig \<Rightarrow> string + GrafanaConfig"
  le_tls :: "string \<Rightarrow> bool option"
  le_bootdata :: "http_request \<Rightarrow> boot_answer"
  le_parse_namespace :: "string \<Rightarrow> int option"

datatype validation_err =
    GrafanaRequired
  | ServerRequired
  | BadServerURL url_err
  | MissingNamespace
  | MismatchedStack int int  \<comment> \<open>discovered, configured\<close>
  | BadLiveWindow duration_err

datatype load_err =
    FileFailed string
  | EnvironmentFailed string
  | NoSuchContext string
  | CredentialFailed cred_err
  | ValidationFailed validation_err

section \<open>The configuration\<close>

definition DefaultContextName :: string where "DefaultContextName = ''default''"

definition GetCurrentContext :: "Config \<Rightarrow> Context option" where
  "GetCurrentContext cfg = cf_Contexts cfg (cf_CurrentContext cfg)"

definition SetContext :: "Config \<Rightarrow> string \<Rightarrow> bool \<Rightarrow> Context \<Rightarrow> Config" where
  "SetContext cfg name makeCurrent ctx =
     (let cfg' = cfg\<lparr>cf_Contexts := (cf_Contexts cfg)(name \<mapsto> ctx)\<rparr> in
      if makeCurrent then cfg'\<lparr>cf_CurrentContext := name\<rparr> else cfg')"

definition Minify :: "Config \<Rightarrow> Config option" where
  "Minify cfg =
     (if cf_CurrentContext cfg = [] then None
      else Some (cfg\<lparr>cf_Contexts := cf_Contexts cfg |` {cf_CurrentContext cfg}\<rparr>))"

definition emptyGrafana :: GrafanaConfig where
  "emptyGrafana =
     \<lparr>gr_Server = [], gr_OrgID = 0, gr_StackID = 0, gr_LiveWindow = [], gr_SessionCookie = [], gr_Session = None\<rparr>"

text \<open>Neither the cookie nor its source counts.\<close>

definition IsEmpty :: "bool option \<Rightarrow> GrafanaConfig \<Rightarrow> bool" where
  "IsEmpty tls g \<longleftrightarrow> tls = None \<and> g\<lparr>gr_SessionCookie := [], gr_Session := None\<rparr> = emptyGrafana"

section \<open>Asking for the stack\<close>

text \<open>The header a redirect carries on (\<^verbatim>\<open>shouldCopyHeaderOnRedirect\<close> of \<^verbatim>\<open>net/http\<close>): a cookie is dropped
  when the host is not the first one or below it, and stays dropped.\<close>

definition isDomainOrSubdomain :: "string \<Rightarrow> string \<Rightarrow> bool" where
  "isDomainOrSubdomain name parent \<longleftrightarrow>
     name = parent \<or> (CHR '':'' \<notin> set name \<and> CHR ''%'' \<notin> set name \<and> ends_with (CHR ''.'' # parent) name)"

definition redirectHeader :: "url option \<Rightarrow> url \<Rightarrow> (string \<rightharpoonup> string) \<Rightarrow> (string \<rightharpoonup> string)" where
  "redirectHeader first target header =
     (case first of None \<Rightarrow> Map.empty
      | Some u \<Rightarrow> if isDomainOrSubdomain (Hostname target) (Hostname u) then header else Map.empty)"

text \<open>\<^verbatim>\<open>client.Do\<close> with \<^verbatim>\<open>SameOriginRedirects\<close> as its policy: \<open>via\<close> requests have been made with this one,
  the first of them to \<open>first\<close>; the answer, and this request with those that follow.\<close>

function clientDo ::
  "load_env \<Rightarrow> string \<Rightarrow> url option \<Rightarrow> nat \<Rightarrow> http_request \<Rightarrow> boot_answer \<times> http_request list" where
  "clientDo E server first via req =
     (case le_bootdata E req of
        BootRedirect target \<Rightarrow>
          (case SameOriginRedirects (le_net E) server target via of
             Some e \<Rightarrow> (BootFailed, [req])
           | None \<Rightarrow>
               (case clientDo E server first (Suc via)
                    \<lparr>hr_URL = Some target, hr_Header = redirectHeader first target (hr_Header req)\<rparr> of
                  (answer, later) \<Rightarrow> (answer, req # later)))
      | answer \<Rightarrow> (answer, [req]))"
  by pat_completeness auto
termination
proof (relation "measure (\<lambda>(E, server, first, via, req). maxRedirects - via)")
  fix E :: load_env and server first req target via
  assume "SameOriginRedirects (le_net E) server target via = None"
  then have "via < maxRedirects" by (auto simp: SameOriginRedirects_def split: if_splits)
  then show "((E, server, first, Suc via, \<lparr>hr_URL = Some target, hr_Header = redirectHeader first target (hr_Header req)\<rparr>),
      E, server, first, via, req) \<in> measure (\<lambda>(E, server, first, via, req). maxRedirects - via)" by simp
qed simp

declare clientDo.simps [simp del]

text \<open>The stack, if the server named one, and the requests that were made.\<close>

definition DiscoverStackID :: "load_env \<Rightarrow> string \<Rightarrow> GrafanaConfig \<Rightarrow> int option \<times> http_request list" where
  "DiscoverStackID E name cfg =
     (case buildBootdataURL (le_net E) (gr_Server cfg) of None \<Rightarrow> (None, [])
      | Some u \<Rightarrow>
          if le_tls E name = Some False then (None, [])
          else
            let plain = \<lparr>hr_URL = Some u, hr_Header = Map.empty\<rparr> in
            case (if gr_SessionCookie cfg \<noteq> [] then SetSessionCookie (le_net E) plain (gr_Server cfg) (gr_SessionCookie cfg)
                  else (None, plain)) of
              (Some e, req) \<Rightarrow> (None, [])
            | (None, req) \<Rightarrow>
                (case clientDo E (gr_Server cfg) (hr_URL req) 1 req of (answer, requests) \<Rightarrow>
                 (case answer of
                   BootNamespace text \<Rightarrow>
                     let namespace = trimSpace text in
                     if namespace = [] then None
                     else (case le_parse_namespace E namespace of
                             None \<Rightarrow> None
                           | Some stack \<Rightarrow> if stack = 0 then None else Some stack)
                 | _ \<Rightarrow> None, requests)))"

section \<open>Validation\<close>

definition validateNamespace :: "load_env \<Rightarrow> string \<Rightarrow> GrafanaConfig \<Rightarrow> validation_err option \<times> http_request list" where
  "validateNamespace E name g =
     (if gr_OrgID g \<noteq> 0 then (None, [])
      else case DiscoverStackID E name g of (discovered, requests) \<Rightarrow>
        (if gr_StackID g = 0
         then (case discovered of None \<Rightarrow> Some MissingNamespace | Some stack \<Rightarrow> None)
         else (case discovered of None \<Rightarrow> None
               | Some stack \<Rightarrow> if stack \<noteq> gr_StackID g then Some (MismatchedStack stack (gr_StackID g)) else None),
         requests))"

definition ValidateGrafana :: "load_env \<Rightarrow> string \<Rightarrow> GrafanaConfig \<Rightarrow> validation_err option \<times> http_request list" where
  "ValidateGrafana E name g =
     (if gr_Server g = [] then (Some ServerRequired, [])
      else case ValidateServerURL (le_net E) (gr_Server g) of Some e \<Rightarrow> (Some (BadServerURL e), [])
      | None \<Rightarrow>
          (case validateNamespace E name g of
             (Some e, requests) \<Rightarrow> (Some e, requests)
           | (None, requests) \<Rightarrow>
               (case ParsedLiveWindow (le_clock E) g of Inl e \<Rightarrow> Some (BadLiveWindow e) | Inr w \<Rightarrow> None, requests)))"

definition ValidateContext :: "load_env \<Rightarrow> Context \<Rightarrow> validation_err option \<times> http_request list" where
  "ValidateContext E ctx =
     (case cx_Grafana ctx of None \<Rightarrow> (Some GrafanaRequired, [])
      | Some g \<Rightarrow>
          if IsEmpty (le_tls E (cx_Name ctx)) g then (Some GrafanaRequired, [])
          else ValidateGrafana E (cx_Name ctx) g)"

section \<open>Loading\<close>

text \<open>\<^verbatim>\<open>Load\<close> names every context after its key.\<close>

definition nameContexts :: "Config \<Rightarrow> Config" where
  "nameContexts cfg =
     cfg\<lparr>cf_Contexts := (\<lambda>name. map_option (\<lambda>ctx. ctx\<lparr>cx_Name := name\<rparr>) (cf_Contexts cfg name))\<rparr>"

text \<open>The environment is applied to the current context of the file, which is made when it is missing.\<close>

definition applyEnvironment :: "load_env \<Rightarrow> Config \<Rightarrow> load_err + Config" where
  "applyEnvironment E cfg =
     (let cfg1 = (if cf_CurrentContext cfg = [] then cfg\<lparr>cf_CurrentContext := DefaultContextName\<rparr> else cfg);
          cfg2 = (if HasContext cfg1 (cf_CurrentContext cfg1) then cfg1
                  else SetContext cfg1 (cf_CurrentContext cfg1) True \<lparr>cx_Name = [], cx_Grafana = None\<rparr>)
      in case GetCurrentContext cfg2 of None \<Rightarrow> Inr cfg2
      | Some ctx \<Rightarrow>
          (case le_environment E (case cx_Grafana ctx of None \<Rightarrow> emptyGrafana | Some g \<Rightarrow> g) of
             Inl e \<Rightarrow> Inl (EnvironmentFailed e)
           | Inr g \<Rightarrow>
               Inr (cfg2\<lparr>cf_Contexts := (cf_Contexts cfg2)(cf_CurrentContext cfg2 \<mapsto> ctx\<lparr>cx_Grafana := Some g\<rparr>)\<rparr>)))"

definition applyContextFlag :: "string \<Rightarrow> Config \<Rightarrow> load_err + Config" where
  "applyContextFlag flag cfg =
     (if flag = [] then Inr cfg
      else if \<not> HasContext cfg flag then Inl (NoSuchContext flag)
      else Inr (cfg\<lparr>cf_CurrentContext := flag\<rparr>))"

definition loadConfigTolerant :: "load_env \<Rightarrow> string \<Rightarrow> load_err + Config" where
  "loadConfigTolerant E flag =
     (case le_file E of Inl e \<Rightarrow> Inl (FileFailed e)
      | Inr cfg \<Rightarrow> bindR (applyEnvironment E (nameContexts cfg)) (applyContextFlag flag))"

text \<open>The result, the keychain afterwards and the requests made.\<close>

definition LoadConfig ::
  "load_env \<Rightarrow> keychain \<Rightarrow> bool \<Rightarrow> string \<Rightarrow> (load_err + Config) \<times> keychain \<times> http_request list" where
  "LoadConfig E kc allowLegacyBind flag =
     (case loadConfigTolerant E flag of Inl e \<Rightarrow> (Inl e, kc, [])
      | Inr cfg \<Rightarrow>
          (case ResolveSessionCookie (le_net E) (le_json E) kc allowLegacyBind cfg of
             (Some e, kc', cfg') \<Rightarrow> (Inl (CredentialFailed e), kc', [])
           | (None, kc', cfg') \<Rightarrow>
               (case GetCurrentContext cfg' of
                  None \<Rightarrow> (Inl (NoSuchContext (cf_CurrentContext cfg')), kc', [])
                | Some ctx \<Rightarrow>
                    (case ValidateContext E ctx of
                       (Some e, requests) \<Rightarrow> (Inl (ValidationFailed e), kc', requests)
                     | (None, requests) \<Rightarrow> (Inr cfg', kc', requests)))))"

text \<open>The namespace of the client that is made of a loaded context: a discovered stack comes first.\<close>

datatype namespace_of = StackNamespace int | OrgNamespace int

definition restNamespace :: "load_env \<Rightarrow> Context \<Rightarrow> GrafanaConfig \<Rightarrow> namespace_of \<times> http_request list" where
  "restNamespace E ctx g =
     (case DiscoverStackID E (cx_Name ctx) g of (discovered, requests) \<Rightarrow>
        (case discovered of Some stack \<Rightarrow> StackNamespace stack
         | None \<Rightarrow> if gr_OrgID g \<noteq> 0 then OrgNamespace (gr_OrgID g) else StackNamespace (gr_StackID g),
         requests))"

end
