(* ===== verification/Config_Loading_Properties.thy ===== *)
theory Config_Loading_Properties
  imports Config_Loading Session_Safety
begin

text \<open>
  What a loaded context is, and what loading it may send: one question and the redirects of its origin, to
  the server of the context and only when that is a server a cookie may go to, with no other cookie than
  the one the keychain holds for that context, bound to that server.
\<close>

section \<open>Where the cookie comes from\<close>

definition cookieless :: "Config \<Rightarrow> bool" where
  "cookieless cfg \<longleftrightarrow>
     (\<forall>name ctx g. cf_Contexts cfg name = Some ctx \<longrightarrow> cx_Grafana ctx = Some g \<longrightarrow> gr_SessionCookie g = [])"

text \<open>A file and the environment hold no cookie: its field has neither a YAML name nor a variable.\<close>

definition noStoredCookies :: "load_env \<Rightarrow> bool" where
  "noStoredCookies E \<longleftrightarrow>
     (\<forall>cfg. le_file E = Inr cfg \<longrightarrow> cookieless cfg) \<and>
     (\<forall>g g'. le_environment E g = Inr g' \<longrightarrow> gr_SessionCookie g' = gr_SessionCookie g)"

lemma cookieless_name: "cookieless cfg \<Longrightarrow> cookieless (nameContexts cfg)"
  by (fastforce simp: cookieless_def nameContexts_def)

lemma cookieless_put:
  "cookieless cfg \<Longrightarrow> \<forall>g. cx_Grafana ctx = Some g \<longrightarrow> gr_SessionCookie g = [] \<Longrightarrow>
     cookieless (cfg\<lparr>cf_Contexts := (cf_Contexts cfg)(name \<mapsto> ctx)\<rparr>)"
  by (simp add: cookieless_def)

lemma cookieless_current: "cookieless (cfg\<lparr>cf_CurrentContext := name\<rparr>) = cookieless cfg"
  by (simp add: cookieless_def)

lemma cookieless_environment:
  assumes "noStoredCookies E" "cookieless cfg" "applyEnvironment E cfg = Inr cfg'"
  shows "cookieless cfg'"
proof -
  define cfg1 where "cfg1 = (if cf_CurrentContext cfg = [] then cfg\<lparr>cf_CurrentContext := DefaultContextName\<rparr> else cfg)"
  define cfg2 where "cfg2 = (if HasContext cfg1 (cf_CurrentContext cfg1) then cfg1
    else SetContext cfg1 (cf_CurrentContext cfg1) True \<lparr>cx_Name = [], cx_Grafana = None\<rparr>)"
  have "cookieless cfg1" using assms(2) by (simp add: cfg1_def cookieless_current)
  then have two: "cookieless cfg2"
    by (simp add: cfg2_def SetContext_def Let_def cookieless_current cookieless_put)
  show ?thesis
  proof (cases "GetCurrentContext cfg2")
    case None
    then show ?thesis using assms(3) two by (simp add: applyEnvironment_def Let_def cfg1_def [symmetric] cfg2_def [symmetric])
  next
    case (Some ctx)
    define g where "g = (case cx_Grafana ctx of None \<Rightarrow> emptyGrafana | Some g \<Rightarrow> g)"
    have g: "gr_SessionCookie g = []"
      using two Some by (auto simp: g_def emptyGrafana_def cookieless_def GetCurrentContext_def split: option.split)
    obtain g' where g': "le_environment E g = Inr g'"
      and cfg': "cfg' = cfg2\<lparr>cf_Contexts := (cf_Contexts cfg2)(cf_CurrentContext cfg2 \<mapsto> ctx\<lparr>cx_Grafana := Some g'\<rparr>)\<rparr>"
      using assms(3) Some
      by (auto simp: applyEnvironment_def Let_def cfg1_def [symmetric] cfg2_def [symmetric] g_def split: sum.splits)
    show ?thesis unfolding cfg' using two assms(1) g g' by (intro cookieless_put) (auto simp: noStoredCookies_def)
  qed
qed

lemma cookieless_load:
  assumes "noStoredCookies E" "loadConfigTolerant E flag = Inr cfg"
  shows "cookieless cfg"
proof -
  from assms obtain file_cfg cfg1 where c: "le_file E = Inr file_cfg" "applyEnvironment E (nameContexts file_cfg) = Inr cfg1"
    "applyContextFlag flag cfg1 = Inr cfg"
    by (auto simp: loadConfigTolerant_def bindR_Inr_iff split: sum.splits)
  have "cookieless cfg1"
    using assms(1) c(1) cookieless_environment [OF assms(1) cookieless_name c(2)] by (simp add: noStoredCookies_def)
  then show "cookieless cfg"
    using c(3) by (auto simp: applyContextFlag_def cookieless_current split: if_splits)
qed

section \<open>The context that is asked for\<close>

text \<open>Read off the file, the environment and the flag alone: the key of the context a loading selects, the
  name it goes by (its key, or none when the file does not have it and the environment makes it), and its
  settings before the keychain is asked.\<close>

definition fileCurrent :: "Config \<Rightarrow> string" where
  "fileCurrent cfg = (if cf_CurrentContext cfg = [] then DefaultContextName else cf_CurrentContext cfg)"

definition selectedKey :: "Config \<Rightarrow> string \<Rightarrow> string" where
  "selectedKey cfg flag = (if flag = [] then fileCurrent cfg else flag)"

definition selectedName :: "Config \<Rightarrow> string \<Rightarrow> string" where
  "selectedName cfg flag = (if HasContext cfg (selectedKey cfg flag) then selectedKey cfg flag else [])"

definition fileGrafana :: "Config \<Rightarrow> string \<Rightarrow> GrafanaConfig option" where
  "fileGrafana cfg key = (case cf_Contexts cfg key of None \<Rightarrow> None | Some ctx \<Rightarrow> cx_Grafana ctx)"

definition selectedGrafana :: "load_env \<Rightarrow> Config \<Rightarrow> string \<Rightarrow> GrafanaConfig option" where
  "selectedGrafana E cfg flag =
     (let g = fileGrafana cfg (selectedKey cfg flag) in
      if selectedKey cfg flag \<noteq> fileCurrent cfg then g
      else case le_environment E (case g of None \<Rightarrow> emptyGrafana | Some g \<Rightarrow> g) of Inl e \<Rightarrow> None | Inr g' \<Rightarrow> Some g')"

lemma tolerant_selected:
  assumes held: "le_file E = Inr fileCfg" and load: "loadConfigTolerant E flag = Inr cfg"
  shows "cf_CurrentContext cfg = selectedKey fileCfg flag"
    and "\<exists>ctx. cf_Contexts cfg (selectedKey fileCfg flag) = Some ctx \<and> cx_Name ctx = selectedName fileCfg flag \<and>
       cx_Grafana ctx = selectedGrafana E fileCfg flag"
    and "key \<noteq> fileCurrent fileCfg \<Longrightarrow>
       cf_Contexts cfg key = map_option (\<lambda>ctx. ctx\<lparr>cx_Name := key\<rparr>) (cf_Contexts fileCfg key)"
proof -
  let ?cur = "fileCurrent fileCfg"
  obtain cfg1 where e: "applyEnvironment E (nameContexts fileCfg) = Inr cfg1" and fl: "applyContextFlag flag cfg1 = Inr cfg"
    using load by (auto simp: loadConfigTolerant_def held bindR_Inr_iff)
  define g where "g = (case fileGrafana fileCfg ?cur of None \<Rightarrow> emptyGrafana | Some g \<Rightarrow> g)"
  define name where "name = (if HasContext fileCfg ?cur then ?cur else [])"
  obtain g' where g': "le_environment E g = Inr g'" and cfg1: "cf_CurrentContext cfg1 = ?cur"
    "cf_Contexts cfg1 = (\<lambda>key. map_option (\<lambda>ctx. ctx\<lparr>cx_Name := key\<rparr>) (cf_Contexts fileCfg key))
       (?cur \<mapsto> \<lparr>cx_Name = name, cx_Grafana = Some g'\<rparr>)"
  proof (cases "cf_Contexts fileCfg ?cur")
    case None
    then show thesis using that e
      by (auto simp: applyEnvironment_def Let_def nameContexts_def HasContext_def SetContext_def GetCurrentContext_def
          fileCurrent_def g_def name_def fileGrafana_def split: if_splits sum.splits)
  next
    case (Some ctx)
    then show thesis using that e
      by (cases ctx) (auto simp: applyEnvironment_def Let_def nameContexts_def HasContext_def GetCurrentContext_def
          fileCurrent_def g_def name_def fileGrafana_def split: if_splits sum.splits)
  qed
  have key: "cf_CurrentContext cfg = selectedKey fileCfg flag" "cf_Contexts cfg = cf_Contexts cfg1"
    "HasContext cfg1 (selectedKey fileCfg flag)"
    using fl cfg1 by (auto simp: applyContextFlag_def selectedKey_def HasContext_def split: if_splits)
  show "cf_CurrentContext cfg = selectedKey fileCfg flag" by (rule key(1))
  show "key \<noteq> ?cur \<Longrightarrow> cf_Contexts cfg key = map_option (\<lambda>ctx. ctx\<lparr>cx_Name := key\<rparr>) (cf_Contexts fileCfg key)"
    by (simp add: key(2) cfg1(2))
  show "\<exists>ctx. cf_Contexts cfg (selectedKey fileCfg flag) = Some ctx \<and> cx_Name ctx = selectedName fileCfg flag \<and>
       cx_Grafana ctx = selectedGrafana E fileCfg flag"
  proof (cases "selectedKey fileCfg flag = ?cur")
    case True
    then show ?thesis
      using g' by (simp add: key(2) cfg1(2) selectedName_def selectedGrafana_def name_def g_def Let_def)
  next
    case False
    then obtain ctx where "cf_Contexts fileCfg (selectedKey fileCfg flag) = Some ctx"
      using key(3) by (auto simp: HasContext_def cfg1(2))
    with False show ?thesis
      by (simp add: key(2) cfg1(2) selectedName_def selectedGrafana_def HasContext_def fileGrafana_def Let_def)
  qed
qed

text \<open>The cookie \<open>c\<close> is the one the keychain holds under a name, and it may go to a server.\<close>

definition bound_cookie :: "load_env \<Rightarrow> keychain \<Rightarrow> bool \<Rightarrow> string \<Rightarrow> string \<Rightarrow> string \<Rightarrow> bool" where
  "bound_cookie E kc allowLegacyBind name server c \<longleftrightarrow>
     (\<exists>raw cred origin. storeGet kc (Account name) = Inr raw \<and> DecodeCredential (le_json E) raw = Inr cred \<and>
        c = cr_Cookie cred \<and> ServerOrigin (le_net E) server = Inr origin \<and>
        (if Legacy cred then allowLegacyBind else cr_Origin cred = origin))"

definition withoutSession :: "GrafanaConfig \<Rightarrow> GrafanaConfig" where
  "withoutSession g = g\<lparr>gr_SessionCookie := [], gr_Session := None\<rparr>"

lemma resolve_context_cookie:
  assumes "ResolveContextSessionCookie (le_net E) (le_json E) kc ctx allow = (Inr b, kc', ctx')"
    and "\<forall>g. cx_Grafana ctx = Some g \<longrightarrow> gr_SessionCookie g = []"
    and "cx_Grafana ctx' = Some g'"
  shows "cx_Name ctx' = cx_Name ctx \<and>
     (\<exists>g. cx_Grafana ctx = Some g \<and> withoutSession g' = withoutSession g \<and> gr_Server g' = gr_Server g) \<and>
     (gr_SessionCookie g' \<noteq> [] \<longrightarrow> bound_cookie E kc allow (cx_Name ctx) (gr_Server g') (gr_SessionCookie g'))"
  using assms unfolding ResolveContextSessionCookie_def bound_cookie_def withoutSession_def
  by (auto simp: Let_def split: option.splits sum.splits if_splits)

lemma resolve_cookie:
  assumes r: "ResolveSessionCookie (le_net E) (le_json E) kc allow cfg = (None, kc', cfg')" and c: "cookieless cfg"
    and ctx: "cf_Contexts cfg (cf_CurrentContext cfg) = Some ctx"
    and g': "GetCurrentContext cfg' = Some ctx'" "cx_Grafana ctx' = Some g'"
  shows "cx_Name ctx' = cx_Name ctx \<and>
     (\<exists>g. cx_Grafana ctx = Some g \<and> withoutSession g' = withoutSession g \<and> gr_Server g' = gr_Server g) \<and>
     (gr_SessionCookie g' \<noteq> [] \<longrightarrow> bound_cookie E kc allow (cx_Name ctx) (gr_Server g') (gr_SessionCookie g'))"
proof (cases "cf_CurrentContext cfg = []")
  case True
  then have "cfg' = cfg" using r by (simp add: ResolveSessionCookie_def)
  then have "ctx' = ctx" using g'(1) ctx by (simp add: GetCurrentContext_def)
  then show ?thesis using c ctx g'(2) by (auto simp: cookieless_def)
next
  case False
  obtain result kc1 ctx1 where one: "ResolveContextSessionCookie (le_net E) (le_json E) kc ctx allow = (result, kc1, ctx1)"
    by (metis prod_cases3)
  from r False ctx one obtain b where b: "result = Inr b"
    and cfg': "cfg' = cfg\<lparr>cf_Contexts := (cf_Contexts cfg)(cf_CurrentContext cfg \<mapsto> ctx1)\<rparr>"
    by (auto simp: ResolveSessionCookie_def HasContext_def split: sum.splits)
  have "ctx' = ctx1" using g'(1) cfg' by (simp add: GetCurrentContext_def)
  moreover have "\<forall>g. cx_Grafana ctx = Some g \<longrightarrow> gr_SessionCookie g = []" using c ctx by (auto simp: cookieless_def)
  ultimately show ?thesis using resolve_context_cookie [OF one [unfolded b]] g'(2) by blast
qed

lemma resolve_frame:
  assumes "ResolveSessionCookie N J kc allow cfg = (e, kc', cfg')"
  shows "cf_CurrentContext cfg' = cf_CurrentContext cfg"
    and "key \<noteq> cf_CurrentContext cfg \<Longrightarrow> cf_Contexts cfg' key = cf_Contexts cfg key"
  using assms by (auto simp: ResolveSessionCookie_def split: if_splits option.splits prod.splits)

section \<open>Requests\<close>

lemma bootdata_origin:
  assumes "buildBootdataURL N server = Some u" and "ValidateServerURL N server = None"
  shows "originOf N u = ServerOrigin N server"
proof -
  from originOf_buildURL assms(1) obtain u0 where u0: "parse_url N server = Some u0" "originOf N u = originOf N u0"
    unfolding buildBootdataURL_def by blast
  show ?thesis using assms(2) u0
    by (auto simp: ValidateServerURL_def ServerOrigin_def parseServer_def split: sum.splits option.splits if_splits)
qed

text \<open>A question and the redirects that are followed from it: the server's own origin all along, ten
  requests at most, and no cookie that the first one did not carry.\<close>

lemma clientDo_hops:
  assumes "clientDo E server first via req = (answer, requests)" and "ServerOrigin (le_net E) server = Inr origin"
    and "hr_URL req = Some u" "originOf (le_net E) u = Inr origin" and "via \<le> maxRedirects"
  shows "requests \<noteq> [] \<and> hd requests = req \<and> length requests + via \<le> Suc maxRedirects \<and>
    (\<forall>q \<in> set requests. \<exists>v. hr_URL q = Some v \<and> originOf (le_net E) v = Inr origin \<and>
       (\<forall>val. hr_Header q ''Cookie'' = Some val \<longrightarrow> hr_Header req ''Cookie'' = Some val))"
  using assms
proof (induction E server first via req arbitrary: answer requests u rule: clientDo.induct)
  case (1 E server first via req)
  show ?case
  proof (cases "\<exists>target. le_bootdata E req = BootRedirect target \<and> SameOriginRedirects (le_net E) server target via = None")
    case True
    then obtain target where t: "le_bootdata E req = BootRedirect target"
      "SameOriginRedirects (le_net E) server target via = None" by blast
    then have ok: "originOf (le_net E) target = Inr origin" "Suc via \<le> maxRedirects"
      using 1(3) by (auto simp: SameOriginRedirects_def split: if_splits sum.splits)
    let ?next = "\<lparr>hr_URL = Some target, hr_Header = redirectHeader first target (hr_Header req)\<rparr>"
    obtain a later where l: "clientDo E server first (Suc via) ?next = (a, later)"
      by (cases "clientDo E server first (Suc via) ?next")
    have all: "requests = req # later" using 1(2) t l by (simp add: clientDo.simps [of E server first via req])
    have "hr_Header ?next ''Cookie'' = Some val \<Longrightarrow> hr_Header req ''Cookie'' = Some val" for val
      by (auto simp: redirectHeader_def split: option.splits if_splits)
    then show ?thesis using 1(1) [OF t l 1(3) _ ok] 1(4,5) all by auto
  next
    case False
    then have "requests = [req]"
      using 1(2) by (auto simp: clientDo.simps [of E server first via req] split: boot_answer.splits option.splits)
    then show ?thesis using 1(4-6) by auto
  qed
qed

text \<open>What the requests of a loading may be: to the server of the context that is asked for, at that
  server's own origin, and with a cookie only if it is the one the keychain holds under that context's
  name, and it may go to that server.\<close>

definition home_request :: "load_env \<Rightarrow> keychain \<Rightarrow> bool \<Rightarrow> string \<Rightarrow> string \<Rightarrow> http_request \<Rightarrow> bool" where
  "home_request E kc allowLegacyBind name server req \<longleftrightarrow>
     (\<exists>u origin. hr_URL req = Some u \<and> originOf (le_net E) u = Inr origin \<and> ServerOrigin (le_net E) server = Inr origin \<and>
        ValidateServerURL (le_net E) server = None \<and>
        (\<forall>val. hr_Header req ''Cookie'' = Some val \<longrightarrow>
          (\<exists>c. val = CookieHeaderValue c \<and> bound_cookie E kc allowLegacyBind name server c)))"

lemma server_origin: "ValidateServerURL N server = None \<Longrightarrow> \<exists>origin. ServerOrigin N server = Inr origin"
  by (auto simp: ValidateServerURL_def ServerOrigin_def split: sum.splits)

text \<open>The question itself, then the redirects of it.\<close>

definition one_question :: "load_env \<Rightarrow> string \<Rightarrow> http_request list \<Rightarrow> bool" where
  "one_question E server requests \<longleftrightarrow> requests = [] \<or>
     (hr_URL (hd requests) = buildBootdataURL (le_net E) server \<and> length requests \<le> maxRedirects)"

lemma discover_requests:
  assumes d: "DiscoverStackID E name g = (discovered, requests)" and v: "ValidateServerURL (le_net E) (gr_Server g) = None"
    and c: "gr_SessionCookie g \<noteq> [] \<longrightarrow> bound_cookie E kc allow key (gr_Server g) (gr_SessionCookie g)"
  shows "one_question E (gr_Server g) requests"
    and "\<forall>req \<in> set requests. home_request E kc allow key (gr_Server g) req"
proof -
  have "one_question E (gr_Server g) requests \<and> (\<forall>req \<in> set requests. home_request E kc allow key (gr_Server g) req)"
  proof (cases "requests = []")
    case False
    obtain origin where o: "ServerOrigin (le_net E) (gr_Server g) = Inr origin" using server_origin [OF v] by blast
    let ?plain = "\<lambda>u. \<lparr>hr_URL = Some u, hr_Header = Map.empty\<rparr>"
    from False d obtain u req answer where u: "buildBootdataURL (le_net E) (gr_Server g) = Some u"
      and req: "(if gr_SessionCookie g \<noteq> []
          then SetSessionCookie (le_net E) (?plain u) (gr_Server g) (gr_SessionCookie g) else (None, ?plain u)) = (None, req)"
      and go: "clientDo E (gr_Server g) (hr_URL req) 1 req = (answer, requests)"
      by (auto simp: DiscoverStackID_def Let_def split: option.splits if_splits prod.splits)
    have r: "hr_URL req = Some u" "\<And>val. hr_Header req ''Cookie'' = Some val \<Longrightarrow>
        gr_SessionCookie g \<noteq> [] \<and> val = CookieHeaderValue (gr_SessionCookie g)"
      using req by (auto simp: SetSessionCookie_def split: if_splits option.splits)
    have home: "originOf (le_net E) u = Inr origin" using bootdata_origin [OF u v] o by simp
    have "1 \<le> maxRedirects" by (simp add: maxRedirects_def)
    note hops = clientDo_hops [OF go o r(1) home this]
    then have "one_question E (gr_Server g) requests" by (simp add: one_question_def r(1) u)
    moreover have "home_request E kc allow key (gr_Server g) q" if "q \<in> set requests" for q
      using hops that o v r(2) c unfolding home_request_def by metis
    ultimately show ?thesis by blast
  qed (simp add: one_question_def)
  then show "one_question E (gr_Server g) requests" "\<forall>req \<in> set requests. home_request E kc allow key (gr_Server g) req"
    by blast+
qed

lemma validate_context:
  assumes "ValidateContext E ctx = (e, requests)"
  shows "e = None \<Longrightarrow> \<exists>g. cx_Grafana ctx = Some g \<and> ValidateServerURL (le_net E) (gr_Server g) = None \<and>
       (gr_OrgID g \<noteq> 0 \<or> gr_StackID g \<noteq> 0 \<or> fst (DiscoverStackID E (cx_Name ctx) g) \<noteq> None) \<and>
       isOk (ParsedLiveWindow (le_clock E) g)"
    and "requests \<noteq> [] \<Longrightarrow> \<exists>g. cx_Grafana ctx = Some g \<and> ValidateServerURL (le_net E) (gr_Server g) = None \<and>
       requests = snd (DiscoverStackID E (cx_Name ctx) g)"
proof -
  show "e = None \<Longrightarrow> \<exists>g. cx_Grafana ctx = Some g \<and> ValidateServerURL (le_net E) (gr_Server g) = None \<and>
       (gr_OrgID g \<noteq> 0 \<or> gr_StackID g \<noteq> 0 \<or> fst (DiscoverStackID E (cx_Name ctx) g) \<noteq> None) \<and>
       isOk (ParsedLiveWindow (le_clock E) g)"
    using assms
    by (auto simp: ValidateContext_def ValidateGrafana_def validateNamespace_def split: option.splits if_splits prod.splits sum.splits)
  show "requests \<noteq> [] \<Longrightarrow> \<exists>g. cx_Grafana ctx = Some g \<and> ValidateServerURL (le_net E) (gr_Server g) = None \<and>
       requests = snd (DiscoverStackID E (cx_Name ctx) g)"
    using assms
    by (auto simp: ValidateContext_def ValidateGrafana_def validateNamespace_def split: option.splits if_splits prod.splits sum.splits)
qed

text \<open>What was loaded.\<close>

definition loaded_as :: "load_env \<Rightarrow> keychain \<Rightarrow> bool \<Rightarrow> string \<Rightarrow> Config \<Rightarrow> Config \<Rightarrow> bool" where
  "loaded_as E kc allowLegacyBind flag fileCfg cfg \<longleftrightarrow>
     cf_CurrentContext cfg = selectedKey fileCfg flag \<and>
     (\<exists>ctx g g'. GetCurrentContext cfg = Some ctx \<and> cx_Name ctx = selectedName fileCfg flag \<and> cx_Grafana ctx = Some g' \<and>
        selectedGrafana E fileCfg flag = Some g \<and> withoutSession g' = withoutSession g \<and>
        (gr_SessionCookie g' \<noteq> [] \<longrightarrow>
          bound_cookie E kc allowLegacyBind (selectedName fileCfg flag) (gr_Server g) (gr_SessionCookie g')) \<and>
        ValidateServerURL (le_net E) (gr_Server g) = None \<and>
        (gr_OrgID g \<noteq> 0 \<or> gr_StackID g \<noteq> 0 \<or> fst (DiscoverStackID E (cx_Name ctx) g') \<noteq> None) \<and>
        isOk (ParsedLiveWindow (le_clock E) g)) \<and>
     (\<forall>key. key \<noteq> selectedKey fileCfg flag \<and> key \<noteq> fileCurrent fileCfg \<longrightarrow>
        cf_Contexts cfg key = map_option (\<lambda>ctx. ctx\<lparr>cx_Name := key\<rparr>) (cf_Contexts fileCfg key))"

text \<open>What it asked.\<close>

definition asked_home :: "load_env \<Rightarrow> keychain \<Rightarrow> bool \<Rightarrow> string \<Rightarrow> Config \<Rightarrow> http_request list \<Rightarrow> bool" where
  "asked_home E kc allowLegacyBind flag fileCfg requests \<longleftrightarrow>
     (\<exists>g. selectedGrafana E fileCfg flag = Some g \<and> one_question E (gr_Server g) requests \<and>
        (\<forall>req \<in> set requests. home_request E kc allowLegacyBind (selectedName fileCfg flag) (gr_Server g) req))"

lemma withoutSession_fields:
  assumes "withoutSession g' = withoutSession g"
  shows "gr_Server g' = gr_Server g" "gr_OrgID g' = gr_OrgID g" "gr_StackID g' = gr_StackID g"
    "ParsedLiveWindow C g' = ParsedLiveWindow C g"
proof -
  show "gr_Server g' = gr_Server g" "gr_OrgID g' = gr_OrgID g" "gr_StackID g' = gr_StackID g"
    using arg_cong [OF assms, of gr_Server] arg_cong [OF assms, of gr_OrgID] arg_cong [OF assms, of gr_StackID]
    by (simp_all add: withoutSession_def)
  have "gr_LiveWindow g' = gr_LiveWindow g"
    using arg_cong [OF assms, of gr_LiveWindow] by (simp add: withoutSession_def)
  then show "ParsedLiveWindow C g' = ParsedLiveWindow C g" by (simp add: ParsedLiveWindow_def)
qed

text \<open>C32: Loading a configuration asks one question, whether it succeeds or not: to the server of the
  context that is asked for (the one of the flag, or else the file's current one with the environment
  applied), when that server passed the check of addresses, at its own origin, the at most ten requests of
  its redirects included, and with a cookie only if the keychain holds that cookie under the name of that
  very context, bound to that origin, or unbound where binding is allowed. What was loaded has the context
  asked for as its current one, with the settings of the file and the environment, a server that passed, a
  namespace to work in, a live window in its bounds and no other cookie; every other context is the
  file's, named after its key. A context the file does not have and the environment makes goes by no
  name (see the findings): its cookie would be one kept under the empty name.\<close>

theorem config_loaded:
  assumes "noStoredCookies E" and "LoadConfig E kc allowLegacyBind flag = (res, kc', requests)"
  shows "(requests \<noteq> [] \<longrightarrow> (\<exists>fileCfg. le_file E = Inr fileCfg \<and> asked_home E kc allowLegacyBind flag fileCfg requests)) \<and>
    (\<forall>cfg. res = Inr cfg \<longrightarrow> (\<exists>fileCfg. le_file E = Inr fileCfg \<and> loaded_as E kc allowLegacyBind flag fileCfg cfg))"
proof (cases "loadConfigTolerant E flag")
  case (Inl e)
  then show ?thesis using assms(2) by (auto simp: LoadConfig_def)
next
  case (Inr cfg0)
  then obtain fileCfg where held: "le_file E = Inr fileCfg"
    by (auto simp: loadConfigTolerant_def split: sum.splits)
  note start = cookieless_load [OF assms(1) Inr]
  note sel = tolerant_selected [OF held Inr]
  obtain e kc1 cfg1 where r: "ResolveSessionCookie (le_net E) (le_json E) kc allowLegacyBind cfg0 = (e, kc1, cfg1)"
    by (metis prod_cases3)
  show ?thesis
  proof (cases "e = None \<and> GetCurrentContext cfg1 \<noteq> None")
    case False
    then show ?thesis using assms(2) Inr r by (cases e) (auto simp: LoadConfig_def)
  next
    case True
    then obtain ctx where ctx: "GetCurrentContext cfg1 = Some ctx" by blast
    obtain e' requests' where v: "ValidateContext E ctx = (e', requests')" by fastforce
    have res: "res = (case e' of None \<Rightarrow> Inr cfg1 | Some e \<Rightarrow> Inl (ValidationFailed e))" "requests = requests'"
      using assms(2) Inr r True ctx v by (auto simp: LoadConfig_def split: option.splits)
    note valid = validate_context [OF v]
    obtain ctx0 where ctx0: "cf_Contexts cfg0 (cf_CurrentContext cfg0) = Some ctx0"
      "cx_Name ctx0 = selectedName fileCfg flag" "cx_Grafana ctx0 = selectedGrafana E fileCfg flag"
      using sel(1,2) by auto
    have resolved: "cx_Name ctx = selectedName fileCfg flag"
      "\<exists>g. selectedGrafana E fileCfg flag = Some g \<and> withoutSession g' = withoutSession g \<and> gr_Server g' = gr_Server g"
      "gr_SessionCookie g' \<noteq> [] \<longrightarrow>
          bound_cookie E kc allowLegacyBind (selectedName fileCfg flag) (gr_Server g') (gr_SessionCookie g')"
      if "cx_Grafana ctx = Some g'" for g'
      using resolve_cookie [OF _ start ctx0(1) ctx that] r True ctx0(2,3) by auto
    have "asked_home E kc allowLegacyBind flag fileCfg requests" if made: "requests \<noteq> []"
    proof -
      obtain g' where g': "cx_Grafana ctx = Some g'" "ValidateServerURL (le_net E) (gr_Server g') = None"
        "requests = snd (DiscoverStackID E (cx_Name ctx) g')" using valid(2) made res(2) by blast
      obtain d where d: "DiscoverStackID E (cx_Name ctx) g' = (d, requests)" using g'(3) by (metis prod.collapse)
      obtain g where g: "selectedGrafana E fileCfg flag = Some g" "gr_Server g' = gr_Server g"
        using resolved(2) [OF g'(1)] by blast
      show ?thesis using discover_requests [OF d g'(2) resolved(3) [OF g'(1)]] g unfolding asked_home_def by auto
    qed
    moreover have "loaded_as E kc allowLegacyBind flag fileCfg cfg1" if none: "e' = None"
    proof -
      obtain g' where g': "cx_Grafana ctx = Some g'" "ValidateServerURL (le_net E) (gr_Server g') = None"
        "gr_OrgID g' \<noteq> 0 \<or> gr_StackID g' \<noteq> 0 \<or> fst (DiscoverStackID E (cx_Name ctx) g') \<noteq> None"
        "isOk (ParsedLiveWindow (le_clock E) g')" using valid(1) [OF none] by blast
      obtain g where g: "selectedGrafana E fileCfg flag = Some g" "withoutSession g' = withoutSession g"
        using resolved(2) [OF g'(1)] by blast
      have "cf_Contexts cfg1 key = map_option (\<lambda>ctx. ctx\<lparr>cx_Name := key\<rparr>) (cf_Contexts fileCfg key)"
        if "key \<noteq> selectedKey fileCfg flag \<and> key \<noteq> fileCurrent fileCfg" for key
        using that sel(1,3) resolve_frame(2) [OF r] by simp
      then show ?thesis
        unfolding loaded_as_def
        using sel(1) resolve_frame(1) [OF r] ctx resolved(1,3) [OF g'(1)] g g' withoutSession_fields [OF g(2)]
        by (intro conjI exI [of _ ctx] exI [of _ g] exI [of _ g']) auto
    qed
    ultimately show ?thesis using res(1) held by (cases e') auto
  qed
qed

section \<open>A context of Grafana Cloud\<close>

text \<open>A file with two contexts, neither of which says its name, the first of them not the current one; its
  server redirects the question once.\<close>

definition cloud_context :: Context where
  "cloud_context = \<lparr>cx_Name = [], cx_Grafana = Some \<lparr>gr_Server = ''https://g.example'', gr_OrgID = 0, gr_StackID = 5,
     gr_LiveWindow = [], gr_SessionCookie = [], gr_Session = None\<rparr>\<rparr>"

definition cloud_config :: Config where
  "cloud_config = \<lparr>cf_Contexts = [''dev'' \<mapsto> cloud_context, ''ops'' \<mapsto> cloud_context], cf_CurrentContext = ''ops''\<rparr>"

definition bootdata_url :: url where
  "bootdata_url = home_url\<lparr>u_Path := trim_suffix ''/'' (u_Path home_url) @ ''/bootdata'', u_RawQuery := [], u_Fragment := []\<rparr>"

definition moved_url :: url where
  "moved_url = home_url\<lparr>u_Path := ''/grafana/bootdata'', u_RawQuery := [], u_Fragment := []\<rparr>"

definition cloud_env :: load_env where
  "cloud_env = \<lparr>le_net = home_net, le_json = one_codec, le_clock = \<lparr>cl_parse_float = \<lambda>s. None, cl_overflowed = 0\<rparr>,
     le_file = Inr cloud_config, le_environment = Inr, le_tls = (\<lambda>name. None),
     le_bootdata = (\<lambda>req. if hr_URL req = Some moved_url then BootNamespace ''stacks-5'' else BootRedirect moved_url),
     le_parse_namespace = (\<lambda>s. Some 5)\<rparr>"

lemma cloud_urls:
  "originOf home_net bootdata_url = Inr ''https://g.example:443''" "originOf home_net moved_url = Inr ''https://g.example:443''"
  "moved_url \<noteq> bootdata_url" "Hostname moved_url = Hostname bootdata_url"
proof -
  show "originOf home_net bootdata_url = Inr ''https://g.example:443''" "originOf home_net moved_url = Inr ''https://g.example:443''"
    by (simp_all only: bootdata_url_def moved_url_def originOf_path home_origin)
  have "u_Path moved_url \<noteq> u_Path bootdata_url" by code_simp
  then show "moved_url \<noteq> bootdata_url" by metis
  show "Hostname moved_url = Hostname bootdata_url" by (simp add: Hostname_def moved_url_def bootdata_url_def)
qed

lemma cloud_loaded: "loadConfigTolerant cloud_env ''dev'' = Inr (nameContexts cloud_config\<lparr>cf_CurrentContext := ''dev''\<rparr>)"
proof -
  have "applyEnvironment cloud_env (nameContexts cloud_config) = Inr (nameContexts cloud_config)"
    by (simp add: applyEnvironment_def cloud_env_def nameContexts_def cloud_config_def cloud_context_def HasContext_def
        GetCurrentContext_def fun_eq_iff)
  moreover have "le_file cloud_env = Inr cloud_config" by (simp add: cloud_env_def)
  moreover have "HasContext (nameContexts cloud_config) ''dev''"
    by (simp add: HasContext_def nameContexts_def cloud_config_def)
  ultimately show ?thesis by (simp add: loadConfigTolerant_def applyContextFlag_def)
qed

lemma cloud_resolved:
  "\<exists>cfg ctx g. ResolveSessionCookie home_net one_codec dev_keychain False (nameContexts cloud_config\<lparr>cf_CurrentContext := ''dev''\<rparr>) =
     (None, dev_keychain, cfg) \<and> GetCurrentContext cfg = Some ctx \<and> cx_Name ctx = ''dev'' \<and> cx_Grafana ctx = Some g \<and>
     gr_Server g = ''https://g.example'' \<and> gr_OrgID g = 0 \<and> gr_StackID g = 5 \<and> gr_LiveWindow g = [] \<and> gr_SessionCookie g = ''c0''"
proof -
  have "DecodeCredential one_codec ''{'' = Inr \<lparr>cr_Cookie = ''c0'', cr_Origin = ''https://g.example:443''\<rparr>"
    by (simp add: DecodeCredential_def one_codec_def CredentialVersion_def starts_with_def)
  moreover have "storeGet dev_keychain (Account ''dev'') = Inr ''{''"
    by (simp add: storeGet_def dev_keychain_def Account_def Service_def)
  ultimately show ?thesis
    by (simp add: ResolveSessionCookie_def ResolveContextSessionCookie_def nameContexts_def cloud_config_def cloud_context_def
        HasContext_def home_origin Legacy_def GetCurrentContext_def)
qed

theorem config_loaded_witness:
  "\<exists>cfg kc' first second. LoadConfig cloud_env dev_keychain False ''dev'' = (Inr cfg, kc', [first, second]) \<and>
     hr_Header second ''Cookie'' = Some (CookieHeaderValue ''c0'') \<and>
     asked_home cloud_env dev_keychain False ''dev'' cloud_config [first, second] \<and>
     loaded_as cloud_env dev_keychain False ''dev'' cloud_config cfg \<and>
     map_option cx_Name (cf_Contexts cfg ''dev'') = Some ''dev''"
proof -
  obtain cfg ctx g where r: "ResolveSessionCookie home_net one_codec dev_keychain False
      (nameContexts cloud_config\<lparr>cf_CurrentContext := ''dev''\<rparr>) = (None, dev_keychain, cfg)"
    "GetCurrentContext cfg = Some ctx" "cx_Name ctx = ''dev''" "cx_Grafana ctx = Some g"
    "gr_Server g = ''https://g.example''" "gr_OrgID g = 0" "gr_StackID g = 5" "gr_LiveWindow g = []" "gr_SessionCookie g = ''c0''"
    using cloud_resolved by blast
  have u: "buildBootdataURL home_net ''https://g.example'' = Some bootdata_url"
    by (simp add: buildBootdataURL_def buildURL_def home_net_def bootdata_url_def)
  define req where "req = \<lparr>hr_URL = Some bootdata_url, hr_Header = [''Cookie'' \<mapsto> CookieHeaderValue ''c0'']\<rparr>"
  define again where "again = \<lparr>hr_URL = Some moved_url, hr_Header = [''Cookie'' \<mapsto> CookieHeaderValue ''c0'']\<rparr>"
  have E: "le_net cloud_env = home_net" "le_json cloud_env = one_codec" "le_tls cloud_env name = None"
    "le_file cloud_env = Inr cloud_config" for name by (simp_all add: cloud_env_def)
  have "checkSessionTarget home_net (Some bootdata_url) ''https://g.example'' = None"
    by (simp add: checkSessionTarget_None home_origin cloud_urls)
  then have "SetSessionCookie home_net \<lparr>hr_URL = Some bootdata_url, hr_Header = Map.empty\<rparr> ''https://g.example'' ''c0'' = (None, req)"
    by (simp add: SetSessionCookie_def req_def)
  note cookie = this
  have "SameOriginRedirects home_net ''https://g.example'' moved_url 1 = None"
    by (simp add: SameOriginRedirects_def home_origin cloud_urls maxRedirects_def)
  moreover have "clientDo cloud_env ''https://g.example'' (Some bootdata_url) 2 again = (BootNamespace ''stacks-5'', [again])"
    by (subst clientDo.simps) (simp add: cloud_env_def again_def)
  moreover have "le_bootdata cloud_env req = BootRedirect moved_url"
    using cloud_urls(3) by (auto simp: cloud_env_def req_def)
  moreover have "redirectHeader (Some bootdata_url) moved_url (hr_Header req) = hr_Header req"
    by (simp add: redirectHeader_def isDomainOrSubdomain_def cloud_urls(4))
  ultimately have "clientDo cloud_env ''https://g.example'' (hr_URL req) 1 req = (BootNamespace ''stacks-5'', [req, again])"
    by (subst clientDo.simps) (simp add: E numeral_2_eq_2, simp add: req_def again_def)
  moreover have "trimSpace ''stacks-5'' = ''stacks-5''" by code_simp
  moreover have "le_parse_namespace cloud_env ''stacks-5'' = Some 5" by (simp add: cloud_env_def)
  ultimately have d: "DiscoverStackID cloud_env ''dev'' g = (Some 5, [req, again])"
    using r(5,9) u cookie by (simp add: DiscoverStackID_def E)
  have "gr_Server (g\<lparr>gr_SessionCookie := [], gr_Session := None\<rparr>) \<noteq> gr_Server emptyGrafana"
    using r(5) by (simp add: emptyGrafana_def)
  then have "\<not> IsEmpty None g" unfolding IsEmpty_def by metis
  then have "ValidateContext cloud_env ctx = (None, [req, again])"
    using r d home_origin(3)
    by (simp add: ValidateContext_def ValidateGrafana_def validateNamespace_def ParsedLiveWindow_def E)
  then have run: "LoadConfig cloud_env dev_keychain False ''dev'' = (Inr cfg, dev_keychain, [req, again])"
    by (simp add: LoadConfig_def cloud_loaded E r(1,2))
  have "noStoredCookies cloud_env"
    by (simp add: noStoredCookies_def cloud_env_def cookieless_def cloud_config_def cloud_context_def)
  note loaded = config_loaded [OF this run]
  then have "asked_home cloud_env dev_keychain False ''dev'' cloud_config [req, again]"
    "loaded_as cloud_env dev_keychain False ''dev'' cloud_config cfg" by (simp_all add: E)
  moreover from this have "cf_CurrentContext cfg = ''dev''" by (simp add: loaded_as_def selectedKey_def)
  ultimately show ?thesis
    using run r(2,3) by (intro exI [of _ cfg] exI [of _ dev_keychain] exI [of _ req] exI [of _ again] conjI)
      (simp_all add: again_def GetCurrentContext_def)
qed

end
