(* ===== verification/Spec2Isabelle.thy ===== *)
theory Spec2Isabelle
  imports Bundle_Write_Read Session_Safety Resource_Push_Accounts Serve_Guard Yaml_Redaction Keep_Alive_Properties Resource_Pull Error_Reports
    Explore_Properties Config_Editor_Properties Config_Loading_Properties
begin

text \<open>
  A verification library for \<^verbatim>\<open>grafanapi\<close>, a command line client that keeps Grafana alerting
  resources (rule groups, contact points, the notification policy tree), dashboards and folders as
  files, and that authenticates with a session cookie.

  \<^bold>\<open>The program.\<close> A command loads a context from the configuration, takes its session cookie from the
  keychain, builds a client for the Grafana server and then pulls resources into a directory of files,
  pushes such a directory, or acts on single rules. \<^verbatim>\<open>internal/alerts\<close> holds the alerting commands:
  \<^verbatim>\<open>pull.go\<close> fetches a bundle, \<^verbatim>\<open>files.go\<close> writes it to disk and reads it back, \<^verbatim>\<open>diff.go\<close> compares two
  bundles and makes a plan, \<^verbatim>\<open>scope.go\<close> narrows a push to named rules, \<^verbatim>\<open>push.go\<close> carries a plan out,
  \<^verbatim>\<open>ruleops.go\<close> pauses and deletes rules, \<^verbatim>\<open>rules.go\<close>, \<^verbatim>\<open>get.go\<close> and \<^verbatim>\<open>state.go\<close> list rules with their live
  state. \<^verbatim>\<open>internal/resources\<close> does the same for Kubernetes-style resources: selectors of the command
  line are turned into filters over what a discovery found (\<^verbatim>\<open>selector.go\<close>, \<^verbatim>\<open>discovery\<close>), and a pull or a
  push (\<^verbatim>\<open>remote\<close>) works on a collection of resources with one goroutine a request. Both talk to the
  server through transports of \<^verbatim>\<open>internal/config\<close>: a cookie goes only to the server it is bound to
  (\<^verbatim>\<open>server_url.go\<close>, \<^verbatim>\<open>credentials.go\<close>), and a 401 makes one goroutine rotate it for all
  (\<^verbatim>\<open>session_source.go\<close>). A scheduled agent (\<^verbatim>\<open>internal/launchd\<close>, \<^verbatim>\<open>cmd/grafanapi/session\<close>) keeps cookies
  alive. What comes back to the user passes \<^verbatim>\<open>internal/termsafe\<close>, \<^verbatim>\<open>internal/secrets\<close> and
  \<^verbatim>\<open>cmd/grafanapi/fail\<close>.

  \<^bold>\<open>The theories\<close>, with the files of \<^verbatim>\<open>src\<close> they model and what their lemmas show.
  \<^item> \<open>Prelude\<close>: fallible loops (\<open>foldR\<close>, \<open>mapR\<close>), nil-able lists (\<open>present\<close>), registries of claimed
    keys as the locale \<open>claim_registry\<close>, decimal numbers.
  \<^item> \<open>Json_Values\<close>: decoded JSON and YAML values, number normalisation, stripping of read-only
    fields, redaction markers, deep equality and its canonical forms (\<^verbatim>\<open>files.go\<close>, \<^verbatim>\<open>diff.go\<close>, \<^verbatim>\<open>push.go\<close>).
  \<^item> \<open>Alert_Models\<close>, \<open>Alert_Errors\<close>: the generated API models as far as the code reads them, and the
    error chains with their classification (\<^verbatim>\<open>errors.go\<close>, \<^verbatim>\<open>provenance.go\<close>, \<^verbatim>\<open>rules.go\<close>).
  \<^item> \<open>Write_Bodies\<close>: the bodies of requests (\<^verbatim>\<open>body.go\<close>) and the comparable value of an object, with the
    locale \<open>projected_equality\<close> for the three comparisons.
  \<^item> \<open>Plan_Diff\<close>, \<open>Plan_Properties\<close>: the plan (\<^verbatim>\<open>diff.go\<close>); what an unchanged entry means, the entries of a
    plan, and that what was pulled plans as no change.
  \<^item> \<open>Scope\<close>, \<open>Scope_Properties\<close>: rule-scoped pushes (\<^verbatim>\<open>scope.go\<close>); the check of a plan is sound for every
    pair of bundles and accepts every pair the builder makes.
  \<^item> \<open>Grafana_Client\<close>: programs against a server as functions on a world that logs every request, and
    schedules of concurrent requests.
  \<^item> \<open>Pull\<close>, \<open>Push\<close>, \<open>Rule_Ops\<close> with their \<open>_Properties\<close>: the operations as such programs (\<^verbatim>\<open>pull.go\<close>,
    \<^verbatim>\<open>contactpoints.go\<close>, \<^verbatim>\<open>push.go\<close>, \<^verbatim>\<open>ruleops.go\<close>); which requests they make, what they report, when they
    stop, for every order of completion; each write is tied to the entry of the plan it carries out, or to
    the answer of the request before it. The locales \<open>request_phase\<close> and \<open>stopping_phase\<close> are the contract
    of a phase of a push.
  \<^item> \<open>Go_Strings\<close>, \<open>Utf8\<close>, \<open>Go_Duration\<close>: what the code uses of \<^verbatim>\<open>strings\<close>, \<^verbatim>\<open>path/filepath\<close>, \<^verbatim>\<open>unicode/utf8\<close>
    and \<^verbatim>\<open>time\<close>, and durations with days (\<^verbatim>\<open>internal/durationbounds\<close>).
  \<^item> \<open>Rule_List\<close>, \<open>Rule_List_Properties\<close>: listing rules and their state, degraded or not.
  \<^item> \<open>Termsafe\<close>: what may reach a terminal (\<^verbatim>\<open>internal/termsafe\<close>); sanitised text is harmless, harmless text
    is left alone, and escape sequences, for which the theory has a grammar, are dropped with their payloads.
  \<^item> \<open>Bundle_Files\<close>, \<open>Bundle_File_Properties\<close>, \<open>Bundle_Round_Trip\<close>, \<open>Bundle_Write_Read\<close>: a bundle as a
    directory (\<^verbatim>\<open>files.go\<close>); safe path components, collisions, what a reading promises, and that a written
    bundle reads back whatever the directory held before.
  \<^item> \<open>Server_Url\<close>, \<open>Credentials\<close>: origins, redirects and the binding of a stored session to its origin
    (\<^verbatim>\<open>server_url.go\<close>, \<^verbatim>\<open>cookie.go\<close>, \<^verbatim>\<open>credentials.go\<close>, \<^verbatim>\<open>internal/keychain/credential.go\<close>).
  \<^item> \<open>Session_Source\<close>, \<open>Session_Properties\<close>, \<open>Session_Safety\<close>: the shared cookie (\<^verbatim>\<open>session_source.go\<close>) as a
    step relation of goroutines, one step a critical section or a network exchange; invariants over the
    reachable worlds, the end of every run, and the way of a cookie from login to every request.
  \<^item> \<open>Config_Loading\<close>, \<open>Config_Loading_Properties\<close>: loading a context (\<^verbatim>\<open>loader.go\<close>, \<^verbatim>\<open>types.go\<close>,
    \<^verbatim>\<open>stack_id.go\<close>, \<^verbatim>\<open>rest.go\<close>, \<^verbatim>\<open>LoadConfig\<close>); what it may send to which server, redirects included, and which context it loads,
    with whose cookie.
  \<^item> \<open>Config_Editor\<close>, \<open>Config_Editor_Properties\<close>: edits of the configuration by path (\<^verbatim>\<open>editor.go\<close>) as a
    walk over typed trees; which paths can be set and what else an edit may change.
  \<^item> \<open>Resource_Model\<close>: resources, collections, descriptors and the processors (\<^verbatim>\<open>internal/resources\<close>,
    \<^verbatim>\<open>process\<close>).
  \<^item> \<open>Resource_Selectors\<close>: selectors and filters (\<^verbatim>\<open>selector.go\<close>, \<^verbatim>\<open>filter.go\<close>); parsing and printing.
  \<^item> \<open>Discovery\<close>, \<open>Discovery_Properties\<close>: the registry and its index (\<^verbatim>\<open>registry.go\<close>, \<^verbatim>\<open>registry_index.go\<close>); the
    index against the lists of the server, sound and complete lookups, the filters made of selectors.
  \<^item> \<open>Resource_Pull\<close>: the pull (\<^verbatim>\<open>puller.go\<close>) under every order in which its requests end.
  \<^item> \<open>Folder_Levels\<close>, \<open>Folder_Levels_Properties\<close>: the order of folders (\<^verbatim>\<open>folder_hierarchy.go\<close>) and its
    traversal, which ends on cycles too.
  \<^item> \<open>Resource_Push\<close>, \<open>Resource_Push_Properties\<close>, \<open>Resource_Push_Accounts\<close>: push and delete (\<^verbatim>\<open>pusher.go\<close>,
    \<^verbatim>\<open>deleter.go\<close>, \<^verbatim>\<open>summary.go\<close>), the push as a step relation; folders first, everything reported once, an
    end, and the limit on goroutines.
  \<^item> \<open>Serve_Guard\<close>: the guard of the dashboard server (\<^verbatim>\<open>guard.go\<close>, \<^verbatim>\<open>address.go\<close>).
  \<^item> \<open>Yaml_Redaction\<close>: hiding secrets in a YAML text that does not parse (\<^verbatim>\<open>internal/secrets/yaml.go\<close>).
  \<^item> \<open>Launch_Agent\<close>, \<open>Launch_Plist\<close>: the launchd agent and its property list (\<^verbatim>\<open>internal/launchd\<close>); what
    \<open>Generate\<close> writes \<open>Inspect\<close> reads.
  \<^item> \<open>Keep_Alive\<close>, \<open>Keep_Alive_Agent\<close>, \<open>Keep_Alive_Properties\<close>: \<^verbatim>\<open>session refresh\<close> and the agent that runs it
    (\<^verbatim>\<open>refresh.go\<close>, \<^verbatim>\<open>keepalive.go\<close>).
  \<^item> \<open>Error_Reports\<close>: from an error to its report and exit code (\<^verbatim>\<open>convert.go\<close>, \<^verbatim>\<open>detailed.go\<close>, \<^verbatim>\<open>main.go\<close>).
  \<^item> \<open>Explore\<close>, \<open>Explore_Properties\<close>: queries of a datasource (\<^verbatim>\<open>internal/explore\<close>) and the table of
    their results, which no text of the server can break.

  \<^bold>\<open>Correspondence.\<close> A struct is a \<open>record\<close> with the fields the code reads, prefixed by two letters; an
  enumeration or a union is a \<open>datatype\<close>; a Go string is its list of bytes; \<open>error\<close> results are the left of a
  sum or an \<open>option\<close>. Operations keep the names of the Go functions; a loop body or a closure with a life of
  its own is a definition beside them. The outcome of a Go map range or of goroutines is an argument (a
  permutation, a schedule) or a choice of a step, and theorems hold for all of them.

  \<^bold>\<open>Parameters.\<close> What the repository only calls is an argument: the endpoints of Grafana (\<open>server\<close>, answers
  of \<open>push_event\<close> and \<open>rotate_reply\<close>, which are unconstrained), \<open>netlib\<close> (parsing of addresses), \<open>json_codec\<close> and
  \<open>codecs\<close> (encoders and case folding), \<open>marshaller\<close> (the JSON shape of the generated models), \<open>grafana_lib\<close>
  (annotation accessors), \<open>host\<close> (launchctl and the file system of the machine), \<open>clock_lib\<close> (time and number
  parsing), \<open>load_env\<close> (the decoded file and the environment), the XML tokens of a property list, \<open>explore_lib\<close> (JSON texts, printable runes, instants), \<open>report_lib\<close> (Kubernetes status classes, colours, the YAML
  error printer) and the names of secret keys. What is assumed of them is a named predicate beside the
  theorem that uses it, such as \<open>folds\<close>, \<open>formats\<close>, \<open>projected\<close> or \<open>honest_host\<close>; each has an instance in a
  witness.

  \<^bold>\<open>Bounds.\<close> A goroutine of the session takes at most eight steps, a chain of redirects has at most
  \<^verbatim>\<open>maxRedirects\<close> requests, a push takes at most seven steps a resource and one more; the traversal
  of folders has as much fuel as there are folders, which suffices for every graph. The limit on
  redirects is the code's own, the other bounds are theorems. Durations are 64 bit integers whose range the code checks; other integers of the code stay far
  from their bounds and are \<open>int\<close> or \<open>nat\<close>.

  \<^bold>\<open>Not modelled\<close>, and why.
  \<^item> The commands of cobra (\<^verbatim>\<open>cmd/grafanapi/alerts\<close>, \<^verbatim>\<open>resources\<close>, \<^verbatim>\<open>login\<close>, \<^verbatim>\<open>config\<close>, and the wiring of
    \<^verbatim>\<open>session\<close>): flags, prompts and tables around operations that are modelled.
  \<^item> The decoder of the configuration file, its writing and the annotation of errors with its source
    (\<^verbatim>\<open>internal/config/loader.go\<close>), and the parser of environment variables.
  \<^item> HTTP transports, codecs, logging (\<^verbatim>\<open>internal/httputils\<close>, \<^verbatim>\<open>internal/format\<close>, \<^verbatim>\<open>internal/logs\<close>), the
    clients of \<^verbatim>\<open>internal/resources/dynamic\<close> and \<^verbatim>\<open>internal/grafana\<close>, the readers and writers of
    \<^verbatim>\<open>internal/resources/local\<close>: calls of libraries and I/O.
  \<^item> The routes of \<^verbatim>\<open>internal/server/server.go\<close>: templates and proxying, and the alignment of the columns of
    a table by \<^verbatim>\<open>text/tabwriter\<close>.
  \<^item> Redaction of values by reflection (\<^verbatim>\<open>internal/secrets/redactor.go\<close>) and the foreign calls of
    \<^verbatim>\<open>internal/keychain/keychain_darwin.go\<close>.
  \<^item> Within modelled parts: texts of log lines and most messages, cancellation of contexts, nil selectors,
    the locks of the discovery index, and failures of the file system other than those that come from the
    tree itself.
\<close>

end
